(* ===== verification/Cb_Prelude.thy ===== *)
theory Cb_Prelude
  imports Main "HOL-Library.Word" "HOL-Library.Char_ord" "HOL-Library.List_Lexorder"
begin

unbundle bit_operations_syntax

text \<open>
  The prelude of the development: the machine types of the C++ sources, the error
  type of \<^verbatim>\<open>src/parse_error.hpp\<close> with the value-or-error results of
  \<^verbatim>\<open>tl::expected\<close>, strings against byte vectors, and the big-endian integers every
  component frames its fields with.

  Conventions. A \<^verbatim>\<open>std::string\<close> or \<^verbatim>\<open>std::string_view\<close> is a HOL
  \<open>string\<close> (a HOL \<open>char\<close> is exactly one octet); a
  \<^verbatim>\<open>std::vector<std::uint8_t>\<close> or \<^verbatim>\<open>std::array<std::uint8_t, n>\<close> is a
  \<open>u8 list\<close>; \<^verbatim>\<open>std::uint32_t\<close> and \<^verbatim>\<open>std::uint64_t\<close> are words;
  \<^verbatim>\<open>std::size_t\<close> is \<open>nat\<close> (every subtraction of sizes in the sources is guarded);
  \<^verbatim>\<open>std::int64_t\<close> is \<open>int\<close> with its range written out where it is checked.
\<close>

section \<open>Machine types\<close>

type_synonym u8 = "8 word"
type_synonym u32 = "32 word"
type_synonym u64 = "64 word"

definition int64_max :: int where
  "int64_max = 9223372036854775807"

definition int64_min :: int where
  "int64_min = - 9223372036854775808"

definition int64 :: "int \<Rightarrow> bool" where
  "int64 i \<longleftrightarrow> int64_min \<le> i \<and> i \<le> int64_max"

section \<open>Errors and value-or-error results\<close>

text \<open>
  The message of a \<^verbatim>\<open>ParseError\<close> is never read by the program (only
  \<^verbatim>\<open>error_name(kind)\<close> is reported), so an error is modelled by its kind.
\<close>

datatype ParseErrorKind =
    malformed_input
  | resource_limit
  | unsupported_version
  | unsupported_profile
  | unsupported_algorithm
  | caller_key_invalid
  | issuer_untrusted
  | issuer_signature_invalid
  | evidence_invalid
  | evidence_result_mismatch
  | binding_invalid
  | issuer_claims_invalid
  | credential_not_yet_valid
  | credential_expired
  | caller_signature_invalid
  | ssh_certificate_invalid
  | ssh_key_mismatch
  | ssh_identity_not_yet_valid
  | ssh_identity_expired
  | ssh_principal_invalid
  | account_unauthorized
  | deadline_exceeded
  | operation_cancelled
  | state_invalid
  | internal_error

type_synonym 'a expected = "ParseErrorKind + 'a"

definition ebind :: "'a expected \<Rightarrow> ('a \<Rightarrow> 'b expected) \<Rightarrow> 'b expected" where
  "ebind m f = (case m of Inl e \<Rightarrow> Inl e | Inr x \<Rightarrow> f x)"

text \<open>\<open>ensure c k\<close> is the early return \<^verbatim>\<open>if (!c) return make_unexpected(k)\<close>.\<close>

definition ensure :: "bool \<Rightarrow> ParseErrorKind \<Rightarrow> unit expected" where
  "ensure c k = (if c then Inr () else Inl k)"

definition has_value :: "'a expected \<Rightarrow> bool" where
  "has_value m = (case m of Inl _ \<Rightarrow> False | Inr _ \<Rightarrow> True)"

named_theorems expected_iffs \<open>when a chain of value-or-error steps succeeds\<close>

lemma ebind_simps [simp]:
  "ebind (Inl e) f = Inl e"
  "ebind (Inr x) f = f x"
  by (simp_all add: ebind_def)

lemma ebind_Inr_iff [expected_iffs]:
  "ebind m f = Inr y \<longleftrightarrow> (\<exists>x. m = Inr x \<and> f x = Inr y)"
  by (cases m) simp_all

lemma ebind_Inl_iff:
  "ebind m f = Inl e \<longleftrightarrow> m = Inl e \<or> (\<exists>x. m = Inr x \<and> f x = Inl e)"
  by (cases m) simp_all

lemma ebind_cong [fundef_cong]:
  "m = m' \<Longrightarrow> (\<And>x. m' = Inr x \<Longrightarrow> f x = g x) \<Longrightarrow> ebind m f = ebind m' g"
  by (cases m') simp_all

text \<open>For simplification that evaluates a chain of steps from its first one.\<close>

lemma ebind_weak_cong: "m = m' \<Longrightarrow> ebind m f = ebind m' f"
  by simp

lemma ebind_InrE:
  assumes "ebind m f = Inr y"
  obtains x where "m = Inr x" "f x = Inr y"
  using assms by (auto simp: ebind_Inr_iff)

lemma ensure_simps [simp]:
  "ensure True k = Inr ()"
  "ensure False k = Inl k"
  by (simp_all add: ensure_def)

lemma ensure_Inr_iff [expected_iffs]: "ensure c k = Inr u \<longleftrightarrow> c"
  by (simp add: ensure_def)

lemma ensure_Inl_iff: "ensure c k = Inl e \<longleftrightarrow> \<not> c \<and> e = k"
  by (auto simp: ensure_def)

lemma if_Inl_Inr_iff [expected_iffs]:
  "(if c then Inl k else m) = Inr y \<longleftrightarrow> \<not> c \<and> m = Inr y"
  "(if c then m else Inl k) = Inr y \<longleftrightarrow> c \<and> m = Inr y"
  by auto

lemma case_sum_Inr_iff [expected_iffs]:
  "(case m of Inl e \<Rightarrow> Inl (g e) | Inr x \<Rightarrow> f x) = Inr y \<longleftrightarrow> (\<exists>x. m = Inr x \<and> f x = Inr y)"
  by (cases m) simp_all

lemma has_value_simps [simp]:
  "\<not> has_value (Inl e)"
  "has_value (Inr x)"
  by (simp_all add: has_value_def)

lemma has_value_iff: "has_value m \<longleftrightarrow> (\<exists>x. m = Inr x)"
  by (cases m) simp_all

section \<open>Strings and byte vectors\<close>

text \<open>
  The copies between strings and byte vectors, e.g. \<^verbatim>\<open>bytes(std::string_view)\<close> of
  \<^verbatim>\<open>src/openssh_certificate.cpp\<close> and \<^verbatim>\<open>std::string(v.begin(), v.end())\<close>.
\<close>

definition bytes :: "string \<Rightarrow> u8 list" where
  "bytes s = map of_char s"

definition text_of :: "u8 list \<Rightarrow> string" where
  "text_of bs = map (\<lambda>b. char_of (unat b)) bs"

lemma of_char_u8_unat: "unat (of_char c :: u8) = (of_char c :: nat)"
proof -
  have "(of_char c :: u8) = of_nat (of_char c)"
    by (simp add: of_nat_of_char)
  then show ?thesis
    using nat_of_char_less_256 [of c] by (simp add: unat_of_nat)
qed

lemma char_of_unat_of_char [simp]: "char_of (unat (of_char c :: u8)) = c"
  by (simp add: of_char_u8_unat)

lemma of_char_char_of_unat [simp]: "(of_char (char_of (unat b)) :: u8) = b"
proof -
  have "unat (of_char (char_of (unat b)) :: u8) = unat b"
    using unsigned_less [where 'a = nat, of b] by (simp add: of_char_u8_unat)
  then show ?thesis by (rule unsigned_word_eqI)
qed

lemma text_of_bytes [simp]: "text_of (bytes s) = s"
  by (simp add: text_of_def bytes_def comp_def map_idI)

lemma bytes_text_of [simp]: "bytes (text_of bs) = bs"
  by (simp add: text_of_def bytes_def comp_def map_idI)

lemma bytes_inject [simp]: "bytes s = bytes t \<longleftrightarrow> s = t"
  by (metis text_of_bytes)

lemma text_of_inject [simp]: "text_of s = text_of t \<longleftrightarrow> s = t"
  by (metis bytes_text_of)

lemma length_bytes [simp]: "length (bytes s) = length s"
  by (simp add: bytes_def)

lemma length_text_of [simp]: "length (text_of s) = length s"
  by (simp add: text_of_def)

lemma bytes_append [simp]: "bytes (s @ t) = bytes s @ bytes t"
  by (simp add: bytes_def)

lemma bytes_eq_Nil_iff [simp]: "bytes s = [] \<longleftrightarrow> s = []"
  by (simp add: bytes_def)

lemma text_of_append [simp]: "text_of (s @ t) = text_of s @ text_of t"
  by (simp add: text_of_def)

section \<open>\<open>std::string_view\<close> searches\<close>

text \<open>\<^verbatim>\<open>find(c, pos)\<close> (\<open>None\<close> for \<^verbatim>\<open>npos\<close>) and \<^verbatim>\<open>substr(pos, n)\<close>.\<close>

definition sv_find :: "char \<Rightarrow> string \<Rightarrow> nat \<Rightarrow> nat option" where
  "sv_find c s pos =
     (let rest = drop pos s; n = length (takeWhile (\<lambda>x. x \<noteq> c) rest)
      in if n < length rest then Some (pos + n) else None)"

definition sv_substr :: "string \<Rightarrow> nat \<Rightarrow> nat \<Rightarrow> string" where
  "sv_substr s pos n = take n (drop pos s)"

lemma sv_find_None: "sv_find c s pos = None \<longleftrightarrow> c \<notin> set (drop pos s)"
proof -
  have "\<not> length (takeWhile (\<lambda>x. x \<noteq> c) r) < length r \<longleftrightarrow> c \<notin> set r" for r
    by (induction r) auto
  then show ?thesis by (simp add: sv_find_def Let_def del: set_drop_subset)
qed

lemma sv_find_Some:
  assumes "sv_find c s pos = Some i"
  shows "pos \<le> i" "i < length s" "s ! i = c" "c \<notin> set (sv_substr s pos (i - pos))"
proof -
  define w where "w = takeWhile (\<lambda>x. x \<noteq> c) (drop pos s)"
  have i: "i = pos + length w" and w: "length w < length (drop pos s)"
    using assms by (auto simp: sv_find_def Let_def w_def split: if_splits)
  show "pos \<le> i" "i < length s" using i w by auto
  show "s ! i = c" using i w nth_length_takeWhile [of "\<lambda>x. x \<noteq> c" "drop pos s"]
    by (simp add: w_def)
  have "sv_substr s pos (i - pos) = w"
    using i by (simp add: sv_substr_def w_def takeWhile_eq_take [symmetric])
  then show "c \<notin> set (sv_substr s pos (i - pos))"
    by (auto simp: w_def dest: set_takeWhileD)
qed

lemma sv_find_append:
  assumes "c \<notin> set u"
  shows "sv_find c (p @ u @ c # v) (length p) = Some (length p + length u)"
  using assms by (simp add: sv_find_def takeWhile_append)

section \<open>Bits of octets\<close>

lemma u8_bit_high [simp]: "8 \<le> n \<Longrightarrow> \<not> bit (a :: u8) n"
  by (auto dest: bit_imp_le_length)

lemma u8_eq_iff:
  "(a :: u8) = b \<longleftrightarrow>
     (bit a 0 \<longleftrightarrow> bit b 0) \<and> (bit a 1 \<longleftrightarrow> bit b 1) \<and> (bit a 2 \<longleftrightarrow> bit b 2) \<and>
     (bit a 3 \<longleftrightarrow> bit b 3) \<and> (bit a 4 \<longleftrightarrow> bit b 4) \<and> (bit a 5 \<longleftrightarrow> bit b 5) \<and>
     (bit a 6 \<longleftrightarrow> bit b 6) \<and> (bit a 7 \<longleftrightarrow> bit b 7)"
proof
  assume *: "(bit a 0 \<longleftrightarrow> bit b 0) \<and> (bit a 1 \<longleftrightarrow> bit b 1) \<and> (bit a 2 \<longleftrightarrow> bit b 2) \<and>
     (bit a 3 \<longleftrightarrow> bit b 3) \<and> (bit a 4 \<longleftrightarrow> bit b 4) \<and> (bit a 5 \<longleftrightarrow> bit b 5) \<and>
     (bit a 6 \<longleftrightarrow> bit b 6) \<and> (bit a 7 \<longleftrightarrow> bit b 7)"
  show "a = b"
  proof (rule bit_word_eqI)
    fix n assume "n < LENGTH(8)"
    then have "n = 0 \<or> n = 1 \<or> n = 2 \<or> n = 3 \<or> n = 4 \<or> n = 5 \<or> n = 6 \<or> n = 7"
      by (simp, arith)
    then show "bit a n = bit b n" using * by auto
  qed
qed simp

lemma and_low_bits:
  "(w :: 'a::len word) AND 63 = take_bit 6 w"
  "(w :: 'a::len word) AND 15 = take_bit 4 w"
  "(w :: 'a::len word) AND 3 = take_bit 2 w"
  by (simp_all add: take_bit_eq_mask mask_eq_exp_minus_1)

lemma less_exp_bits:
  assumes "k \<le> LENGTH('a)"
  shows "unat (a :: 'a::len word) < 2 ^ k \<longleftrightarrow> take_bit k a = a"
  using assms by (simp add: word_unat_eq_iff unsigned_take_bit_eq take_bit_nat_eq_self_iff)

section \<open>Big-endian integers\<close>

text \<open>
  \<open>u32_bytes\<close> and \<open>u64_bytes\<close> are the octets \<^verbatim>\<open>append_u32\<close> and
  \<^verbatim>\<open>append_u64\<close> push, most significant first; \<open>be_value\<close> is the loop
  \<^verbatim>\<open>value = (value << 8U) | octet\<close> of every reader, at the width of the reader's integer.
\<close>

definition u32_bytes :: "u32 \<Rightarrow> u8 list" where
  "u32_bytes v = map (\<lambda>shift. ucast (drop_bit shift v)) [24, 16, 8, 0]"

definition u64_bytes :: "u64 \<Rightarrow> u8 list" where
  "u64_bytes v = map (\<lambda>shift. ucast (drop_bit shift v)) [56, 48, 40, 32, 24, 16, 8, 0]"

definition be_value :: "u8 list \<Rightarrow> 'a::len word" where
  "be_value bs = foldl (\<lambda>value octet. push_bit 8 value OR ucast octet) 0 bs"

definition be_octets :: "nat \<Rightarrow> 'a::len word \<Rightarrow> u8 list" where
  "be_octets k v = map (\<lambda>i. ucast (drop_bit (8 * i) v)) (rev [0..<k])"

lemma u32_bytes_octets: "u32_bytes v = be_octets 4 v"
  by (simp add: u32_bytes_def be_octets_def upt_conv_Cons)

lemma u64_bytes_octets: "u64_bytes v = be_octets 8 v"
  by (simp add: u64_bytes_def be_octets_def upt_conv_Cons)

lemma length_u32_bytes [simp]: "length (u32_bytes v) = 4"
  by (simp add: u32_bytes_def)

lemma length_u64_bytes [simp]: "length (u64_bytes v) = 8"
  by (simp add: u64_bytes_def)

lemma be_value_snoc:
  "(be_value (bs @ [b]) :: 'a::len word) = push_bit 8 (be_value bs) OR ucast b"
  by (simp add: be_value_def)

lemma bit_be_value:
  "bit (be_value bs :: 'a::len word) n \<longleftrightarrow>
     n < LENGTH('a) \<and> n < 8 * length bs \<and> bit (rev bs ! (n div 8)) (n mod 8)"
proof (induction bs arbitrary: n rule: rev_induct)
  case Nil
  then show ?case by (simp add: be_value_def)
next
  case (snoc b bs)
  show ?case
  proof (cases "n < 8")
    case True
    then show ?thesis by (auto simp: be_value_snoc bit_simps)
  next
    case False
    then obtain m where m: "n = 8 + m" using le_Suc_ex [of 8 n] by auto
    then have "n div 8 = Suc (m div 8)" "n mod 8 = m mod 8" by simp_all
    moreover have "\<not> bit b n" using False bit_imp_le_length [of b n] by auto
    ultimately show ?thesis
      using m snoc.IH [of m] by (auto simp: be_value_snoc bit_simps)
  qed
qed

lemma be_value_octets:
  assumes "LENGTH('a) = 8 * k"
  shows "be_value (be_octets k v) = (v :: 'a::len word)"
proof (rule bit_word_eqI)
  fix n assume n: "n < LENGTH('a)"
  then have "n div 8 < k" using assms by auto
  then show "bit (be_value (be_octets k v) :: 'a word) n = bit v n"
    using n assms
    by (auto simp: bit_be_value be_octets_def rev_map bit_simps mult.commute [of 8])
qed

lemma octets_be_value:
  assumes "length bs = k" "LENGTH('a) = 8 * k"
  shows "be_octets k (be_value bs :: 'a::len word) = bs"
proof (rule nth_equalityI)
  show "length (be_octets k (be_value bs :: 'a word)) = length bs"
    using assms by (simp add: be_octets_def)
next
  fix i assume "i < length (be_octets k (be_value bs :: 'a word))"
  then have i: "i < k" by (simp add: be_octets_def)
  then have at: "be_octets k (be_value bs :: 'a word) ! i =
      ucast (drop_bit (8 * (k - Suc i)) (be_value bs :: 'a word))"
    by (simp add: be_octets_def rev_nth)
  show "be_octets k (be_value bs :: 'a word) ! i = bs ! i"
  proof (rule bit_word_eqI)
    fix n assume "n < LENGTH(8)"
    then have n: "n < 8" by simp
    then have "8 * (k - Suc i) + n < 8 * k"
      using i by (simp add: diff_mult_distrib2)
    moreover have "(8 * (k - Suc i) + n) div 8 = k - Suc i" "(8 * (k - Suc i) + n) mod 8 = n"
      using n by simp_all
    moreover have "rev bs ! (k - Suc i) = bs ! i"
      using i assms by (simp add: rev_nth)
    ultimately show "bit (be_octets k (be_value bs :: 'a word) ! i) n = bit (bs ! i) n"
      using n assms by (simp add: at bit_simps bit_be_value)
  qed
qed

lemma be_value_u32_bytes [simp]: "be_value (u32_bytes v) = v"
  by (simp add: u32_bytes_octets be_value_octets)

lemma be_value_u64_bytes [simp]: "be_value (u64_bytes v) = v"
  by (simp add: u64_bytes_octets be_value_octets)

lemma u32_bytes_be_value [simp]: "length bs = 4 \<Longrightarrow> u32_bytes (be_value bs) = bs"
  by (simp add: u32_bytes_octets octets_be_value)

lemma u64_bytes_be_value [simp]: "length bs = 8 \<Longrightarrow> u64_bytes (be_value bs) = bs"
  by (simp add: u64_bytes_octets octets_be_value)

lemma u32_bytes_inject [simp]: "u32_bytes v = u32_bytes w \<longleftrightarrow> v = w"
  by (metis be_value_u32_bytes)

lemma u64_bytes_inject [simp]: "u64_bytes v = u64_bytes w \<longleftrightarrow> v = w"
  by (metis be_value_u64_bytes)

section \<open>Natural numbers as octets\<close>

text \<open>
  The value of a big-endian magnitude of any length, and the shortest magnitude of a number:
  what \<^verbatim>\<open>BN_bin2bn\<close> reads and \<^verbatim>\<open>BN_bn2bin\<close> writes.
\<close>

definition octets_nat :: "u8 list \<Rightarrow> nat" where
  "octets_nat bs = foldl (\<lambda>v b. 256 * v + unat b) 0 bs"

fun nat_octets :: "nat \<Rightarrow> u8 list" where
  "nat_octets n = (if n = 0 then [] else nat_octets (n div 256) @ [of_nat (n mod 256)])"

declare nat_octets.simps [simp del]

lemma octets_nat_simps [simp]:
  "octets_nat [] = 0"
  "octets_nat (bs @ [b]) = 256 * octets_nat bs + unat b"
  by (simp_all add: octets_nat_def)

lemma nat_octets_0 [simp]: "nat_octets 0 = []"
  by (simp add: nat_octets.simps)

lemma nat_octets_eq_Nil [simp]: "nat_octets n = [] \<longleftrightarrow> n = 0"
  by (subst nat_octets.simps) simp

lemma unat_of_nat_u8 [simp]: "unat (of_nat (n mod 256) :: u8) = n mod 256"
  by (simp add: unat_of_nat)

lemma octets_nat_nat_octets [simp]: "octets_nat (nat_octets n) = n"
proof (induction n rule: nat_octets.induct)
  case (1 n)
  then show ?case by (subst nat_octets.simps) simp
qed

lemma hd_nat_octets: "0 < n \<Longrightarrow> hd (nat_octets n) \<noteq> 0"
proof (induction n rule: nat_octets.induct)
  case (1 n)
  show ?case
  proof (cases "n div 256 = 0")
    case True
    then have "n < 256" by (simp add: div_eq_0_iff)
    then have "unat (of_nat n :: u8) = n" by (simp add: unat_of_nat)
    then show ?thesis using 1(2) True \<open>n < 256\<close>
      by (subst nat_octets.simps) (auto simp: word_unat_eq_iff)
  next
    case False
    then show ?thesis using 1 by (subst nat_octets.simps) simp
  qed
qed

lemma octets_nat_less: "octets_nat bs < 256 ^ length bs"
proof (induction bs rule: rev_induct)
  case (snoc b bs)
  have "unat b < 256" using unsigned_less [where 'a = nat, of b] by simp
  then show ?case using snoc by simp
qed simp

lemma octets_nat_append:
  "octets_nat (as @ bs) = octets_nat as * 256 ^ length bs + octets_nat bs"
  by (induction bs rule: rev_induct) (auto simp: algebra_simps simp flip: append_assoc)

lemma octets_nat_Cons: "octets_nat (b # bs) = unat b * 256 ^ length bs + octets_nat bs"
  using octets_nat_append [of "[b]" bs] by (simp add: octets_nat_def)

lemma octets_nat_pos: "bs \<noteq> [] \<Longrightarrow> hd bs \<noteq> 0 \<Longrightarrow> 0 < octets_nat bs"
  by (cases bs) (auto simp: octets_nat_Cons word_unat_eq_iff)

lemma nat_octets_octets_nat:
  "bs = [] \<or> hd bs \<noteq> 0 \<Longrightarrow> nat_octets (octets_nat bs) = bs"
proof (induction bs rule: rev_induct)
  case (snoc b bs)
  have b: "unat b < 256" using unsigned_less [where 'a = nat, of b] by simp
  have "0 < octets_nat (bs @ [b])" using snoc.prems by (intro octets_nat_pos) auto
  moreover have "octets_nat (bs @ [b]) div 256 = octets_nat bs" using b by simp
  moreover have "octets_nat (bs @ [b]) mod 256 = unat b" using b by simp
  moreover have "nat_octets (octets_nat bs) = bs"
    using snoc by (cases bs) auto
  ultimately show ?case by (subst nat_octets.simps) simp
qed simp

lemma base_digit_unique:
  assumes "256 * x + y = 256 * x' + (y' :: nat)" "y < 256" "y' < 256"
  shows "x = x' \<and> y = y'"
proof -
  have "(256 * x + y) div 256 = x" "(256 * x' + y') div 256 = x'"
    using assms(2,3) by simp_all
  then show ?thesis using assms(1) by simp
qed

lemma octets_nat_inject:
  "length as = length bs \<Longrightarrow> octets_nat as = octets_nat bs \<Longrightarrow> as = bs"
proof (induction as arbitrary: bs rule: rev_induct)
  case (snoc a as)
  then obtain bs' b where bs: "bs = bs' @ [b]" by (cases bs rule: rev_cases) auto
  have ab: "unat a < 256" "unat b < 256"
    using unsigned_less [where 'a = nat, of a] unsigned_less [where 'a = nat, of b] by simp_all
  from snoc.prems(2) have "256 * octets_nat as + unat a = 256 * octets_nat bs' + unat b"
    by (simp add: bs)
  then have "octets_nat as = octets_nat bs' \<and> unat a = unat b"
    using ab by (rule base_digit_unique)
  then show ?case using snoc.IH [of bs'] snoc.prems(1) bs by (simp add: word_unat_eq_iff)
qed simp

lemma octets_nat_replicate_0 [simp]: "octets_nat (replicate n 0) = 0"
  by (induction n) (simp_all add: octets_nat_Cons)

lemma length_nat_octets: "n < 256 ^ k \<Longrightarrow> length (nat_octets n) \<le> k"
proof (induction n arbitrary: k rule: nat_octets.induct)
  case (1 n)
  show ?case
  proof (cases "n = 0")
    case False
    then obtain k' where k: "k = Suc k'" using "1.prems" by (cases k) auto
    then have "n div 256 < 256 ^ k'" using "1.prems" by (simp add: less_mult_imp_div_less mult.commute)
    then show ?thesis using 1(1) False k by (subst nat_octets.simps) simp
  qed simp
qed

end
