(* ===== verification/Cb_Base64url.thy ===== *)
theory Cb_Base64url
  imports Cb_Prelude
begin

text \<open>
  The Base64url decoder of \<^verbatim>\<open>src/base64url.cpp\<close> (its 256-entry table, the loop over
  groups of four and the two tails), with the encoder \<^verbatim>\<open>encode_base64url\<close> of
  \<^verbatim>\<open>src/direct_verifier.cpp\<close>. The lemmas show that the decoder is exactly the partial
  inverse of the encoder: it accepts the canonical encodings of non-empty byte strings that
  fit the bound, and nothing else.
\<close>

section \<open>The decoder\<close>

definition kInvalid :: u8 where
  "kInvalid = 255"

definition decode_table :: "u8 list" where
  "decode_table =
     (let table = map (\<lambda>index. kInvalid) [0..<256];
          table = fold (\<lambda>index table. table[65 + index := of_nat index,
                                            97 + index := 26 + of_nat index]) [0..<26] table;
          table = fold (\<lambda>index table. table[48 + index := 52 + of_nat index]) [0..<10] table;
          table = table[45 := 62];
          table = table[95 := 63]
      in table)"

definition sextet :: "char \<Rightarrow> u8 expected" where
  "sextet character =
     (let value = decode_table ! of_char character
      in if value = kInvalid then Inl malformed_input else Inr value)"

text \<open>
  \<^verbatim>\<open>decode\<close>. The loop offset is the prefix already dropped; the four sextets of a
  group are all read before the test, and the error returned is the first one.
\<close>

fun decode_groups :: "string \<Rightarrow> u8 list \<Rightarrow> u8 list expected" where
  "decode_groups (c0 # c1 # c2 # c3 # rest) output =
     ebind (sextet c0) (\<lambda>a.
     ebind (sextet c1) (\<lambda>b.
     ebind (sextet c2) (\<lambda>c.
     ebind (sextet c3) (\<lambda>d.
       decode_groups rest (output @
         [push_bit 2 a OR drop_bit 4 b,
          push_bit 4 b OR drop_bit 2 c,
          push_bit 6 c OR d])))))"
| "decode_groups [c0, c1] output =
     ebind (sextet c0) (\<lambda>a.
     ebind (sextet c1) (\<lambda>b.
       if b AND 0x0f \<noteq> 0 then Inl malformed_input
       else Inr (output @ [push_bit 2 a OR drop_bit 4 b])))"
| "decode_groups [c0, c1, c2] output =
     ebind (sextet c0) (\<lambda>a.
     ebind (sextet c1) (\<lambda>b.
     ebind (sextet c2) (\<lambda>c.
       if c AND 0x03 \<noteq> 0 then Inl malformed_input
       else Inr (output @ [push_bit 2 a OR drop_bit 4 b, push_bit 4 b OR drop_bit 2 c]))))"
| "decode_groups _ output = Inr output"

definition decode :: "string \<Rightarrow> nat \<Rightarrow> u8 list expected" where
  "decode encoded max_output_bytes =
     (if max_output_bytes = 0 then Inl resource_limit
      else if encoded = [] \<or> length encoded mod 4 = 1 then Inl malformed_input
      else
        let complete_groups = length encoded div 4;
            remainder = length encoded mod 4
        in if complete_groups > max_output_bytes div 3 \<or>
              complete_groups * 3 + (if remainder = 0 then 0 else remainder - 1) > max_output_bytes
           then Inl resource_limit
           else decode_groups encoded [])"

section \<open>The encoder\<close>

definition base64url_alphabet :: string where
  "base64url_alphabet = ''ABCDEFGHIJKLMNOPQRSTUVWXYZabcdefghijklmnopqrstuvwxyz0123456789-_''"

definition base64url_char :: "u32 \<Rightarrow> char" where
  "base64url_char v = base64url_alphabet ! unat (v AND 63)"

fun encode_base64url :: "u8 list \<Rightarrow> string" where
  "encode_base64url (x # y # z # rest) =
     (let v = push_bit 16 (ucast x) OR push_bit 8 (ucast y) OR ucast z :: u32
      in base64url_char (drop_bit 18 v) # base64url_char (drop_bit 12 v) #
         base64url_char (drop_bit 6 v) # base64url_char v # encode_base64url rest)"
| "encode_base64url [x] =
     (let v = push_bit 16 (ucast x) :: u32
      in [base64url_char (drop_bit 18 v), base64url_char (drop_bit 12 v)])"
| "encode_base64url [x, y] =
     (let v = push_bit 16 (ucast x) OR push_bit 8 (ucast y) :: u32
      in [base64url_char (drop_bit 18 v), base64url_char (drop_bit 12 v),
          base64url_char (drop_bit 6 v)])"
| "encode_base64url [] = []"

section \<open>The alphabet\<close>

text \<open>Sextet number \<open>a\<close> is written as the character \<open>symbol a\<close>.\<close>

definition symbol :: "u8 \<Rightarrow> char" where
  "symbol a = base64url_alphabet ! unat a"

lemma length_alphabet: "length base64url_alphabet = 64"
  by (simp add: base64url_alphabet_def)

lemma decode_table_eval [code]:
  "decode_table =
     replicate 45 255 @ [62, 255, 255] @ [52, 53, 54, 55, 56, 57, 58, 59, 60, 61] @
     replicate 7 255 @ [0, 1, 2, 3, 4, 5, 6, 7, 8, 9, 10, 11, 12, 13, 14, 15, 16, 17, 18, 19,
       20, 21, 22, 23, 24, 25] @ [255, 255, 255, 255, 63, 255] @
     [26, 27, 28, 29, 30, 31, 32, 33, 34, 35, 36, 37, 38, 39, 40, 41, 42, 43, 44, 45, 46, 47,
      48, 49, 50, 51] @ replicate 133 255"
  by code_simp

lemma sextet_table:
  "list_all (\<lambda>c. case sextet c of Inl e \<Rightarrow> e = malformed_input \<and> c \<notin> set base64url_alphabet
                 | Inr v \<Rightarrow> v < 64 \<and> base64url_alphabet ! unat v = c) Enum.enum"
  by code_simp

lemma distinct_alphabet: "distinct base64url_alphabet"
  by code_simp

lemma sextet_cases:
  "case sextet c of Inl e \<Rightarrow> e = malformed_input \<and> c \<notin> set base64url_alphabet
                  | Inr v \<Rightarrow> v < 64 \<and> base64url_alphabet ! unat v = c"
  using sextet_table by (simp only: list_all_iff enum_UNIV) blast

lemma unat_less_64: "(a :: u8) < 64 \<Longrightarrow> unat a < length base64url_alphabet"
  by (simp add: word_less_nat_alt length_alphabet)

lemma symbol_inject: "a < 64 \<Longrightarrow> b < 64 \<Longrightarrow> symbol a = symbol b \<longleftrightarrow> a = b"
  by (simp add: symbol_def nth_eq_iff_index_eq distinct_alphabet unat_less_64 word_unat_eq_iff)

lemma sextet_symbol: "a < 64 \<Longrightarrow> sextet (symbol a) = Inr a"
proof -
  assume a: "a < 64"
  then have mem: "symbol a \<in> set base64url_alphabet" by (simp add: symbol_def unat_less_64)
  show ?thesis
  proof (cases "sextet (symbol a)")
    case (Inl e)
    then show ?thesis using mem sextet_cases [of "symbol a"] by simp
  next
    case (Inr v)
    then have "v < 64" "symbol v = symbol a"
      using sextet_cases [of "symbol a"] by (simp_all add: symbol_def)
    then show ?thesis using a Inr by (simp add: symbol_inject)
  qed
qed

lemma sextet_Inr_iff: "sextet c = Inr a \<longleftrightarrow> a < 64 \<and> c = symbol a"
  using sextet_cases [of c] sextet_symbol [of a] by (auto simp: symbol_def)

lemma sextet_Inl_iff: "sextet c = Inl e \<longleftrightarrow> e = malformed_input \<and> c \<notin> set base64url_alphabet"
proof
  assume "sextet c = Inl e"
  then show "e = malformed_input \<and> c \<notin> set base64url_alphabet"
    using sextet_cases [of c] by simp
next
  assume *: "e = malformed_input \<and> c \<notin> set base64url_alphabet"
  show "sextet c = Inl e"
  proof (cases "sextet c")
    case (Inl e')
    then show ?thesis using * sextet_cases [of c] by simp
  next
    case (Inr v)
    then have "v < 64" and c: "c = base64url_alphabet ! unat v"
      using sextet_cases [of c] by simp_all
    then have "unat v < length base64url_alphabet" by (simp add: unat_less_64)
    then show ?thesis using * c by simp
  qed
qed

section \<open>One group\<close>

text \<open>
  The bit arithmetic of a group of four characters and of the two tails: the encoder's
  24-bit value and the decoder's shifts are inverse to each other on sextets.
\<close>

lemma unat_ucast_low:
  assumes "(v :: u32) < 256" shows "unat (ucast v :: u8) = unat v"
  using assms by (simp add: unsigned_ucast_eq take_bit_nat_eq_self_iff word_less_nat_alt)

lemma base64url_char_symbol: "base64url_char v = symbol (ucast (v AND 63))"
proof -
  have "v AND 63 \<le> 63" by (rule word_and_le1)
  then have "v AND 63 < 256" by (simp add: word_le_nat_alt word_less_nat_alt)
  then show ?thesis by (simp add: base64url_char_def symbol_def unat_ucast_low)
qed

lemma ucast_and_63_less: "(ucast (v AND 63 :: u32) :: u8) < 64"
proof -
  have "v AND 63 \<le> 63" by (rule word_and_le1)
  then have "unat (v AND 63) < 64" by (simp add: word_le_nat_alt)
  then show ?thesis by (simp add: word_less_nat_alt unsigned_ucast_eq take_bit_nat_def)
qed

lemma less_64_bits: "(a :: u8) < 64 \<longleftrightarrow> \<not> bit a 6 \<and> \<not> bit a 7"
  using less_exp_bits [of 6 a] by (simp add: word_less_nat_alt u8_eq_iff bit_simps)

text \<open>The sextets of the encoder, as octet expressions, and back.\<close>

lemma sextets3:
  fixes x y z :: u8
  defines "v \<equiv> push_bit 16 (ucast x) OR push_bit 8 (ucast y) OR ucast z :: u32"
  shows "ucast (drop_bit 18 v AND 63) = drop_bit 2 x"
    and "ucast (drop_bit 12 v AND 63) = push_bit 4 (take_bit 2 x) OR drop_bit 4 y"
    and "ucast (drop_bit 6 v AND 63) = push_bit 2 (take_bit 4 y) OR drop_bit 6 z"
    and "ucast (v AND 63) = take_bit 6 z"
  unfolding and_low_bits v_def by (simp_all add: u8_eq_iff bit_simps)

lemma sextets_less:
  fixes x y :: u8
  shows "drop_bit 2 x < 64" "push_bit 4 (take_bit 2 x) OR drop_bit 4 y < 64"
    "push_bit 2 (take_bit 4 x) OR drop_bit 6 y < 64" "take_bit 6 x < 64"
    "push_bit 4 (take_bit 2 x) < 64" "push_bit 2 (take_bit 4 x) < 64"
  by (simp_all add: less_64_bits bit_simps)

lemma sextets_octets:
  fixes a b c d :: u8
  assumes "a < 64" "b < 64" "c < 64" "d < 64"
  defines "x \<equiv> push_bit 2 a OR drop_bit 4 b" and "y \<equiv> push_bit 4 b OR drop_bit 2 c"
    and "z \<equiv> push_bit 6 c OR d"
  shows "drop_bit 2 x = a" "push_bit 4 (take_bit 2 x) OR drop_bit 4 y = b"
    "push_bit 2 (take_bit 4 y) OR drop_bit 6 z = c" "take_bit 6 z = d"
  using assms(1-4) unfolding x_def y_def z_def
  by (auto simp add: u8_eq_iff bit_simps less_64_bits)

lemma sextets_octets_tail:
  fixes a b c :: u8
  assumes "a < 64" "b < 64"
  shows "b AND 0x0f = 0 \<Longrightarrow> push_bit 4 (take_bit 2 (push_bit 2 a OR drop_bit 4 b)) = b"
    and "c < 64 \<Longrightarrow> c AND 0x03 = 0 \<Longrightarrow> push_bit 2 (take_bit 4 (push_bit 4 b OR drop_bit 2 c)) = c"
  using assms by (auto simp add: u8_eq_iff bit_simps less_64_bits and_low_bits)

lemma encode_group:
  "encode_base64url (x # y # z # rest) =
     symbol (drop_bit 2 x) # symbol (push_bit 4 (take_bit 2 x) OR drop_bit 4 y) #
     symbol (push_bit 2 (take_bit 4 y) OR drop_bit 6 z) # symbol (take_bit 6 z) #
     encode_base64url rest"
  by (simp only: encode_base64url.simps Let_def base64url_char_symbol sextets3)

lemma encode_tail1:
  "encode_base64url [x] = [symbol (drop_bit 2 x), symbol (push_bit 4 (take_bit 2 x))]"
proof -
  have pad: "push_bit 16 (ucast x) = (push_bit 16 (ucast x) OR push_bit 8 (ucast (0 :: u8)) OR ucast (0 :: u8) :: u32)"
    by simp
  show ?thesis
    by (subst encode_base64url.simps, subst pad,
        simp only: Let_def base64url_char_symbol sextets3) simp
qed

lemma encode_tail2:
  "encode_base64url [x, y] =
     [symbol (drop_bit 2 x), symbol (push_bit 4 (take_bit 2 x) OR drop_bit 4 y),
      symbol (push_bit 2 (take_bit 4 y))]"
proof -
  have pad: "push_bit 16 (ucast x) OR push_bit 8 (ucast y) =
      (push_bit 16 (ucast x) OR push_bit 8 (ucast y) OR ucast (0 :: u8) :: u32)"
    by simp
  show ?thesis
    by (subst encode_base64url.simps, subst pad,
        simp only: Let_def base64url_char_symbol sextets3) simp
qed

declare encode_base64url.simps(1-3) [simp del]

lemmas encode_base64url_symbols = encode_group encode_tail1 encode_tail2

lemma encode_octets:
  fixes a b c d :: u8
  assumes "a < 64" "b < 64" "c < 64" "d < 64"
  shows "encode_base64url ((push_bit 2 a OR drop_bit 4 b) # (push_bit 4 b OR drop_bit 2 c) #
           (push_bit 6 c OR d) # rest) =
         symbol a # symbol b # symbol c # symbol d # encode_base64url rest"
  using assms by (simp only: encode_group sextets_octets)

lemma encode_octets_tail:
  fixes a b c :: u8
  assumes "a < 64" "b < 64" "c < 64"
  shows "b AND 0x0f = 0 \<Longrightarrow> encode_base64url [push_bit 2 a OR drop_bit 4 b] = [symbol a, symbol b]"
    and "c AND 0x03 = 0 \<Longrightarrow>
      encode_base64url [push_bit 2 a OR drop_bit 4 b, push_bit 4 b OR drop_bit 2 c] =
        [symbol a, symbol b, symbol c]"
  using assms by (simp_all only: encode_tail1 encode_tail2 sextets_octets(1,2) sextets_octets_tail)

section \<open>The decoder inverts the encoder\<close>

lemma decode_groups_encode: "decode_groups (encode_base64url bs) out = Inr (out @ bs)"
proof (induction bs arbitrary: out rule: encode_base64url.induct)
  case (1 x y z rest)
  then show ?case
    by (simp add: encode_base64url_symbols sextet_symbol sextets_less u8_eq_iff bit_simps)
next
  case (2 x)
  show ?case
    by (simp add: encode_base64url_symbols sextet_symbol sextets_less and_low_bits u8_eq_iff bit_simps)
next
  case (3 x y)
  show ?case
    by (simp add: encode_base64url_symbols sextet_symbol sextets_less and_low_bits u8_eq_iff bit_simps)
next
  case 4
  show ?case by simp
qed

lemma decode_groups_sound:
  "decode_groups s out = Inr r \<Longrightarrow> length s mod 4 \<noteq> 1 \<Longrightarrow>
     \<exists>bs. r = out @ bs \<and> s = encode_base64url bs"
proof (induction s out arbitrary: r rule: decode_groups.induct)
  case (1 c0 c1 c2 c3 rest out)
  from "1.prems"(1) obtain a b c d where
    s: "sextet c0 = Inr a" "sextet c1 = Inr b" "sextet c2 = Inr c" "sextet c3 = Inr d" and
    rest: "decode_groups rest (out @ [push_bit 2 a OR drop_bit 4 b,
             push_bit 4 b OR drop_bit 2 c, push_bit 6 c OR d]) = Inr r"
    by (auto simp: expected_iffs)
  moreover have "length (c0 # c1 # c2 # c3 # rest) = length rest + 4" by simp
  then have "length rest mod 4 \<noteq> 1" using "1.prems"(2) by (metis mod_add_self2)
  ultimately obtain bs where
    "r = (out @ [push_bit 2 a OR drop_bit 4 b,
             push_bit 4 b OR drop_bit 2 c, push_bit 6 c OR d]) @ bs" "rest = encode_base64url bs"
    using "1.IH" [OF s] by blast
  then have "r = out @ ((push_bit 2 a OR drop_bit 4 b) # (push_bit 4 b OR drop_bit 2 c) #
               (push_bit 6 c OR d) # bs)" by simp
  moreover have "c0 # c1 # c2 # c3 # rest = encode_base64url ((push_bit 2 a OR drop_bit 4 b) #
      (push_bit 4 b OR drop_bit 2 c) # (push_bit 6 c OR d) # bs)"
    using s \<open>rest = _\<close> by (simp add: sextet_Inr_iff encode_octets del: drop_bit_or)
  ultimately show ?case by blast
next
  case (2 c0 c1 out)
  then obtain a b where s: "a < 64" "b < 64" "b AND 0x0f = 0" "c0 = symbol a" "c1 = symbol b"
    and r: "r = out @ [push_bit 2 a OR drop_bit 4 b]"
    by (auto simp: expected_iffs sextet_Inr_iff)
  from s(4,5) encode_octets_tail(1) [OF s(1,2,1,3)] r show ?case by (metis (no_types))
next
  case (3 c0 c1 c2 out)
  then obtain a b c where s: "a < 64" "b < 64" "c < 64" "c AND 0x03 = 0"
      "c0 = symbol a" "c1 = symbol b" "c2 = symbol c"
    and r: "r = out @ [push_bit 2 a OR drop_bit 4 b, push_bit 4 b OR drop_bit 2 c]"
    by (auto simp: expected_iffs sextet_Inr_iff)
  from s(5-7) encode_octets_tail(2) [OF s(1-4)] r show ?case by (metis (no_types))
qed (auto intro: exI [of _ "[]"])


lemma length_encode_base64url:
  "length (encode_base64url bs) =
     4 * (length bs div 3) + (if length bs mod 3 = 0 then 0 else length bs mod 3 + 1)"
proof (induction bs rule: encode_base64url.induct)
  case (1 x y z rest)
  have "length (x # y # z # rest) = length rest + 3" by simp
  then have "length (x # y # z # rest) div 3 = Suc (length rest div 3)"
    "length (x # y # z # rest) mod 3 = length rest mod 3"
    by (simp_all only: div_add_self2 mod_add_self2)
  then show ?case by (simp only: encode_group list.size "1.IH" [OF refl]) simp
qed (simp_all add: encode_base64url_symbols)

lemma encode_base64url_Nil_iff [simp]: "encode_base64url bs = [] \<longleftrightarrow> bs = []"
  by (cases bs rule: encode_base64url.cases) (simp_all add: encode_base64url_symbols)

lemma length_encode_mod: "length (encode_base64url bs) mod 4 \<noteq> 1"
  by (simp add: length_encode_base64url)

definition decoded_size :: "nat \<Rightarrow> nat" where
  "decoded_size n = n div 4 * 3 + (if n mod 4 = 0 then 0 else n mod 4 - 1)"

lemma decoded_size_encode: "decoded_size (length (encode_base64url bs)) = length bs"
  unfolding decoded_size_def length_encode_base64url by (simp; presburger)

lemma decode_unfold:
  "decode s m =
     (if m = 0 then Inl resource_limit
      else if s = [] \<or> length s mod 4 = 1 then Inl malformed_input
      else if decoded_size (length s) > m then Inl resource_limit
      else decode_groups s [])"
proof -
  have "n div 4 * 3 + k > m" if "n div 4 > m div 3" for n k m :: nat
    using that by arith
  then show ?thesis
    by (auto simp: decode_def decoded_size_def Let_def)
qed

lemma decode_groups_Inl: "decode_groups s out = Inl e \<Longrightarrow> e = malformed_input"
  by (induction s out rule: decode_groups.induct)
    (auto simp: ebind_Inl_iff sextet_Inl_iff split: if_splits)

lemma decode_iff:
  "decode encoded max_output_bytes = Inr bs \<longleftrightarrow>
     bs \<noteq> [] \<and> length bs \<le> max_output_bytes \<and> encoded = encode_base64url bs"
proof
  assume ok: "decode encoded max_output_bytes = Inr bs"
  then have *: "encoded \<noteq> []" "length encoded mod 4 \<noteq> 1"
      "decoded_size (length encoded) \<le> max_output_bytes" "decode_groups encoded [] = Inr bs"
    by (auto simp: decode_unfold split: if_splits)
  then have "encoded = encode_base64url bs" using decode_groups_sound by fastforce
  with * show "bs \<noteq> [] \<and> length bs \<le> max_output_bytes \<and> encoded = encode_base64url bs"
    by (auto simp: decoded_size_encode)
next
  assume *: "bs \<noteq> [] \<and> length bs \<le> max_output_bytes \<and> encoded = encode_base64url bs"
  then show "decode encoded max_output_bytes = Inr bs"
    using length_encode_mod [of bs] decode_groups_encode [of bs "[]"]
    by (cases max_output_bytes) (auto simp: decode_unfold decoded_size_encode)
qed

lemma decode_encode_base64url:
  "bs \<noteq> [] \<Longrightarrow> length bs \<le> m \<Longrightarrow> decode (encode_base64url bs) m = Inr bs"
  by (simp add: decode_iff)

text \<open>
  C9. The decoder is exactly the partial inverse of the encoder: it returns \<open>bs\<close> precisely
  when \<open>bs\<close> is non-empty, fits the caller's bound and the text is the canonical unpadded
  encoding of \<open>bs\<close>. So no two texts decode to the same bytes, and padding, white space,
  foreign characters, impossible lengths and non-zero pad bits are all refused.
\<close>

theorem base64url_decode_iff:
  "decode encoded max_output_bytes = Inr bs \<longleftrightarrow>
     bs \<noteq> [] \<and> length bs \<le> max_output_bytes \<and> encoded = encode_base64url bs"
  by (rule decode_iff)

text \<open>
  Which error: a zero bound, or a text of a possible length whose decoded size exceeds the
  bound, is \<open>resource_limit\<close>, decided before any character is looked at; every other refusal
  is \<open>malformed_input\<close>.
\<close>

theorem base64url_decode_errors:
  "decode encoded max_output_bytes = Inl e \<longleftrightarrow>
     (if max_output_bytes = 0 \<or>
         encoded \<noteq> [] \<and> length encoded mod 4 \<noteq> 1 \<and>
         max_output_bytes < length encoded div 4 * 3 +
           (if length encoded mod 4 = 0 then 0 else length encoded mod 4 - 1)
      then e = resource_limit
      else e = malformed_input \<and> (\<nexists>bs. bs \<noteq> [] \<and> encoded = encode_base64url bs))"
  (is "?fails \<longleftrightarrow> (if ?bound then _ else _ \<and> ?foreign)")
proof -
  have bound: "?bound \<longleftrightarrow> max_output_bytes = 0 \<or> encoded \<noteq> [] \<and> length encoded mod 4 \<noteq> 1 \<and>
      max_output_bytes < decoded_size (length encoded)"
    by (simp only: decoded_size_def)
  show ?thesis
  proof (cases ?bound)
    case True
    then show ?thesis unfolding bound decode_unfold by auto
  next
    case False
    show ?thesis
    proof (cases "decode encoded max_output_bytes")
      case (Inl k)
      with False have "k = malformed_input"
        unfolding bound decode_unfold by (auto dest: decode_groups_Inl split: if_splits)
      moreover have ?foreign
      proof
        assume "\<exists>bs. bs \<noteq> [] \<and> encoded = encode_base64url bs"
        then obtain bs where "bs \<noteq> []" "encoded = encode_base64url bs" by blast
        then have "\<not> length bs \<le> max_output_bytes"
          using Inl by (auto simp: decode_encode_base64url)
        then show False
          using False length_encode_mod [of bs] \<open>bs \<noteq> []\<close> \<open>encoded = _\<close>
          unfolding bound by (simp add: decoded_size_encode)
      qed
      ultimately show ?thesis using Inl False by auto
    next
      case (Inr bs)
      then have "\<not> ?foreign" by (auto simp: decode_iff)
      then show ?thesis using Inr by (simp only: if_not_P [OF False] sum.distinct simp_thms)
    qed
  qed
qed

end
