(* ===== verification/Cb_Base64.thy ===== *)
theory Cb_Base64
  imports Cb_Base64url
begin

text \<open>
  Standard padded base64: the decoder \<^verbatim>\<open>decode_base64\<close> of \<^verbatim>\<open>src/command.cpp\<close>, which
  reads the key blob \<^verbatim>\<open>sshd\<close> offers, and the encoder \<^verbatim>\<open>encode_base64\<close> of
  \<^verbatim>\<open>src/direct_verifier.cpp\<close>, which writes the carrier CA key of the authorized-keys
  line. As for Base64url, the decoder is exactly the partial inverse of the encoder.
\<close>

section \<open>The decoder of the command\<close>

text \<open>The lambda \<^verbatim>\<open>value\<close>: \<open>-1\<close> for a character outside the alphabet.\<close>

definition base64_value :: "char \<Rightarrow> int" where
  "base64_value character =
     (let c = of_char character in
      if 65 \<le> c \<and> c \<le> 90 then c - 65
      else if 97 \<le> c \<and> c \<le> 122 then c - 97 + 26
      else if 48 \<le> c \<and> c \<le> 57 then c - 48 + 52
      else if character = CHR ''+'' then 62
      else if character = CHR ''/'' then 63
      else -1)"

fun decode_base64_groups :: "nat \<Rightarrow> string \<Rightarrow> u8 list \<Rightarrow> u8 list expected" where
  "decode_base64_groups maximum (c0 # c1 # c2 # c3 # rest) output =
     (let last = (rest = []);
          pad2 = (c2 = CHR ''='');
          pad3 = (c3 = CHR ''='');
          a = base64_value c0;
          b = base64_value c1;
          c = (if pad2 then 0 else base64_value c2);
          d = (if pad3 then 0 else base64_value c3)
      in if a < 0 \<or> b < 0 \<or> c < 0 \<or> d < 0 \<or> \<not> last \<and> (pad2 \<or> pad3) \<or>
            pad2 \<and> \<not> pad3 \<or> pad2 \<and> b AND 15 \<noteq> 0 \<or> \<not> pad2 \<and> pad3 \<and> c AND 3 \<noteq> 0
         then Inl malformed_input
         else
           let output = output @ [word_of_int (push_bit 2 a OR drop_bit 4 b)];
               output = (if \<not> pad2 then output @ [word_of_int (push_bit 4 b OR drop_bit 2 c)]
                         else output);
               output = (if \<not> pad3 then output @ [word_of_int (push_bit 6 c OR d)] else output)
           in if length output > maximum then Inl resource_limit
              else decode_base64_groups maximum rest output)"
| "decode_base64_groups maximum _ output = Inr output"

definition decode_base64 :: "string \<Rightarrow> nat \<Rightarrow> u8 list expected" where
  "decode_base64 input maximum =
     (if input = [] \<or> length input mod 4 \<noteq> 0 \<or> length input div 4 > (maximum + 2) div 3
      then Inl malformed_input
      else decode_base64_groups maximum input [])"

section \<open>The encoder of the verifier\<close>

definition base64_alphabet :: string where
  "base64_alphabet = ''ABCDEFGHIJKLMNOPQRSTUVWXYZabcdefghijklmnopqrstuvwxyz0123456789+/''"

definition base64_char :: "u32 \<Rightarrow> char" where
  "base64_char v = base64_alphabet ! unat (v AND 63)"

fun encode_base64 :: "u8 list \<Rightarrow> string" where
  "encode_base64 (x # y # z # rest) =
     (let v = push_bit 16 (ucast x) OR push_bit 8 (ucast y) OR ucast z :: u32
      in base64_char (drop_bit 18 v) # base64_char (drop_bit 12 v) #
         base64_char (drop_bit 6 v) # base64_char v # encode_base64 rest)"
| "encode_base64 [x] =
     (let v = push_bit 16 (ucast x) :: u32
      in [base64_char (drop_bit 18 v), base64_char (drop_bit 12 v)] @ ''=='')"
| "encode_base64 [x, y] =
     (let v = push_bit 16 (ucast x) OR push_bit 8 (ucast y) :: u32
      in [base64_char (drop_bit 18 v), base64_char (drop_bit 12 v),
          base64_char (drop_bit 6 v), CHR ''=''])"
| "encode_base64 [] = []"

section \<open>The alphabet\<close>

definition base64_symbol :: "u8 \<Rightarrow> char" where
  "base64_symbol a = base64_alphabet ! unat a"

lemma length_base64_alphabet: "length base64_alphabet = 64"
  by (simp add: base64_alphabet_def)

lemma distinct_base64_alphabet: "distinct base64_alphabet"
  by code_simp

lemma base64_value_table:
  "list_all (\<lambda>c. if base64_value c < 0 then c \<notin> set base64_alphabet
                 else base64_value c < 64 \<and> base64_alphabet ! nat (base64_value c) = c) Enum.enum"
  by code_simp

lemma base64_value_cases:
  "base64_value c < 0 \<and> c \<notin> set base64_alphabet \<or>
     0 \<le> base64_value c \<and> base64_value c < 64 \<and> base64_alphabet ! nat (base64_value c) = c"
proof -
  have "\<forall>c. if base64_value c < 0 then c \<notin> set base64_alphabet
            else base64_value c < 64 \<and> base64_alphabet ! nat (base64_value c) = c"
    using base64_value_table by (simp only: list_all_iff enum_UNIV) blast
  then show ?thesis by (meson not_less)
qed

lemma unat_less_64_base64: "(a :: u8) < 64 \<Longrightarrow> unat a < length base64_alphabet"
  by (simp add: word_less_nat_alt length_base64_alphabet)

lemma base64_symbol_inject:
  "a < 64 \<Longrightarrow> b < 64 \<Longrightarrow> base64_symbol a = base64_symbol b \<longleftrightarrow> a = b"
  by (simp add: base64_symbol_def nth_eq_iff_index_eq distinct_base64_alphabet
      unat_less_64_base64 word_unat_eq_iff)

lemma base64_value_sym:
  assumes "0 \<le> base64_value c"
  obtains a where "a < 64" "base64_value c = uint a" "c = base64_symbol a"
proof
  have v: "base64_value c < 64" "base64_alphabet ! nat (base64_value c) = c"
    using assms base64_value_cases [of c] by auto
  have u: "uint (word_of_int (base64_value c) :: u8) = base64_value c"
    using assms v by (simp add: uint_word_of_int)
  show "word_of_int (base64_value c) < (64 :: u8)"
    using u v by (simp add: word_less_alt)
  show "base64_value c = uint (word_of_int (base64_value c) :: u8)" using u by simp
  show "c = base64_symbol (word_of_int (base64_value c))"
    using v by (simp add: base64_symbol_def u flip: nat_uint_eq)
qed

lemma base64_value_symbol: "a < 64 \<Longrightarrow> base64_value (base64_symbol a) = uint a"
proof -
  assume a: "a < 64"
  then have "base64_symbol a \<in> set base64_alphabet"
    by (simp add: base64_symbol_def unat_less_64_base64)
  then have "0 \<le> base64_value (base64_symbol a)"
    using base64_value_cases [of "base64_symbol a"] by auto
  then obtain b where "b < 64" "base64_value (base64_symbol a) = uint b"
      "base64_symbol a = base64_symbol b" by (rule base64_value_sym)
  with a show ?thesis by (simp add: base64_symbol_inject)
qed

lemma base64_value_pad: "base64_value (CHR ''='') = -1"
  by (simp add: base64_value_def)

lemma base64_symbol_not_pad: "a < 64 \<Longrightarrow> base64_symbol a \<noteq> CHR ''=''"
proof
  assume "a < 64" "base64_symbol a = CHR ''=''"
  then have "uint a = -1" using base64_value_symbol [of a] base64_value_pad by simp
  then show False using uint_ge_0 [of a] by linarith
qed

lemma base64_char_symbol: "base64_char v = base64_symbol (ucast (v AND 63))"
proof -
  have "v AND 63 \<le> 63" by (rule word_and_le1)
  then have "v AND 63 < 256" by (simp add: word_le_nat_alt word_less_nat_alt)
  then show ?thesis by (simp add: base64_char_def base64_symbol_def unat_ucast_low)
qed

section \<open>Groups\<close>

lemma base64_group:
  "encode_base64 (x # y # z # rest) =
     base64_symbol (drop_bit 2 x) # base64_symbol (push_bit 4 (take_bit 2 x) OR drop_bit 4 y) #
     base64_symbol (push_bit 2 (take_bit 4 y) OR drop_bit 6 z) # base64_symbol (take_bit 6 z) #
     encode_base64 rest"
  by (simp only: encode_base64.simps Let_def base64_char_symbol sextets3)

lemma base64_tail1:
  "encode_base64 [x] =
     [base64_symbol (drop_bit 2 x), base64_symbol (push_bit 4 (take_bit 2 x)), CHR ''='', CHR ''='']"
proof -
  have pad: "push_bit 16 (ucast x) = (push_bit 16 (ucast x) OR push_bit 8 (ucast (0 :: u8)) OR ucast (0 :: u8) :: u32)"
    by simp
  show ?thesis
    by (subst encode_base64.simps, subst pad, simp only: Let_def base64_char_symbol sextets3) simp
qed

lemma base64_tail2:
  "encode_base64 [x, y] =
     [base64_symbol (drop_bit 2 x), base64_symbol (push_bit 4 (take_bit 2 x) OR drop_bit 4 y),
      base64_symbol (push_bit 2 (take_bit 4 y)), CHR ''='']"
proof -
  have pad: "push_bit 16 (ucast x) OR push_bit 8 (ucast y) =
      (push_bit 16 (ucast x) OR push_bit 8 (ucast y) OR ucast (0 :: u8) :: u32)"
    by simp
  show ?thesis
    by (subst encode_base64.simps, subst pad, simp only: Let_def base64_char_symbol sextets3) simp
qed

declare encode_base64.simps(1-3) [simp del]

lemmas encode_base64_symbols = base64_group base64_tail1 base64_tail2

text \<open>The decoder's integer shifts, as octets.\<close>

lemma int_octets:
  fixes a b c d :: u8
  shows "(word_of_int (push_bit 2 (uint a) OR drop_bit 4 (uint b)) :: u8) = push_bit 2 a OR drop_bit 4 b"
    and "(word_of_int (push_bit 4 (uint b) OR drop_bit 2 (uint c)) :: u8) = push_bit 4 b OR drop_bit 2 c"
    and "(word_of_int (push_bit 6 (uint c) OR uint d) :: u8) = push_bit 6 c OR d"
  by (auto simp: u8_eq_iff bit_simps)

lemma int_pad_bits:
  fixes b :: u8
  shows "uint b AND 15 = 0 \<longleftrightarrow> b AND 15 = 0" and "uint b AND 3 = 0 \<longleftrightarrow> b AND 3 = 0"
proof -
  have "uint b AND 15 = uint (b AND 15)" "uint b AND 3 = uint (b AND 3)"
    by (simp_all add: unsigned_and_eq)
  then show "uint b AND 15 = 0 \<longleftrightarrow> b AND 15 = 0" "uint b AND 3 = 0 \<longleftrightarrow> b AND 3 = 0"
    by (simp_all only: uint_0_iff)
qed

section \<open>The decoder inverts the encoder\<close>

lemma decode_base64_groups_encode:
  "length (out @ bs) \<le> m \<Longrightarrow> decode_base64_groups m (encode_base64 bs) out = Inr (out @ bs)"
proof (induction bs arbitrary: out rule: encode_base64.induct)
  case (1 x y z rest)
  have "decode_base64_groups m (encode_base64 rest) (out @ [x, y, z]) = Inr ((out @ [x, y, z]) @ rest)"
    by (rule "1.IH" [OF refl]) (use "1.prems" in simp)
  moreover have "x = push_bit 2 (drop_bit 2 x) OR drop_bit 4 (push_bit 4 (take_bit 2 x) OR drop_bit 4 y)"
    "y = push_bit 4 (push_bit 4 (take_bit 2 x) OR drop_bit 4 y) OR
         drop_bit 2 (push_bit 2 (take_bit 4 y) OR drop_bit 6 z)"
    "z = push_bit 6 (push_bit 2 (take_bit 4 y) OR drop_bit 6 z) OR take_bit 6 z"
    by (simp_all add: u8_eq_iff bit_simps)
  ultimately show ?case
    using "1.prems"
    by (simp add: base64_group base64_value_symbol sextets_less base64_symbol_not_pad int_octets
          int_pad_bits Let_def del: drop_bit_or push_bit_or)
next
  case (2 x)
  have "x = push_bit 2 (drop_bit 2 x) OR drop_bit 4 (push_bit 4 (take_bit 2 x))"
    "push_bit 4 (take_bit 2 x) AND 15 = 0"
    by (simp_all add: u8_eq_iff bit_simps and_low_bits)
  then show ?case
    using "2.prems"
    by (simp add: base64_tail1 base64_value_symbol sextets_less base64_symbol_not_pad int_octets
          int_pad_bits Let_def del: drop_bit_or push_bit_or)
next
  case (3 x y)
  have "x = push_bit 2 (drop_bit 2 x) OR drop_bit 4 (push_bit 4 (take_bit 2 x) OR drop_bit 4 y)"
    "y = push_bit 4 (push_bit 4 (take_bit 2 x) OR drop_bit 4 y) OR drop_bit 2 (push_bit 2 (take_bit 4 y))"
    "push_bit 2 (take_bit 4 y) AND 3 = 0"
    by (simp_all add: u8_eq_iff bit_simps and_low_bits)
  then show ?case
    using "3.prems"
    by (simp add: base64_tail2 base64_value_symbol sextets_less base64_symbol_not_pad int_octets
          int_pad_bits Let_def del: drop_bit_or push_bit_or)
next
  case 4
  then show ?case by simp
qed

lemma base64_octets:
  fixes a b c d :: u8
  assumes "a < 64" "b < 64" "c < 64" "d < 64"
  shows "encode_base64 ((push_bit 2 a OR drop_bit 4 b) # (push_bit 4 b OR drop_bit 2 c) #
           (push_bit 6 c OR d) # rest) =
         base64_symbol a # base64_symbol b # base64_symbol c # base64_symbol d # encode_base64 rest"
  using assms by (simp only: base64_group sextets_octets)

lemma base64_octets_tail:
  fixes a b c :: u8
  assumes "a < 64" "b < 64" "c < 64"
  shows "b AND 0x0f = 0 \<Longrightarrow> encode_base64 [push_bit 2 a OR drop_bit 4 b] =
      [base64_symbol a, base64_symbol b, CHR ''='', CHR ''='']"
    and "c AND 0x03 = 0 \<Longrightarrow>
      encode_base64 [push_bit 2 a OR drop_bit 4 b, push_bit 4 b OR drop_bit 2 c] =
        [base64_symbol a, base64_symbol b, base64_symbol c, CHR ''='']"
  using assms by (simp_all only: base64_tail1 base64_tail2 sextets_octets(1,2) sextets_octets_tail)

text \<open>One accepted group: four symbols, or a padded tail at the end of the text.\<close>

lemma decode_base64_group:
  assumes ok: "decode_base64_groups m (c0 # c1 # c2 # c3 # rest) out = Inr r"
  obtains (full) a b c d where "a < 64" "b < 64" "c < 64" "d < 64"
      "c0 = base64_symbol a" "c1 = base64_symbol b" "c2 = base64_symbol c" "c3 = base64_symbol d"
      "decode_base64_groups m rest (out @ [push_bit 2 a OR drop_bit 4 b,
         push_bit 4 b OR drop_bit 2 c, push_bit 6 c OR d]) = Inr r" "length out + 3 \<le> m"
    | (tail2) a b c where "a < 64" "b < 64" "c < 64" "c AND 3 = 0" "rest = []"
      "c0 = base64_symbol a" "c1 = base64_symbol b" "c2 = base64_symbol c" "c3 = CHR ''=''"
      "r = out @ [push_bit 2 a OR drop_bit 4 b, push_bit 4 b OR drop_bit 2 c]" "length out + 2 \<le> m"
    | (tail1) a b where "a < 64" "b < 64" "b AND 15 = 0" "rest = []"
      "c0 = base64_symbol a" "c1 = base64_symbol b" "c2 = CHR ''=''" "c3 = CHR ''=''"
      "r = out @ [push_bit 2 a OR drop_bit 4 b]" "length out + 1 \<le> m"
proof -
  from ok have "0 \<le> base64_value c0" "0 \<le> base64_value c1"
    by (auto simp: Let_def split: if_splits)
  then obtain a b where ab: "a < 64" "base64_value c0 = uint a" "c0 = base64_symbol a"
      "b < 64" "base64_value c1 = uint b" "c1 = base64_symbol b"
    by (metis base64_value_sym)
  show thesis
  proof (cases "c2 = CHR ''=''")
    case True
    with ok ab show ?thesis
      by (intro tail1 [of a b])
        (auto simp: Let_def int_octets int_pad_bits base64_value_symbol split: if_splits)
  next
    case c2: False
    with ok have "0 \<le> base64_value c2" by (auto simp: Let_def split: if_splits)
    then obtain c where c: "c < 64" "base64_value c2 = uint c" "c2 = base64_symbol c"
      by (metis base64_value_sym)
    show ?thesis
    proof (cases "c3 = CHR ''=''")
      case True
      with ok ab c c2 show ?thesis
        by (intro tail2 [of a b c])
          (auto simp: Let_def int_octets int_pad_bits base64_value_symbol split: if_splits)
    next
      case c3: False
      with ok c2 have "0 \<le> base64_value c3" by (auto simp: Let_def split: if_splits)
      then obtain d where "d < 64" "base64_value c3 = uint d" "c3 = base64_symbol d"
        by (metis base64_value_sym)
      with ok ab c c2 c3 show ?thesis
        by (intro full [of a b c d])
          (auto simp: Let_def int_octets int_pad_bits base64_value_symbol split: if_splits)
    qed
  qed
qed

lemma decode_base64_groups_sound:
  "decode_base64_groups m s out = Inr r \<Longrightarrow> length s mod 4 = 0 \<Longrightarrow>
     \<exists>bs. r = out @ bs \<and> s = encode_base64 bs \<and> (s = [] \<or> length r \<le> m)"
proof (induction "length s" arbitrary: s out rule: less_induct)
  case less
  show ?case
  proof (cases s rule: remdups_adj.cases)
    case 1
    with less.prems show ?thesis by (intro exI [of _ "[]"]) simp
  next
    case (2 x)
    with less.prems show ?thesis by simp
  next
    case (3 x y zs)
    with less.prems(2) obtain c2 c3 rest where s: "s = x # y # c2 # c3 # rest"
      by (cases zs rule: remdups_adj.cases) (auto simp: mod_Suc split: if_splits)
    have "length s = length rest + 4" using s by simp
    then have len: "length rest < length s" "length rest mod 4 = 0"
      using less.prems(2) by auto
    from less.prems(1) [unfolded s] show ?thesis
    proof (cases rule: decode_base64_group)
      case (full a b c d)
      from less.hyps [OF len(1) full(9) len(2)] obtain bs where
        bs: "r = (out @ [push_bit 2 a OR drop_bit 4 b, push_bit 4 b OR drop_bit 2 c,
               push_bit 6 c OR d]) @ bs" "rest = encode_base64 bs" "rest = [] \<or> length r \<le> m"
        by blast
      have "s = encode_base64 ((push_bit 2 a OR drop_bit 4 b) # (push_bit 4 b OR drop_bit 2 c) #
               (push_bit 6 c OR d) # bs)"
        using s full bs by (simp only: base64_octets)
      moreover have "length r \<le> m"
        using bs full(9,10) by (cases "rest = []") auto
      ultimately show ?thesis using bs(1) by (metis append.assoc append_Cons append_Nil)
    next
      case (tail2 a b c)
      with s have "s = encode_base64 [push_bit 2 a OR drop_bit 4 b, push_bit 4 b OR drop_bit 2 c]"
        by (simp only: base64_octets_tail)
      then show ?thesis using tail2 by auto
    next
      case (tail1 a b)
      with s have "s = encode_base64 [push_bit 2 a OR drop_bit 4 b]"
        by (simp only: base64_octets_tail)
      then show ?thesis using tail1 by auto
    qed
  qed
qed

lemma length_encode_base64: "length (encode_base64 bs) = 4 * ((length bs + 2) div 3)"
proof (induction bs rule: encode_base64.induct)
  case (1 x y z rest)
  have "length (x # y # z # rest) + 2 = (length rest + 2) + 3" by simp
  then have "(length (x # y # z # rest) + 2) div 3 = Suc ((length rest + 2) div 3)"
    by (simp only: div_add_self2)
  then show ?case by (simp only: base64_group list.size "1.IH" [OF refl]) simp
qed (simp_all add: encode_base64_symbols)

lemma decode_base64_iff:
  "decode_base64 input maximum = Inr bs \<longleftrightarrow>
     bs \<noteq> [] \<and> length bs \<le> maximum \<and> input = encode_base64 bs"
proof
  assume "decode_base64 input maximum = Inr bs"
  then have *: "input \<noteq> []" "length input mod 4 = 0" "decode_base64_groups maximum input [] = Inr bs"
    by (auto simp: decode_base64_def split: if_splits)
  with decode_base64_groups_sound [OF *(3,2)]
  show "bs \<noteq> [] \<and> length bs \<le> maximum \<and> input = encode_base64 bs" by auto
next
  assume *: "bs \<noteq> [] \<and> length bs \<le> maximum \<and> input = encode_base64 bs"
  then have "(length bs + 2) div 3 \<le> (maximum + 2) div 3" "(length bs + 2) div 3 \<noteq> 0"
    by (auto simp: div_le_mono div_eq_0_iff Suc_le_eq numeral_2_eq_2)
  moreover have "encode_base64 bs \<noteq> []"
    using * by (cases bs rule: encode_base64.cases) (auto simp: encode_base64_symbols)
  ultimately show "decode_base64 input maximum = Inr bs"
    using * decode_base64_groups_encode [of "[]" bs maximum]
    by (simp add: decode_base64_def length_encode_base64)
qed

text \<open>
  C10. The decoder of the key blob \<^verbatim>\<open>sshd\<close> offers is exactly the partial inverse of the
  padded base64 encoder that writes the authorized-keys line: it accepts precisely the canonical
  padded encoding of each non-empty blob within the configured certificate bound.
\<close>

theorem openssh_base64_decode_iff:
  "decode_base64 input maximum = Inr bs \<longleftrightarrow>
     bs \<noteq> [] \<and> length bs \<le> maximum \<and> input = encode_base64 bs"
  by (rule decode_base64_iff)

end
