(* ===== verification/Cb_Jws.thy ===== *)
theory Cb_Jws
  imports Cb_Base64url
begin

text \<open>
  The compact-JWS splitter of \<^verbatim>\<open>src/jws.cpp\<close>: exactly three segments, each a
  canonical Base64url text, returned verbatim.
\<close>

record jws_Limits =
  max_compact_bytes :: nat
  max_decoded_segment_bytes :: nat

definition default_jws_limits :: jws_Limits where
  "default_jws_limits = \<lparr>max_compact_bytes = 32768, max_decoded_segment_bytes = 32768\<rparr>"

record CompactJws =
  jws_protected_header :: string
  jws_payload :: string
  jws_signature :: string

fun check_segments :: "string list \<Rightarrow> nat \<Rightarrow> unit expected" where
  "check_segments [] bound = Inr ()"
| "check_segments (segment # segments) bound =
     (case decode segment bound of Inl e \<Rightarrow> Inl e | Inr _ \<Rightarrow> check_segments segments bound)"

definition parse_compact :: "string \<Rightarrow> jws_Limits \<Rightarrow> CompactJws expected" where
  "parse_compact input limits =
     (if max_compact_bytes limits = 0 \<or> max_decoded_segment_bytes limits = 0
      then Inl resource_limit
      else if length input > max_compact_bytes limits then Inl resource_limit
      else
        case sv_find (CHR ''.'') input 0 of
          None \<Rightarrow> Inl malformed_input
        | Some first \<Rightarrow>
            (case sv_find (CHR ''.'') input (first + 1) of
               None \<Rightarrow> Inl malformed_input
             | Some second \<Rightarrow>
                 if sv_find (CHR ''.'') input (second + 1) \<noteq> None then Inl malformed_input
                 else
                   let header = sv_substr input 0 first;
                       payload = sv_substr input (first + 1) (second - first - 1);
                       signature = drop (second + 1) input
                   in ebind (check_segments [header, payload, signature]
                               (max_decoded_segment_bytes limits)) (\<lambda>_.
                        Inr \<lparr>jws_protected_header = header, jws_payload = payload,
                             jws_signature = signature\<rparr>)))"

section \<open>Splitting at the separators\<close>

lemma symbol_not_dot: "CHR ''.'' \<notin> set base64url_alphabet"
  by (simp add: base64url_alphabet_def)

lemma symbol_in_alphabet: "a < 64 \<Longrightarrow> symbol a \<in> set base64url_alphabet"
  by (simp add: symbol_def unat_less_64)

lemma encode_base64url_alphabet: "set (encode_base64url bs) \<subseteq> set base64url_alphabet"
  by (induction bs rule: encode_base64url.induct)
    (auto simp: encode_base64url_symbols symbol_in_alphabet sextets_less)

lemma encode_base64url_no_dot [simp]: "CHR ''.'' \<notin> set (encode_base64url bs)"
  using encode_base64url_alphabet symbol_not_dot by blast

lemma split_at: "i < length s \<Longrightarrow> s = take i s @ s ! i # drop (Suc i) s"
  by (rule id_take_nth_drop)

lemma check_segments_Inr_iff:
  "check_segments segments bound = Inr () \<longleftrightarrow> (\<forall>segment\<in>set segments. has_value (decode segment bound))"
  by (induction segments) (auto simp: expected_iffs has_value_iff)

lemma two_dots:
  assumes "sv_find (CHR ''.'') input 0 = Some first"
    and "sv_find (CHR ''.'') input (first + 1) = Some second"
  shows "input = sv_substr input 0 first @ ''.'' @ sv_substr input (first + 1) (second - first - 1) @
           ''.'' @ drop (second + 1) input"
proof -
  note f = sv_find_Some [OF assms(1)] and s = sv_find_Some [OF assms(2)]
  define rest where "rest = drop (Suc first) input"
  have "input = take first input @ CHR ''.'' # rest"
    using split_at [OF f(2)] f(3) by (simp add: rest_def)
  moreover have k: "second - first - 1 < length rest" "rest ! (second - first - 1) = CHR ''.''"
    using f s by (simp_all add: rest_def)
  have "rest = take (second - first - 1) rest @ CHR ''.'' # drop (Suc (second - first - 1)) rest"
    using split_at [OF k(1)] k(2) by simp
  moreover have "drop (Suc (second - first - 1)) rest = drop (second + 1) input"
    using s(1) by (simp add: rest_def)
  ultimately show ?thesis by (simp add: sv_substr_def rest_def)
qed

lemma parse_compact_join:
  assumes "CHR ''.'' \<notin> set h" "CHR ''.'' \<notin> set p" "CHR ''.'' \<notin> set s"
    and "0 < max_compact_bytes limits" "0 < max_decoded_segment_bytes limits"
    and "length (h @ ''.'' @ p @ ''.'' @ s) \<le> max_compact_bytes limits"
  shows "parse_compact (h @ ''.'' @ p @ ''.'' @ s) limits =
     ebind (check_segments [h, p, s] (max_decoded_segment_bytes limits)) (\<lambda>_.
       Inr \<lparr>jws_protected_header = h, jws_payload = p, jws_signature = s\<rparr>)"
proof -
  let ?i = "h @ ''.'' @ p @ ''.'' @ s"
  have "sv_find (CHR ''.'') ?i 0 = Some (length h)"
    using sv_find_append [of "CHR ''.''" h "[]"] assms(1) by simp
  moreover have "sv_find (CHR ''.'') ?i (length h + 1) = Some (length h + 1 + length p)"
    using sv_find_append [of "CHR ''.''" p "h @ ''.''"] assms(2) by simp
  moreover have "sv_find (CHR ''.'') ?i (length h + 1 + length p + 1) = None"
    using assms(3) by (simp add: sv_find_None)
  ultimately show ?thesis
    using assms(4-) by (simp add: parse_compact_def sv_substr_def Let_def)
qed

lemma parse_compact_sound:
  assumes ok: "parse_compact input limits = Inr jws"
  shows "0 < max_compact_bytes limits \<and> length input \<le> max_compact_bytes limits \<and>
     (\<exists>h p s. h \<noteq> [] \<and> p \<noteq> [] \<and> s \<noteq> [] \<and>
        length h \<le> max_decoded_segment_bytes limits \<and>
        length p \<le> max_decoded_segment_bytes limits \<and>
        length s \<le> max_decoded_segment_bytes limits \<and>
        jws = \<lparr>jws_protected_header = encode_base64url h, jws_payload = encode_base64url p,
               jws_signature = encode_base64url s\<rparr> \<and>
        input = encode_base64url h @ ''.'' @ encode_base64url p @ ''.'' @ encode_base64url s)"
proof -
  from ok obtain first second where
    find: "sv_find (CHR ''.'') input 0 = Some first"
      "sv_find (CHR ''.'') input (first + 1) = Some second" and
    seg: "check_segments [sv_substr input 0 first,
        sv_substr input (first + 1) (second - first - 1), drop (second + 1) input]
        (max_decoded_segment_bytes limits) = Inr ()" and
    jws: "jws = \<lparr>jws_protected_header = sv_substr input 0 first,
        jws_payload = sv_substr input (first + 1) (second - first - 1),
        jws_signature = drop (second + 1) input\<rparr>" and
    size: "0 < max_compact_bytes limits" "length input \<le> max_compact_bytes limits"
    by (auto simp: parse_compact_def Let_def expected_iffs split: option.splits if_splits)
  from seg obtain h p s where
    "decode (sv_substr input 0 first) (max_decoded_segment_bytes limits) = Inr h"
    "decode (sv_substr input (first + 1) (second - first - 1)) (max_decoded_segment_bytes limits) = Inr p"
    "decode (drop (second + 1) input) (max_decoded_segment_bytes limits) = Inr s"
    unfolding check_segments_Inr_iff has_value_iff by auto
  then show "0 < max_compact_bytes limits \<and> length input \<le> max_compact_bytes limits \<and>
     (\<exists>h p s. h \<noteq> [] \<and> p \<noteq> [] \<and> s \<noteq> [] \<and>
        length h \<le> max_decoded_segment_bytes limits \<and>
        length p \<le> max_decoded_segment_bytes limits \<and>
        length s \<le> max_decoded_segment_bytes limits \<and>
        jws = \<lparr>jws_protected_header = encode_base64url h, jws_payload = encode_base64url p,
               jws_signature = encode_base64url s\<rparr> \<and>
        input = encode_base64url h @ ''.'' @ encode_base64url p @ ''.'' @ encode_base64url s)"
    using size jws two_dots [OF find] unfolding decode_iff by metis
qed

lemma parse_compact_complete:
  assumes "0 < max_compact_bytes limits \<and> length input \<le> max_compact_bytes limits \<and>
     (\<exists>h p s. h \<noteq> [] \<and> p \<noteq> [] \<and> s \<noteq> [] \<and>
        length h \<le> max_decoded_segment_bytes limits \<and>
        length p \<le> max_decoded_segment_bytes limits \<and>
        length s \<le> max_decoded_segment_bytes limits \<and>
        jws = \<lparr>jws_protected_header = encode_base64url h, jws_payload = encode_base64url p,
               jws_signature = encode_base64url s\<rparr> \<and>
        input = encode_base64url h @ ''.'' @ encode_base64url p @ ''.'' @ encode_base64url s)"
  shows "parse_compact input limits = Inr jws"
proof -
  from assms obtain h p s where *: "h \<noteq> []" "p \<noteq> []" "s \<noteq> []"
      "length h \<le> max_decoded_segment_bytes limits" "length p \<le> max_decoded_segment_bytes limits"
      "length s \<le> max_decoded_segment_bytes limits" and
    jws: "jws = \<lparr>jws_protected_header = encode_base64url h, jws_payload = encode_base64url p,
               jws_signature = encode_base64url s\<rparr>" and
    inp: "input = encode_base64url h @ ''.'' @ encode_base64url p @ ''.'' @ encode_base64url s" and
    size: "0 < max_compact_bytes limits" "length input \<le> max_compact_bytes limits"
    by auto
  have "0 < max_decoded_segment_bytes limits" using * by (cases h) auto
  then have "parse_compact input limits =
     ebind (check_segments [encode_base64url h, encode_base64url p, encode_base64url s]
              (max_decoded_segment_bytes limits)) (\<lambda>_. Inr jws)"
    unfolding inp jws by (intro parse_compact_join) (use size inp in auto)
  then show "parse_compact input limits = Inr jws"
    using * by (simp add: decode_encode_base64url)
qed

text \<open>
  C11. A compact JWS is accepted exactly when it is three canonical Base64url texts joined by
  two dots, within the configured sizes, and the segments come back verbatim.
\<close>

theorem parse_compact_iff:
  "parse_compact input limits = Inr jws \<longleftrightarrow>
     0 < max_compact_bytes limits \<and> length input \<le> max_compact_bytes limits \<and>
     (\<exists>h p s. h \<noteq> [] \<and> p \<noteq> [] \<and> s \<noteq> [] \<and>
        length h \<le> max_decoded_segment_bytes limits \<and>
        length p \<le> max_decoded_segment_bytes limits \<and>
        length s \<le> max_decoded_segment_bytes limits \<and>
        jws = \<lparr>jws_protected_header = encode_base64url h, jws_payload = encode_base64url p,
               jws_signature = encode_base64url s\<rparr> \<and>
        input = encode_base64url h @ ''.'' @ encode_base64url p @ ''.'' @ encode_base64url s)"
  using parse_compact_sound parse_compact_complete by blast

end
