(* ===== verification/Cb_Framing.thy ===== *)
theory Cb_Framing
  imports Cb_Prelude
begin

text \<open>
  Length-prefixed fields. The sources read binary input through a cursor: the class
  \<^verbatim>\<open>Reader\<close> of \<^verbatim>\<open>src/openssh_certificate.cpp\<close> and of \<^verbatim>\<open>src/crypto.cpp\<close>, and an
  offset passed by reference in \<^verbatim>\<open>src/issuer_verifier.cpp\<close> and
  \<^verbatim>\<open>src/direct_verifier.cpp\<close>. A cursor is the whole input and the offset of the next
  unread octet.

  The locale \<open>field_reader\<close> is the contract of one such reader: what it accepts is exactly
  an admissible value's encoding, at the front of what remains, and it advances past that
  encoding. Every reader of the model interprets it; the lemmas proved once here (when a read
  succeeds, reading an encoding back, unique decoding) carry the proofs about formats.
\<close>

section \<open>Cursors\<close>

record 'b cursor =
  cur_input :: "'b list"
  cur_offset :: nat

definition start_cursor :: "'b list \<Rightarrow> 'b cursor" where
  "start_cursor bs = \<lparr>cur_input = bs, cur_offset = 0\<rparr>"

definition advance :: "nat \<Rightarrow> 'b cursor \<Rightarrow> 'b cursor" where
  "advance n r = r\<lparr>cur_offset := cur_offset r + n\<rparr>"

text \<open>\<^verbatim>\<open>Reader::empty()\<close> of both reader classes, and \<^verbatim>\<open>input_.size() - offset_\<close>.\<close>

definition at_end :: "'b cursor \<Rightarrow> bool" where
  "at_end r \<longleftrightarrow> cur_offset r = length (cur_input r)"

definition left :: "'b cursor \<Rightarrow> nat" where
  "left r = length (cur_input r) - cur_offset r"

definition window :: "'b cursor \<Rightarrow> nat \<Rightarrow> 'b list" where
  "window r n = take n (drop (cur_offset r) (cur_input r))"

text \<open>The cursor between what has been read and what has not: every reachable cursor is one.\<close>

definition between :: "'b list \<Rightarrow> 'b list \<Rightarrow> 'b cursor" where
  "between p t = \<lparr>cur_input = p @ t, cur_offset = length p\<rparr>"

lemma start_cursor_between: "start_cursor bs = between [] bs"
  by (simp add: start_cursor_def between_def)

lemma between_simps [simp]:
  "cur_input (between p t) = p @ t"
  "cur_offset (between p t) = length p"
  "at_end (between p t) \<longleftrightarrow> t = []"
  "left (between p t) = length t"
  "window (between p t) n = take n t"
  by (simp_all add: between_def at_end_def left_def window_def)

lemma advance_between: "advance (length u) (between p (u @ t)) = between (p @ u) t"
  by (simp add: advance_def between_def)

lemma advance_between_take:
  "n \<le> length t \<Longrightarrow> advance n (between p t) = between (p @ take n t) (drop n t)"
  by (simp add: advance_def between_def)

lemma between_inject [simp]: "between p t = between p t' \<longleftrightarrow> t = t'"
  by (simp add: between_def)

text \<open>What a sequence of reads consumed, between the cursors before and after it.\<close>

definition reached :: "'b cursor \<Rightarrow> bool" where
  "reached r \<longleftrightarrow> (\<exists>p t. r = between p t)"

definition consumed :: "'b cursor \<Rightarrow> 'b list \<Rightarrow> 'b cursor \<Rightarrow> bool" where
  "consumed r u r' \<longleftrightarrow> (\<exists>p t. r = between p (u @ t) \<and> r' = between (p @ u) t)"

lemma reached_between [simp]: "reached (between p t)"
  by (auto simp: reached_def)

lemma between_eq_iff: "between p t = between p' t' \<longleftrightarrow> p = p' \<and> t = t'"
  by (auto simp: between_def)

lemma consumed_append: "consumed r u r' \<Longrightarrow> consumed r' v r'' \<Longrightarrow> consumed r (u @ v) r''"
  by (force simp: consumed_def between_eq_iff)

lemma consumed_start:
  "consumed (between [] x) u r' \<Longrightarrow> cur_offset r' = length u \<and> (\<exists>t. x = u @ t)"
  by (auto simp: consumed_def between_eq_iff)

lemma consumed_all: "consumed (between [] x) u r' \<Longrightarrow> at_end r' \<Longrightarrow> x = u"
  by (auto simp: consumed_def between_eq_iff)

section \<open>The contract of a field reader\<close>

locale field_reader =
  fixes read_field :: "'b cursor \<Rightarrow> ('a \<times> 'b cursor) expected"
    and enc :: "'a \<Rightarrow> 'b list"
    and ok :: "'a \<Rightarrow> bool"
  assumes read_enc: "ok a \<Longrightarrow> read_field (between p (enc a @ t)) = Inr (a, between (p @ enc a) t)"
    and read_sound: "read_field (between p x) = Inr (a, r') \<Longrightarrow> ok a \<and> (\<exists>t. x = enc a @ t)"
begin

lemma read_iff:
  "read_field (between p x) = Inr (a, r') \<longleftrightarrow>
     ok a \<and> (\<exists>t. x = enc a @ t \<and> r' = between (p @ enc a) t)"
proof
  assume *: "read_field (between p x) = Inr (a, r')"
  with read_sound obtain t where t: "ok a" "x = enc a @ t" by blast
  with read_enc [of a p t] * have "r' = between (p @ enc a) t" by simp
  with t show "ok a \<and> (\<exists>t. x = enc a @ t \<and> r' = between (p @ enc a) t)" by blast
qed (use read_enc in auto)

lemma read_consumed:
  assumes "read_field r = Inr (a, r')" "reached r"
  shows "ok a" "consumed r (enc a) r'" "reached r'"
proof -
  obtain p x where r: "r = between p x" using assms(2) by (auto simp: reached_def)
  with assms(1) obtain t where "ok a" "x = enc a @ t" "r' = between (p @ enc a) t"
    by (auto simp: read_iff)
  with r show "ok a" "consumed r (enc a) r'" "reached r'" by (auto simp: consumed_def)
qed

lemma ebind_read_iff:
  "ebind (read_field (between p x)) f = Inr y \<longleftrightarrow>
     (\<exists>a t. ok a \<and> x = enc a @ t \<and> f (a, between (p @ enc a) t) = Inr y)"
  by (auto simp: ebind_Inr_iff read_iff)

lemma read_last: "ok a \<Longrightarrow> read_field (between p (enc a)) = Inr (a, between (p @ enc a) [])"
  using read_enc [of a p "[]"] by simp

lemma unique_decoding:
  assumes "ok a" "ok b" "enc a @ s = enc b @ t"
  shows "a = b \<and> s = t"
  using read_enc [OF assms(1), of "[]" s] read_enc [OF assms(2), of "[]" t] assms(3) by simp

lemma unique_decoding_iff:
  assumes "ok a" "ok b"
  shows "enc a @ s = enc b @ t \<longleftrightarrow> a = b \<and> s = t"
  using unique_decoding [OF assms] by auto

lemma rejects_iff:
  "(\<exists>e. read_field (between p x) = Inl e) \<longleftrightarrow> \<not> (\<exists>a t. ok a \<and> x = enc a @ t)"
proof (cases "read_field (between p x)")
  case (Inl e)
  then show ?thesis using read_enc by fastforce
next
  case (Inr y)
  then show ?thesis by (cases y) (auto dest: read_sound)
qed

end

section \<open>Repeated fields\<close>

text \<open>
  A loop that reads fields until the cursor is at its end decodes the concatenation of their
  encodings in one way only, as soon as no encoding is empty.
\<close>

locale field_list = field_reader read_field enc ok
  for read_field :: "'b cursor \<Rightarrow> ('a \<times> 'b cursor) expected" and enc ok +
  assumes enc_nonempty: "enc a \<noteq> []"
begin

lemma unique_list_decoding:
  assumes "\<forall>a\<in>set as. ok a" "\<forall>b\<in>set bs. ok b" "concat (map enc as) = concat (map enc bs)"
  shows "as = bs"
  using assms
proof (induction as arbitrary: bs)
  case Nil
  then show ?case using enc_nonempty by (cases bs) auto
next
  case (Cons a as)
  then show ?case
  proof (cases bs)
    case Nil
    then show ?thesis using Cons.prems(3) enc_nonempty by simp
  next
    case (Cons b cs)
    with Cons.prems have "a = b \<and> concat (map enc as) = concat (map enc cs)"
      by (intro unique_decoding) simp_all
    then show ?thesis using Cons.IH [of cs] Cons.prems Cons by simp
  qed
qed

end

end
