(* ===== verification/Cb_Openssh.thy ===== *)
theory Cb_Openssh
  imports Cb_Framing
begin

text \<open>
  The OpenSSH user-certificate parser of \<^verbatim>\<open>src/openssh_certificate.cpp\<close>: the
  cursor class \<^verbatim>\<open>Reader\<close>, the helpers of the anonymous namespace and
  \<^verbatim>\<open>parse_certificate\<close>, in the order of the source; then the certificate format
  as an encoder and a well-formedness predicate, and the proof that the parser accepts exactly
  the encodings of well-formed certificates.
\<close>

section \<open>Types and constants\<close>

datatype openssh_CallerAlgorithm = openssh_es256 | openssh_ed25519

record openssh_Limits =
  max_certificate_bytes :: nat
  max_token_bytes :: nat
  max_principals :: nat
  max_extensions :: nat
  max_name_bytes :: nat

definition default_openssh_limits :: openssh_Limits where
  "default_openssh_limits =
     \<lparr>max_certificate_bytes = 49152, max_token_bytes = 32768, max_principals = 16,
      max_extensions = 16, max_name_bytes = 256\<rparr>"

record Certificate =
  cert_caller_algorithm :: openssh_CallerAlgorithm
  cert_certified_key :: "u8 list"
  cert_serial :: u64
  cert_key_id :: string
  cert_principals :: "string list"
  cert_valid_after :: u64
  cert_valid_before :: u64
  cert_permission_extensions :: "string list"
  cert_token :: "u8 list"
  cert_signature_key :: "u8 list"
  cert_signature_algorithm :: string
  cert_signature :: "u8 list"
  cert_signed_bytes :: "u8 list"

definition kEcdsaCertificate :: string where
  "kEcdsaCertificate = ''ecdsa-sha2-nistp256-cert-v01@openssh.com''"

definition kEd25519Certificate :: string where
  "kEd25519Certificate = ''ssh-ed25519-cert-v01@openssh.com''"

definition kEcdsaKey :: string where
  "kEcdsaKey = ''ecdsa-sha2-nistp256''"

definition kEd25519Key :: string where
  "kEd25519Key = ''ssh-ed25519''"

definition kCurve :: string where
  "kCurve = ''nistp256''"

definition kCarrier :: string where
  "kCarrier = ''credbind-ssh-v1@credbind.dev''"

section \<open>The class Reader\<close>

definition openssh_u32 :: "char cursor \<Rightarrow> (u32 \<times> char cursor) expected" where
  "openssh_u32 r =
     (if left r < 4 then Inl malformed_input
      else Inr (be_value (bytes (window r 4)), advance 4 r))"

definition openssh_u64 :: "char cursor \<Rightarrow> (u64 \<times> char cursor) expected" where
  "openssh_u64 r =
     (if left r < 8 then Inl malformed_input
      else Inr (be_value (bytes (window r 8)), advance 8 r))"

definition openssh_string :: "nat \<Rightarrow> char cursor \<Rightarrow> (string \<times> char cursor) expected" where
  "openssh_string maximum r =
     ebind (openssh_u32 r) (\<lambda>(len, r).
       let size = unat len in
       if size > left r then Inl malformed_input
       else if size > maximum then Inl resource_limit
       else Inr (window r size, advance size r))"

section \<open>The helpers of the anonymous namespace\<close>

definition valid_ecdsa_point :: "string \<Rightarrow> bool" where
  "valid_ecdsa_point point \<longleftrightarrow> length point = 65 \<and> of_char (hd point) = (0x04 :: u8)"

definition ascii_nonempty :: "string \<Rightarrow> bool" where
  "ascii_nonempty value \<longleftrightarrow>
     value \<noteq> [] \<and>
     list_all (\<lambda>character. let octet = of_char character :: u8 in 0x21 \<le> octet \<and> octet \<le> 0x7e) value"

definition permission_names :: "string list" where
  "permission_names =
     [''permit-X11-forwarding'', ''permit-agent-forwarding'', ''permit-port-forwarding'',
      ''permit-pty'', ''permit-user-rc'']"

definition allowed_permission :: "string \<Rightarrow> bool" where
  "allowed_permission name \<longleftrightarrow> List.member permission_names name"

definition parse_public_key_blob ::
  "string \<Rightarrow> openssh_CallerAlgorithm \<Rightarrow> openssh_Limits \<Rightarrow> u8 list expected" where
  "parse_public_key_blob blob wanted limits =
     ebind (openssh_string (max_name_bytes limits) (start_cursor blob)) (\<lambda>(algorithm, reader).
       ebind
         (if wanted = openssh_es256 then
            if algorithm \<noteq> kEcdsaKey then Inl unsupported_algorithm
            else
              ebind (openssh_string (max_name_bytes limits) reader) (\<lambda>(curve, reader).
              ebind (openssh_string 65 reader) (\<lambda>(point, reader).
                if curve \<noteq> kCurve then Inl unsupported_algorithm
                else if \<not> valid_ecdsa_point point \<or> \<not> at_end reader then Inl malformed_input
                else Inr ()))
          else
            if algorithm \<noteq> kEd25519Key then Inl unsupported_algorithm
            else
              ebind (openssh_string 32 reader) (\<lambda>(key, reader).
                if length key \<noteq> 32 \<or> \<not> at_end reader then Inl malformed_input
                else Inr ()))
         (\<lambda>_. Inr (bytes blob)))"

definition valid_positive_mpint :: "string \<Rightarrow> bool" where
  "valid_positive_mpint value =
     (if value = [] then False
      else
        let first = of_char (hd value) :: u8 in
        if first AND 0x80 \<noteq> 0 then False
        else if first = 0 then length value > 1 \<and> (of_char (value ! 1) :: u8) AND 0x80 \<noteq> 0
        else True)"

definition parse_signature_blob ::
  "string \<Rightarrow> openssh_CallerAlgorithm \<Rightarrow> openssh_Limits \<Rightarrow> (string \<times> u8 list) expected" where
  "parse_signature_blob blob wanted limits =
     ebind (openssh_string (max_name_bytes limits) (start_cursor blob)) (\<lambda>(algorithm, reader).
     ebind (openssh_string 256 reader) (\<lambda>(signature, reader).
       if \<not> at_end reader then Inl malformed_input
       else
         ebind
           (if wanted = openssh_es256 then
              if algorithm \<noteq> kEcdsaKey then Inl unsupported_algorithm
              else
                ebind (openssh_string 33 (start_cursor signature)) (\<lambda>(r, scalars).
                ebind (openssh_string 33 scalars) (\<lambda>(s, scalars).
                  if \<not> valid_positive_mpint r \<or> \<not> valid_positive_mpint s \<or> \<not> at_end scalars
                  then Inl malformed_input
                  else Inr ()))
            else
              if algorithm \<noteq> kEd25519Key \<or> length signature \<noteq> 64 then
                Inl (if algorithm \<noteq> kEd25519Key then unsupported_algorithm else malformed_input)
              else Inr ())
           (\<lambda>_. Inr (algorithm, bytes signature))))"

section \<open>The two loops of parse_certificate\<close>

lemma openssh_string_left:
  "openssh_string maximum r = Inr (s, r') \<Longrightarrow> left r' < left r"
  by (auto simp: openssh_string_def openssh_u32_def expected_iffs Let_def left_def advance_def
      split: if_splits)

function parse_principals ::
  "openssh_Limits \<Rightarrow> char cursor \<Rightarrow> string list \<Rightarrow> string list expected" where
  "parse_principals limits reader principals =
     (if at_end reader then Inr principals
      else if length principals = max_principals limits then Inl resource_limit
      else
        case openssh_string 256 reader of
          Inl e \<Rightarrow> Inl e
        | Inr (name, reader') \<Rightarrow>
            if \<not> ascii_nonempty name then Inl malformed_input
            else parse_principals limits reader' (principals @ [name]))"
  by pat_completeness auto
termination
  by (relation "measure (\<lambda>(limits, reader, principals). left reader)")
    (auto dest: openssh_string_left)

text \<open>
  One round of the extension loop: the name and data that were read, with \<^verbatim>\<open>previous\<close>,
  \<^verbatim>\<open>token\<close> and \<^verbatim>\<open>permissions\<close> before it; their new values after it.
\<close>

definition extension_step ::
  "openssh_Limits \<Rightarrow> string \<Rightarrow> string \<Rightarrow> string \<Rightarrow> u8 list \<Rightarrow> string list \<Rightarrow>
     (u8 list \<times> string list) expected" where
  "extension_step limits previous name data token permissions =
     (if \<not> ascii_nonempty name \<or> (previous \<noteq> [] \<and> previous \<ge> name) then Inl malformed_input
      else if name = kCarrier then
        if token \<noteq> [] then Inl malformed_input
        else
          ebind (openssh_string (max_token_bytes limits) (start_cursor data)) (\<lambda>(nested_token, carrier_reader).
            if nested_token = [] \<or> \<not> at_end carrier_reader then Inl malformed_input
            else Inr (bytes nested_token, permissions))
      else if \<not> allowed_permission name \<or> data \<noteq> [] then Inl malformed_input
      else Inr (token, permissions @ [name]))"

function parse_extensions ::
  "openssh_Limits \<Rightarrow> char cursor \<Rightarrow> string \<Rightarrow> nat \<Rightarrow> u8 list \<Rightarrow> string list \<Rightarrow>
     (u8 list \<times> string list) expected" where
  "parse_extensions limits reader previous extension_count token permissions =
     (if at_end reader then Inr (token, permissions)
      else if extension_count = max_extensions limits then Inl resource_limit
      else
        case openssh_string (max_name_bytes limits) reader of
          Inl e \<Rightarrow> Inl e
        | Inr (name, reader') \<Rightarrow>
            (case openssh_string (max_certificate_bytes limits) reader' of
               Inl e \<Rightarrow> Inl e
             | Inr (data, reader'') \<Rightarrow>
                 (case extension_step limits previous name data token permissions of
                    Inl e \<Rightarrow> Inl e
                  | Inr (token', permissions') \<Rightarrow>
                      parse_extensions limits reader'' name (extension_count + 1) token' permissions')))"
  by pat_completeness auto
termination
  by (relation "measure (\<lambda>(limits, reader, _). left reader)")
    (fastforce dest: openssh_string_left)+

section \<open>\<open>parse_certificate\<close>\<close>

definition invalid_openssh_limits :: "openssh_Limits \<Rightarrow> bool" where
  "invalid_openssh_limits limits \<longleftrightarrow>
     max_certificate_bytes limits = 0 \<or> max_certificate_bytes limits > 49152 \<or>
     max_token_bytes limits = 0 \<or> max_token_bytes limits > 32768 \<or>
     max_principals limits = 0 \<or> max_extensions limits = 0 \<or> max_name_bytes limits = 0"

definition parse_certified_key ::
  "openssh_CallerAlgorithm \<Rightarrow> openssh_Limits \<Rightarrow> char cursor \<Rightarrow> (u8 list \<times> char cursor) expected" where
  "parse_certified_key caller_algorithm limits reader =
     (if caller_algorithm = openssh_es256 then
        ebind (openssh_string (max_name_bytes limits) reader) (\<lambda>(curve, reader).
        ebind (openssh_string 65 reader) (\<lambda>(point, reader).
          if curve \<noteq> kCurve \<or> \<not> valid_ecdsa_point point then
            Inl (if curve \<noteq> kCurve then unsupported_algorithm else malformed_input)
          else Inr (bytes point, reader)))
      else
        ebind (openssh_string 32 reader) (\<lambda>(key, reader).
          if length key \<noteq> 32 then Inl malformed_input else Inr (bytes key, reader)))"

definition parse_certificate :: "string \<Rightarrow> openssh_Limits \<Rightarrow> Certificate expected" where
  "parse_certificate blob limits =
     (if invalid_openssh_limits limits then Inl resource_limit
      else if length blob > max_certificate_bytes limits then Inl resource_limit
      else
        ebind (openssh_string (max_name_bytes limits) (start_cursor blob)) (\<lambda>(type, reader).
        ebind (if type = kEcdsaCertificate then Inr openssh_es256
               else if type = kEd25519Certificate then Inr openssh_ed25519
               else Inl unsupported_algorithm) (\<lambda>caller_algorithm.
        ebind (openssh_string 1024 reader) (\<lambda>(nonce, reader).
        if nonce = [] then Inl malformed_input else
        ebind (parse_certified_key caller_algorithm limits reader) (\<lambda>(certified_key, reader).
        ebind (openssh_u64 reader) (\<lambda>(serial, reader).
        ebind (openssh_u32 reader) (\<lambda>(certificate_class, reader).
        ebind (openssh_string 1024 reader) (\<lambda>(key_id, reader).
        ebind (openssh_string (max_certificate_bytes limits) reader) (\<lambda>(principal_blob, reader).
        if certificate_class \<noteq> 1 then Inl malformed_input else
        ebind (parse_principals limits (start_cursor principal_blob) []) (\<lambda>principals.
        if length principals \<noteq> 1 then Inl malformed_input else
        ebind (openssh_u64 reader) (\<lambda>(valid_after, reader).
        ebind (openssh_u64 reader) (\<lambda>(valid_before, reader).
        ebind (openssh_string (max_certificate_bytes limits) reader) (\<lambda>(critical_options, reader).
        ebind (openssh_string (max_certificate_bytes limits) reader) (\<lambda>(extension_blob, reader).
        ebind (openssh_string (max_certificate_bytes limits) reader) (\<lambda>(reserved, reader).
        ebind (openssh_string (max_certificate_bytes limits) reader) (\<lambda>(signature_key_blob, reader).
        if valid_before = - 1 \<or> valid_after \<ge> valid_before then Inl malformed_input
        else if critical_options \<noteq> [] then Inl malformed_input
        else if reserved \<noteq> [] then Inl malformed_input else
        ebind (parse_extensions limits (start_cursor extension_blob) [] 0 [] []) (\<lambda>(token, permissions).
        if token = [] then Inl malformed_input else
        ebind (parse_public_key_blob signature_key_blob caller_algorithm limits) (\<lambda>signature_key.
        let signed_length = cur_offset reader in
        ebind (openssh_string 512 reader) (\<lambda>(signature_blob, reader).
        if \<not> at_end reader then Inl malformed_input else
        ebind (parse_signature_blob signature_blob caller_algorithm limits) (\<lambda>parsed_signature.
        Inr \<lparr>cert_caller_algorithm = caller_algorithm,
             cert_certified_key = certified_key,
             cert_serial = serial,
             cert_key_id = key_id,
             cert_principals = principals,
             cert_valid_after = valid_after,
             cert_valid_before = valid_before,
             cert_permission_extensions = permissions,
             cert_token = token,
             cert_signature_key = signature_key,
             cert_signature_algorithm = fst parsed_signature,
             cert_signature = snd parsed_signature,
             cert_signed_bytes = bytes (sv_substr blob 0 signed_length)\<rparr>))))))))))))))))))))"

declare parse_principals.simps [simp del] parse_extensions.simps [simp del]

section \<open>The wire format\<close>

text \<open>The SSH encodings of integers and strings, and the readers as field readers of them.\<close>

definition ssh_u32 :: "u32 \<Rightarrow> string" where
  "ssh_u32 v = text_of (u32_bytes v)"

definition ssh_u64 :: "u64 \<Rightarrow> string" where
  "ssh_u64 v = text_of (u64_bytes v)"

definition ssh_string :: "string \<Rightarrow> string" where
  "ssh_string s = ssh_u32 (of_nat (length s)) @ s"

definition ssh_string_ok :: "nat \<Rightarrow> string \<Rightarrow> bool" where
  "ssh_string_ok maximum s \<longleftrightarrow> length s \<le> maximum \<and> length s < 2 ^ 32"

lemma length_ssh [simp]:
  "length (ssh_u32 v) = 4" "length (ssh_u64 w) = 8" "length (ssh_string s) = 4 + length s"
  by (simp_all add: ssh_u32_def ssh_u64_def ssh_string_def)

lemma ssh_string_nonempty [simp]: "ssh_string s \<noteq> []" "[] \<noteq> ssh_string s"
  by (metis length_ssh(3) list.size(3) add_is_0 zero_neq_numeral)+

lemma ssh_string_inject [simp]: "ssh_string s = ssh_string t \<longleftrightarrow> s = t"
  by (auto simp: ssh_string_def append_eq_append_conv)

lemma bytes_ssh_u32 [simp]: "bytes (ssh_u32 v) = u32_bytes v"
  by (simp add: ssh_u32_def)

lemma bytes_ssh_u64 [simp]: "bytes (ssh_u64 v) = u64_bytes v"
  by (simp add: ssh_u64_def)

lemma ssh_u32_be_value: "length s = 4 \<Longrightarrow> ssh_u32 (be_value (bytes s)) = s"
  by (simp add: ssh_u32_def)

lemma ssh_u64_be_value: "length s = 8 \<Longrightarrow> ssh_u64 (be_value (bytes s)) = s"
  by (simp add: ssh_u64_def)

lemma unat_of_nat_u32 [simp]: "n < 4294967296 \<Longrightarrow> unat (of_nat n :: u32) = n"
  by (simp add: unat_of_nat)

interpretation openssh_u32_reader: field_reader openssh_u32 ssh_u32 "\<lambda>_. True"
proof
  show "openssh_u32 (between p (ssh_u32 v @ t)) = Inr (v, between (p @ ssh_u32 v) t)" for v p t
    using advance_between [of "ssh_u32 v" p t] by (simp add: openssh_u32_def)
  show "True \<and> (\<exists>t. x = ssh_u32 v @ t)"
    if "openssh_u32 (between p x) = Inr (v, r')" for v p x r'
    using that by (auto simp: openssh_u32_def ssh_u32_be_value split: if_splits
        intro!: exI [of _ "drop 4 x"])
qed

interpretation openssh_u64_reader: field_reader openssh_u64 ssh_u64 "\<lambda>_. True"
proof
  show "openssh_u64 (between p (ssh_u64 v @ t)) = Inr (v, between (p @ ssh_u64 v) t)" for v p t
    using advance_between [of "ssh_u64 v" p t] by (simp add: openssh_u64_def)
  show "True \<and> (\<exists>t. x = ssh_u64 v @ t)"
    if "openssh_u64 (between p x) = Inr (v, r')" for v p x r'
    using that by (auto simp: openssh_u64_def ssh_u64_be_value split: if_splits
        intro!: exI [of _ "drop 8 x"])
qed

interpretation openssh_string_reader:
  field_reader "openssh_string maximum" ssh_string "ssh_string_ok maximum" for maximum
proof
  show "openssh_string maximum (between p (ssh_string s @ t)) = Inr (s, between (p @ ssh_string s) t)"
    if "ssh_string_ok maximum s" for s p t
    using that advance_between [of s "p @ ssh_u32 (of_nat (length s))" t]
    by (simp add: openssh_string_def ssh_string_def ssh_string_ok_def openssh_u32_reader.read_enc)
  show "ssh_string_ok maximum s \<and> (\<exists>t. x = ssh_string s @ t)"
    if "openssh_string maximum (between p x) = Inr (s, r')" for s p x r'
  proof -
    from that obtain v t where x: "x = ssh_u32 v @ t" and
        len: "unat v \<le> length t" "unat v \<le> maximum" and s: "s = take (unat v) t"
      by (auto simp: openssh_string_def expected_iffs openssh_u32_reader.read_iff Let_def
          split: if_splits)
    have "length s < 2 ^ 32" using len s unsigned_less [where 'a = nat, of v] by simp
    moreover have "x = ssh_string s @ drop (unat v) t" using x len s by (simp add: ssh_string_def)
    ultimately show ?thesis using len s by (auto simp: ssh_string_ok_def)
  qed
qed

interpretation openssh_string_list:
  field_list "openssh_string maximum" ssh_string "ssh_string_ok maximum" for maximum
  by unfold_locales simp

lemmas openssh_read_iffs =
  openssh_u32_reader.read_iff openssh_u64_reader.read_iff openssh_string_reader.read_iff

lemmas openssh_ebind_iffs =
  openssh_u32_reader.ebind_read_iff openssh_u64_reader.ebind_read_iff
  openssh_string_reader.ebind_read_iff

lemmas openssh_read_encs =
  openssh_u32_reader.read_enc openssh_u64_reader.read_enc openssh_string_reader.read_enc
  openssh_string_reader.read_last

section \<open>Multiple-precision integers\<close>

text \<open>The SSH encoding of a positive integer: shortest, with a sign octet where needed.\<close>

definition ssh_mpint :: "nat \<Rightarrow> string" where
  "ssh_mpint n =
     (let magnitude = nat_octets n in
      text_of (if hd magnitude AND 0x80 \<noteq> 0 then 0 # magnitude else magnitude))"

lemma of_char_eq_nth: "(of_char c :: u8) = hd (bytes [c])"
  by (simp add: bytes_def)

lemma valid_positive_mpint_text_of:
  "valid_positive_mpint (text_of bs) \<longleftrightarrow>
     (case bs of [] \<Rightarrow> False
      | b # rest \<Rightarrow> b AND 0x80 = 0 \<and> (b = 0 \<longrightarrow> (case rest of [] \<Rightarrow> False | b' # _ \<Rightarrow> b' AND 0x80 \<noteq> 0)))"
  by (auto simp: valid_positive_mpint_def text_of_def Let_def split: list.splits)

lemma valid_positive_mpint_iff: "valid_positive_mpint value \<longleftrightarrow> (\<exists>n>0. value = ssh_mpint n)"
proof
  assume v: "valid_positive_mpint value"
  define bs where "bs = bytes value"
  have v_def: "value = text_of bs" by (simp add: bs_def)
  from v have "bs \<noteq> []" by (auto simp: v_def valid_positive_mpint_text_of)
  then obtain b rest where bs: "bs = b # rest" by (cases bs) auto
  show "\<exists>n>0. value = ssh_mpint n"
  proof (cases "b = 0")
    case True
    with v obtain b' rest' where rest: "rest = b' # rest'" and b': "b' AND 0x80 \<noteq> 0"
      by (auto simp: v_def valid_positive_mpint_text_of bs split: list.splits)
    have "b' \<noteq> 0" using b' by auto
    then have "nat_octets (octets_nat rest) = rest" "0 < octets_nat rest"
      using nat_octets_octets_nat [of rest] octets_nat_pos [of rest] rest by auto
    then show ?thesis using v_def bs True rest b'
      by (intro exI [of _ "octets_nat rest"]) (simp add: ssh_mpint_def Let_def)
  next
    case False
    then have "nat_octets (octets_nat bs) = bs" "0 < octets_nat bs"
      using nat_octets_octets_nat [of bs] octets_nat_pos [of bs] bs by auto
    moreover have "b AND 0x80 = 0" using v by (simp add: v_def valid_positive_mpint_text_of bs)
    ultimately show ?thesis using v_def bs
      by (intro exI [of _ "octets_nat bs"]) (simp add: ssh_mpint_def Let_def)
  qed
next
  assume "\<exists>n>0. value = ssh_mpint n"
  then obtain n where n: "0 < n" "value = ssh_mpint n" by blast
  then obtain b rest where o: "nat_octets n = b # rest" by (cases "nat_octets n") auto
  have "b \<noteq> 0" using hd_nat_octets [OF n(1)] o by simp
  then show "valid_positive_mpint value"
    using n o by (auto simp: ssh_mpint_def Let_def valid_positive_mpint_text_of)
qed

section \<open>Keys and signatures\<close>

definition key_name :: "openssh_CallerAlgorithm \<Rightarrow> string" where
  "key_name a = (case a of openssh_es256 \<Rightarrow> kEcdsaKey | openssh_ed25519 \<Rightarrow> kEd25519Key)"

definition certificate_name :: "openssh_CallerAlgorithm \<Rightarrow> string" where
  "certificate_name a =
     (case a of openssh_es256 \<Rightarrow> kEcdsaCertificate | openssh_ed25519 \<Rightarrow> kEd25519Certificate)"

definition key_fields :: "openssh_CallerAlgorithm \<Rightarrow> string \<Rightarrow> string" where
  "key_fields a key =
     (case a of openssh_es256 \<Rightarrow> ssh_string kCurve @ ssh_string key | openssh_ed25519 \<Rightarrow> ssh_string key)"

definition key_ok :: "openssh_Limits \<Rightarrow> openssh_CallerAlgorithm \<Rightarrow> string \<Rightarrow> bool" where
  "key_ok limits a key \<longleftrightarrow>
     (case a of
        openssh_es256 \<Rightarrow> valid_ecdsa_point key \<and> length kCurve \<le> max_name_bytes limits
      | openssh_ed25519 \<Rightarrow> length key = 32)"

definition signature_ok :: "openssh_CallerAlgorithm \<Rightarrow> string \<Rightarrow> bool" where
  "signature_ok a signature \<longleftrightarrow>
     (case a of
        openssh_es256 \<Rightarrow>
          (\<exists>r>0. \<exists>s>0. signature = ssh_string (ssh_mpint r) @ ssh_string (ssh_mpint s) \<and>
             length (ssh_mpint r) \<le> 33 \<and> length (ssh_mpint s) \<le> 33)
      | openssh_ed25519 \<Rightarrow> length signature = 64)"

lemma name_lengths [simp]:
  "length kEcdsaCertificate = 40" "length kEd25519Certificate = 32" "length kEcdsaKey = 19"
  "length kEd25519Key = 11" "length kCurve = 8" "length kCarrier = 28"
  by (simp_all add: kEcdsaCertificate_def kEd25519Certificate_def kEcdsaKey_def kEd25519Key_def
      kCurve_def kCarrier_def)

lemma key_name_simps [simp]:
  "key_name openssh_es256 = kEcdsaKey" "key_name openssh_ed25519 = kEd25519Key"
  "certificate_name openssh_es256 = kEcdsaCertificate"
  "certificate_name openssh_ed25519 = kEd25519Certificate"
  by (simp_all add: key_name_def certificate_name_def)

lemma names_distinct [simp]: "kEcdsaKey \<noteq> kEd25519Key" "kEcdsaCertificate \<noteq> kEd25519Certificate"
  by (simp_all add: kEcdsaCertificate_def kEd25519Certificate_def kEcdsaKey_def kEd25519Key_def)

lemma parse_public_key_blob_sound:
  assumes "parse_public_key_blob blob a limits = Inr key"
  shows "length (key_name a) \<le> max_name_bytes limits \<and> key = bytes blob \<and>
     (\<exists>k. key_ok limits a k \<and> blob = ssh_string (key_name a) @ key_fields a k)"
  using assms
  by (cases a)
    (auto simp: parse_public_key_blob_def expected_iffs start_cursor_between openssh_read_iffs
      key_fields_def key_ok_def ssh_string_ok_def)

lemma parse_public_key_blob_complete:
  assumes "length (key_name a) \<le> max_name_bytes limits" "key_ok limits a k"
    and "blob = ssh_string (key_name a) @ key_fields a k"
  shows "parse_public_key_blob blob a limits = Inr (bytes blob)"
  using assms
  by (cases a)
    (auto simp: parse_public_key_blob_def start_cursor_between openssh_read_encs
      key_fields_def key_ok_def ssh_string_ok_def valid_ecdsa_point_def)

lemma signature_ok_ed25519 [simp]: "signature_ok openssh_ed25519 s \<longleftrightarrow> length s = 64"
  by (simp add: signature_ok_def)

lemma signature_ok_es256I:
  assumes "0 < r" "0 < s" "length (ssh_mpint r) \<le> 33" "length (ssh_mpint s) \<le> 33"
  shows "signature_ok openssh_es256 (ssh_string (ssh_mpint r) @ ssh_string (ssh_mpint s))"
  using assms by (simp add: signature_ok_def) (rule exI [of _ r], simp, rule exI [of _ s], simp)

lemma parse_signature_blob_sound:
  assumes "parse_signature_blob blob a limits = Inr (algorithm, sig)"
  shows "length (key_name a) \<le> max_name_bytes limits \<and> algorithm = key_name a \<and>
     (\<exists>signature. signature_ok a signature \<and> sig = bytes signature \<and>
        blob = ssh_string algorithm @ ssh_string signature)"
  using assms
  by (cases a)
    (auto simp: parse_signature_blob_def expected_iffs start_cursor_between openssh_read_iffs
      ssh_string_ok_def valid_positive_mpint_iff simp del: bytes_append
      intro!: signature_ok_es256I)

lemma signature_ok_length: "signature_ok a signature \<Longrightarrow> length signature \<le> 74"
  by (cases a) (auto simp: signature_ok_def)

lemma parse_signature_blob_complete:
  assumes "length (key_name a) \<le> max_name_bytes limits" "signature_ok a signature"
    and "blob = ssh_string (key_name a) @ ssh_string signature"
  shows "parse_signature_blob blob a limits = Inr (key_name a, bytes signature)"
  using assms signature_ok_length [OF assms(2)]
  by (cases a)
    (auto simp: parse_signature_blob_def start_cursor_between openssh_read_encs
      signature_ok_def ssh_string_ok_def valid_positive_mpint_iff simp del: bytes_append)

section \<open>The principals\<close>

lemma parse_principals_sound:
  assumes "parse_principals limits (between p x) ps = Inr ps'"
  shows "\<exists>ns. x = concat (map ssh_string ns) \<and> ps' = ps @ ns \<and>
     (\<forall>n\<in>set ns. ascii_nonempty n \<and> length n \<le> 256)"
  using assms
proof (induction "length x" arbitrary: p x ps rule: less_induct)
  case less
  show ?case
  proof (cases "x = []")
    case True
    then show ?thesis using less.prems by (simp add: parse_principals.simps)
  next
    case False
    with less.prems obtain n t where
      n: "length n \<le> 256" "ascii_nonempty n" "x = ssh_string n @ t" and
      rest: "parse_principals limits (between (p @ ssh_string n) t) (ps @ [n]) = Inr ps'"
      by (subst (asm) parse_principals.simps)
        (auto simp: openssh_string_reader.read_iff ssh_string_ok_def split: if_splits sum.splits)
    have "length t < length x" using n by simp
    from less.hyps [OF this rest] obtain ns where "t = concat (map ssh_string ns)"
        "ps' = ps @ n # ns" "\<forall>n\<in>set ns. ascii_nonempty n \<and> length n \<le> 256" by auto
    then show ?thesis using n by (intro exI [of _ "n # ns"]) simp
  qed
qed

lemma parse_principals_complete:
  assumes "\<forall>n\<in>set ns. ascii_nonempty n \<and> length n \<le> 256"
    and "length ps + length ns \<le> max_principals limits"
  shows "parse_principals limits (between p (concat (map ssh_string ns))) ps = Inr (ps @ ns)"
  using assms
proof (induction ns arbitrary: p ps)
  case Nil
  then show ?case by (simp add: parse_principals.simps)
next
  case (Cons n ns)
  then show ?case
    by (subst parse_principals.simps) (simp add: openssh_string_reader.read_enc ssh_string_ok_def)
qed

section \<open>The extensions\<close>

definition permission_extension :: "string \<Rightarrow> string" where
  "permission_extension name = ssh_string name @ ssh_string ''''"

definition carrier_extension :: "u8 list \<Rightarrow> string" where
  "carrier_extension token = ssh_string kCarrier @ ssh_string (ssh_string (text_of token))"

lemma permission_names_facts:
  "name \<in> set permission_names \<Longrightarrow>
     ascii_nonempty name \<and> kCarrier < name \<and> name \<noteq> [] \<and> name \<noteq> kCarrier \<and> length name \<le> 23"
  by (auto simp: permission_names_def ascii_nonempty_def kCarrier_def)

lemma kCarrier_facts: "ascii_nonempty kCarrier" "kCarrier \<noteq> []"
  by (auto simp: kCarrier_def ascii_nonempty_def)

lemma allowed_permission_iff: "allowed_permission name \<longleftrightarrow> name \<in> set permission_names"
  by (simp add: allowed_permission_def)

text \<open>Once a name has been read, no carrier can follow: the names that remain are permissions.\<close>

lemma parse_extensions_sound:
  assumes "parse_extensions limits (between p x) previous n token permissions = Inr (token', permissions')"
    and "kCarrier \<le> previous" "n \<le> max_extensions limits"
  shows "\<exists>names. x = concat (map permission_extension names) \<and> token' = token \<and>
     permissions' = permissions @ names \<and> set names \<subseteq> set permission_names \<and>
     sorted_wrt (<) (previous # names) \<and> n + length names \<le> max_extensions limits \<and>
     (\<forall>name\<in>set names. length name \<le> max_name_bytes limits)"
  using assms
proof (induction "length x" arbitrary: p x previous n permissions rule: less_induct)
  case less
  show ?case
  proof (cases "x = []")
    case True
    then show ?thesis using less.prems by (simp add: parse_extensions.simps)
  next
    case False
    from less.prems(2) have prev: "previous \<noteq> []" by (auto simp: kCarrier_def)
    from False less.prems obtain name data t token1 permissions1 where
      x: "x = ssh_string name @ ssh_string data @ t" "length name \<le> max_name_bytes limits" and
      step: "extension_step limits previous name data token permissions = Inr (token1, permissions1)" and
      rest: "parse_extensions limits (between (p @ ssh_string name @ ssh_string data) t) name (n + 1)
               token1 permissions1 = Inr (token', permissions')" and
      n: "n < max_extensions limits"
      by (subst (asm) parse_extensions.simps)
        (auto simp: openssh_string_reader.read_iff ssh_string_ok_def split: if_splits sum.splits)
    have name: "name \<noteq> kCarrier"
    proof
      assume "name = kCarrier"
      with step prev less.prems(2) show False by (simp add: extension_step_def)
    qed
    with step have s: "previous < name" "name \<in> set permission_names" "data = []"
        "token1 = token" "permissions1 = permissions @ [name]"
      using prev by (auto simp: extension_step_def allowed_permission_iff not_le split: if_splits)
    have "length t < length x" using x by simp
    moreover have "kCarrier \<le> name"
      using s permission_names_facts [of name] by (blast intro: less_imp_le)
    ultimately obtain names where
      "t = concat (map permission_extension names)" "token' = token"
      "permissions' = permissions @ name # names" "set names \<subseteq> set permission_names"
      "sorted_wrt (<) (name # names)" "n + 1 + length names \<le> max_extensions limits"
      "\<forall>name\<in>set names. length name \<le> max_name_bytes limits"
      using less.hyps [of t "p @ ssh_string name @ ssh_string data" name "n + 1" permissions1] rest n s
      by auto
    then show ?thesis using x s
      by (intro exI [of _ "name # names"])
        (auto simp: permission_extension_def intro: less_trans)
  qed
qed

lemma parse_extensions_complete:
  assumes "set names \<subseteq> set permission_names" "sorted_wrt (<) (previous # names)"
    and "n + length names \<le> max_extensions limits"
    and "\<forall>name\<in>set names. length name \<le> max_name_bytes limits"
  shows "parse_extensions limits (between p (concat (map permission_extension names))) previous n token permissions =
     Inr (token, permissions @ names)"
  using assms
proof (induction names arbitrary: p previous n permissions)
  case Nil
  then show ?case by (simp add: parse_extensions.simps)
next
  case (Cons name names)
  note f = permission_names_facts [of name]
  have "\<not> name \<le> previous" using Cons.prems(2) by (simp add: not_le)
  with Cons.prems f have "extension_step limits previous name [] token permissions = Inr (token, permissions @ [name])"
    by (simp add: extension_step_def allowed_permission_iff)
  moreover have "permission_extension name = ssh_string name @ ssh_string []"
    by (simp add: permission_extension_def)
  ultimately show ?case using Cons f
    by (subst parse_extensions.simps) (simp add: openssh_string_reader.read_enc ssh_string_ok_def)
qed

lemma extension_blob_sound:
  assumes "parse_extensions limits (start_cursor x) [] 0 [] [] = Inr (token, permissions)" "token \<noteq> []"
    and "0 < max_extensions limits"
  shows "x = carrier_extension token @ concat (map permission_extension permissions) \<and>
     length token \<le> max_token_bytes limits \<and> length token < 2 ^ 32 \<and>
     set permissions \<subseteq> set permission_names \<and> sorted_wrt (<) permissions \<and>
     Suc (length permissions) \<le> max_extensions limits \<and>
     length kCarrier \<le> max_name_bytes limits \<and>
     (\<forall>name\<in>set permissions. length name \<le> max_name_bytes limits)"
proof -
  have "x \<noteq> []" using assms by (auto simp: parse_extensions.simps start_cursor_between)
  with assms obtain name data t token1 permissions1 where
    x: "x = ssh_string name @ ssh_string data @ t" "length name \<le> max_name_bytes limits" and
    step: "extension_step limits [] name data [] [] = Inr (token1, permissions1)" and
    rest: "parse_extensions limits (between (ssh_string name @ ssh_string data) t) name 1
             token1 permissions1 = Inr (token, permissions)"
    by (subst (asm) parse_extensions.simps)
      (auto simp: start_cursor_between openssh_string_reader.read_iff ssh_string_ok_def
        split: if_splits sum.splits)
  have "kCarrier \<le> name"
    using step permission_names_facts [of name]
    by (auto simp: extension_step_def allowed_permission_iff split: if_splits intro: less_imp_le)
  from parse_extensions_sound [OF rest this] assms(3) obtain names where
    tail: "t = concat (map permission_extension names)" "token = token1"
      "permissions = permissions1 @ names" "set names \<subseteq> set permission_names"
      "sorted_wrt (<) (name # names)" "Suc (length names) \<le> max_extensions limits"
      "\<forall>name\<in>set names. length name \<le> max_name_bytes limits"
    by auto
  have "name = kCarrier"
  proof (rule ccontr)
    assume "name \<noteq> kCarrier"
    with step have "token1 = []" by (auto simp: extension_step_def split: if_splits)
    then show False using tail assms(2) by simp
  qed
  moreover from this step obtain nested where
    "data = ssh_string nested" "token1 = bytes nested" "permissions1 = []"
    "length nested \<le> max_token_bytes limits" "length nested < 2 ^ 32"
    by (auto simp: extension_step_def expected_iffs start_cursor_between
        openssh_string_reader.read_iff ssh_string_ok_def split: if_splits)
  ultimately show ?thesis using x tail by (simp add: carrier_extension_def)
qed

lemma extension_blob_complete:
  assumes "token \<noteq> []" "length token \<le> max_token_bytes limits" "length token < 2 ^ 30"
    and "4 + length token \<le> max_certificate_bytes limits"
    and "set permissions \<subseteq> set permission_names" "sorted_wrt (<) permissions"
    and "Suc (length permissions) \<le> max_extensions limits"
    and "length kCarrier \<le> max_name_bytes limits"
    and "\<forall>name\<in>set permissions. length name \<le> max_name_bytes limits"
  shows "parse_extensions limits
      (start_cursor (carrier_extension token @ concat (map permission_extension permissions))) [] 0 [] [] =
     Inr (token, permissions)"
proof -
  have step: "extension_step limits [] kCarrier (ssh_string (text_of token)) [] [] = Inr (token, [])"
    using assms kCarrier_facts text_of_inject [of token "[]"]
    by (simp add: extension_step_def start_cursor_between openssh_read_encs ssh_string_ok_def)
      (simp add: text_of_def)
  have "sorted_wrt (<) (kCarrier # permissions)"
    using assms permission_names_facts by auto
  then show ?thesis
    using assms step
    by (subst parse_extensions.simps)
      (simp add: start_cursor_between carrier_extension_def openssh_read_encs ssh_string_ok_def
        parse_extensions_complete)
qed

section \<open>Certificates\<close>

definition certificate_tbs :: "string \<Rightarrow> Certificate \<Rightarrow> string" where
  "certificate_tbs nonce c =
     ssh_string (certificate_name (cert_caller_algorithm c)) @
     ssh_string nonce @
     key_fields (cert_caller_algorithm c) (text_of (cert_certified_key c)) @
     ssh_u64 (cert_serial c) @
     ssh_u32 1 @
     ssh_string (cert_key_id c) @
     ssh_string (concat (map ssh_string (cert_principals c))) @
     ssh_u64 (cert_valid_after c) @
     ssh_u64 (cert_valid_before c) @
     ssh_string '''' @
     ssh_string (carrier_extension (cert_token c) @
       concat (map permission_extension (cert_permission_extensions c))) @
     ssh_string '''' @
     ssh_string (text_of (cert_signature_key c))"

definition certificate_blob :: "string \<Rightarrow> Certificate \<Rightarrow> string" where
  "certificate_blob nonce c =
     certificate_tbs nonce c @
     ssh_string (ssh_string (cert_signature_algorithm c) @ ssh_string (text_of (cert_signature c)))"

definition certificate_wf :: "openssh_Limits \<Rightarrow> string \<Rightarrow> Certificate \<Rightarrow> bool" where
  "certificate_wf limits nonce c \<longleftrightarrow>
     \<not> invalid_openssh_limits limits \<and>
     length (certificate_blob nonce c) \<le> max_certificate_bytes limits \<and>
     length (certificate_name (cert_caller_algorithm c)) \<le> max_name_bytes limits \<and>
     nonce \<noteq> [] \<and> length nonce \<le> 1024 \<and>
     key_ok limits (cert_caller_algorithm c) (text_of (cert_certified_key c)) \<and>
     length (cert_key_id c) \<le> 1024 \<and>
     (\<exists>name. cert_principals c = [name] \<and> ascii_nonempty name \<and> length name \<le> 256) \<and>
     cert_valid_after c < cert_valid_before c \<and> cert_valid_before c \<noteq> - 1 \<and>
     cert_token c \<noteq> [] \<and> length (cert_token c) \<le> max_token_bytes limits \<and>
     set (cert_permission_extensions c) \<subseteq> set permission_names \<and>
     sorted_wrt (<) (cert_permission_extensions c) \<and>
     Suc (length (cert_permission_extensions c)) \<le> max_extensions limits \<and>
     (\<exists>k. key_ok limits (cert_caller_algorithm c) k \<and>
        text_of (cert_signature_key c) =
          ssh_string (key_name (cert_caller_algorithm c)) @ key_fields (cert_caller_algorithm c) k) \<and>
     cert_signature_algorithm c = key_name (cert_caller_algorithm c) \<and>
     signature_ok (cert_caller_algorithm c) (text_of (cert_signature c)) \<and>
     cert_signed_bytes c = bytes (certificate_tbs nonce c)"

interpretation certified_key_reader:
  field_reader "parse_certified_key a limits" "\<lambda>key. key_fields a (text_of key)"
    "\<lambda>key. key_ok limits a (text_of key)" for a limits
proof
  show "parse_certified_key a limits (between p (key_fields a (text_of key) @ t)) =
      Inr (key, between (p @ key_fields a (text_of key)) t)"
    if "key_ok limits a (text_of key)" for key p t
    using that
    by (cases a) (simp_all add: parse_certified_key_def key_fields_def key_ok_def valid_ecdsa_point_def
        openssh_read_encs ssh_string_ok_def)
  show "key_ok limits a (text_of key) \<and> (\<exists>t. x = key_fields a (text_of key) @ t)"
    if "parse_certified_key a limits (between p x) = Inr (key, r')" for key p x r'
    using that
    by (cases a) (auto simp: parse_certified_key_def key_fields_def key_ok_def
        openssh_ebind_iffs ssh_string_ok_def split: if_splits)
qed

lemma certificate_type_iff:
  "(if type = kEcdsaCertificate then Inr openssh_es256
    else if type = kEd25519Certificate then Inr openssh_ed25519
    else Inl unsupported_algorithm) = Inr a \<longleftrightarrow> type = certificate_name a"
  by (cases a) auto

lemma parse_certificate_sound:
  assumes "parse_certificate blob limits = Inr c"
  shows "\<exists>nonce. certificate_wf limits nonce c \<and> blob = certificate_blob nonce c"
proof -
  have lim: "\<not> invalid_openssh_limits limits" "length blob \<le> max_certificate_bytes limits"
    using assms by (auto simp: parse_certificate_def split: if_splits)
  from assms lim obtain type r1 a nonce r2 key r3 serial r4 cls r5 key_id r6 pblob r7 ps
      valid_after r8 valid_before r9 options r10 eblob r11 reserved r12 kblob r13 token perms skey
      sblob r14 algorithm sig where
    reads: "openssh_string (max_name_bytes limits) (between [] blob) = Inr (type, r1)"
      "openssh_string 1024 r1 = Inr (nonce, r2)"
      "parse_certified_key a limits r2 = Inr (key, r3)"
      "openssh_u64 r3 = Inr (serial, r4)" "openssh_u32 r4 = Inr (cls, r5)"
      "openssh_string 1024 r5 = Inr (key_id, r6)"
      "openssh_string (max_certificate_bytes limits) r6 = Inr (pblob, r7)"
      "openssh_u64 r7 = Inr (valid_after, r8)" "openssh_u64 r8 = Inr (valid_before, r9)"
      "openssh_string (max_certificate_bytes limits) r9 = Inr (options, r10)"
      "openssh_string (max_certificate_bytes limits) r10 = Inr (eblob, r11)"
      "openssh_string (max_certificate_bytes limits) r11 = Inr (reserved, r12)"
      "openssh_string (max_certificate_bytes limits) r12 = Inr (kblob, r13)"
      "openssh_string 512 r13 = Inr (sblob, r14)" "at_end r14" and
    guards: "type = certificate_name a" "nonce \<noteq> []" "cls = 1" "length ps = 1"
      "valid_before \<noteq> - 1" "\<not> valid_before \<le> valid_after" "options = []" "reserved = []"
      "token \<noteq> []" and
    parts: "parse_principals limits (start_cursor pblob) [] = Inr ps"
      "parse_extensions limits (start_cursor eblob) [] 0 [] [] = Inr (token, perms)"
      "parse_public_key_blob kblob a limits = Inr skey"
      "parse_signature_blob sblob a limits = Inr (algorithm, sig)" and
    c: "c = \<lparr>cert_caller_algorithm = a, cert_certified_key = key, cert_serial = serial,
          cert_key_id = key_id, cert_principals = ps, cert_valid_after = valid_after,
          cert_valid_before = valid_before, cert_permission_extensions = perms, cert_token = token,
          cert_signature_key = skey, cert_signature_algorithm = algorithm, cert_signature = sig,
          cert_signed_bytes = bytes (sv_substr blob 0 (cur_offset r13))\<rparr>"
    by (simp add: parse_certificate_def start_cursor_between [of blob] certificate_type_iff
        expected_iffs cong: if_cong) (elim exE conjE, rule that, (assumption | rule sym, assumption | simp)+)
  have kb: "length (key_name a) \<le> max_name_bytes limits" "skey = bytes kblob"
      "\<exists>k. key_ok limits a k \<and> kblob = ssh_string (key_name a) @ key_fields a k"
    using parse_public_key_blob_sound [OF parts(3)] by auto
  obtain signature where sg: "algorithm = key_name a" "signature_ok a signature"
      "sig = bytes signature" "sblob = ssh_string algorithm @ ssh_string signature"
    using parse_signature_blob_sound [OF parts(4)] by auto
  have pr: "pblob = concat (map ssh_string ps)"
      "\<exists>name. ps = [name] \<and> ascii_nonempty name \<and> length name \<le> 256"
    using parse_principals_sound [of limits "[]" pblob "[]" ps] parts(1) guards(4)
    by (auto simp: start_cursor_between length_Suc_conv)
  have "0 < max_extensions limits" using lim by (auto simp: invalid_openssh_limits_def)
  note ex = extension_blob_sound [OF parts(2) guards(9) this]
  note r1 = openssh_string_reader.read_consumed [OF reads(1) reached_between]
  note r2 = openssh_string_reader.read_consumed [OF reads(2) r1(3)]
  note r3 = certified_key_reader.read_consumed [OF reads(3) r2(3)]
  note r4 = openssh_u64_reader.read_consumed [OF reads(4) r3(3)]
  note r5 = openssh_u32_reader.read_consumed [OF reads(5) r4(3)]
  note r6 = openssh_string_reader.read_consumed [OF reads(6) r5(3)]
  note r7 = openssh_string_reader.read_consumed [OF reads(7) r6(3)]
  note r8 = openssh_u64_reader.read_consumed [OF reads(8) r7(3)]
  note r9 = openssh_u64_reader.read_consumed [OF reads(9) r8(3)]
  note r10 = openssh_string_reader.read_consumed [OF reads(10) r9(3)]
  note r11 = openssh_string_reader.read_consumed [OF reads(11) r10(3)]
  note r12 = openssh_string_reader.read_consumed [OF reads(12) r11(3)]
  note r13 = openssh_string_reader.read_consumed [OF reads(13) r12(3)]
  note r14 = openssh_string_reader.read_consumed [OF reads(14) r13(3)]
  have tbs_fields: "certificate_tbs nonce c = ssh_string type @ ssh_string nonce @
      key_fields a (text_of key) @ ssh_u64 serial @ ssh_u32 cls @ ssh_string key_id @
      ssh_string pblob @ ssh_u64 valid_after @ ssh_u64 valid_before @ ssh_string options @
      ssh_string eblob @ ssh_string reserved @ ssh_string kblob"
    using guards kb(2) pr(1) ex by (simp add: c certificate_tbs_def)
  have tbs: "consumed (between [] blob) (certificate_tbs nonce c) r13"
    unfolding tbs_fields
    by (rule consumed_append [OF r1(2)], rule consumed_append [OF r2(2)],
        rule consumed_append [OF r3(2)], rule consumed_append [OF r4(2)],
        rule consumed_append [OF r5(2)], rule consumed_append [OF r6(2)],
        rule consumed_append [OF r7(2)], rule consumed_append [OF r8(2)],
        rule consumed_append [OF r9(2)], rule consumed_append [OF r10(2)],
        rule consumed_append [OF r11(2)], rule consumed_append [OF r12(2)], rule r13(2))
  have "consumed (between [] blob) (certificate_blob nonce c) r14"
    unfolding certificate_blob_def
    by (rule consumed_append [OF tbs]) (use r14(2) sg in \<open>simp add: c\<close>)
  then have blob: "blob = certificate_blob nonce c" using reads(15) by (rule consumed_all)
  have off: "cur_offset r13 = length (certificate_tbs nonce c)"
    using consumed_start [OF tbs] by simp
  have ok: "key_ok limits a (text_of key)" "length nonce \<le> 1024" "length key_id \<le> 1024"
      "length type \<le> max_name_bytes limits"
    using r1(1) r2(1) r3(1) r6(1) by (simp_all add: ssh_string_ok_def)
  have fields: "cert_caller_algorithm c = a" "cert_certified_key c = key" "cert_key_id c = key_id"
      "cert_principals c = ps" "cert_valid_after c = valid_after" "cert_valid_before c = valid_before"
      "cert_permission_extensions c = perms" "cert_token c = token" "cert_signature_key c = skey"
      "cert_signature_algorithm c = algorithm" "cert_signature c = sig"
    by (simp_all add: c)
  have "sv_substr blob 0 (cur_offset r13) = certificate_tbs nonce c"
    unfolding off by (subst blob) (simp add: sv_substr_def certificate_blob_def)
  moreover have "cert_signed_bytes c = bytes (sv_substr blob 0 (cur_offset r13))" by (simp add: c)
  ultimately have "cert_signed_bytes c = bytes (certificate_tbs nonce c)" by simp
  moreover have "length (certificate_blob nonce c) \<le> max_certificate_bytes limits"
    using lim(2) blob by simp
  ultimately have "certificate_wf limits nonce c"
    using lim(1) ok guards kb sg pr(2) ex
    by (simp add: certificate_wf_def fields not_le)
  with blob show ?thesis by blast
qed

lemma parse_certificate_complete:
  assumes wf: "certificate_wf limits nonce c" and blob: "blob = certificate_blob nonce c"
  shows "parse_certificate blob limits = Inr c"
proof -
  define a where "a = cert_caller_algorithm c"
  define eblob where "eblob = carrier_extension (cert_token c) @
      concat (map permission_extension (cert_permission_extensions c))"
  define pblob where "pblob = concat (map ssh_string (cert_principals c))"
  define kblob where "kblob = text_of (cert_signature_key c)"
  define sblob where "sblob = ssh_string (key_name a) @ ssh_string (text_of (cert_signature c))"
  have lim: "\<not> invalid_openssh_limits limits" "length blob \<le> max_certificate_bytes limits"
      "max_certificate_bytes limits \<le> 49152" "0 < max_principals limits"
    using wf blob by (auto simp: certificate_wf_def invalid_openssh_limits_def)
  have names: "length (certificate_name a) \<le> max_name_bytes limits"
      "length (key_name a) \<le> max_name_bytes limits" "32 \<le> max_name_bytes limits"
    using wf by (cases a; simp add: certificate_wf_def a_def)+
  have alg: "cert_signature_algorithm c = key_name a" using wf by (simp add: certificate_wf_def a_def)
  have fields: "blob = ssh_string (certificate_name a) @ ssh_string nonce @
      key_fields a (text_of (cert_certified_key c)) @ ssh_u64 (cert_serial c) @ ssh_u32 1 @
      ssh_string (cert_key_id c) @ ssh_string pblob @ ssh_u64 (cert_valid_after c) @
      ssh_u64 (cert_valid_before c) @ ssh_string '''' @ ssh_string eblob @ ssh_string '''' @
      ssh_string kblob @ ssh_string sblob"
    by (simp add: blob certificate_blob_def certificate_tbs_def a_def pblob_def eblob_def
        kblob_def sblob_def alg)
  have signed: "bytes (sv_substr blob 0 (length (certificate_tbs nonce c))) = cert_signed_bytes c"
    using wf by (simp add: blob certificate_blob_def sv_substr_def certificate_wf_def)
  have tbs: "certificate_tbs nonce c = ssh_string (certificate_name a) @ ssh_string nonce @
      key_fields a (text_of (cert_certified_key c)) @ ssh_u64 (cert_serial c) @ ssh_u32 1 @
      ssh_string (cert_key_id c) @ ssh_string pblob @ ssh_u64 (cert_valid_after c) @
      ssh_u64 (cert_valid_before c) @ ssh_string '''' @ ssh_string eblob @ ssh_string '''' @
      ssh_string kblob"
    by (simp add: certificate_tbs_def a_def pblob_def eblob_def kblob_def)
  have sizes: "ssh_string_ok (max_name_bytes limits) (certificate_name a)"
      "ssh_string_ok 1024 nonce" "ssh_string_ok 1024 (cert_key_id c)"
      "ssh_string_ok (max_certificate_bytes limits) pblob"
      "ssh_string_ok (max_certificate_bytes limits) eblob"
      "ssh_string_ok (max_certificate_bytes limits) kblob"
      "ssh_string_ok (max_certificate_bytes limits) ''''"
    using wf lim names by (simp_all add: certificate_wf_def ssh_string_ok_def fields)
  have token: "length (cert_token c) < 2 ^ 30" "4 + length (cert_token c) \<le> max_certificate_bytes limits"
    using lim fields by (simp_all add: eblob_def carrier_extension_def)
  have sig: "ssh_string_ok 512 sblob"
    using wf signature_ok_length [of a "text_of (cert_signature c)"]
    by (cases a) (simp_all add: certificate_wf_def ssh_string_ok_def sblob_def a_def)
  have principals: "parse_principals limits (start_cursor pblob) [] = Inr (cert_principals c)"
    using wf lim parse_principals_complete [of "cert_principals c" "[]" limits "[]"]
    by (auto simp: certificate_wf_def pblob_def start_cursor_between)
  have extensions: "parse_extensions limits (start_cursor eblob) [] 0 [] [] =
      Inr (cert_token c, cert_permission_extensions c)"
    unfolding eblob_def
  proof (rule extension_blob_complete)
    show "\<forall>name\<in>set (cert_permission_extensions c). length name \<le> max_name_bytes limits"
      using wf names(3) permission_names_facts by (fastforce simp: certificate_wf_def)
  qed (use wf token names(3) in \<open>auto simp: certificate_wf_def\<close>)
  have key: "parse_public_key_blob kblob a limits = Inr (cert_signature_key c)"
  proof -
    obtain k where "key_ok limits a k" "kblob = ssh_string (key_name a) @ key_fields a k"
      using wf by (auto simp: certificate_wf_def kblob_def a_def)
    with parse_public_key_blob_complete [OF names(2)]
    have "parse_public_key_blob kblob a limits = Inr (bytes kblob)" by blast
    then show ?thesis by (simp add: kblob_def)
  qed
  have signature: "parse_signature_blob sblob a limits = Inr (key_name a, cert_signature c)"
    using wf names(2) parse_signature_blob_complete [of a limits "text_of (cert_signature c)" sblob]
    by (simp add: certificate_wf_def sblob_def a_def)
  have certified: "key_ok limits a (text_of (cert_certified_key c))"
    using wf by (simp add: certificate_wf_def a_def)
  have off: "cur_offset (between (ssh_string (certificate_name a) @ ssh_string nonce @
      key_fields a (text_of (cert_certified_key c)) @ ssh_u64 (cert_serial c) @ ssh_u32 1 @
      ssh_string (cert_key_id c) @ ssh_string pblob @ ssh_u64 (cert_valid_after c) @
      ssh_u64 (cert_valid_before c) @ ssh_string '''' @ ssh_string eblob @ ssh_string '''' @
      ssh_string kblob) t) = length (certificate_tbs nonce c)" for t
    by (simp only: tbs between_simps)
  have first_read: "openssh_string (max_name_bytes limits) (start_cursor blob) =
      Inr (certificate_name a, between (ssh_string (certificate_name a)) (ssh_string nonce @
      key_fields a (text_of (cert_certified_key c)) @ ssh_u64 (cert_serial c) @ ssh_u32 1 @
      ssh_string (cert_key_id c) @ ssh_string pblob @ ssh_u64 (cert_valid_after c) @
      ssh_u64 (cert_valid_before c) @ ssh_string '''' @ ssh_string eblob @ ssh_string '''' @
      ssh_string kblob @ ssh_string sblob))"
    using openssh_string_reader.read_enc [OF sizes(1), of "[]"]
    by (simp add: fields start_cursor_between)
  have guards: "nonce \<noteq> []" "cert_valid_before c \<noteq> - 1" "\<not> cert_valid_before c \<le> cert_valid_after c"
      "cert_token c \<noteq> []" "length (cert_principals c) = 1" "\<not> length blob > max_certificate_bytes limits"
    using wf lim by (auto simp: certificate_wf_def)
  note evaluate = first_read certificate_type_iff [THEN iffD2, OF refl] sizes sig certified
    openssh_read_encs certified_key_reader.read_enc principals extensions key signature guards lim(1) off
  have "parse_certificate blob limits = Inr \<lparr>cert_caller_algorithm = a,
      cert_certified_key = cert_certified_key c, cert_serial = cert_serial c,
      cert_key_id = cert_key_id c, cert_principals = cert_principals c,
      cert_valid_after = cert_valid_after c, cert_valid_before = cert_valid_before c,
      cert_permission_extensions = cert_permission_extensions c, cert_token = cert_token c,
      cert_signature_key = cert_signature_key c, cert_signature_algorithm = key_name a,
      cert_signature = cert_signature c, cert_signed_bytes = cert_signed_bytes c\<rparr>"
    by (simp add: parse_certificate_def evaluate signed
        cong: ebind_weak_cong prod.case_cong_weak del: between_simps(2))
  also have "\<dots> = Inr c" using alg by (cases c) (simp add: a_def)
  finally show ?thesis .
qed

text \<open>
  C7. The certificate parser accepts exactly the encodings of well-formed certificates: for
  either key type, the parsed record determines the blob up to the nonce, nothing follows the
  signature, the one principal, the finite validity window, the empty critical options and
  reserved field, the sorted allowed permissions and the single non-empty carrier token are all
  enforced, and \<^verbatim>\<open>signed_bytes\<close> is the encoding of everything before the signature.
\<close>

theorem parse_certificate_iff:
  "parse_certificate blob limits = Inr c \<longleftrightarrow>
     (\<exists>nonce. certificate_wf limits nonce c \<and> blob = certificate_blob nonce c)"
  using parse_certificate_sound parse_certificate_complete by blast

text \<open>
  The scalars of an ECDSA certificate signature are accepted exactly when they are the
  shortest SSH encodings of positive integers.
\<close>

theorem valid_positive_mpint_canonical:
  "valid_positive_mpint value \<longleftrightarrow> (\<exists>n. 0 < n \<and> value = ssh_mpint n)"
  by (rule valid_positive_mpint_iff)

section \<open>A certificate\<close>

definition example_certificate :: Certificate where
  "example_certificate =
     (let c = \<lparr>cert_caller_algorithm = openssh_ed25519, cert_certified_key = replicate 32 7,
        cert_serial = 1, cert_key_id = ''id'', cert_principals = [''alice''],
        cert_valid_after = 10, cert_valid_before = 20,
        cert_permission_extensions = [''permit-agent-forwarding'', ''permit-pty''],
        cert_token = [1, 2, 3],
        cert_signature_key = bytes (ssh_string kEd25519Key @ ssh_string (text_of (replicate 32 9))),
        cert_signature_algorithm = kEd25519Key, cert_signature = replicate 64 5,
        cert_signed_bytes = []\<rparr>
      in c\<lparr>cert_signed_bytes := bytes (certificate_tbs ''nonce'' c)\<rparr>)"

lemma certificate_tbs_signed [simp]:
  "certificate_tbs nonce (c\<lparr>cert_signed_bytes := s\<rparr>) = certificate_tbs nonce c"
  by (simp add: certificate_tbs_def)

lemma example_certificate_wf: "certificate_wf default_openssh_limits ''nonce'' example_certificate"
  by (simp add: example_certificate_def Let_def certificate_wf_def certificate_blob_def
      default_openssh_limits_def invalid_openssh_limits_def key_ok_def ascii_nonempty_def
      permission_names_def key_fields_def carrier_extension_def permission_extension_def)
    (simp add: certificate_tbs_def carrier_extension_def permission_extension_def key_fields_def)

lemma example_certificate_parses:
  "parse_certificate (certificate_blob ''nonce'' example_certificate) default_openssh_limits =
     Inr example_certificate"
  using parse_certificate_complete [OF example_certificate_wf refl] .

end
