(* ===== verification/Cb_Sax.thy ===== *)
theory Cb_Sax
  imports Cb_Prelude Complex_Main
begin

text \<open>
  The event interface between the vendored JSON lexer and the strict handlers of the sources
  (\<^verbatim>\<open>CoreEnvelopeSax\<close>, \<^verbatim>\<open>JwksSax\<close>, \<^verbatim>\<open>ObjectSax\<close>,
  \<^verbatim>\<open>HeaderSax\<close> and \<^verbatim>\<open>ConfigSax\<close>).

  The lexer is not code of the repository: it is a parameter of the model, a function from the
  input text to the callbacks it makes. What the library documents of it is \<open>events_of\<close>: the
  callbacks of a well-formed document. \<open>sax_run\<close> is the loop that stops at the first callback
  that returns false.

  The last three handlers build a JSON value and differ only in their bounds and error kinds.
  The locale \<open>dom_handler\<close> is what they share; its lemma \<open>accepts_iff\<close>, proved once, says which
  documents such a handler accepts and with which value.
\<close>

section \<open>JSON values\<close>

text \<open>
  \<^verbatim>\<open>nlohmann::json\<close>. A finite \<^verbatim>\<open>double\<close> is its rational value. An object is the list
  of its members: in document order, with any duplicates, for a document; sorted by name and
  without duplicates, as \<^verbatim>\<open>std::map\<close> keeps it, for a value.
\<close>

datatype double = Finite rat | Infinite | NaN

definition isfinite :: "double \<Rightarrow> bool" where
  "isfinite d = (case d of Finite _ \<Rightarrow> True | _ \<Rightarrow> False)"

datatype json =
    JNull
  | JBool bool
  | JInteger int
  | JUnsigned u64
  | JFloat double
  | JString string
  | JArray "json list"
  | JObject "(string \<times> json) list"

definition is_string :: "json \<Rightarrow> bool" where
  "is_string j = (case j of JString _ \<Rightarrow> True | _ \<Rightarrow> False)"

definition get_string :: "json \<Rightarrow> string" where
  "get_string j = (case j of JString s \<Rightarrow> s | _ \<Rightarrow> '''')"

text \<open>\<^verbatim>\<open>object.find(name)\<close>, and \<^verbatim>\<open>find\<close> followed by \<^verbatim>\<open>is_string\<close>.\<close>

definition json_find :: "json \<Rightarrow> string \<Rightarrow> json option" where
  "json_find j name = (case j of JObject members \<Rightarrow> map_of members name | _ \<Rightarrow> None)"

definition json_string :: "json \<Rightarrow> string \<Rightarrow> string option" where
  "json_string j name = (case json_find j name of Some (JString s) \<Rightarrow> Some s | _ \<Rightarrow> None)"

text \<open>\<^verbatim>\<open>value[name] = v\<close> on the sorted members.\<close>

fun member_assign :: "string \<Rightarrow> json \<Rightarrow> (string \<times> json) list \<Rightarrow> (string \<times> json) list" where
  "member_assign name v [] = [(name, v)]"
| "member_assign name v ((name', v') # members) =
     (if name < name' then (name, v) # (name', v') # members
      else if name = name' then (name, v) # members
      else (name', v') # member_assign name v members)"

lemma map_of_member_assign [simp]: "map_of (member_assign name v members) = (map_of members)(name \<mapsto> v)"
  by (induction name v members rule: member_assign.induct) (auto simp: fun_eq_iff)

lemma set_member_assign_subset: "fst ` set (member_assign name v members) = insert name (fst ` set members)"
  by (induction name v members rule: member_assign.induct) auto

lemma sorted_member_assign:
  "sorted_wrt (<) (map fst members) \<Longrightarrow> sorted_wrt (<) (map fst (member_assign name v members))"
proof (induction name v members rule: member_assign.induct)
  case (2 name v name' v' members)
  then show ?case
    using set_member_assign_subset [of name v members]
    by (auto simp: image_image not_less_iff_gr_or_eq)
qed simp

section \<open>Callbacks\<close>

datatype sax_event =
    Ev_null
  | Ev_boolean bool
  | Ev_number_integer int
  | Ev_number_unsigned u64
  | Ev_number_float double
  | Ev_string string
  | Ev_binary
  | Ev_start_object
  | Ev_key string
  | Ev_end_object
  | Ev_start_array
  | Ev_end_array
  | Ev_parse_error

type_synonym json_lexer = "string \<Rightarrow> sax_event list"

fun sax_run :: "('s \<Rightarrow> sax_event \<Rightarrow> 's \<times> bool) \<Rightarrow> 's \<Rightarrow> sax_event list \<Rightarrow> 's \<times> bool" where
  "sax_run handler s [] = (s, True)"
| "sax_run handler s (e # es) =
     (case handler s e of (s', proceed) \<Rightarrow> if proceed then sax_run handler s' es else (s', False))"

fun events_of :: "json \<Rightarrow> sax_event list" where
  "events_of JNull = [Ev_null]"
| "events_of (JBool b) = [Ev_boolean b]"
| "events_of (JInteger i) = [Ev_number_integer i]"
| "events_of (JUnsigned n) = [Ev_number_unsigned n]"
| "events_of (JFloat d) = [Ev_number_float d]"
| "events_of (JString s) = [Ev_string s]"
| "events_of (JArray items) = Ev_start_array # concat (map events_of items) @ [Ev_end_array]"
| "events_of (JObject members) =
     Ev_start_object # concat (map (\<lambda>(name, v). Ev_key name # events_of v) members) @ [Ev_end_object]"

lemma sax_run_append:
  "sax_run handler s (es @ es') =
     (case sax_run handler s es of (s', proceed) \<Rightarrow> if proceed then sax_run handler s' es' else (s', False))"
  by (induction es arbitrary: s) (auto split: prod.splits)

lemma sax_run_append_True_iff:
  "sax_run handler s (es @ es') = (t, True) \<longleftrightarrow>
     (\<exists>s'. sax_run handler s es = (s', True) \<and> sax_run handler s' es' = (t, True))"
  by (auto simp: sax_run_append split: prod.splits if_splits)

lemma sax_run_Cons_True_iff:
  "sax_run handler s (e # es) = (t, True) \<longleftrightarrow>
     (\<exists>s'. handler s e = (s', True) \<and> sax_run handler s' es = (t, True))"
  by (auto split: prod.splits if_splits)

text \<open>The callbacks of the members of an object.\<close>

definition member_events :: "(string \<times> json) list \<Rightarrow> sax_event list" where
  "member_events members = concat (map (\<lambda>(name, v). Ev_key name # events_of v) members)"

lemma member_events_Nil [simp]: "member_events [] = []"
  by (simp add: member_events_def)

lemma member_events_Cons:
  "member_events ((name, v) # members) @ es = (Ev_key name # events_of v) @ member_events members @ es"
  by (simp add: member_events_def)

lemma events_of_object: "events_of (JObject members) = Ev_start_object # member_events members @ [Ev_end_object]"
  by (simp add: member_events_def)

text \<open>
  The contract of every handler: a callback that proceeds has recorded no error. So a run that
  proceeds to its end has recorded none either.
\<close>

locale sax_handler =
  fixes handler :: "'s \<Rightarrow> sax_event \<Rightarrow> 's \<times> bool"
    and failed :: "'s \<Rightarrow> bool"
  assumes proceeds_unfailed: "handler s e = (s', True) \<Longrightarrow> \<not> failed s \<Longrightarrow> \<not> failed s'"
begin

lemma run_unfailed: "sax_run handler s es = (t, True) \<Longrightarrow> \<not> failed s \<Longrightarrow> \<not> failed t"
  by (induction es arbitrary: s)
    (auto split: prod.splits if_splits dest: proceeds_unfailed)

end

end
