(* ===== verification/Cb_Strict_Json.thy ===== *)
theory Cb_Strict_Json
  imports Cb_Sax "HOL-Library.Multiset"
begin

text \<open>
  The strict parser of the credential envelope, \<^verbatim>\<open>src/strict_json.cpp\<close>: the handler
  \<^verbatim>\<open>CoreEnvelopeSax\<close>, callback by callback, and \<^verbatim>\<open>parse_core_envelope\<close>; then
  the proof of which documents it accepts.
\<close>

section \<open>Types\<close>

record strict_Limits =
  lim_max_bytes :: nat
  lim_max_depth :: nat
  lim_max_members :: nat
  lim_max_values :: nat
  lim_max_key_bytes :: nat

definition default_strict_limits :: strict_Limits where
  "default_strict_limits =
     \<lparr>lim_max_bytes = 32768, lim_max_depth = 32, lim_max_members = 4096, lim_max_values = 4096,
      lim_max_key_bytes = 256\<rparr>"

record CoreSignature =
  sig_protected_header :: string
  sig_signature :: string

record CoreEnvelope =
  env_payload :: string
  env_caller_signature :: CoreSignature
  env_evidence :: string

datatype core_context_kind = root_object | signatures_array | signature_object

record core_context =
  cc_kind :: core_context_kind
  cc_names :: "string set"
  cc_pending_name :: string
  cc_array_items :: nat

text \<open>The members of the handler; the back of \<^verbatim>\<open>stack_\<close> is the head of the list.\<close>

record CoreEnvelopeSax =
  cs_limits :: strict_Limits
  cs_stack :: "core_context list"
  cs_envelope :: CoreEnvelope
  cs_error :: ParseErrorKind
  cs_members :: nat
  cs_values :: nat
  cs_failed :: bool
  cs_have_payload :: bool
  cs_have_signatures :: bool
  cs_have_evidence :: bool
  cs_have_protected :: bool
  cs_have_signature :: bool

definition new_core_context :: "core_context_kind \<Rightarrow> core_context" where
  "new_core_context kind =
     \<lparr>cc_kind = kind, cc_names = {}, cc_pending_name = '''', cc_array_items = 0\<rparr>"

definition core_init :: "strict_Limits \<Rightarrow> CoreEnvelopeSax" where
  "core_init limits =
     \<lparr>cs_limits = limits, cs_stack = [],
      cs_envelope = \<lparr>env_payload = '''',
        env_caller_signature = \<lparr>sig_protected_header = '''', sig_signature = ''''\<rparr>, env_evidence = ''''\<rparr>,
      cs_error = malformed_input, cs_members = 0, cs_values = 0, cs_failed = False,
      cs_have_payload = False, cs_have_signatures = False, cs_have_evidence = False,
      cs_have_protected = False, cs_have_signature = False\<rparr>"

section \<open>The callbacks\<close>

definition core_fail :: "CoreEnvelopeSax \<Rightarrow> ParseErrorKind \<Rightarrow> CoreEnvelopeSax \<times> bool" where
  "core_fail s kind =
     (if \<not> cs_failed s then s\<lparr>cs_error := kind, cs_failed := True\<rparr> else s, False)"

definition core_count_value :: "CoreEnvelopeSax \<Rightarrow> CoreEnvelopeSax \<times> bool" where
  "core_count_value s =
     (let s = s\<lparr>cs_values := cs_values s + 1\<rparr> in
      if cs_values s > lim_max_values (cs_limits s) then core_fail s resource_limit else (s, True))"

definition core_count_container :: "CoreEnvelopeSax \<Rightarrow> CoreEnvelopeSax \<times> bool" where
  "core_count_container s =
     (case core_count_value s of (s, counted) \<Rightarrow>
        if \<not> counted then (s, False)
        else if length (cs_stack s) + 1 > lim_max_depth (cs_limits s) then core_fail s resource_limit
        else (s, True))"

definition core_wrong_scalar_type :: "CoreEnvelopeSax \<Rightarrow> CoreEnvelopeSax \<times> bool" where
  "core_wrong_scalar_type s =
     (case core_count_value s of (s, counted) \<Rightarrow>
        if \<not> counted then (s, False) else core_fail s malformed_input)"

definition core_clear_pending :: "CoreEnvelopeSax \<Rightarrow> CoreEnvelopeSax" where
  "core_clear_pending s =
     s\<lparr>cs_stack := (hd (cs_stack s))\<lparr>cc_pending_name := ''''\<rparr> # tl (cs_stack s)\<rparr>"

definition core_string :: "CoreEnvelopeSax \<Rightarrow> string \<Rightarrow> CoreEnvelopeSax \<times> bool" where
  "core_string s v =
     (case core_count_value s of (s, counted) \<Rightarrow>
        if \<not> counted then (s, False)
        else if cs_stack s = [] then core_fail s malformed_input
        else
          let context = hd (cs_stack s); envelope = cs_envelope s in
          case cc_kind context of
            root_object \<Rightarrow>
              if cc_pending_name context = ''payload'' then
                (core_clear_pending (s\<lparr>cs_envelope := envelope\<lparr>env_payload := v\<rparr>, cs_have_payload := True\<rparr>), True)
              else if cc_pending_name context = ''credbind_evidence'' then
                (core_clear_pending (s\<lparr>cs_envelope := envelope\<lparr>env_evidence := v\<rparr>, cs_have_evidence := True\<rparr>), True)
              else core_fail s malformed_input
          | signature_object \<Rightarrow>
              if cc_pending_name context = ''protected'' then
                (core_clear_pending (s\<lparr>cs_envelope := envelope\<lparr>env_caller_signature :=
                   (env_caller_signature envelope)\<lparr>sig_protected_header := v\<rparr>\<rparr>, cs_have_protected := True\<rparr>), True)
              else if cc_pending_name context = ''signature'' then
                (core_clear_pending (s\<lparr>cs_envelope := envelope\<lparr>env_caller_signature :=
                   (env_caller_signature envelope)\<lparr>sig_signature := v\<rparr>\<rparr>, cs_have_signature := True\<rparr>), True)
              else core_fail s malformed_input
          | signatures_array \<Rightarrow> core_fail s malformed_input)"

definition core_start_object :: "CoreEnvelopeSax \<Rightarrow> CoreEnvelopeSax \<times> bool" where
  "core_start_object s =
     (case core_count_container s of (s, counted) \<Rightarrow>
        if \<not> counted then (s, False)
        else if cs_stack s = [] then (s\<lparr>cs_stack := [new_core_context root_object]\<rparr>, True)
        else
          let parent = hd (cs_stack s) in
          if cc_kind parent \<noteq> signatures_array then core_fail s malformed_input
          else
            let parent = parent\<lparr>cc_array_items := cc_array_items parent + 1\<rparr>;
                s = s\<lparr>cs_stack := parent # tl (cs_stack s)\<rparr>
            in if cc_array_items parent > 1 then core_fail s malformed_input
               else (s\<lparr>cs_stack := new_core_context signature_object # cs_stack s\<rparr>, True))"

definition core_key :: "CoreEnvelopeSax \<Rightarrow> string \<Rightarrow> CoreEnvelopeSax \<times> bool" where
  "core_key s name =
     (if cs_stack s = [] \<or> cc_kind (hd (cs_stack s)) = signatures_array then core_fail s malformed_input
      else
        let s = s\<lparr>cs_members := cs_members s + 1\<rparr> in
        if cs_members s > lim_max_members (cs_limits s) \<or> length name > lim_max_key_bytes (cs_limits s)
        then core_fail s resource_limit
        else
          let context = hd (cs_stack s) in
          if name \<in> cc_names context then core_fail s malformed_input
          else
            let context = context\<lparr>cc_names := insert name (cc_names context)\<rparr>;
                s = s\<lparr>cs_stack := context # tl (cs_stack s)\<rparr>
            in if cc_kind context = root_object \<and>
                  name \<noteq> ''payload'' \<and> name \<noteq> ''signatures'' \<and> name \<noteq> ''credbind_evidence''
               then core_fail s malformed_input
               else if cc_kind context \<noteq> root_object \<and> name \<noteq> ''protected'' \<and> name \<noteq> ''signature''
               then core_fail s malformed_input
               else (s\<lparr>cs_stack := context\<lparr>cc_pending_name := name\<rparr> # tl (cs_stack s)\<rparr>, True))"

definition core_end_object :: "CoreEnvelopeSax \<Rightarrow> CoreEnvelopeSax \<times> bool" where
  "core_end_object s =
     (if cs_stack s = [] then core_fail s malformed_input
      else
        case cc_kind (hd (cs_stack s)) of
          root_object \<Rightarrow>
            if \<not> cs_have_payload s \<or> \<not> cs_have_signatures s \<or> \<not> cs_have_evidence s
            then core_fail s malformed_input
            else (s\<lparr>cs_stack := tl (cs_stack s)\<rparr>, True)
        | signature_object \<Rightarrow>
            if \<not> cs_have_protected s \<or> \<not> cs_have_signature s then core_fail s malformed_input
            else (s\<lparr>cs_stack := tl (cs_stack s)\<rparr>, True)
        | signatures_array \<Rightarrow> core_fail s malformed_input)"

definition core_start_array :: "CoreEnvelopeSax \<Rightarrow> CoreEnvelopeSax \<times> bool" where
  "core_start_array s =
     (case core_count_container s of (s, counted) \<Rightarrow>
        if \<not> counted \<or> cs_stack s = [] then (s, False)
        else
          let parent = hd (cs_stack s) in
          if cc_kind parent \<noteq> root_object \<or> cc_pending_name parent \<noteq> ''signatures''
          then core_fail s malformed_input
          else
            (s\<lparr>cs_have_signatures := True,
               cs_stack := new_core_context signatures_array #
                 parent\<lparr>cc_pending_name := ''''\<rparr> # tl (cs_stack s)\<rparr>, True))"

definition core_end_array :: "CoreEnvelopeSax \<Rightarrow> CoreEnvelopeSax \<times> bool" where
  "core_end_array s =
     (if cs_stack s = [] \<or> cc_kind (hd (cs_stack s)) \<noteq> signatures_array then core_fail s malformed_input
      else if cc_array_items (hd (cs_stack s)) \<noteq> 1 then core_fail s malformed_input
      else (s\<lparr>cs_stack := tl (cs_stack s)\<rparr>, True))"

definition core_step :: "CoreEnvelopeSax \<Rightarrow> sax_event \<Rightarrow> CoreEnvelopeSax \<times> bool" where
  "core_step s e =
     (case e of
        Ev_null \<Rightarrow> core_wrong_scalar_type s
      | Ev_boolean _ \<Rightarrow> core_wrong_scalar_type s
      | Ev_number_integer _ \<Rightarrow> core_wrong_scalar_type s
      | Ev_number_unsigned _ \<Rightarrow> core_wrong_scalar_type s
      | Ev_number_float _ \<Rightarrow> core_wrong_scalar_type s
      | Ev_string v \<Rightarrow> core_string s v
      | Ev_binary \<Rightarrow> core_fail s malformed_input
      | Ev_start_object \<Rightarrow> core_start_object s
      | Ev_key name \<Rightarrow> core_key s name
      | Ev_end_object \<Rightarrow> core_end_object s
      | Ev_start_array \<Rightarrow> core_start_array s
      | Ev_end_array \<Rightarrow> core_end_array s
      | Ev_parse_error \<Rightarrow> core_fail s malformed_input)"

definition parse_core_envelope :: "json_lexer \<Rightarrow> string \<Rightarrow> strict_Limits \<Rightarrow> CoreEnvelope expected" where
  "parse_core_envelope lexer input limits =
     (if lim_max_bytes limits = 0 \<or> lim_max_depth limits = 0 \<or> lim_max_members limits = 0 \<or>
         lim_max_values limits = 0 \<or> lim_max_key_bytes limits = 0
      then Inl resource_limit
      else if length input > lim_max_bytes limits then Inl resource_limit
      else
        case sax_run core_step (core_init limits) (lexer input) of (handler, parsed) \<Rightarrow>
          if \<not> parsed \<or> cs_failed handler then Inl (cs_error handler) else Inr (cs_envelope handler))"

lemmas core_callback_defs =
  core_step_def core_wrong_scalar_type_def core_string_def core_start_object_def core_key_def
  core_end_object_def core_start_array_def core_end_array_def core_count_container_def
  core_count_value_def core_fail_def core_clear_pending_def Let_def

interpretation core_sax: sax_handler core_step cs_failed
  by unfold_locales
    (auto simp: core_callback_defs split: sax_event.splits if_splits core_context_kind.splits prod.splits)

section \<open>Which documents are accepted\<close>

text \<open>What one member of a signature object does, when it is accepted.\<close>

definition set_signature_member :: "string \<Rightarrow> string \<Rightarrow> CoreSignature \<Rightarrow> CoreSignature" where
  "set_signature_member name x sig =
     (if name = ''protected'' then sig\<lparr>sig_protected_header := x\<rparr> else sig\<lparr>sig_signature := x\<rparr>)"

definition after_signature_member ::
  "CoreEnvelopeSax \<Rightarrow> core_context \<Rightarrow> core_context list \<Rightarrow> string \<Rightarrow> string \<Rightarrow> CoreEnvelopeSax" where
  "after_signature_member s c rest name x =
     s\<lparr>cs_members := cs_members s + 1, cs_values := cs_values s + 1,
       cs_stack := c\<lparr>cc_names := insert name (cc_names c), cc_pending_name := ''''\<rparr> # rest,
       cs_envelope := (cs_envelope s)\<lparr>env_caller_signature :=
         set_signature_member name x (env_caller_signature (cs_envelope s))\<rparr>,
       cs_have_protected := cs_have_protected s \<or> name = ''protected'',
       cs_have_signature := cs_have_signature s \<or> name = ''signature''\<rparr>"

lemma signature_member_iff:
  assumes "cs_stack s = c # rest" "cc_kind c = signature_object"
  shows "sax_run core_step s (Ev_key name # events_of v) = (t, True) \<longleftrightarrow>
     (\<exists>x. v = JString x \<and> name \<in> {''protected'', ''signature''} \<and> name \<notin> cc_names c \<and>
        cs_members s < lim_max_members (cs_limits s) \<and> length name \<le> lim_max_key_bytes (cs_limits s) \<and>
        cs_values s < lim_max_values (cs_limits s) \<and> t = after_signature_member s c rest name x)"
  using assms
  by (cases v)
    (auto simp: core_callback_defs after_signature_member_def set_signature_member_def
      split: prod.splits if_splits)

text \<open>The members of the one signature, in either order.\<close>

definition signature_members :: "CoreSignature \<Rightarrow> (string \<times> json) list \<Rightarrow> bool" where
  "signature_members sig members \<longleftrightarrow>
     mset members = {#(''protected'', JString (sig_protected_header sig)),
                      (''signature'', JString (sig_signature sig))#}"

lemma signature_members_iff:
  "signature_members sig members \<longleftrightarrow>
     members = [(''protected'', JString (sig_protected_header sig)), (''signature'', JString (sig_signature sig))] \<or>
     members = [(''signature'', JString (sig_signature sig)), (''protected'', JString (sig_protected_header sig))]"
proof
  assume *: "signature_members sig members"
  then have "length members = 2"
    unfolding signature_members_def by (metis size_mset size_add_mset size_empty numeral_2_eq_2)
  then obtain a b where "members = [a, b]"
    by (auto simp: numeral_2_eq_2 length_Suc_conv)
  with * show "members = [(''protected'', JString (sig_protected_header sig)), (''signature'', JString (sig_signature sig))] \<or>
     members = [(''signature'', JString (sig_signature sig)), (''protected'', JString (sig_protected_header sig))]"
    by (auto simp: signature_members_def add_eq_conv_ex)
qed (auto simp: signature_members_def add_mset_commute)

definition after_signature ::
  "CoreEnvelopeSax \<Rightarrow> core_context list \<Rightarrow> CoreSignature \<Rightarrow> CoreEnvelopeSax" where
  "after_signature s rest sig =
     s\<lparr>cs_members := cs_members s + 2, cs_values := cs_values s + 2, cs_stack := rest,
       cs_envelope := (cs_envelope s)\<lparr>env_caller_signature := sig\<rparr>,
       cs_have_protected := True, cs_have_signature := True\<rparr>"

lemma after_signature_member_simps [simp]:
  "cs_stack (after_signature_member s c rest name x) =
     c\<lparr>cc_names := insert name (cc_names c), cc_pending_name := ''''\<rparr> # rest"
  "cs_limits (after_signature_member s c rest name x) = cs_limits s"
  "cs_members (after_signature_member s c rest name x) = cs_members s + 1"
  "cs_values (after_signature_member s c rest name x) = cs_values s + 1"
  "cs_have_protected (after_signature_member s c rest name x) \<longleftrightarrow> cs_have_protected s \<or> name = ''protected''"
  "cs_have_signature (after_signature_member s c rest name x) \<longleftrightarrow> cs_have_signature s \<or> name = ''signature''"
  by (simp_all add: after_signature_member_def)

lemma after_two_signature_members:
  assumes "name \<noteq> name'" "name \<in> {''protected'', ''signature''}" "name' \<in> {''protected'', ''signature''}"
  shows "(after_signature_member (after_signature_member s c (r # rest) name x) c' (r # rest) name' x')
       \<lparr>cs_stack := r # rest\<rparr> =
     after_signature s (r # rest)
       (if name = ''protected'' then \<lparr>sig_protected_header = x, sig_signature = x'\<rparr>
        else \<lparr>sig_protected_header = x', sig_signature = x\<rparr>)"
  using assms
  by (intro CoreEnvelopeSax.equality CoreEnvelope.equality CoreSignature.equality)
    (auto simp: after_signature_member_def after_signature_def set_signature_member_def)

lemma ex_CoreSignature:
  "(\<exists>sig. P sig) \<longleftrightarrow> (\<exists>h g. P \<lparr>sig_protected_header = h, sig_signature = g\<rparr>)"
  by (metis CoreSignature.cases)

lemma signature_object_iff:
  assumes s: "cs_stack s = c # r # rest" "cc_kind c = signature_object" "cc_names c = {}"
    and fresh: "\<not> cs_have_protected s" "\<not> cs_have_signature s"
  shows "sax_run core_step s (member_events members @ [Ev_end_object]) = (t, True) \<longleftrightarrow>
     (\<exists>sig. signature_members sig members \<and> cs_members s + 2 \<le> lim_max_members (cs_limits s) \<and>
        9 \<le> lim_max_key_bytes (cs_limits s) \<and> cs_values s + 2 \<le> lim_max_values (cs_limits s) \<and>
        t = after_signature s (r # rest) sig)"
proof -
  have fin: "sax_run core_step s' [Ev_end_object] = (t, True) \<longleftrightarrow>
      cs_have_protected s' \<and> cs_have_signature s' \<and> t = s'\<lparr>cs_stack := rest'\<rparr>"
    if "cs_stack s' = c' # rest'" "cc_kind c' = signature_object" for s' c' rest' t
    using that by (auto simp: core_callback_defs)
  have run: "sax_run core_step s' (member_events ((name, v) # ms) @ [Ev_end_object]) = (t, True) \<longleftrightarrow>
      (\<exists>x. v = JString x \<and> name \<in> {''protected'', ''signature''} \<and> name \<notin> cc_names c' \<and>
        cs_members s' < lim_max_members (cs_limits s') \<and> length name \<le> lim_max_key_bytes (cs_limits s') \<and>
        cs_values s' < lim_max_values (cs_limits s') \<and>
        sax_run core_step (after_signature_member s' c' rest' name x) (member_events ms @ [Ev_end_object]) = (t, True))"
    if "cs_stack s' = c' # rest'" "cc_kind c' = signature_object" for s' c' rest' name v ms
    unfolding member_events_Cons sax_run_append_True_iff [of _ _ "Ev_key name # events_of v"]
      signature_member_iff [OF that] by auto
  consider (0) "members = []" | (1) m1 where "members = [m1]" | (2) m1 m2 where "members = [m1, m2]"
    | (3) m1 m2 m3 ms where "members = m1 # m2 # m3 # ms"
    by (metis list.exhaust)
  then show ?thesis
  proof cases
    case 0
    then show ?thesis using s fresh by (simp add: fin signature_members_iff del: sax_run.simps)
  next
    case 1
    then show ?thesis using s fresh
      by (cases m1) (auto simp: run fin signature_members_iff simp del: sax_run.simps)
  next
    case 2
    obtain n1 v1 n2 v2 where m: "m1 = (n1, v1)" "m2 = (n2, v2)" by (cases m1, cases m2)
    show ?thesis using 2 s fresh
      by (auto simp: m run fin signature_members_iff after_two_signature_members ex_CoreSignature
          simp del: sax_run.simps)
  next
    case 3
    obtain n1 v1 n2 v2 n3 v3 where m: "m1 = (n1, v1)" "m2 = (n2, v2)" "m3 = (n3, v3)"
      by (cases m1, cases m2, cases m3)
    show ?thesis using 3 s fresh
      by (auto simp: m run signature_members_iff simp del: sax_run.simps)
  qed
qed

text \<open>The array of signatures: exactly one object.\<close>

definition in_signatures_array :: "CoreEnvelopeSax \<Rightarrow> core_context \<Rightarrow> CoreEnvelopeSax" where
  "in_signatures_array s c =
     s\<lparr>cs_values := cs_values s + 1, cs_have_signatures := True,
       cs_stack := [new_core_context signatures_array, c\<lparr>cc_pending_name := ''''\<rparr>]\<rparr>"

definition in_signature_object :: "CoreEnvelopeSax \<Rightarrow> core_context \<Rightarrow> CoreEnvelopeSax" where
  "in_signature_object s c =
     s\<lparr>cs_values := cs_values s + 2, cs_have_signatures := True,
       cs_stack := [new_core_context signature_object,
         (new_core_context signatures_array)\<lparr>cc_array_items := Suc 0\<rparr>, c\<lparr>cc_pending_name := ''''\<rparr>]\<rparr>"

definition after_signatures :: "CoreEnvelopeSax \<Rightarrow> core_context \<Rightarrow> CoreSignature \<Rightarrow> CoreEnvelopeSax" where
  "after_signatures s c sig =
     s\<lparr>cs_values := cs_values s + 4, cs_members := cs_members s + 2, cs_have_signatures := True,
       cs_stack := [c\<lparr>cc_pending_name := ''''\<rparr>],
       cs_envelope := (cs_envelope s)\<lparr>env_caller_signature := sig\<rparr>,
       cs_have_protected := True, cs_have_signature := True\<rparr>"

lemma signatures_array_rejects:
  assumes "cs_stack s = a # rest" "cc_kind a = signatures_array" "cc_array_items a \<noteq> 0"
  shows "sax_run core_step s (events_of v @ es) \<noteq> (t, True)"
  using assms
  by (cases v) (auto simp: core_callback_defs split: prod.splits)

lemma signature_entry_object:
  assumes "cs_stack s = a # rest" "cc_kind a = signatures_array"
    and "sax_run core_step s (events_of v @ es) = (t, True)"
  shows "\<exists>ms. v = JObject ms"
  using assms
  by (cases v) (auto simp: core_callback_defs split: prod.splits if_splits)

lemma signatures_iff:
  assumes s: "cs_stack s = [c]" "cc_kind c = root_object" "cc_pending_name c = ''signatures''"
    and fresh: "\<not> cs_have_protected s" "\<not> cs_have_signature s"
  shows "sax_run core_step s (events_of v) = (t, True) \<longleftrightarrow>
     (\<exists>ms sig. v = JArray [JObject ms] \<and> signature_members sig ms \<and>
        cs_members s + 2 \<le> lim_max_members (cs_limits s) \<and> 9 \<le> lim_max_key_bytes (cs_limits s) \<and>
        cs_values s + 4 \<le> lim_max_values (cs_limits s) \<and> 3 \<le> lim_max_depth (cs_limits s) \<and>
        t = after_signatures s c sig)"
proof (cases "\<exists>items. v = JArray items")
  case False
  then show ?thesis using s
    by (cases v) (auto simp: core_callback_defs split: prod.splits if_splits)
next
  case True
  then obtain items where v: "v = JArray items" by blast
  have array: "core_step s Ev_start_array = (s1, True) \<longleftrightarrow>
      cs_values s < lim_max_values (cs_limits s) \<and> 2 \<le> lim_max_depth (cs_limits s) \<and>
      s1 = in_signatures_array s c" for s1
    using s by (auto simp: core_callback_defs in_signatures_array_def)
  have object: "core_step (in_signatures_array s c) Ev_start_object = (s2, True) \<longleftrightarrow>
      cs_values s + 2 \<le> lim_max_values (cs_limits s) \<and> 3 \<le> lim_max_depth (cs_limits s) \<and>
      s2 = in_signature_object s c" for s2
    by (auto simp: core_callback_defs in_signatures_array_def in_signature_object_def new_core_context_def)
  have members: "sax_run core_step (in_signature_object s c) (member_events ms @ [Ev_end_object]) = (s3, True) \<longleftrightarrow>
      (\<exists>sig. signature_members sig ms \<and> cs_members s + 2 \<le> lim_max_members (cs_limits s) \<and>
        9 \<le> lim_max_key_bytes (cs_limits s) \<and> cs_values s + 4 \<le> lim_max_values (cs_limits s) \<and>
        s3 = after_signature (in_signature_object s c)
          [(new_core_context signatures_array)\<lparr>cc_array_items := Suc 0\<rparr>, c\<lparr>cc_pending_name := ''''\<rparr>] sig)"
    for ms s3
    using fresh
    by (subst signature_object_iff) (auto simp: in_signature_object_def new_core_context_def)
  have arr: "cs_stack (in_signatures_array s c) = [new_core_context signatures_array, c\<lparr>cc_pending_name := ''''\<rparr>]"
    by (simp add: in_signatures_array_def)
  have array_end: "core_step (after_signature (in_signature_object s c)
        [(new_core_context signatures_array)\<lparr>cc_array_items := Suc 0\<rparr>, c\<lparr>cc_pending_name := ''''\<rparr>] sig) Ev_end_array =
      (after_signatures s c sig, True)" for sig
    by (auto simp: core_callback_defs after_signature_def in_signature_object_def new_core_context_def
        after_signatures_def)
  have entry: "\<exists>ms. i = JObject ms"
    if "sax_run core_step (in_signatures_array s c) (events_of i @ es) = (t', True)" for i es t'
    using arr _ that by (rule signature_entry_object) (simp add: new_core_context_def)
  consider (0) "items = []" | (1) ms where "items = [JObject ms]"
    | (2) i where "items = [i]" "\<nexists>ms. i = JObject ms" | (3) i j rest where "items = i # j # rest"
    by (metis list.exhaust)
  then show ?thesis
  proof cases
    case 0
    have "core_step (in_signatures_array s c) Ev_end_array \<noteq> (t, True)"
      by (auto simp: core_callback_defs in_signatures_array_def new_core_context_def)
    then show ?thesis using 0 by (auto simp: v array split: prod.splits if_splits)
  next
    case 1
    have tail: "sax_run core_step (in_signature_object s c) ((member_events ms @ [Ev_end_object]) @ [Ev_end_array]) =
        (t, True) \<longleftrightarrow>
        (\<exists>sig. signature_members sig ms \<and> cs_members s + 2 \<le> lim_max_members (cs_limits s) \<and>
          9 \<le> lim_max_key_bytes (cs_limits s) \<and> cs_values s + 4 \<le> lim_max_values (cs_limits s) \<and>
          t = after_signatures s c sig)"
      unfolding sax_run_append_True_iff [of _ _ "_ @ [Ev_end_object]"] members
      by (auto simp: array_end)
    have "events_of v = Ev_start_array # Ev_start_object # ((member_events ms @ [Ev_end_object]) @ [Ev_end_array])"
      by (simp add: v 1 member_events_def)
    then have "sax_run core_step s (events_of v) = (t, True) \<longleftrightarrow>
        (\<exists>s1. core_step s Ev_start_array = (s1, True) \<and> (\<exists>s2. core_step s1 Ev_start_object = (s2, True) \<and>
           sax_run core_step s2 ((member_events ms @ [Ev_end_object]) @ [Ev_end_array]) = (t, True)))"
      by (simp only: sax_run_Cons_True_iff)
    then show ?thesis
      unfolding array using object tail by (auto simp: v 1 simp del: append_assoc)
  next
    case 2
    then have "sax_run core_step (in_signatures_array s c) (events_of i @ [Ev_end_array]) \<noteq> (t, True)"
      using entry by blast
    then show ?thesis using 2 by (auto simp: v sax_run_Cons_True_iff array simp del: sax_run.simps(2))
  next
    case 3
    have "sax_run core_step (in_signatures_array s c) (events_of i @ events_of j @ es) \<noteq> (t, True)" for es
    proof
      assume *: "sax_run core_step (in_signatures_array s c) (events_of i @ events_of j @ es) = (t, True)"
      then obtain ms where i: "i = JObject ms"
        using entry by blast
      have "events_of i = Ev_start_object # (member_events ms @ [Ev_end_object])"
        by (simp add: i member_events_def)
      then have "events_of i @ events_of j @ es =
          Ev_start_object # ((member_events ms @ [Ev_end_object]) @ (events_of j @ es))" by simp
      from * [unfolded this sax_run_Cons_True_iff sax_run_append_True_iff [of _ _ "_ @ [Ev_end_object]"]]
      obtain s2 s3 where "core_step (in_signatures_array s c) Ev_start_object = (s2, True)"
        "sax_run core_step s2 (member_events ms @ [Ev_end_object]) = (s3, True)"
        "sax_run core_step s3 (events_of j @ es) = (t, True)"
        by blast
      then show False
        using members object signatures_array_rejects [of s3 "(new_core_context signatures_array)\<lparr>cc_array_items := Suc 0\<rparr>"]
        by (auto simp: after_signature_def new_core_context_def)
    qed
    then show ?thesis using 3 by (auto simp: v sax_run_Cons_True_iff array simp del: sax_run.simps(2))
  qed
qed

text \<open>The members of the root object.\<close>

definition after_root ::
  "CoreEnvelopeSax \<Rightarrow> core_context \<Rightarrow> string \<Rightarrow> nat \<Rightarrow> nat \<Rightarrow> CoreEnvelope \<Rightarrow> CoreEnvelopeSax" where
  "after_root s c name values members env =
     s\<lparr>cs_values := cs_values s + values, cs_members := cs_members s + members, cs_envelope := env,
       cs_stack := [c\<lparr>cc_names := insert name (cc_names c), cc_pending_name := ''''\<rparr>],
       cs_have_payload := cs_have_payload s \<or> name = ''payload'',
       cs_have_signatures := cs_have_signatures s \<or> name = ''signatures'',
       cs_have_evidence := cs_have_evidence s \<or> name = ''credbind_evidence'',
       cs_have_protected := cs_have_protected s \<or> name = ''signatures'',
       cs_have_signature := cs_have_signature s \<or> name = ''signatures''\<rparr>"

lemma after_root_simps [simp]:
  "cs_limits (after_root s c name values members env) = cs_limits s"
  "cs_stack (after_root s c name values members env) =
     [c\<lparr>cc_names := insert name (cc_names c), cc_pending_name := ''''\<rparr>]"
  "cs_envelope (after_root s c name values members env) = env"
  "cs_values (after_root s c name values members env) = cs_values s + values"
  "cs_members (after_root s c name values members env) = cs_members s + members"
  "cs_have_payload (after_root s c name values members env) \<longleftrightarrow> cs_have_payload s \<or> name = ''payload''"
  "cs_have_signatures (after_root s c name values members env) \<longleftrightarrow> cs_have_signatures s \<or> name = ''signatures''"
  "cs_have_evidence (after_root s c name values members env) \<longleftrightarrow> cs_have_evidence s \<or> name = ''credbind_evidence''"
  "cs_have_protected (after_root s c name values members env) \<longleftrightarrow> cs_have_protected s \<or> name = ''signatures''"
  "cs_have_signature (after_root s c name values members env) \<longleftrightarrow> cs_have_signature s \<or> name = ''signatures''"
  by (simp_all add: after_root_def)

definition root_member :: "CoreEnvelopeSax \<Rightarrow> core_context \<Rightarrow> string \<Rightarrow> json \<Rightarrow> CoreEnvelopeSax \<Rightarrow> bool" where
  "root_member s c name v t \<longleftrightarrow>
     name \<notin> cc_names c \<and> cs_members s < lim_max_members (cs_limits s) \<and>
     length name \<le> lim_max_key_bytes (cs_limits s) \<and>
     (name = ''payload'' \<and>
        (\<exists>x. v = JString x \<and> cs_values s < lim_max_values (cs_limits s) \<and>
           t = after_root s c name 1 1 ((cs_envelope s)\<lparr>env_payload := x\<rparr>)) \<or>
      name = ''credbind_evidence'' \<and>
        (\<exists>x. v = JString x \<and> cs_values s < lim_max_values (cs_limits s) \<and>
           t = after_root s c name 1 1 ((cs_envelope s)\<lparr>env_evidence := x\<rparr>)) \<or>
      name = ''signatures'' \<and>
        (\<exists>ms sig. v = JArray [JObject ms] \<and> signature_members sig ms \<and>
           cs_members s + 3 \<le> lim_max_members (cs_limits s) \<and> 9 \<le> lim_max_key_bytes (cs_limits s) \<and>
           cs_values s + 4 \<le> lim_max_values (cs_limits s) \<and> 3 \<le> lim_max_depth (cs_limits s) \<and>
           t = after_root s c name 4 3 ((cs_envelope s)\<lparr>env_caller_signature := sig\<rparr>)))"

lemma root_string_iff:
  assumes "cs_stack s = [c]" "cc_kind c = root_object" "cc_pending_name c \<noteq> ''signatures''"
  shows "sax_run core_step s (events_of v) = (t, True) \<longleftrightarrow>
     (\<exists>x. v = JString x \<and> core_string s x = (t, True))"
  using assms
  by (cases v) (auto simp: core_callback_defs split: prod.splits if_splits)

lemma root_member_iff:
  assumes s: "cs_stack s = [c]" "cc_kind c = root_object"
    and fresh: "''signatures'' \<notin> cc_names c \<longrightarrow> \<not> cs_have_protected s \<and> \<not> cs_have_signature s"
  shows "sax_run core_step s (Ev_key name # events_of v) = (t, True) \<longleftrightarrow> root_member s c name v t"
proof -
  let ?ok = "name \<notin> cc_names c \<and> cs_members s < lim_max_members (cs_limits s) \<and>
     length name \<le> lim_max_key_bytes (cs_limits s) \<and>
     name \<in> {''payload'', ''signatures'', ''credbind_evidence''}"
  let ?c = "c\<lparr>cc_names := insert name (cc_names c), cc_pending_name := name\<rparr>"
  let ?s = "s\<lparr>cs_members := cs_members s + 1, cs_stack := [?c]\<rparr>"
  have key: "core_step s (Ev_key name) = (s1, True) \<longleftrightarrow> ?ok \<and> s1 = ?s" for s1
    using s by (auto simp: core_callback_defs)
  have c: "cs_stack ?s = [?c]" "cc_kind ?c = root_object" "cc_pending_name ?c = name" using s by simp_all
  have "sax_run core_step s (Ev_key name # events_of v) = (t, True) \<longleftrightarrow>
      ?ok \<and> sax_run core_step ?s (events_of v) = (t, True)"
    unfolding sax_run_Cons_True_iff key by auto
  also have "\<dots> \<longleftrightarrow> root_member s c name v t"
  proof (cases "name = ''signatures''")
    case True
    show ?thesis
    proof (cases ?ok)
      case ok: True
      have "sax_run core_step ?s (events_of v) = (t, True) \<longleftrightarrow>
         (\<exists>ms sig. v = JArray [JObject ms] \<and> signature_members sig ms \<and>
            cs_members ?s + 2 \<le> lim_max_members (cs_limits ?s) \<and> 9 \<le> lim_max_key_bytes (cs_limits ?s) \<and>
            cs_values ?s + 4 \<le> lim_max_values (cs_limits ?s) \<and> 3 \<le> lim_max_depth (cs_limits ?s) \<and>
            t = after_signatures ?s ?c sig)"
        using True ok fresh c by (intro signatures_iff) simp_all
      moreover have "after_signatures ?s ?c sig =
          after_root s c name 4 3 ((cs_envelope s)\<lparr>env_caller_signature := sig\<rparr>)" for sig
        using True by (intro CoreEnvelopeSax.equality) (simp_all add: after_signatures_def after_root_def)
      ultimately show ?thesis using ok True by (auto simp: root_member_def)
    qed (use True in \<open>auto simp: root_member_def\<close>)
  next
    case False
    then have "cc_pending_name ?c \<noteq> ''signatures''" by simp
    note v_iff = root_string_iff [OF c(1,2) this, of v t]
    have payload: "core_clear_pending (?s\<lparr>cs_values := cs_values s + 1,
          cs_envelope := (cs_envelope s)\<lparr>env_payload := x\<rparr>, cs_have_payload := True\<rparr>) =
        after_root s c name 1 1 ((cs_envelope s)\<lparr>env_payload := x\<rparr>)" if "name = ''payload''" for x
      using that by (intro CoreEnvelopeSax.equality) (simp_all add: core_clear_pending_def after_root_def)
    have evidence: "core_clear_pending (?s\<lparr>cs_values := cs_values s + 1,
          cs_envelope := (cs_envelope s)\<lparr>env_evidence := x\<rparr>, cs_have_evidence := True\<rparr>) =
        after_root s c name 1 1 ((cs_envelope s)\<lparr>env_evidence := x\<rparr>)" if "name = ''credbind_evidence''" for x
      using that by (intro CoreEnvelopeSax.equality) (simp_all add: core_clear_pending_def after_root_def)
    have str: "core_string ?s x = (t, True) \<longleftrightarrow> cs_values s < lim_max_values (cs_limits s) \<and>
        (name = ''payload'' \<and> t = after_root s c name 1 1 ((cs_envelope s)\<lparr>env_payload := x\<rparr>) \<or>
         name = ''credbind_evidence'' \<and> t = after_root s c name 1 1 ((cs_envelope s)\<lparr>env_evidence := x\<rparr>))" for x
    proof (cases "cs_values s < lim_max_values (cs_limits s)")
      case True
      then have count: "core_count_value ?s = (?s\<lparr>cs_values := cs_values s + 1\<rparr>, True)"
        by (simp add: core_count_value_def Let_def)
      consider "name = ''payload''" | "name = ''credbind_evidence''"
        | "name \<noteq> ''payload''" "name \<noteq> ''credbind_evidence''" by blast
      then show ?thesis
      proof cases
        case 1
        have "core_string ?s x = (after_root s c name 1 1 ((cs_envelope s)\<lparr>env_payload := x\<rparr>), True)"
          unfolding core_string_def count payload [OF 1, symmetric] using 1 s(2) by (simp add: Let_def)
        then show ?thesis using True 1 by auto
      next
        case 2
        have "core_string ?s x = (after_root s c name 1 1 ((cs_envelope s)\<lparr>env_evidence := x\<rparr>), True)"
          unfolding core_string_def count evidence [OF 2, symmetric] using 2 s(2) by (simp add: Let_def)
        then show ?thesis using True 2 by auto
      next
        case 3
        then show ?thesis unfolding core_string_def count using s(2) by (simp add: Let_def core_fail_def)
      qed
    next
      case False
      then show ?thesis by (simp add: core_string_def core_count_value_def core_fail_def Let_def)
    qed
    show ?thesis
    proof (cases ?ok)
      case True
      with False consider "name = ''payload''" | "name = ''credbind_evidence''" by blast
      then show ?thesis
        unfolding v_iff str root_member_def by cases (use True in simp_all)
    next
      case no: False
      then have "\<not> root_member s c name v t" unfolding root_member_def by blast
      with no show ?thesis by blast
    qed
  qed
  finally show ?thesis .
qed

text \<open>
  A member of the envelope and the value it must have; the two lemmas below run all members,
  in any order.
\<close>

definition member_matches :: "CoreEnvelope \<Rightarrow> string \<Rightarrow> json \<Rightarrow> bool" where
  "member_matches env name v \<longleftrightarrow>
     name = ''payload'' \<and> v = JString (env_payload env) \<or>
     name = ''credbind_evidence'' \<and> v = JString (env_evidence env) \<or>
     name = ''signatures'' \<and>
       (\<exists>ms. v = JArray [JObject ms] \<and> signature_members (env_caller_signature env) ms)"

definition member_cost :: "string \<Rightarrow> nat \<times> nat" where
  "member_cost name = (if name = ''signatures'' then (4, 3) else (1, 1))"

abbreviation "value_cost members \<equiv> sum_list (map (\<lambda>(name, v). fst (member_cost name)) members)"
abbreviation "name_cost members \<equiv> sum_list (map (\<lambda>(name, v). snd (member_cost name)) members)"

definition envelope_names :: "string set" where
  "envelope_names = {''payload'', ''signatures'', ''credbind_evidence''}"

lemma member_matches_names: "member_matches env name v \<Longrightarrow> name \<in> envelope_names"
  unfolding member_matches_def envelope_names_def by blast

lemma member_matches_frame:
  "name \<noteq> ''payload'' \<Longrightarrow> member_matches (env\<lparr>env_payload := x\<rparr>) name v = member_matches env name v"
  "name \<noteq> ''credbind_evidence'' \<Longrightarrow> member_matches (env\<lparr>env_evidence := x\<rparr>) name v = member_matches env name v"
  "name \<noteq> ''signatures'' \<Longrightarrow>
     member_matches (env\<lparr>env_caller_signature := sig\<rparr>) name v = member_matches env name v"
  by (simp_all add: member_matches_def)

lemma root_member_cases:
  assumes "root_member s c name v t"
  obtains
    (payload) x where "name = ''payload''" "v = JString x" "cs_values s < lim_max_values (cs_limits s)"
      "t = after_root s c name 1 1 ((cs_envelope s)\<lparr>env_payload := x\<rparr>)"
  | (evidence) x where "name = ''credbind_evidence''" "v = JString x" "cs_values s < lim_max_values (cs_limits s)"
      "t = after_root s c name 1 1 ((cs_envelope s)\<lparr>env_evidence := x\<rparr>)"
  | (signatures) ms sig where "name = ''signatures''" "v = JArray [JObject ms]" "signature_members sig ms"
      "cs_members s + 3 \<le> lim_max_members (cs_limits s)" "9 \<le> lim_max_key_bytes (cs_limits s)"
      "cs_values s + 4 \<le> lim_max_values (cs_limits s)" "3 \<le> lim_max_depth (cs_limits s)"
      "t = after_root s c name 4 3 ((cs_envelope s)\<lparr>env_caller_signature := sig\<rparr>)"
  using assms unfolding root_member_def by blast

lemma root_member_fresh:
  assumes "root_member s c name v t"
  shows "name \<notin> cc_names c" "length name \<le> lim_max_key_bytes (cs_limits s)" "name \<in> envelope_names"
    "cs_members s < lim_max_members (cs_limits s)"
  using assms unfolding root_member_def envelope_names_def by blast+

lemma root_member_facts:
  assumes "root_member s c name v t"
  shows "member_matches (cs_envelope t) name v"
    "cs_values t = cs_values s + fst (member_cost name)"
    "cs_members t = cs_members s + snd (member_cost name)"
    "cs_values t \<le> lim_max_values (cs_limits s)" "cs_members t \<le> lim_max_members (cs_limits s)"
    "name = ''signatures'' \<Longrightarrow> 3 \<le> lim_max_depth (cs_limits s)"
    "cs_limits t = cs_limits s"
  using assms root_member_fresh(4) [OF assms]
  by (cases rule: root_member_cases; simp add: member_matches_def member_cost_def)+

lemma root_member_keeps:
  assumes "root_member s c name v t" "name' \<noteq> name"
  shows "member_matches (cs_envelope t) name' v' = member_matches (cs_envelope s) name' v'"
  using assms by (cases rule: root_member_cases) (simp_all add: member_matches_frame)

lemma root_member_exists:
  assumes "member_matches env name v" "name \<notin> cc_names c"
    and "cs_values s + fst (member_cost name) \<le> lim_max_values (cs_limits s)"
    and "cs_members s + snd (member_cost name) \<le> lim_max_members (cs_limits s)"
    and "17 \<le> lim_max_key_bytes (cs_limits s)" "3 \<le> lim_max_depth (cs_limits s)"
  shows "\<exists>t. root_member s c name v t"
  using assms unfolding member_matches_def
  by (elim disjE conjE exE) (auto simp: root_member_def member_cost_def)

text \<open>The state between members of the root object.\<close>

definition root_state :: "CoreEnvelopeSax \<Rightarrow> core_context \<Rightarrow> bool" where
  "root_state s c \<longleftrightarrow>
     cs_stack s = [c] \<and> cc_kind c = root_object \<and>
     (''signatures'' \<notin> cc_names c \<longrightarrow> \<not> cs_have_protected s \<and> \<not> cs_have_signature s) \<and>
     (cs_have_payload s \<longleftrightarrow> ''payload'' \<in> cc_names c) \<and>
     (cs_have_signatures s \<longleftrightarrow> ''signatures'' \<in> cc_names c) \<and>
     (cs_have_evidence s \<longleftrightarrow> ''credbind_evidence'' \<in> cc_names c)"

lemma root_state_step:
  assumes "root_state s c" "root_member s c name v t"
  shows "root_state t (c\<lparr>cc_names := insert name (cc_names c), cc_pending_name := ''''\<rparr>)"
  using assms(2) assms(1) by (cases rule: root_member_cases) (simp_all add: root_state_def)

lemma root_state_end:
  assumes "root_state s c"
  shows "sax_run core_step s [Ev_end_object] = (t, True) \<longleftrightarrow>
     envelope_names \<subseteq> cc_names c \<and> t = s\<lparr>cs_stack := []\<rparr>"
  using assms
  by (auto simp: core_step_def core_end_object_def core_fail_def root_state_def envelope_names_def)

lemma root_members_run:
  assumes "root_state s c"
  shows "sax_run core_step s (member_events ((name, v) # members) @ es) = (t, True) \<longleftrightarrow>
     (\<exists>s1. root_member s c name v s1 \<and> sax_run core_step s1 (member_events members @ es) = (t, True))"
proof -
  have "sax_run core_step s (Ev_key name # events_of v) = (s1, True) \<longleftrightarrow> root_member s c name v s1" for s1
    using assms by (intro root_member_iff) (simp_all add: root_state_def)
  then show ?thesis
    unfolding member_events_Cons sax_run_append_True_iff [of _ _ "Ev_key name # events_of v"] by simp
qed

definition needs_depth :: "string \<Rightarrow> bool" where
  "needs_depth name \<longleftrightarrow> name = ''signatures''"

lemma root_members_sound:
  assumes "root_state s c" "sax_run core_step s (member_events members @ [Ev_end_object]) = (t, True)"
  shows "distinct (map fst members) \<and> set (map fst members) \<inter> cc_names c = {} \<and>
     envelope_names \<subseteq> cc_names c \<union> set (map fst members) \<and>
     (\<forall>(name, v)\<in>set members. member_matches (cs_envelope t) name v \<and>
        length name \<le> lim_max_key_bytes (cs_limits s) \<and>
        (needs_depth name \<longrightarrow> 3 \<le> lim_max_depth (cs_limits s))) \<and>
     (\<forall>name v. name \<in> cc_names c \<longrightarrow>
        member_matches (cs_envelope t) name v = member_matches (cs_envelope s) name v) \<and>
     (members \<noteq> [] \<longrightarrow>
        cs_values s + value_cost members \<le> lim_max_values (cs_limits s) \<and>
        cs_members s + name_cost members \<le> lim_max_members (cs_limits s))"
  using assms
proof (induction members arbitrary: s c)
  case Nil
  then show ?case by (simp add: root_state_end del: sax_run.simps)
next
  case (Cons m members)
  obtain name v where m: "m = (name, v)" by (cases m)
  from Cons.prems obtain s1 where s1: "root_member s c name v s1"
      "sax_run core_step s1 (member_events members @ [Ev_end_object]) = (t, True)"
    by (auto simp: m root_members_run)
  note f = root_member_facts [OF s1(1)] and g = root_member_fresh [OF s1(1)]
  note IH = Cons.IH [OF root_state_step [OF Cons.prems(1) s1(1)] s1(2)]
  have keep: "member_matches (cs_envelope t) name' v' = member_matches (cs_envelope s) name' v'"
    if "name' \<in> cc_names c" for name' v'
    using IH that g(1) root_member_keeps [OF s1(1), of name' v'] by auto
  have "member_matches (cs_envelope t) name v" using IH f(1) by simp
  moreover have "needs_depth name \<longrightarrow> 3 \<le> lim_max_depth (cs_limits s)"
    using f(6) by (simp add: needs_depth_def)
  moreover have "cs_values s + value_cost (m # members) \<le> lim_max_values (cs_limits s)"
    "cs_members s + name_cost (m # members) \<le> lim_max_members (cs_limits s)"
    using IH f(2-5,7) by (cases members; simp add: m add.assoc)+
  ultimately show ?case
    using IH g(1,2) f(7) keep by (auto simp: m)
qed

lemma root_members_complete:
  assumes "root_state s c" "distinct (map fst members)" "set (map fst members) \<inter> cc_names c = {}"
    and "\<forall>(name, v)\<in>set members. member_matches env name v"
    and "cs_values s + value_cost members \<le> lim_max_values (cs_limits s)"
    and "cs_members s + name_cost members \<le> lim_max_members (cs_limits s)"
    and "17 \<le> lim_max_key_bytes (cs_limits s)" "3 \<le> lim_max_depth (cs_limits s)"
    and "envelope_names \<subseteq> cc_names c \<union> set (map fst members)"
  shows "\<exists>t. sax_run core_step s (member_events members @ [Ev_end_object]) = (t, True)"
  using assms
proof (induction members arbitrary: s c)
  case Nil
  then show ?case by (simp add: root_state_end del: sax_run.simps)
next
  case (Cons m members)
  obtain name v where m: "m = (name, v)" by (cases m)
  from Cons.prems have "\<exists>s1. root_member s c name v s1"
    by (intro root_member_exists [of env]) (auto simp: m)
  then obtain s1 where s1: "root_member s c name v s1" by blast
  note f = root_member_facts [OF s1]
  have "\<exists>t. sax_run core_step s1 (member_events members @ [Ev_end_object]) = (t, True)"
    by (rule Cons.IH [OF root_state_step [OF Cons.prems(1) s1]])
      (use Cons.prems(2-) f(2,3,7) in \<open>auto simp: m add.assoc\<close>)
  then show ?case using s1 root_members_run [OF Cons.prems(1)] by (auto simp: m)
qed

section \<open>The accepted envelopes\<close>

text \<open>
  The document of an envelope: an object whose members, in any order and none twice, are the
  payload, the evidence, and an array of exactly one signature object with its two members.
\<close>

definition envelope_document :: "CoreEnvelope \<Rightarrow> json \<Rightarrow> bool" where
  "envelope_document env t \<longleftrightarrow>
     (\<exists>members. t = JObject members \<and> distinct (map fst members) \<and>
        set (map fst members) = envelope_names \<and>
        (\<forall>(name, v)\<in>set members. member_matches env name v))"

text \<open>Five members and seven values at depth three; the longest name has 17 octets.\<close>

definition envelope_fits :: "strict_Limits \<Rightarrow> bool" where
  "envelope_fits limits \<longleftrightarrow>
     5 \<le> lim_max_members limits \<and> 7 \<le> lim_max_values limits \<and> 3 \<le> lim_max_depth limits \<and>
     17 \<le> lim_max_key_bytes limits"

lemma envelope_costs:
  assumes "distinct (map fst members)" "set (map fst members) = envelope_names"
  shows "value_cost members = 6" "name_cost members = 5"
proof -
  have sum: "sum_list (map (\<lambda>(name, v). f name) members) = (\<Sum>name\<in>envelope_names. f name)"
    for f :: "string \<Rightarrow> nat"
  proof -
    have "sum_list (map (\<lambda>(name, v). f name) members) = sum_list (map f (map fst members))"
      by (simp add: comp_def split_def)
    also have "\<dots> = sum f (set (map fst members))" by (rule sum_list_distinct_conv_sum_set [OF assms(1)])
    finally show ?thesis using assms(2) by simp
  qed
  show "value_cost members = 6" "name_cost members = 5"
    unfolding sum by (simp_all add: envelope_names_def member_cost_def)
qed

lemma member_matches_unique:
  assumes "\<forall>(name, v)\<in>set members. member_matches env name v"
    and "\<forall>(name, v)\<in>set members. member_matches env' name v"
    and "set (map fst members) = envelope_names"
  shows "env = env'"
proof -
  have ex: "\<exists>v. (name, v) \<in> set members" if "name \<in> envelope_names" for name
  proof -
    have "name \<in> fst ` set members" using assms(3) that by simp
    then show ?thesis by auto
  qed
  have "''payload'' \<in> envelope_names" "''credbind_evidence'' \<in> envelope_names" "''signatures'' \<in> envelope_names"
    by (simp_all add: envelope_names_def)
  with ex obtain p e g where m: "(''payload'', p) \<in> set members" "(''credbind_evidence'', e) \<in> set members"
      "(''signatures'', g) \<in> set members"
    by metis
  have both: "member_matches env name v" "member_matches env' name v" if "(name, v) \<in> set members" for name v
    using assms(1,2) that by blast+
  have "env_payload env = env_payload env'"
    using both [OF m(1)] by (simp add: member_matches_def)
  moreover have "env_evidence env = env_evidence env'"
    using both [OF m(2)] by (simp add: member_matches_def)
  moreover have "env_caller_signature env = env_caller_signature env'"
  proof -
    obtain ms where "signature_members (env_caller_signature env) ms"
        "signature_members (env_caller_signature env') ms"
      using both [OF m(3)] by (auto simp: member_matches_def)
    then show ?thesis by (auto simp: signature_members_iff)
  qed
  ultimately show ?thesis by simp
qed

lemma core_init_simps [simp]:
  "cs_limits (core_init limits) = limits" "cs_stack (core_init limits) = []"
  "cs_values (core_init limits) = 0" "cs_members (core_init limits) = 0"
  "\<not> cs_failed (core_init limits)"
  by (simp_all add: core_init_def)

definition core_started :: "strict_Limits \<Rightarrow> CoreEnvelopeSax" where
  "core_started limits =
     (core_init limits)\<lparr>cs_values := 1, cs_stack := [new_core_context root_object]\<rparr>"

lemma core_started_root: "root_state (core_started limits) (new_core_context root_object)"
  by (simp add: root_state_def core_started_def core_init_def new_core_context_def)

lemma core_run_start:
  "sax_run core_step (core_init limits) (events_of t) = (s, True) \<longleftrightarrow>
     (\<exists>members. t = JObject members \<and> 1 \<le> lim_max_values limits \<and> 1 \<le> lim_max_depth limits \<and>
        sax_run core_step (core_started limits) (member_events members @ [Ev_end_object]) = (s, True))"
proof (cases "\<exists>members. t = JObject members")
  case True
  then obtain members where t: "t = JObject members" by blast
  have "core_step (core_init limits) Ev_start_object = (s1, True) \<longleftrightarrow>
      1 \<le> lim_max_values limits \<and> 1 \<le> lim_max_depth limits \<and> s1 = core_started limits" for s1
    by (auto simp: core_callback_defs core_started_def)
  then show ?thesis
    unfolding t events_of_object sax_run_Cons_True_iff by auto
next
  case False
  then have "sax_run core_step (core_init limits) (events_of t) \<noteq> (s, True)"
    by (cases t) (auto simp: core_callback_defs split: prod.splits)
  with False show ?thesis by blast
qed

lemma core_run_envelope:
  "(\<exists>s. sax_run core_step (core_init limits) (events_of t) = (s, True) \<and> cs_envelope s = env) \<longleftrightarrow>
     envelope_document env t \<and> envelope_fits limits"
proof
  assume "\<exists>s. sax_run core_step (core_init limits) (events_of t) = (s, True) \<and> cs_envelope s = env"
  then obtain s members where t: "t = JObject members" and env: "cs_envelope s = env" and
      run: "sax_run core_step (core_started limits) (member_events members @ [Ev_end_object]) = (s, True)"
    unfolding core_run_start by blast
  note f = root_members_sound [OF core_started_root run]
  have c: "cc_names (new_core_context root_object) = {}" by (simp add: new_core_context_def)
  have each: "member_matches env name v \<and> length name \<le> lim_max_key_bytes limits \<and>
      (needs_depth name \<longrightarrow> 3 \<le> lim_max_depth limits)" if "(name, v) \<in> set members" for name v
    using f that env by (auto simp: core_started_def)
  have "set (map fst members) \<subseteq> envelope_names"
  proof (rule subsetI)
    fix name assume "name \<in> set (map fst members)"
    then obtain v where "(name, v) \<in> set members" by auto
    then have "member_matches env name v" using each by blast
    then show "name \<in> envelope_names" by (rule member_matches_names)
  qed
  with f have names: "set (map fst members) = envelope_names" unfolding c by blast
  have doc: "envelope_document env t"
    using f t each names unfolding envelope_document_def by blast
  have "''credbind_evidence'' \<in> set (map fst members)" "''signatures'' \<in> set (map fst members)"
    unfolding names by (simp_all add: envelope_names_def)
  then obtain e g where "(''credbind_evidence'', e) \<in> set members" "(''signatures'', g) \<in> set members"
    by auto
  from each [OF this(1)] each [OF this(2)] this
  have "17 \<le> lim_max_key_bytes limits" "3 \<le> lim_max_depth limits" "members \<noteq> []"
    by (auto simp: needs_depth_def)
  moreover have "value_cost members = 6" "name_cost members = 5"
    using envelope_costs [OF _ names] f by blast+
  ultimately have "envelope_fits limits"
    using f by (simp add: envelope_fits_def core_started_def)
  with doc show "envelope_document env t \<and> envelope_fits limits" by blast
next
  assume *: "envelope_document env t \<and> envelope_fits limits"
  then obtain members where t: "t = JObject members" and m: "distinct (map fst members)"
      "set (map fst members) = envelope_names" "\<forall>(name, v)\<in>set members. member_matches env name v"
    by (auto simp: envelope_document_def)
  have c: "cc_names (new_core_context root_object) = {}" by (simp add: new_core_context_def)
  have "\<exists>s. sax_run core_step (core_started limits) (member_events members @ [Ev_end_object]) = (s, True)"
    by (rule root_members_complete [OF core_started_root m(1) _ m(3)])
      (use * m(2) envelope_costs [OF m(1,2)] in \<open>simp_all add: c core_started_def envelope_fits_def\<close>)
  then obtain s where run: "sax_run core_step (core_started limits) (member_events members @ [Ev_end_object]) = (s, True)"
    by blast
  have "\<forall>(name, v)\<in>set members. member_matches (cs_envelope s) name v"
    using root_members_sound [OF core_started_root run] by fast
  then have "cs_envelope s = env" using member_matches_unique m(2,3) by blast
  moreover have "sax_run core_step (core_init limits) (events_of t) = (s, True)"
    unfolding core_run_start using t run * by (auto simp: envelope_fits_def)
  ultimately show "\<exists>s. sax_run core_step (core_init limits) (events_of t) = (s, True) \<and> cs_envelope s = env"
    by blast
qed

lemma parse_core_envelope_accepts:
  assumes "lexer input = events_of t"
  shows "parse_core_envelope lexer input limits = Inr env \<longleftrightarrow>
     envelope_document env t \<and> envelope_fits limits \<and>
     0 < lim_max_bytes limits \<and> length input \<le> lim_max_bytes limits"
proof -
  obtain s b where run: "sax_run core_step (core_init limits) (events_of t) = (s, b)"
    by fastforce
  have "\<not> cs_failed s" if b using core_sax.run_unfailed run that by (metis core_init_simps(5))
  then have "parse_core_envelope lexer input limits = Inr env \<longleftrightarrow>
      0 < lim_max_bytes limits \<and> 0 < lim_max_depth limits \<and> 0 < lim_max_members limits \<and>
      0 < lim_max_values limits \<and> 0 < lim_max_key_bytes limits \<and>
      length input \<le> lim_max_bytes limits \<and> b \<and> cs_envelope s = env"
    using assms run by (auto simp: parse_core_envelope_def)
  also have "b \<and> cs_envelope s = env \<longleftrightarrow> envelope_document env t \<and> envelope_fits limits"
    using core_run_envelope [of limits t env] run by auto
  finally show ?thesis by (auto simp: envelope_fits_def)
qed

text \<open>
  C8. On a well-formed JSON text the envelope parser accepts exactly the envelope documents: the
  three members and the one signature object with its two members, in any order, nothing
  missing, duplicated or added, strings and containers in their places; and it returns their
  strings. The only bounds that matter are the input size, 5 members, 7 values, depth 3 and 17
  octets of name.
\<close>

theorem parse_core_envelope_iff:
  assumes "lexer input = events_of t"
  shows "parse_core_envelope lexer input limits = Inr env \<longleftrightarrow>
     envelope_document env t \<and> envelope_fits limits \<and>
     0 < lim_max_bytes limits \<and> length input \<le> lim_max_bytes limits"
  using assms by (rule parse_core_envelope_accepts)

definition example_envelope_document :: json where
  "example_envelope_document =
     JObject [(''signatures'', JArray [JObject [(''signature'', JString ''s''), (''protected'', JString ''h'')]]),
              (''payload'', JString ''p''), (''credbind_evidence'', JString ''e'')]"

lemma example_envelope:
  "envelope_document \<lparr>env_payload = ''p'',
      env_caller_signature = \<lparr>sig_protected_header = ''h'', sig_signature = ''s''\<rparr>, env_evidence = ''e''\<rparr>
    example_envelope_document"
  by (auto simp: envelope_document_def example_envelope_document_def envelope_names_def
      member_matches_def signature_members_iff)

theorem parse_core_envelope_iff_witness:
  "parse_core_envelope (\<lambda>_. events_of example_envelope_document) ''{...}'' default_strict_limits =
     Inr \<lparr>env_payload = ''p'', env_caller_signature = \<lparr>sig_protected_header = ''h'', sig_signature = ''s''\<rparr>,
          env_evidence = ''e''\<rparr>"
  using parse_core_envelope_iff [of "\<lambda>_. events_of example_envelope_document" "''{...}''"
      example_envelope_document default_strict_limits] example_envelope
  by (simp add: envelope_fits_def default_strict_limits_def)

end
