(* ===== verification/Cb_Dom.thy ===== *)
theory Cb_Dom
  imports Cb_Sax
begin

text \<open>
  What the three value-building handlers share: the stack of open containers and the operations
  on it that are written alike in \<^verbatim>\<open>ObjectSax\<close>, \<^verbatim>\<open>HeaderSax\<close> and
  \<^verbatim>\<open>ConfigSax\<close>. Their callbacks, with their own bounds and errors, are in the theories
  of the components. \<open>dom_next\<close> is the reference behaviour of a callback that proceeds, and
  \<open>dom_run_events\<close> says what it does with a whole document.
\<close>

section \<open>State\<close>

datatype json_context_kind = ctx_object | ctx_array

record json_context =
  jc_kind :: json_context_kind
  jc_root :: bool
  jc_members :: "string set"
  jc_pending_name :: string
  jc_has_pending_name :: bool
  jc_value :: json

text \<open>The back of the stack is its head.\<close>

record dom_state =
  ds_stack :: "json_context list"
  ds_root :: json
  ds_error :: ParseErrorKind
  ds_members :: nat
  ds_values :: nat
  ds_complete :: bool
  ds_failed :: bool

definition dom_init :: dom_state where
  "dom_init = \<lparr>ds_stack = [], ds_root = JNull, ds_error = malformed_input, ds_members = 0,
     ds_values = 0, ds_complete = False, ds_failed = False\<rparr>"

definition new_context :: "json_context_kind \<Rightarrow> bool \<Rightarrow> json_context" where
  "new_context kind is_root =
     \<lparr>jc_kind = kind, jc_root = is_root, jc_members = {}, jc_pending_name = '''',
      jc_has_pending_name = False,
      jc_value = (case kind of ctx_object \<Rightarrow> JObject [] | ctx_array \<Rightarrow> JArray [])\<rparr>"

definition push_context :: "json_context \<Rightarrow> dom_state \<Rightarrow> dom_state" where
  "push_context context s = s\<lparr>ds_stack := context # ds_stack s\<rparr>"

section \<open>Operations written alike in the handlers\<close>

text \<open>Each returns the new state and whether to proceed, as the callbacks do.\<close>

definition dom_fail :: "dom_state \<Rightarrow> ParseErrorKind \<Rightarrow> dom_state \<times> bool" where
  "dom_fail s kind =
     (if \<not> ds_failed s then s\<lparr>ds_error := kind, ds_failed := True\<rparr> else s, False)"

definition dom_count_value :: "nat \<Rightarrow> dom_state \<Rightarrow> dom_state \<times> bool" where
  "dom_count_value max_values s =
     (let s = s\<lparr>ds_values := ds_values s + 1\<rparr> in
      if ds_values s > max_values then dom_fail s resource_limit else (s, True))"

definition dom_parent_ready :: "dom_state \<Rightarrow> dom_state \<times> bool" where
  "dom_parent_ready s =
     (let parent = hd (ds_stack s) in
      if jc_kind parent = ctx_object \<and> \<not> jc_has_pending_name parent
      then dom_fail s malformed_input else (s, True))"

fun json_push_back :: "json \<Rightarrow> json \<Rightarrow> json" where
  "json_push_back (JArray items) v = JArray (items @ [v])"
| "json_push_back j v = j"

fun json_assign :: "string \<Rightarrow> json \<Rightarrow> json \<Rightarrow> json" where
  "json_assign name v (JObject members) = JObject (member_assign name v members)"
| "json_assign name v j = j"

definition attach_to :: "json \<Rightarrow> json_context \<Rightarrow> json_context" where
  "attach_to v context =
     (if jc_kind context = ctx_array
      then context\<lparr>jc_value := json_push_back (jc_value context) v\<rparr>
      else context\<lparr>jc_value := json_assign (jc_pending_name context) v (jc_value context),
                   jc_pending_name := '''', jc_has_pending_name := False\<rparr>)"

definition dom_attach :: "dom_state \<Rightarrow> json \<Rightarrow> dom_state \<times> bool" where
  "dom_attach s v =
     (let context = hd (ds_stack s) in
      if jc_kind context = ctx_object \<and> \<not> jc_has_pending_name context
      then dom_fail s malformed_input
      else (s\<lparr>ds_stack := attach_to v context # tl (ds_stack s)\<rparr>, True))"

definition dom_scalar :: "nat \<Rightarrow> dom_state \<Rightarrow> json \<Rightarrow> dom_state \<times> bool" where
  "dom_scalar max_values s v =
     (case dom_count_value max_values s of (s, counted) \<Rightarrow>
        if \<not> counted \<or> ds_stack s = [] then (s, False) else dom_attach s v)"

definition dom_key :: "nat \<Rightarrow> nat \<Rightarrow> dom_state \<Rightarrow> string \<Rightarrow> dom_state \<times> bool" where
  "dom_key max_members max_key_bytes s name =
     (if ds_stack s = [] \<or> jc_kind (hd (ds_stack s)) \<noteq> ctx_object then dom_fail s malformed_input
      else
        let s = s\<lparr>ds_members := ds_members s + 1\<rparr> in
        if ds_members s > max_members \<or> length name > max_key_bytes then dom_fail s resource_limit
        else
          let context = hd (ds_stack s) in
          if name \<in> jc_members context then dom_fail s malformed_input
          else
            (s\<lparr>ds_stack := context\<lparr>jc_members := insert name (jc_members context),
                jc_pending_name := name, jc_has_pending_name := True\<rparr> # tl (ds_stack s)\<rparr>, True))"

definition dom_end_object :: "dom_state \<Rightarrow> dom_state \<times> bool" where
  "dom_end_object s =
     (if ds_stack s = [] \<or> jc_kind (hd (ds_stack s)) \<noteq> ctx_object \<or> jc_has_pending_name (hd (ds_stack s))
      then dom_fail s malformed_input
      else
        let context = hd (ds_stack s); s = s\<lparr>ds_stack := tl (ds_stack s)\<rparr> in
        if jc_root context then (s\<lparr>ds_root := jc_value context, ds_complete := True\<rparr>, True)
        else dom_attach s (jc_value context))"

definition dom_end_array :: "dom_state \<Rightarrow> dom_state \<times> bool" where
  "dom_end_array s =
     (if ds_stack s = [] \<or> jc_kind (hd (ds_stack s)) \<noteq> ctx_array then dom_fail s malformed_input
      else
        let context = hd (ds_stack s); s = s\<lparr>ds_stack := tl (ds_stack s)\<rparr> in
        dom_attach s (jc_value context))"

definition dom_done :: "dom_state \<Rightarrow> bool" where
  "dom_done s \<longleftrightarrow> ds_complete s \<and> ds_stack s = []"

section \<open>The reference behaviour of a callback\<close>

record dom_bounds =
  db_depth :: nat
  db_members :: nat
  db_values :: nat
  db_key_bytes :: nat
  db_finite :: bool

definition ready :: "json_context \<Rightarrow> bool" where
  "ready context \<longleftrightarrow> jc_kind context = ctx_array \<or> jc_has_pending_name context"

definition counted :: "dom_bounds \<Rightarrow> dom_state \<Rightarrow> dom_state option" where
  "counted b s = (if ds_values s < db_values b then Some (s\<lparr>ds_values := ds_values s + 1\<rparr>) else None)"

definition attached :: "json \<Rightarrow> dom_state \<Rightarrow> dom_state option" where
  "attached v s =
     (case ds_stack s of [] \<Rightarrow> None
      | context # rest \<Rightarrow> if ready context then Some (s\<lparr>ds_stack := attach_to v context # rest\<rparr>) else None)"

definition opened :: "dom_bounds \<Rightarrow> json_context_kind \<Rightarrow> dom_state \<Rightarrow> dom_state option" where
  "opened b kind s =
     (case ds_stack s of
        [] \<Rightarrow> if kind = ctx_object then Some (push_context (new_context kind True) s) else None
      | context # rest \<Rightarrow>
          if ready context \<and> length (ds_stack s) < db_depth b
          then Some (push_context (new_context kind False) s) else None)"

definition named :: "dom_bounds \<Rightarrow> string \<Rightarrow> dom_state \<Rightarrow> dom_state option" where
  "named b name s =
     (case ds_stack s of [] \<Rightarrow> None
      | context # rest \<Rightarrow>
          if jc_kind context = ctx_object \<and> ds_members s < db_members b \<and>
             length name \<le> db_key_bytes b \<and> name \<notin> jc_members context
          then Some (s\<lparr>ds_members := ds_members s + 1,
                 ds_stack := context\<lparr>jc_members := insert name (jc_members context),
                   jc_pending_name := name, jc_has_pending_name := True\<rparr> # rest\<rparr>)
          else None)"

definition closing :: "json_context_kind \<Rightarrow> dom_state \<Rightarrow> dom_state option" where
  "closing kind s =
     (case ds_stack s of [] \<Rightarrow> None
      | context # rest \<Rightarrow>
          if jc_kind context \<noteq> kind \<or> (kind = ctx_object \<and> jc_has_pending_name context) then None
          else if kind = ctx_object \<and> jc_root context
          then Some (s\<lparr>ds_stack := rest, ds_root := jc_value context, ds_complete := True\<rparr>)
          else attached (jc_value context) (s\<lparr>ds_stack := rest\<rparr>))"

definition scalar_of :: "sax_event \<Rightarrow> json option" where
  "scalar_of e =
     (case e of Ev_null \<Rightarrow> Some JNull | Ev_boolean b \<Rightarrow> Some (JBool b)
      | Ev_number_integer i \<Rightarrow> Some (JInteger i) | Ev_number_unsigned n \<Rightarrow> Some (JUnsigned n)
      | Ev_number_float d \<Rightarrow> Some (JFloat d) | Ev_string s \<Rightarrow> Some (JString s) | _ \<Rightarrow> None)"

definition scalar_ok :: "dom_bounds \<Rightarrow> json \<Rightarrow> bool" where
  "scalar_ok b v = (case v of JFloat d \<Rightarrow> db_finite b \<longrightarrow> isfinite d | _ \<Rightarrow> True)"

definition dom_next :: "dom_bounds \<Rightarrow> dom_state \<Rightarrow> sax_event \<Rightarrow> dom_state option" where
  "dom_next b s e =
     (case e of
        Ev_start_object \<Rightarrow> Option.bind (counted b s) (opened b ctx_object)
      | Ev_start_array \<Rightarrow> Option.bind (counted b s) (opened b ctx_array)
      | Ev_key name \<Rightarrow> named b name s
      | Ev_end_object \<Rightarrow> closing ctx_object s
      | Ev_end_array \<Rightarrow> closing ctx_array s
      | Ev_binary \<Rightarrow> None
      | Ev_parse_error \<Rightarrow> None
      | _ \<Rightarrow> (case scalar_of e of None \<Rightarrow> None
              | Some v \<Rightarrow> if scalar_ok b v then Option.bind (counted b s) (attached v) else None))"

fun dom_run :: "dom_bounds \<Rightarrow> dom_state \<Rightarrow> sax_event list \<Rightarrow> dom_state option" where
  "dom_run b s [] = Some s"
| "dom_run b s (e # es) = Option.bind (dom_next b s e) (\<lambda>s. dom_run b s es)"

lemma dom_run_append:
  "dom_run b s (es @ es') = Option.bind (dom_run b s es) (\<lambda>s. dom_run b s es')"
  by (induction es arbitrary: s) (auto split: bind_splits)

section \<open>What a whole document does\<close>

fun json_value :: "json \<Rightarrow> json" where
  "json_value (JArray items) = JArray (map json_value items)"
| "json_value (JObject members) =
     JObject (foldl (\<lambda>ms (name, v). member_assign name v ms) []
       (map (\<lambda>(name, v). (name, json_value v)) members))"
| "json_value j = j"

fun json_values :: "json \<Rightarrow> nat" where
  "json_values (JArray items) = 1 + sum_list (map json_values items)"
| "json_values (JObject members) = 1 + sum_list (map (\<lambda>(name, v). json_values v) members)"
| "json_values j = 1"

fun json_members :: "json \<Rightarrow> nat" where
  "json_members (JArray items) = sum_list (map json_members items)"
| "json_members (JObject members) = sum_list (map (\<lambda>(name, v). 1 + json_members v) members)"
| "json_members j = 0"

fun json_depth :: "json \<Rightarrow> nat" where
  "json_depth (JArray items) = 1 + foldr (\<lambda>v d. max (json_depth v) d) items 0"
| "json_depth (JObject members) = 1 + foldr (\<lambda>(name, v) d. max (json_depth v) d) members 0"
| "json_depth j = 0"

fun json_ok :: "dom_bounds \<Rightarrow> json \<Rightarrow> bool" where
  "json_ok b (JArray items) \<longleftrightarrow> list_all (json_ok b) items"
| "json_ok b (JObject members) \<longleftrightarrow>
     distinct (map fst members) \<and>
     list_all (\<lambda>(name, v). length name \<le> db_key_bytes b \<and> json_ok b v) members"
| "json_ok b j \<longleftrightarrow> scalar_ok b j"

definition fits :: "dom_bounds \<Rightarrow> dom_state \<Rightarrow> nat \<Rightarrow> nat \<Rightarrow> nat \<Rightarrow> bool" where
  "fits b s values members depth \<longleftrightarrow>
     ds_values s + values \<le> db_values b \<and> ds_members s + members \<le> db_members b \<and>
     length (ds_stack s) + depth \<le> db_depth b"

definition grown :: "dom_state \<Rightarrow> nat \<Rightarrow> nat \<Rightarrow> json_context list \<Rightarrow> dom_state" where
  "grown s values members stack =
     s\<lparr>ds_values := ds_values s + values, ds_members := ds_members s + members, ds_stack := stack\<rparr>"

lemma grown_simps [simp]:
  "ds_values (grown s v m st) = ds_values s + v"
  "ds_members (grown s v m st) = ds_members s + m"
  "ds_stack (grown s v m st) = st"
  "grown (grown s v m st) v' m' st' = grown s (v + v') (m + m') st'"
  by (simp_all add: grown_def add.assoc)

definition runs_value :: "dom_bounds \<Rightarrow> json \<Rightarrow> bool" where
  "runs_value b t \<longleftrightarrow>
     (\<forall>s c rest. ds_stack s = c # rest \<longrightarrow> ready c \<longrightarrow> fits b s 0 0 0 \<longrightarrow>
        dom_run b s (events_of t) =
          (if json_ok b t \<and> fits b s (json_values t) (json_members t) (json_depth t)
           then Some (grown s (json_values t) (json_members t) (attach_to (json_value t) c # rest))
           else None))"

lemma runs_valueD:
  "runs_value b t \<Longrightarrow> ds_stack s = c # rest \<Longrightarrow> ready c \<Longrightarrow> fits b s 0 0 0 \<Longrightarrow>
     dom_run b s (events_of t) =
       (if json_ok b t \<and> fits b s (json_values t) (json_members t) (json_depth t)
        then Some (grown s (json_values t) (json_members t) (attach_to (json_value t) c # rest))
        else None)"
  by (simp add: runs_value_def)

lemma runs_scalar:
  assumes "events_of t = [e]" "scalar_of e = Some t" "json_values t = 1" "json_members t = 0"
    and "json_depth t = 0" "json_value t = t" "json_ok b t = scalar_ok b t"
  shows "runs_value b t"
  unfolding runs_value_def
proof (intro allI impI)
  fix s c rest
  assume *: "ds_stack s = c # rest" "ready c" "fits b s 0 0 0"
  have "dom_next b s e =
     (if scalar_ok b t then Option.bind (counted b s) (attached t) else None)"
    using assms(2) by (cases e) (simp_all add: dom_next_def scalar_of_def)
  then show "dom_run b s (events_of t) =
      (if json_ok b t \<and> fits b s (json_values t) (json_members t) (json_depth t)
       then Some (grown s (json_values t) (json_members t) (attach_to (json_value t) c # rest)) else None)"
    using * assms by (auto simp: counted_def attached_def grown_def fits_def)
qed

lemma runs_scalars:
  "runs_value b JNull" "runs_value b (JBool x)" "runs_value b (JInteger i)" "runs_value b (JUnsigned n)"
  "runs_value b (JFloat d)" "runs_value b (JString t)"
  using runs_scalar [of JNull Ev_null] runs_scalar [of "JBool x" "Ev_boolean x"]
    runs_scalar [of "JInteger i" "Ev_number_integer i"]
    runs_scalar [of "JUnsigned n" "Ev_number_unsigned n"]
    runs_scalar [of "JFloat d" "Ev_number_float d"] runs_scalar [of "JString t" "Ev_string t"]
  by (simp_all add: scalar_of_def)

lemma dom_run_items:
  assumes "\<forall>t\<in>set items. runs_value b t" "jc_kind c = ctx_array" "jc_value c = JArray xs"
    and "ds_stack s = c # rest" "fits b s 0 0 0"
  shows "dom_run b s (concat (map events_of items)) =
     (if list_all (json_ok b) items \<and>
         fits b s (sum_list (map json_values items)) (sum_list (map json_members items))
           (foldr (\<lambda>v d. max (json_depth v) d) items 0)
      then Some (grown s (sum_list (map json_values items)) (sum_list (map json_members items))
             (c\<lparr>jc_value := JArray (xs @ map json_value items)\<rparr> # rest))
      else None)"
  using assms
proof (induction items arbitrary: s c xs)
  case Nil
  then show ?case by (simp add: grown_def)
next
  case (Cons t items)
  have t: "runs_value b t" and c: "ready c" using Cons.prems by (simp_all add: ready_def)
  let ?ok = "json_ok b t \<and> fits b s (json_values t) (json_members t) (json_depth t)"
  let ?c = "attach_to (json_value t) c"
  let ?s = "grown s (json_values t) (json_members t) (?c # rest)"
  have run: "dom_run b s (events_of t) = (if ?ok then Some ?s else None)"
    using runs_valueD [OF t Cons.prems(4) c Cons.prems(5)] by simp
  have c': "jc_kind ?c = ctx_array" "jc_value ?c = JArray (xs @ [json_value t])"
      "?c\<lparr>jc_value := v\<rparr> = c\<lparr>jc_value := v\<rparr>" for v
    using Cons.prems(2,3) by (simp_all add: attach_to_def)
  show ?case
  proof (cases ?ok)
    case True
    then have "fits b ?s 0 0 0" using Cons.prems(4) by (simp add: fits_def)
    with Cons.IH [OF _ c'(1) c'(2), of ?s] Cons.prems True c'(3) show ?thesis
      by (auto simp: dom_run_append run fits_def add.assoc)
  next
    case False
    then show ?thesis by (auto simp: dom_run_append run fits_def)
  qed
qed

lemma dom_run_members:
  assumes "\<forall>(name, t)\<in>set members. runs_value b t" "jc_kind c = ctx_object" "jc_value c = JObject ms"
    and "jc_pending_name c = ''''" "\<not> jc_has_pending_name c"
    and "ds_stack s = c # rest" "fits b s 0 0 0"
  shows "dom_run b s (concat (map (\<lambda>(name, v). Ev_key name # events_of v) members)) =
     (if distinct (map fst members) \<and> set (map fst members) \<inter> jc_members c = {} \<and>
         list_all (\<lambda>(name, v). length name \<le> db_key_bytes b \<and> json_ok b v) members \<and>
         fits b s (sum_list (map (\<lambda>(name, v). json_values v) members))
           (sum_list (map (\<lambda>(name, v). 1 + json_members v) members))
           (foldr (\<lambda>(name, v) d. max (json_depth v) d) members 0)
      then Some (grown s (sum_list (map (\<lambda>(name, v). json_values v) members))
             (sum_list (map (\<lambda>(name, v). 1 + json_members v) members))
             (c\<lparr>jc_members := jc_members c \<union> set (map fst members),
                jc_value := JObject (foldl (\<lambda>ms (name, v). member_assign name v ms) ms
                  (map (\<lambda>(name, v). (name, json_value v)) members))\<rparr> # rest))
      else None)"
  using assms
proof (induction members arbitrary: s c ms)
  case Nil
  then show ?case by (simp add: grown_def)
next
  case (Cons m members)
  obtain name t where m: "m = (name, t)" by (cases m)
  have t: "runs_value b t" using Cons.prems m by simp
  let ?c1 = "c\<lparr>jc_members := insert name (jc_members c), jc_pending_name := name, jc_has_pending_name := True\<rparr>"
  let ?s1 = "grown s 0 1 (?c1 # rest)"
  let ?nok = "ds_members s < db_members b \<and> length name \<le> db_key_bytes b \<and> name \<notin> jc_members c"
  let ?c2 = "attach_to (json_value t) ?c1"
  let ?s2 = "grown s (json_values t) (1 + json_members t) (?c2 # rest)"
  let ?ok = "?nok \<and> json_ok b t \<and> fits b s (json_values t) (1 + json_members t) (json_depth t)"
  have key: "dom_next b s (Ev_key name) = (if ?nok then Some ?s1 else None)"
    using Cons.prems by (simp add: dom_next_def named_def grown_def)
  have "dom_run b ?s1 (events_of t) = (if json_ok b t \<and> fits b ?s1 (json_values t) (json_members t) (json_depth t)
      then Some (grown ?s1 (json_values t) (json_members t) (?c2 # rest)) else None)" if ?nok
    using that Cons.prems(6,7) by (intro runs_valueD [OF t]) (simp_all add: ready_def fits_def)
  then have run: "dom_run b s (Ev_key name # events_of t) = (if ?ok then Some ?s2 else None)"
    using Cons.prems(6) by (auto simp: key fits_def)
  have c2: "jc_kind ?c2 = ctx_object" "jc_value ?c2 = JObject (member_assign name (json_value t) ms)"
      "jc_pending_name ?c2 = ''''" "\<not> jc_has_pending_name ?c2" "jc_members ?c2 = insert name (jc_members c)"
      "?c2\<lparr>jc_members := M, jc_value := v\<rparr> = c\<lparr>jc_members := M, jc_value := v\<rparr>" for M v
    using Cons.prems(2-5) by (simp_all add: attach_to_def)
  have step: "dom_run b s (concat (map (\<lambda>(name, v). Ev_key name # events_of v) (m # members))) =
      Option.bind (if ?ok then Some ?s2 else None)
        (\<lambda>s. dom_run b s (concat (map (\<lambda>(name, v). Ev_key name # events_of v) members)))"
    unfolding run [symmetric] using dom_run_append [of b s "Ev_key name # events_of t"] by (simp add: m)
  show ?case
  proof (cases ?ok)
    case True
    then have "fits b ?s2 0 0 0" using Cons.prems(6) by (simp add: fits_def)
    with Cons.IH [OF _ c2(1-4), of ?s2] Cons.prems True c2(5,6) show ?thesis
      unfolding step by (auto simp: m fits_def add.assoc)
  next
    case False
    then show ?thesis unfolding step using Cons.prems(6) by (auto simp: m fits_def)
  qed
qed

lemma dom_run_container:
  assumes "ds_stack s = c # rest" "ready c" "fits b s 0 0 0"
  shows "dom_run b s (Ev_start_array # es) =
      (if fits b s 1 0 1 then dom_run b (grown s 1 0 (new_context ctx_array False # c # rest)) es else None)"
    and "dom_run b s (Ev_start_object # es) =
      (if fits b s 1 0 1 then dom_run b (grown s 1 0 (new_context ctx_object False # c # rest)) es else None)"
  using assms
  by (auto simp: dom_next_def counted_def opened_def push_context_def grown_def fits_def)

lemma runs_value_all: "runs_value b t"
proof (induction t)
  case (JArray items)
  show ?case
    unfolding runs_value_def
  proof (intro allI impI)
    fix s c rest
    assume s: "ds_stack s = c # rest" "ready c" "fits b s 0 0 0"
    let ?c = "new_context ctx_array False" and ?t = "JArray items"
    let ?s = "grown s 1 0 (?c # c # rest)"
    have c: "jc_kind ?c = ctx_array" "jc_value ?c = JArray []" by (simp_all add: new_context_def)
    have items: "fits b s 1 0 1 \<Longrightarrow> dom_run b ?s (concat (map events_of items)) =
     (if list_all (json_ok b) items \<and>
         fits b ?s (sum_list (map json_values items)) (sum_list (map json_members items))
           (foldr (\<lambda>v d. max (json_depth v) d) items 0)
      then Some (grown ?s (sum_list (map json_values items)) (sum_list (map json_members items))
             (?c\<lparr>jc_value := JArray ([] @ map json_value items)\<rparr> # c # rest))
      else None)"
      using JArray s by (intro dom_run_items [OF _ c]) (simp_all add: fits_def)
    have fin: "dom_run b (grown s v m (?c\<lparr>jc_value := w\<rparr> # c # rest)) [Ev_end_array] =
        Some (grown s v m (attach_to w c # rest))" for v m w
      using s(2) by (simp add: dom_next_def closing_def c attached_def grown_def)
    show "dom_run b s (events_of ?t) =
        (if json_ok b ?t \<and> fits b s (json_values ?t) (json_members ?t) (json_depth ?t)
         then Some (grown s (json_values ?t) (json_members ?t) (attach_to (json_value ?t) c # rest)) else None)"
    proof (cases "fits b s 1 0 1")
      case True
      then show ?thesis
        using items fin s by (auto simp: dom_run_container dom_run_append fits_def simp del: dom_run.simps)
    next
      case False
      then show ?thesis using s by (auto simp: dom_run_container fits_def simp del: dom_run.simps)
    qed
  qed
next
  case (JObject members)
  show ?case
    unfolding runs_value_def
  proof (intro allI impI)
    fix s c rest
    assume s: "ds_stack s = c # rest" "ready c" "fits b s 0 0 0"
    let ?c = "new_context ctx_object False" and ?t = "JObject members"
    let ?s = "grown s 1 0 (?c # c # rest)"
    let ?ms = "foldl (\<lambda>ms (name, v). member_assign name v ms) [] (map (\<lambda>(name, v). (name, json_value v)) members)"
    have c: "jc_kind ?c = ctx_object" "jc_value ?c = JObject []" "jc_pending_name ?c = ''''"
        "\<not> jc_has_pending_name ?c" "jc_members ?c = {}" "\<not> jc_root ?c"
      by (simp_all add: new_context_def)
    have "\<forall>(name, t)\<in>set members. runs_value b t" using JObject by fastforce
    note items = dom_run_members [OF this c(1-4), of ?s "c # rest"]
    have fin: "dom_run b (grown s v m (?c\<lparr>jc_members := M, jc_value := w\<rparr> # c # rest)) [Ev_end_object] =
        Some (grown s v m (attach_to w c # rest))" for v m w M
      using s(2) c by (simp add: dom_next_def closing_def attached_def grown_def)
    show "dom_run b s (events_of ?t) =
        (if json_ok b ?t \<and> fits b s (json_values ?t) (json_members ?t) (json_depth ?t)
         then Some (grown s (json_values ?t) (json_members ?t) (attach_to (json_value ?t) c # rest)) else None)"
    proof (cases "fits b s 1 0 1")
      case True
      then have "fits b ?s 0 0 0" using s by (simp add: fits_def)
      with True show ?thesis
        using items fin s c(5)
        by (auto simp: dom_run_container dom_run_append fits_def simp del: dom_run.simps)
    next
      case False
      then show ?thesis using s by (auto simp: dom_run_container fits_def simp del: dom_run.simps)
    qed
  qed
qed (simp_all add: runs_scalars)

text \<open>
  The documents that are accepted: an object at the root, member names distinct in every object
  and within the bound, all counts and the nesting within the bounds.
\<close>

definition document_ok :: "dom_bounds \<Rightarrow> json \<Rightarrow> bool" where
  "document_ok b t \<longleftrightarrow>
     (\<exists>members. t = JObject members) \<and> json_ok b t \<and> json_values t \<le> db_values b \<and>
     json_members t \<le> db_members b \<and> json_depth t \<le> db_depth b"

lemma dom_run_document:
  assumes "1 \<le> db_depth b" "1 \<le> db_values b"
  shows "dom_run b dom_init (events_of t) =
     (if document_ok b t
      then Some (dom_init\<lparr>ds_values := json_values t, ds_members := json_members t,
             ds_root := json_value t, ds_complete := True\<rparr>)
      else None)"
proof (cases "\<exists>members. t = JObject members")
  case True
  then obtain members where t: "t = JObject members" by blast
  let ?c = "new_context ctx_object True"
  let ?s = "grown dom_init 1 0 [?c]"
  have c: "jc_kind ?c = ctx_object" "jc_value ?c = JObject []" "jc_pending_name ?c = ''''"
      "\<not> jc_has_pending_name ?c" "jc_members ?c = {}" "jc_root ?c"
    by (simp_all add: new_context_def)
  have start: "dom_next b dom_init Ev_start_object = Some ?s"
    using assms by (simp add: dom_next_def counted_def opened_def dom_init_def push_context_def grown_def)
  have fin: "dom_run b (grown dom_init v m [?c\<lparr>jc_members := M, jc_value := w\<rparr>]) [Ev_end_object] =
      Some (dom_init\<lparr>ds_values := v, ds_members := m, ds_root := w, ds_complete := True\<rparr>)" for v m w M
    using c by (simp add: dom_next_def closing_def grown_def dom_init_def)
  have "\<forall>(name, t)\<in>set members. runs_value b t" by (auto simp: runs_value_all)
  note items = dom_run_members [OF this c(1-4), of ?s "[]"]
  have "fits b ?s 0 0 0" using assms by (simp add: fits_def dom_init_def)
  then show ?thesis
    using items fin c(5) start
    by (auto simp: t dom_run_append document_ok_def fits_def dom_init_def)
next
  case False
  then have "dom_run b dom_init (events_of t) = None"
    by (cases t)
      (auto simp: dom_next_def counted_def opened_def attached_def scalar_of_def dom_init_def)
  then show ?thesis using False by (auto simp: document_ok_def)
qed

section \<open>The contract of a value-building handler\<close>

text \<open>
  Every handler behaves like \<open>dom_next\<close> on the stacks that occur: the root context, an object,
  is at the bottom and nowhere else.
\<close>

fun wf_stack :: "json_context list \<Rightarrow> bool" where
  "wf_stack [] \<longleftrightarrow> True"
| "wf_stack [c] \<longleftrightarrow> jc_root c \<and> jc_kind c = ctx_object"
| "wf_stack (c # d # rest) \<longleftrightarrow> \<not> jc_root c \<and> wf_stack (d # rest)"

definition dom_wf :: "dom_state \<Rightarrow> bool" where
  "dom_wf s \<longleftrightarrow> wf_stack (ds_stack s)"

lemma dom_wf_init [simp]: "dom_wf dom_init"
  by (simp add: dom_wf_def dom_init_def)

lemma wf_stack_swap:
  "wf_stack (c # rest) \<Longrightarrow> jc_root c' = jc_root c \<Longrightarrow> jc_kind c' = jc_kind c \<Longrightarrow> wf_stack (c' # rest)"
  by (cases rest) auto

lemma wf_stack_tl: "wf_stack (c # rest) \<Longrightarrow> wf_stack rest"
  by (cases rest) auto

lemma wf_stack_push: "wf_stack (c # rest) \<Longrightarrow> \<not> jc_root d \<Longrightarrow> wf_stack (d # c # rest)"
  by simp

lemma attach_to_frame [simp]:
  "jc_root (attach_to v c) = jc_root c" "jc_kind (attach_to v c) = jc_kind c"
  by (simp_all add: attach_to_def)

lemma new_context_frame [simp]:
  "jc_root (new_context kind is_root) = is_root" "jc_kind (new_context kind is_root) = kind"
  by (simp_all add: new_context_def)

lemma attached_wf: "dom_wf s \<Longrightarrow> attached v s = Some s' \<Longrightarrow> dom_wf s'"
  by (auto simp: attached_def dom_wf_def split: list.splits if_splits)
    (erule wf_stack_swap; simp)

lemma counted_wf: "dom_wf s \<Longrightarrow> counted b s = Some s' \<Longrightarrow> dom_wf s'"
  by (auto simp: counted_def dom_wf_def split: if_splits)

lemma opened_wf: "dom_wf s \<Longrightarrow> opened b kind s = Some s' \<Longrightarrow> dom_wf s'"
  by (auto simp: opened_def push_context_def dom_wf_def split: list.splits if_splits)

lemma named_wf: "dom_wf s \<Longrightarrow> named b name s = Some s' \<Longrightarrow> dom_wf s'"
  by (auto simp: named_def dom_wf_def split: list.splits if_splits)
    (erule wf_stack_swap; simp)

lemma closing_wf: "dom_wf s \<Longrightarrow> closing kind s = Some s' \<Longrightarrow> dom_wf s'"
  unfolding closing_def
  by (auto simp: dom_wf_def dest: wf_stack_tl split: list.splits if_splits
      elim!: attached_wf [unfolded dom_wf_def, rotated])

lemma dom_next_wf: "dom_wf s \<Longrightarrow> dom_next b s e = Some s' \<Longrightarrow> dom_wf s'"
  by (cases e)
    (auto simp: dom_next_def bind_eq_Some_conv scalar_of_def split: if_splits
      dest: attached_wf counted_wf opened_wf named_wf closing_wf)

text \<open>The operations written alike proceed exactly as the reference does, and record no error then.\<close>

lemma dom_fail_stops [simp]: "dom_fail s kind \<noteq> (s', True)"
  by (simp add: dom_fail_def)

lemma dom_count_value_iff:
  "dom_count_value (db_values b) s = (s', True) \<longleftrightarrow> counted b s = Some s'"
  by (auto simp: dom_count_value_def counted_def dom_fail_def Let_def)

lemma dom_attach_iff:
  "ds_stack s \<noteq> [] \<Longrightarrow> dom_attach s v = (s', True) \<longleftrightarrow> attached v s = Some s'"
  by (cases "jc_kind (hd (ds_stack s))")
    (auto simp: dom_attach_def attached_def ready_def dom_fail_def Let_def split: list.splits)

lemma dom_scalar_iff:
  "dom_scalar (db_values b) s v = (s', True) \<longleftrightarrow> Option.bind (counted b s) (attached v) = Some s'"
proof (cases "dom_count_value (db_values b) s")
  case (Pair s1 proceed)
  show ?thesis
  proof (cases proceed)
    case True
    then have "counted b s = Some s1" using Pair dom_count_value_iff [of b s s1] by simp
    then show ?thesis
      using Pair True by (auto simp: dom_scalar_def dom_attach_iff) (auto simp: attached_def)
  next
    case False
    then have "counted b s = None"
      using Pair dom_count_value_iff [of b s] by (cases "counted b s") auto
    then show ?thesis using Pair False by (simp add: dom_scalar_def)
  qed
qed

lemma dom_key_iff:
  "dom_key (db_members b) (db_key_bytes b) s name = (s', True) \<longleftrightarrow> named b name s = Some s'"
  by (auto simp: dom_key_def named_def dom_fail_def Let_def split: list.splits)

lemma closing_rest:
  assumes "dom_wf s" "ds_stack s = c # rest" "jc_kind c = ctx_array \<or> \<not> jc_root c"
  shows "rest \<noteq> []"
  using assms by (cases rest) (auto simp: dom_wf_def)

lemma dom_end_object_iff:
  assumes "dom_wf s"
  shows "dom_end_object s = (s', True) \<longleftrightarrow> closing ctx_object s = Some s'"
proof (cases "ds_stack s")
  case (Cons c rest)
  have "jc_root c \<or> rest \<noteq> []" using closing_rest [OF assms Cons] by blast
  then show ?thesis
    by (auto simp: dom_end_object_def closing_def Cons dom_attach_iff Let_def)
qed (simp add: dom_end_object_def closing_def)

lemma dom_end_array_iff:
  assumes "dom_wf s"
  shows "dom_end_array s = (s', True) \<longleftrightarrow> closing ctx_array s = Some s'"
proof (cases "ds_stack s")
  case (Cons c rest)
  have "jc_kind c = ctx_array \<Longrightarrow> rest \<noteq> []" using closing_rest [OF assms Cons] by blast
  then show ?thesis
    by (cases "jc_kind c") (auto simp: dom_end_array_def closing_def Cons dom_attach_iff Let_def)
qed (simp add: dom_end_array_def closing_def)

lemma dom_parent_ready_iff:
  "ds_stack s = c # rest \<Longrightarrow> dom_parent_ready s = (s', True) \<longleftrightarrow> ready c \<and> s' = s"
  by (cases "jc_kind c") (auto simp: dom_parent_ready_def ready_def dom_fail_def Let_def)

text \<open>A step of the reference never records an error.\<close>

lemma dom_next_unfailed: "dom_next b s e = Some s' \<Longrightarrow> ds_failed s' = ds_failed s"
  by (cases e)
    (auto simp: dom_next_def bind_eq_Some_conv scalar_of_def counted_def attached_def opened_def named_def
      closing_def push_context_def split: if_splits list.splits)

locale dom_handler = sax_handler handler ds_failed
  for handler :: "dom_state \<Rightarrow> sax_event \<Rightarrow> dom_state \<times> bool" +
  fixes b :: dom_bounds
  assumes bounds: "1 \<le> db_depth b" "1 \<le> db_values b"
    and proceeds_iff: "dom_wf s \<Longrightarrow> handler s e = (s', True) \<longleftrightarrow> dom_next b s e = Some s'"
begin

lemma run_iff: "dom_wf s \<Longrightarrow> sax_run handler s es = (t, True) \<longleftrightarrow> dom_run b s es = Some t"
proof (induction es arbitrary: s)
  case (Cons e es)
  show ?case
    using proceeds_iff [OF Cons.prems] Cons.IH dom_next_wf [OF Cons.prems]
    unfolding sax_run_Cons_True_iff by (auto simp: bind_eq_Some_conv)
qed auto

lemma accepts_iff:
  "(\<exists>s. sax_run handler dom_init (events_of t) = (s, True) \<and> \<not> ds_failed s \<and> dom_done s \<and> ds_root s = v) \<longleftrightarrow>
     document_ok b t \<and> v = json_value t"
  unfolding run_iff [OF dom_wf_init] dom_run_document [OF bounds]
  by (auto simp: dom_init_def dom_done_def)

lemma rejects_iff:
  "(\<exists>s. sax_run handler dom_init (events_of t) = (s, False)) \<longleftrightarrow> \<not> document_ok b t"
proof -
  have "(\<exists>s. sax_run handler dom_init (events_of t) = (s, True)) \<longleftrightarrow> document_ok b t"
    unfolding run_iff [OF dom_wf_init] dom_run_document [OF bounds] by simp
  then show ?thesis by (metis (full_types) prod.exhaust Pair_inject)
qed

end

end
