(* ===== verification/Cb_Crypto.thy ===== *)
theory Cb_Crypto
  imports Cb_Base64url Cb_Framing
begin

text \<open>
  The issuer-signature checks of \<^verbatim>\<open>src/crypto.cpp\<close>: RS256, and the
  Guillou-Quisquater proof that the prover holds an RS256 signature it does not show.

  OpenSSL is not code of the repository. It is a parameter, a record of the functions the
  sources call; \<open>None\<close> and \<open>False\<close> are their failure returns. A \<^verbatim>\<open>BIGNUM\<close> is the natural
  number it holds: every one the sources make comes from \<^verbatim>\<open>BN_bin2bn\<close>,
  \<^verbatim>\<open>BN_set_word\<close> or a modular operation. \<open>openssl_bn\<close> states what the manual pages document
  of the arithmetic and of the comparison of buffers; nothing is assumed of the hash and the
  signature schemes.
\<close>

section \<open>OpenSSL\<close>

record 'k openssl =
  EVP_Q_digest :: "u8 list \<Rightarrow> u8 list option"
  BN_bin2bn :: "u8 list \<Rightarrow> nat option"
  BN_set_word :: "u32 \<Rightarrow> nat option"
  BN_num_bits :: "nat \<Rightarrow> nat"
  BN_is_zero :: "nat \<Rightarrow> bool"
  BN_is_negative :: "nat \<Rightarrow> bool"
  BN_cmp :: "nat \<Rightarrow> nat \<Rightarrow> int"
  BN_CTX_new :: bool
  BN_mod_exp :: "nat \<Rightarrow> nat \<Rightarrow> nat \<Rightarrow> nat option"
  BN_mod_mul :: "nat \<Rightarrow> nat \<Rightarrow> nat \<Rightarrow> nat option"
  EVP_PKEY_fromdata_rsa :: "nat \<Rightarrow> nat \<Rightarrow> 'k option"
  EVP_PKEY_fromdata_p256 :: "u8 list \<Rightarrow> 'k option"
  EVP_PKEY_new_raw_ed25519 :: "u8 list \<Rightarrow> 'k option"
  EVP_PKEY_public_check :: "'k \<Rightarrow> bool"
  i2d_ECDSA_SIG :: "nat \<Rightarrow> nat \<Rightarrow> u8 list option"
  EVP_DigestVerify_rsa_pkcs1_sha256 :: "'k \<Rightarrow> u8 list \<Rightarrow> u8 list \<Rightarrow> bool"
  EVP_DigestVerify_sha256 :: "'k \<Rightarrow> u8 list \<Rightarrow> u8 list \<Rightarrow> bool"
  EVP_DigestVerify_ed25519 :: "'k \<Rightarrow> u8 list \<Rightarrow> u8 list \<Rightarrow> bool"
  CRYPTO_memcmp :: "u8 list \<Rightarrow> u8 list \<Rightarrow> int"

definition openssl_bn :: "'k openssl \<Rightarrow> bool" where
  "openssl_bn ossl \<longleftrightarrow>
     (\<forall>bs. BN_bin2bn ossl bs = Some (octets_nat bs)) \<and>
     (\<forall>w. BN_set_word ossl w = Some (unat w)) \<and>
     (\<forall>n. BN_is_zero ossl n \<longleftrightarrow> n = 0) \<and>
     (\<forall>n. \<not> BN_is_negative ossl n) \<and>
     (\<forall>a b. BN_cmp ossl a b = (if a < b then -1 else if a = b then 0 else 1)) \<and>
     BN_CTX_new ossl \<and>
     (\<forall>a p m. 0 < m \<longrightarrow> BN_mod_exp ossl a p m = Some (a ^ p mod m)) \<and>
     (\<forall>a b m. 0 < m \<longrightarrow> BN_mod_mul ossl a b m = Some (a * b mod m)) \<and>
     (\<forall>a b. length a = length b \<longrightarrow> (CRYPTO_memcmp ossl a b = 0 \<longleftrightarrow> a = b))"

section \<open>Keys, hashing and framing\<close>

record RsaPublicKey =
  rsa_modulus :: "u8 list"
  rsa_exponent :: u32

definition kRsaExponent :: u32 where
  "kRsaExponent = 65537"

definition kGqRounds :: nat where
  "kGqRounds = 8"

definition gq_kMaximumEvidenceBytes :: nat where
  "gq_kMaximumEvidenceBytes = 16384"

definition kGqProfile :: string where
  "kGqProfile = ''gq-rs256-v1''"

definition kHashSuite :: string where
  "kHashSuite = ''credbind-sha256-v1''"

text \<open>The DER prefix, by its elements: two sequences, the object identifier, null, the octet string.\<close>

definition kSha256DigestInfoPrefix :: "u8 list" where
  "kSha256DigestInfoPrefix =
     [0x30, 0x31] @ [0x30, 0x0d] @
     [0x06, 0x09] @ [0x60, 0x86, 0x48, 0x01, 0x65, 0x03, 0x04, 0x02, 0x01] @
     [0x05, 0x00] @ [0x04, 0x20]"

definition make_bn :: "'k openssl \<Rightarrow> u8 list \<Rightarrow> nat option" where
  "make_bn ossl encoded =
     (if encoded = [] \<or> length encoded > 2147483647 then None else BN_bin2bn ossl encoded)"

definition make_word :: "'k openssl \<Rightarrow> u32 \<Rightarrow> nat option" where
  "make_word ossl value = BN_set_word ossl value"

definition make_rsa_key :: "'k openssl \<Rightarrow> RsaPublicKey \<Rightarrow> ParseErrorKind \<Rightarrow> 'k expected" where
  "make_rsa_key ossl key error_kind =
     (if rsa_modulus key = [] \<or> hd (rsa_modulus key) = 0 \<or> rsa_exponent key \<noteq> kRsaExponent
      then Inl error_kind
      else
        case (make_bn ossl (rsa_modulus key), make_word ossl (rsa_exponent key)) of
          (Some modulus, Some exponent) \<Rightarrow>
            if BN_num_bits ossl modulus < 2048 then Inl error_kind
            else (case EVP_PKEY_fromdata_rsa ossl modulus exponent of
                    None \<Rightarrow> Inl error_kind | Some raw_key \<Rightarrow> Inr raw_key)
        | _ \<Rightarrow> Inl error_kind)"

definition digest_sha256 :: "'k openssl \<Rightarrow> u8 list \<Rightarrow> u8 list expected" where
  "digest_sha256 ossl data =
     (case EVP_Q_digest ossl data of
        None \<Rightarrow> Inl evidence_invalid
      | Some digest \<Rightarrow> if length digest \<noteq> 32 then Inl evidence_invalid else Inr digest)"

definition append_value :: "u8 list \<Rightarrow> u8 list \<Rightarrow> u8 list" where
  "append_value out value = out @ u64_bytes (of_nat (length value)) @ value"

section \<open>The class Reader of the evidence\<close>

definition gq_u32 :: "u8 cursor \<Rightarrow> (u32 \<times> u8 cursor) expected" where
  "gq_u32 r = (if left r < 4 then Inl evidence_invalid else Inr (be_value (window r 4), advance 4 r))"

definition gq_u64 :: "u8 cursor \<Rightarrow> (u64 \<times> u8 cursor) expected" where
  "gq_u64 r = (if left r < 8 then Inl evidence_invalid else Inr (be_value (window r 8), advance 8 r))"

definition gq_value :: "nat \<Rightarrow> u8 cursor \<Rightarrow> (u8 list \<times> u8 cursor) expected" where
  "gq_value maximum r =
     ebind (gq_u64 r) (\<lambda>(len, r).
       if len = 0 \<or> unat len > maximum \<or> unat len > left r then Inl evidence_invalid
       else let size = unat len in Inr (window r size, advance size r))"

section \<open>The proof\<close>

record Round =
  round_commitment :: nat
  round_response :: nat
  round_encoded_commitment :: "u8 list"

definition canonical_integer :: "'k openssl \<Rightarrow> u8 list \<Rightarrow> nat \<Rightarrow> nat expected" where
  "canonical_integer ossl encoded modulus =
     (if encoded = [] \<or> hd encoded = 0 then Inl evidence_invalid
      else
        case make_bn ossl encoded of
          None \<Rightarrow> Inl evidence_invalid
        | Some value \<Rightarrow>
            if BN_is_zero ossl value \<or> BN_is_negative ossl value \<or> BN_cmp ossl value modulus \<ge> 0
            then Inl evidence_invalid else Inr value)"

definition encoded_message :: "'k openssl \<Rightarrow> nat \<Rightarrow> string \<Rightarrow> u8 list expected" where
  "encoded_message ossl modulus_size signing_input =
     ebind (digest_sha256 ossl (bytes signing_input)) (\<lambda>digest.
       let digest_info_size = length kSha256DigestInfoPrefix + length digest in
       if modulus_size < digest_info_size + 11 then Inl evidence_invalid
       else
         let padding_size = modulus_size - digest_info_size - 3 in
         Inr ([0, 1] @ replicate padding_size 0xff @ [0] @ kSha256DigestInfoPrefix @ digest))"

definition challenge_input :: "u8 list \<Rightarrow> u32 \<Rightarrow> u32 \<Rightarrow> u8 list" where
  "challenge_input transcript_hash round retry =
     bytes ''CredBind-GQ-Challenge-v1'' @ [0] @ u64_bytes (of_nat (length transcript_hash)) @
     transcript_hash @ u32_bytes round @ u32_bytes retry"

definition challenge_candidate :: "u8 list \<Rightarrow> u32" where
  "challenge_candidate digest =
     drop_bit 7 (push_bit 16 (ucast (digest ! 0)) OR push_bit 8 (ucast (digest ! 1)) OR ucast (digest ! 2))"

lemma challenge_retry_measure:
  "retry \<noteq> - 1 \<Longrightarrow> 2 ^ 32 - unat (retry + 1 :: u32) < 2 ^ 32 - unat retry"
proof -
  assume "retry \<noteq> - 1"
  then have "unat (retry + 1) = unat retry + 1" by (simp add: unatSuc add.commute add_eq_0_iff)
  moreover have "unat (retry + 1) < 2 ^ 32" using unsigned_less [where 'a = nat, of "retry + 1"] by simp
  ultimately show ?thesis by simp
qed

function challenge_from :: "'k openssl \<Rightarrow> u8 list \<Rightarrow> u32 \<Rightarrow> u32 \<Rightarrow> u32 expected" where
  "challenge_from ossl transcript_hash round retry =
     (case digest_sha256 ossl (challenge_input transcript_hash round retry) of
        Inl e \<Rightarrow> Inl e
      | Inr digest \<Rightarrow>
          let candidate = challenge_candidate digest in
          if candidate \<le> 65536 then Inr candidate
          else if retry = - 1 then Inl evidence_invalid
          else challenge_from ossl transcript_hash round (retry + 1))"
  by pat_completeness auto
termination
  by (relation "measure (\<lambda>(ossl, transcript_hash, round, retry). 2 ^ 32 - unat retry)")
    (auto dest: challenge_retry_measure)

declare challenge_from.simps [simp del]

definition challenge :: "'k openssl \<Rightarrow> u8 list \<Rightarrow> u32 \<Rightarrow> u32 expected" where
  "challenge ossl transcript_hash round = challenge_from ossl transcript_hash round 0"

definition verify_rs256 :: "'k openssl \<Rightarrow> string \<Rightarrow> u8 list \<Rightarrow> RsaPublicKey \<Rightarrow> unit expected" where
  "verify_rs256 ossl signing_input signature key =
     (case make_rsa_key ossl key issuer_signature_invalid of
        Inl e \<Rightarrow> Inl e
      | Inr public_key \<Rightarrow>
          if length signature \<noteq> length (rsa_modulus key) then Inl issuer_signature_invalid
          else if \<not> EVP_DigestVerify_rsa_pkcs1_sha256 ossl public_key signature (bytes signing_input)
          then Inl issuer_signature_invalid
          else Inr ())"

fun read_rounds ::
  "'k openssl \<Rightarrow> RsaPublicKey \<Rightarrow> nat \<Rightarrow> nat \<Rightarrow> u8 cursor \<Rightarrow> Round list \<Rightarrow> (Round list \<times> u8 cursor) expected" where
  "read_rounds ossl key modulus 0 reader rounds = Inr (rounds, reader)"
| "read_rounds ossl key modulus (Suc index) reader rounds =
     ebind (gq_value (length (rsa_modulus key)) reader) (\<lambda>(encoded_commitment_value, reader).
     ebind (gq_value (length (rsa_modulus key)) reader) (\<lambda>(encoded_response, reader).
     ebind (canonical_integer ossl encoded_commitment_value modulus) (\<lambda>commitment_value.
     ebind (canonical_integer ossl encoded_response modulus) (\<lambda>response.
       read_rounds ossl key modulus index reader
         (rounds @ [\<lparr>round_commitment = commitment_value, round_response = response,
                     round_encoded_commitment = encoded_commitment_value\<rparr>])))))"

definition encoded_exponent :: "u32 \<Rightarrow> u8 list" where
  "encoded_exponent exponent =
     fst (foldl
       (\<lambda>(out, started) shift.
          let octet = ucast (drop_bit shift exponent) :: u8 in
          if octet \<noteq> 0 \<or> started then (out @ [octet], True) else (out, started))
       ([], False) [24, 16, 8, 0])"

definition gq_transcript ::
  "string \<Rightarrow> string \<Rightarrow> string \<Rightarrow> string \<Rightarrow> RsaPublicKey \<Rightarrow> u8 list \<Rightarrow> Round list \<Rightarrow> u8 list" where
  "gq_transcript header encoded_payload encoded_commitment authenticated_issuer key em rounds =
     (let transcript = bytes ''CredBind-GQ-Transcript-v1'' @ [0];
          transcript = append_value transcript (bytes kGqProfile);
          transcript = append_value transcript (bytes kHashSuite);
          transcript = append_value transcript (bytes header);
          transcript = append_value transcript (bytes encoded_payload);
          transcript = append_value transcript (bytes encoded_commitment);
          transcript = append_value transcript (bytes authenticated_issuer);
          transcript = append_value transcript (rsa_modulus key);
          transcript = append_value transcript (encoded_exponent (rsa_exponent key));
          transcript = append_value transcript em;
          transcript = transcript @ u32_bytes (of_nat kGqRounds)
      in foldl (\<lambda>transcript round. append_value transcript (round_encoded_commitment round)) transcript rounds)"

text \<open>One round's equation; every failure of the arithmetic reports the same error.\<close>

definition check_round ::
  "'k openssl \<Rightarrow> nat \<Rightarrow> nat \<Rightarrow> nat \<Rightarrow> u8 list \<Rightarrow> nat \<Rightarrow> Round \<Rightarrow> bool" where
  "check_round ossl exponent modulus message transcript_hash index round =
     (case challenge ossl transcript_hash (of_nat index) of
        Inl _ \<Rightarrow> False
      | Inr derived \<Rightarrow>
          (case make_word ossl derived of
             None \<Rightarrow> False
           | Some challenge_bn \<Rightarrow>
               (case (BN_mod_exp ossl (round_response round) exponent modulus,
                      BN_mod_exp ossl message challenge_bn modulus) of
                  (Some left_power, Some message_power) \<Rightarrow>
                    (case BN_mod_mul ossl (round_commitment round) message_power modulus of
                       None \<Rightarrow> False
                     | Some right_product \<Rightarrow> BN_cmp ossl left_power right_product = 0)
                | _ \<Rightarrow> False)))"

fun check_rounds ::
  "'k openssl \<Rightarrow> nat \<Rightarrow> nat \<Rightarrow> nat \<Rightarrow> u8 list \<Rightarrow> nat \<Rightarrow> Round list \<Rightarrow> unit expected" where
  "check_rounds ossl exponent modulus message transcript_hash index [] = Inr ()"
| "check_rounds ossl exponent modulus message transcript_hash index (round # rounds) =
     (if \<not> check_round ossl exponent modulus message transcript_hash index round
      then Inl evidence_invalid
      else check_rounds ossl exponent modulus message transcript_hash (index + 1) rounds)"

definition verify_gq_rs256 ::
  "'k openssl \<Rightarrow> string \<Rightarrow> string \<Rightarrow> string \<Rightarrow> u8 list \<Rightarrow> RsaPublicKey \<Rightarrow> unit expected" where
  "verify_gq_rs256 ossl encoded_payload encoded_commitment authenticated_issuer evidence key =
     (if length evidence > gq_kMaximumEvidenceBytes then Inl resource_limit
      else
        ebind (make_rsa_key ossl key evidence_invalid) (\<lambda>public_key.
        case (make_bn ossl (rsa_modulus key), make_word ossl (rsa_exponent key)) of
          (Some modulus, Some exponent) \<Rightarrow>
            ebind (gq_value 32768 (start_cursor evidence)) (\<lambda>(header_bytes, reader).
            let header = text_of header_bytes in
            if \<not> has_value (decode header 32768) then Inl evidence_invalid else
            ebind (gq_u32 reader) (\<lambda>(round_count, reader).
            if round_count \<noteq> of_nat kGqRounds then Inl evidence_invalid else
            ebind (read_rounds ossl key modulus kGqRounds reader []) (\<lambda>(rounds, reader).
            if \<not> at_end reader then Inl evidence_invalid else
            ebind (encoded_message ossl (length (rsa_modulus key)) (header @ ''.'' @ encoded_payload)) (\<lambda>em.
            case make_bn ossl em of
              None \<Rightarrow> Inl evidence_invalid
            | Some message \<Rightarrow>
                if BN_cmp ossl message modulus \<ge> 0 then Inl evidence_invalid else
                ebind (digest_sha256 ossl
                  (gq_transcript header encoded_payload encoded_commitment authenticated_issuer key em rounds))
                  (\<lambda>transcript_hash.
                    if \<not> BN_CTX_new ossl then Inl evidence_invalid
                    else check_rounds ossl exponent modulus message transcript_hash 0 rounds)))))
        | _ \<Rightarrow> Inl evidence_invalid))"

section \<open>Reading the evidence\<close>

definition gq_field :: "u8 list \<Rightarrow> u8 list" where
  "gq_field value = u64_bytes (of_nat (length value)) @ value"

definition gq_field_ok :: "nat \<Rightarrow> u8 list \<Rightarrow> bool" where
  "gq_field_ok maximum value \<longleftrightarrow> value \<noteq> [] \<and> length value \<le> maximum \<and> length value < 2 ^ 64"

lemma length_gq_field [simp]: "length (gq_field value) = 8 + length value"
  by (simp add: gq_field_def)

lemma append_value_field: "append_value out value = out @ gq_field value"
  by (simp add: append_value_def gq_field_def)

lemma unat_of_nat_u64 [simp]: "n < 18446744073709551616 \<Longrightarrow> unat (of_nat n :: u64) = n"
  by (simp add: unat_of_nat)

lemma of_nat_u64_eq_0 [simp]: "n < 18446744073709551616 \<Longrightarrow> (of_nat n :: u64) = 0 \<longleftrightarrow> n = 0"
  by (simp add: word_unat_eq_iff)

interpretation gq_u32_reader: field_reader gq_u32 u32_bytes "\<lambda>_. True"
proof
  show "gq_u32 (between p (u32_bytes v @ t)) = Inr (v, between (p @ u32_bytes v) t)" for v p t
    using advance_between [of "u32_bytes v" p t] by (simp add: gq_u32_def)
  show "True \<and> (\<exists>t. x = u32_bytes v @ t)" if "gq_u32 (between p x) = Inr (v, r')" for v p x r'
    using that by (auto simp: gq_u32_def split: if_splits intro!: exI [of _ "drop 4 x"])
qed

interpretation gq_u64_reader: field_reader gq_u64 u64_bytes "\<lambda>_. True"
proof
  show "gq_u64 (between p (u64_bytes v @ t)) = Inr (v, between (p @ u64_bytes v) t)" for v p t
    using advance_between [of "u64_bytes v" p t] by (simp add: gq_u64_def)
  show "True \<and> (\<exists>t. x = u64_bytes v @ t)" if "gq_u64 (between p x) = Inr (v, r')" for v p x r'
    using that by (auto simp: gq_u64_def split: if_splits intro!: exI [of _ "drop 8 x"])
qed

interpretation gq_value_reader: field_reader "gq_value maximum" gq_field "gq_field_ok maximum" for maximum
proof
  show "gq_value maximum (between p (gq_field v @ t)) = Inr (v, between (p @ gq_field v) t)"
    if "gq_field_ok maximum v" for v p t
    using that advance_between [of v "p @ u64_bytes (of_nat (length v))" t]
    by (simp add: gq_value_def gq_field_def gq_field_ok_def gq_u64_reader.read_enc)
  show "gq_field_ok maximum v \<and> (\<exists>t. x = gq_field v @ t)"
    if "gq_value maximum (between p x) = Inr (v, r')" for v p x r'
  proof -
    from that obtain w t where x: "x = u64_bytes w @ t" and
        len: "w \<noteq> 0" "unat w \<le> length t" "unat w \<le> maximum" and v: "v = take (unat w) t"
      by (auto simp: gq_value_def expected_iffs gq_u64_reader.read_iff Let_def split: if_splits)
    have "length v < 2 ^ 64" using len v unsigned_less [where 'a = nat, of w] by simp
    moreover have "v \<noteq> []" using len v by (cases t) (auto simp: word_unat_eq_iff)
    moreover have "x = gq_field v @ drop (unat w) t" using x len v by (simp add: gq_field_def)
    ultimately show ?thesis using len v by (auto simp: gq_field_ok_def)
  qed
qed

section \<open>When a proof is accepted\<close>

lemma openssl_bnD:
  assumes "openssl_bn ossl"
  shows "BN_bin2bn ossl bs = Some (octets_nat bs)" "BN_set_word ossl w = Some (unat w)"
    "BN_is_zero ossl n \<longleftrightarrow> n = 0" "\<not> BN_is_negative ossl n" "BN_CTX_new ossl"
    "BN_cmp ossl a b \<ge> 0 \<longleftrightarrow> b \<le> a" "BN_cmp ossl a b = 0 \<longleftrightarrow> a = b"
    "0 < m \<Longrightarrow> BN_mod_exp ossl a p m = Some (a ^ p mod m)"
    "0 < m \<Longrightarrow> BN_mod_mul ossl a b m = Some (a * b mod m)"
  using assms by (auto simp: openssl_bn_def)

lemma make_bn_iff:
  assumes "openssl_bn ossl"
  shows "make_bn ossl bs = Some n \<longleftrightarrow> bs \<noteq> [] \<and> length bs \<le> 2147483647 \<and> n = octets_nat bs"
  using openssl_bnD [OF assms] by (auto simp: make_bn_def)

lemma canonical_integer_iff:
  assumes "openssl_bn ossl"
  shows "canonical_integer ossl bs n = Inr v \<longleftrightarrow>
     0 < v \<and> v < n \<and> bs = nat_octets v \<and> length bs \<le> 2147483647"
proof
  assume "canonical_integer ossl bs n = Inr v"
  then have *: "bs \<noteq> []" "hd bs \<noteq> 0" "v = octets_nat bs" "0 < v" "v < n" "length bs \<le> 2147483647"
    using openssl_bnD [OF assms]
    by (auto simp: canonical_integer_def make_bn_iff [OF assms] split: if_splits option.splits)
  then show "0 < v \<and> v < n \<and> bs = nat_octets v \<and> length bs \<le> 2147483647"
    by (simp add: nat_octets_octets_nat)
next
  assume "0 < v \<and> v < n \<and> bs = nat_octets v \<and> length bs \<le> 2147483647"
  then have "make_bn ossl bs = Some v" "bs \<noteq> []" "hd bs \<noteq> 0" "0 < v" "v < n"
    using hd_nat_octets [of v] by (auto simp: make_bn_iff [OF assms])
  then show "canonical_integer ossl bs n = Inr v"
    using openssl_bnD [OF assms] by (simp add: canonical_integer_def)
qed

fun round_octets :: "nat \<times> nat \<Rightarrow> u8 list" where
  "round_octets (T, R) = gq_field (nat_octets T) @ gq_field (nat_octets R)"

fun mk_round :: "nat \<times> nat \<Rightarrow> Round" where
  "mk_round (T, R) =
     \<lparr>round_commitment = T, round_response = R, round_encoded_commitment = nat_octets T\<rparr>"

definition round_in_range :: "nat \<Rightarrow> nat \<times> nat \<Rightarrow> bool" where
  "round_in_range n q \<longleftrightarrow> 0 < fst q \<and> fst q < n \<and> 0 < snd q \<and> snd q < n"

lemma nat_octets_field_ok:
  assumes "0 < v" "v < octets_nat modulus" "length modulus \<le> 2147483647"
  shows "gq_field_ok (length modulus) (nat_octets v)" "length (nat_octets v) \<le> 2147483647"
proof -
  have "length (nat_octets v) \<le> length modulus"
    using assms octets_nat_less [of modulus] by (intro length_nat_octets) simp
  then show "gq_field_ok (length modulus) (nat_octets v)" "length (nat_octets v) \<le> 2147483647"
    using assms by (simp_all add: gq_field_ok_def)
qed

lemma read_rounds_sound:
  assumes bn: "openssl_bn ossl"
    and "read_rounds ossl key n k (between p x) rounds = Inr (rounds', r')"
  shows "\<exists>qs t. length qs = k \<and> list_all (round_in_range n) qs \<and>
     x = concat (map round_octets qs) @ t \<and> rounds' = rounds @ map mk_round qs \<and>
     r' = between (p @ concat (map round_octets qs)) t"
  using assms(2)
proof (induction k arbitrary: p x rounds)
  case 0
  then show ?case by simp
next
  case (Suc k)
  from Suc.prems obtain T R t where
    f: "x = gq_field (nat_octets T) @ gq_field (nat_octets R) @ t" "round_in_range n (T, R)" and
    rest: "read_rounds ossl key n k (between (p @ round_octets (T, R)) t) (rounds @ [mk_round (T, R)]) =
      Inr (rounds', r')"
    by (auto simp: gq_value_reader.ebind_read_iff ebind_Inr_iff canonical_integer_iff [OF bn]
        gq_value_reader.read_iff round_in_range_def)
  from Suc.IH [OF rest] obtain qs t' where q: "length qs = k" "list_all (round_in_range n) qs"
      "t = concat (map round_octets qs) @ t'" "rounds' = rounds @ mk_round (T, R) # map mk_round qs"
      "r' = between (p @ round_octets (T, R) @ concat (map round_octets qs)) t'" by auto
  have "x = concat (map round_octets ((T, R) # qs)) @ t'"
    using f q by simp
  with q f show ?case
    by (intro exI [of _ "(T, R) # qs"] exI [of _ t']) simp
qed

lemma read_rounds_complete:
  assumes bn: "openssl_bn ossl" and n: "n = octets_nat (rsa_modulus key)" "length (rsa_modulus key) \<le> 2147483647"
    and "list_all (round_in_range n) qs"
  shows "read_rounds ossl key n (length qs) (between p (concat (map round_octets qs) @ t)) rounds =
     Inr (rounds @ map mk_round qs, between (p @ concat (map round_octets qs)) t)"
  using assms(4)
proof (induction qs arbitrary: p rounds)
  case Nil
  then show ?case by simp
next
  case (Cons q qs)
  obtain T R where q: "q = (T, R)" by (cases q)
  have T: "0 < T" "T < n" and R: "0 < R" "R < n" using Cons.prems by (simp_all add: q round_in_range_def)
  note fT = nat_octets_field_ok [OF T(1) T(2) [unfolded n(1)] n(2)]
  note fR = nat_octets_field_ok [OF R(1) R(2) [unfolded n(1)] n(2)]
  have cT: "canonical_integer ossl (nat_octets T) n = Inr T"
    and cR: "canonical_integer ossl (nat_octets R) n = Inr R"
    using T R fT(2) fR(2) by (simp_all add: canonical_integer_iff [OF bn])
  have IH: "read_rounds ossl key n (length qs)
      (between ((p @ gq_field (nat_octets T)) @ gq_field (nat_octets R)) (concat (map round_octets qs) @ t))
      (rounds @ [mk_round q]) =
     Inr (rounds @ map mk_round (q # qs), between (p @ concat (map round_octets (q # qs))) t)"
    using Cons.IH [of "(p @ gq_field (nat_octets T)) @ gq_field (nat_octets R)" "rounds @ [mk_round q]"] Cons.prems
    by (simp add: q)
  have "round_octets q @ u = gq_field (nat_octets T) @ gq_field (nat_octets R) @ u" for u
    by (simp add: q)
  then show ?case
    using IH by (simp add: gq_value_reader.read_enc fT(1) fR(1) cT cR q)
qed

lemma check_rounds_iff:
  "check_rounds ossl e n m th i rounds = Inr () \<longleftrightarrow>
     (\<forall>j<length rounds. check_round ossl e n m th (i + j) (rounds ! j))"
  by (induction rounds arbitrary: i) (auto simp: less_Suc_eq_0_disj expected_iffs)

lemma check_round_iff:
  assumes "openssl_bn ossl" "0 < n"
  shows "check_round ossl e n m th i (mk_round (T, R)) \<longleftrightarrow>
     (\<exists>c. challenge ossl th (of_nat i) = Inr c \<and> R ^ e mod n = T * m ^ unat c mod n)"
  using openssl_bnD [OF assms(1)] assms(2)
  by (cases "challenge ossl th (of_nat i)")
    (auto simp: check_round_def make_word_def mod_mult_right_eq)

definition gq_evidence :: "string \<Rightarrow> (nat \<times> nat) list \<Rightarrow> u8 list" where
  "gq_evidence header qs =
     gq_field (bytes header) @ u32_bytes (of_nat kGqRounds) @ concat (map round_octets qs)"

text \<open>The verification equation of round \<open>i\<close>.\<close>

definition gq_equation ::
  "'k openssl \<Rightarrow> RsaPublicKey \<Rightarrow> u8 list \<Rightarrow> u8 list \<Rightarrow> nat \<Rightarrow> nat \<times> nat \<Rightarrow> bool" where
  "gq_equation ossl key em th i q \<longleftrightarrow>
     (\<exists>c. challenge ossl th (of_nat i) = Inr c \<and>
        snd q ^ 65537 mod octets_nat (rsa_modulus key) =
        fst q * octets_nat em ^ unat c mod octets_nat (rsa_modulus key))"

definition gq_accepts ::
  "'k openssl \<Rightarrow> string \<Rightarrow> string \<Rightarrow> string \<Rightarrow> RsaPublicKey \<Rightarrow> string \<Rightarrow> (nat \<times> nat) list \<Rightarrow> u8 list \<Rightarrow> u8 list \<Rightarrow> bool" where
  "gq_accepts ossl payload commitment issuer key header qs em th \<longleftrightarrow>
     has_value (make_rsa_key ossl key evidence_invalid) \<and>
     has_value (decode header 32768) \<and> length header \<le> 32768 \<and>
     length qs = kGqRounds \<and> list_all (round_in_range (octets_nat (rsa_modulus key))) qs \<and>
     encoded_message ossl (length (rsa_modulus key)) (header @ ''.'' @ payload) = Inr em \<and>
     octets_nat em < octets_nat (rsa_modulus key) \<and>
     digest_sha256 ossl (gq_transcript header payload commitment issuer key em (map mk_round qs)) = Inr th \<and>
     (\<forall>i<kGqRounds. gq_equation ossl key em th i (qs ! i))"

lemma make_rsa_key_facts:
  assumes "openssl_bn ossl" "make_rsa_key ossl key k = Inr public_key"
  shows "rsa_exponent key = kRsaExponent" "make_bn ossl (rsa_modulus key) = Some (octets_nat (rsa_modulus key))"
    "length (rsa_modulus key) \<le> 2147483647" "0 < octets_nat (rsa_modulus key)"
    "make_word ossl (rsa_exponent key) = Some 65537"
proof -
  have *: "rsa_modulus key \<noteq> []" "hd (rsa_modulus key) \<noteq> 0" "rsa_exponent key = kRsaExponent"
      "\<exists>n. make_bn ossl (rsa_modulus key) = Some n"
    using assms(2) by (auto simp: make_rsa_key_def split: if_splits option.splits)
  then show "rsa_exponent key = kRsaExponent"
    "make_bn ossl (rsa_modulus key) = Some (octets_nat (rsa_modulus key))"
    "length (rsa_modulus key) \<le> 2147483647"
    by (auto simp: make_bn_iff [OF assms(1)])
  show "0 < octets_nat (rsa_modulus key)" using * by (intro octets_nat_pos) auto
  show "make_word ossl (rsa_exponent key) = Some 65537"
    using * openssl_bnD(2) [OF assms(1)] by (simp add: make_word_def kRsaExponent_def)
qed

lemma encoded_message_facts:
  assumes "encoded_message ossl modulus_size input = Inr em"
  shows "length em = modulus_size" "em \<noteq> []"
  using assms
  by (auto simp: encoded_message_def expected_iffs Let_def digest_sha256_def
      kSha256DigestInfoPrefix_def split: if_splits option.splits)

lemma check_rounds_equations:
  assumes "openssl_bn ossl" "0 < octets_nat (rsa_modulus key)"
  shows "check_rounds ossl 65537 (octets_nat (rsa_modulus key)) (octets_nat em) th 0 (map mk_round qs) = Inr () \<longleftrightarrow>
     (\<forall>i<length qs. gq_equation ossl key em th i (qs ! i))"
proof -
  have "check_round ossl 65537 (octets_nat (rsa_modulus key)) (octets_nat em) th i (mk_round q) \<longleftrightarrow>
      gq_equation ossl key em th i q" for i q
    by (cases q) (simp add: check_round_iff [OF assms] gq_equation_def del: mk_round.simps)
  then show ?thesis by (simp add: check_rounds_iff)
qed

lemma verify_gq_sound:
  assumes bn: "openssl_bn ossl"
    and ok: "verify_gq_rs256 ossl payload commitment issuer evidence key = Inr ()"
  shows "length evidence \<le> gq_kMaximumEvidenceBytes \<and>
     (\<exists>header qs em th. evidence = gq_evidence header qs \<and>
        gq_accepts ossl payload commitment issuer key header qs em th)"
proof -
  let ?n = "octets_nat (rsa_modulus key)"
  from ok have size: "length evidence \<le> gq_kMaximumEvidenceBytes"
    by (auto simp: verify_gq_rs256_def split: if_splits)
  from ok obtain public_key where pk: "make_rsa_key ossl key evidence_invalid = Inr public_key"
    by (auto simp: verify_gq_rs256_def expected_iffs split: if_splits)
  note k = make_rsa_key_facts [OF bn pk]
  from ok size obtain header_bytes r1 round_count r2 rounds r3 em th where
    reads: "gq_value 32768 (between [] evidence) = Inr (header_bytes, r1)"
      "gq_u32 r1 = Inr (round_count, r2)" "round_count = of_nat kGqRounds"
      "read_rounds ossl key ?n kGqRounds r2 [] = Inr (rounds, r3)" "at_end r3" and
    checks: "has_value (decode (text_of header_bytes) 32768)"
      "encoded_message ossl (length (rsa_modulus key)) (text_of header_bytes @ ''.'' @ payload) = Inr em"
      "octets_nat em < ?n"
      "digest_sha256 ossl (gq_transcript (text_of header_bytes) payload commitment issuer key em rounds) = Inr th"
      "check_rounds ossl 65537 ?n (octets_nat em) th 0 rounds = Inr ()"
    by (auto simp: verify_gq_rs256_def start_cursor_between pk k(2,5) expected_iffs Let_def
        openssl_bnD [OF bn] make_bn_iff [OF bn] split: option.splits if_splits)
  note h = gq_value_reader.read_consumed [OF reads(1) reached_between]
  note c = gq_u32_reader.read_consumed [OF reads(2) h(3)]
  obtain p2 t2 where r2: "r2 = between p2 t2" using c(3) by (auto simp: reached_def)
  from read_rounds_sound [OF bn reads(4) [unfolded r2]] reads(5) obtain qs where
    q: "length qs = kGqRounds" "list_all (round_in_range ?n) qs" "t2 = concat (map round_octets qs)"
      "rounds = map mk_round qs" "r3 = between (p2 @ concat (map round_octets qs)) []"
    by auto
  have "consumed r2 (concat (map round_octets qs)) r3"
    unfolding consumed_def r2 q by (rule exI [of _ p2], rule exI [of _ "[]"]) simp
  then have "consumed (between [] evidence) (gq_evidence (text_of header_bytes) qs) r3"
    unfolding gq_evidence_def using h(2) c(2) reads(3)
    by (auto intro!: consumed_append)
  then have "evidence = gq_evidence (text_of header_bytes) qs" using reads(5) by (rule consumed_all)
  moreover have "gq_accepts ossl payload commitment issuer key (text_of header_bytes) qs em th"
    using pk h(1) q checks check_rounds_equations [OF bn k(4), of em th qs]
    by (simp add: gq_accepts_def gq_field_ok_def)
  ultimately show ?thesis using size by blast
qed

lemma verify_gq_complete:
  assumes bn: "openssl_bn ossl" and size: "length evidence \<le> gq_kMaximumEvidenceBytes"
    and ev: "evidence = gq_evidence header qs"
    and acc: "gq_accepts ossl payload commitment issuer key header qs em th"
  shows "verify_gq_rs256 ossl payload commitment issuer evidence key = Inr ()"
proof -
  let ?n = "octets_nat (rsa_modulus key)"
  from acc obtain public_key where pk: "make_rsa_key ossl key evidence_invalid = Inr public_key"
    by (auto simp: gq_accepts_def has_value_iff)
  note k = make_rsa_key_facts [OF bn pk]
  have q: "length qs = kGqRounds" "list_all (round_in_range ?n) qs" using acc by (simp_all add: gq_accepts_def)
  have em: "encoded_message ossl (length (rsa_modulus key)) (header @ ''.'' @ payload) = Inr em"
    using acc by (simp add: gq_accepts_def)
  have "header \<noteq> []" using acc by (auto simp: gq_accepts_def decode_def)
  then have "gq_field_ok 32768 (bytes header)"
    using acc by (simp add: gq_accepts_def gq_field_ok_def)
  note header = gq_value_reader.read_enc [OF this, of "[]"]
  have rounds: "read_rounds ossl key ?n kGqRounds (between p (concat (map round_octets qs))) [] =
      Inr (map mk_round qs, between (p @ concat (map round_octets qs)) [])" for p
    using read_rounds_complete [OF bn refl k(3) q(2), of p "[]" "[]"] q(1) by simp
  have mbn: "make_bn ossl em = Some (octets_nat em)"
    using encoded_message_facts [OF em] k(3) by (simp add: make_bn_iff [OF bn])
  have "check_rounds ossl 65537 ?n (octets_nat em) th 0 (map mk_round qs) = Inr ()"
    using acc check_rounds_equations [OF bn k(4), of em th qs] q(1) by (simp add: gq_accepts_def)
  then show ?thesis
    using acc size em mbn rounds header pk k(2,5) openssl_bnD(5,6) [OF bn]
    by (simp add: verify_gq_rs256_def ev gq_evidence_def start_cursor_between gq_accepts_def
        gq_u32_reader.read_enc not_le cong: ebind_weak_cong)
qed

text \<open>
  C12. The proof verifier accepts exactly the evidence of an accepting proof: the canonical
  framing of a header and eight rounds with nothing after it, an eligible key, a canonical
  header, integers in range, and in every round the equation
  \<open>R^e = T * em^c (mod n)\<close> for the challenge derived from the hash of the transcript.
\<close>

theorem verify_gq_rs256_iff:
  assumes "openssl_bn ossl"
  shows "verify_gq_rs256 ossl payload commitment issuer evidence key = Inr () \<longleftrightarrow>
     length evidence \<le> gq_kMaximumEvidenceBytes \<and>
     (\<exists>header qs em th. evidence = gq_evidence header qs \<and>
        gq_accepts ossl payload commitment issuer key header qs em th)"
  using verify_gq_sound [OF assms] verify_gq_complete [OF assms] by metis

section \<open>The challenges\<close>

lemma challenge_from_bound: "challenge_from ossl th i retry = Inr c \<Longrightarrow> c \<le> 65536"
proof (induction ossl th i retry rule: challenge_from.induct)
  case (1 ossl th i retry)
  show ?case
  proof (cases "digest_sha256 ossl (challenge_input th i retry)")
    case (Inr digest)
    have "c \<le> 65536" if "challenge_candidate digest \<le> 65536"
      using "1.prems" that by (simp add: challenge_from.simps [of ossl] Inr)
    moreover have "c \<le> 65536" if *: "\<not> challenge_candidate digest \<le> 65536"
    proof -
      have "challenge_from ossl th i retry = (if retry = - 1 then Inl evidence_invalid
          else challenge_from ossl th i (retry + 1))"
        by (subst challenge_from.simps) (simp add: Inr *)
      with "1.prems" "1.IH" [OF Inr refl *] show ?thesis by (simp split: if_splits)
    qed
    ultimately show ?thesis by blast
  qed (use "1.prems" in \<open>simp add: challenge_from.simps\<close>)
qed

lemma challenge_bound: "challenge ossl th i = Inr c \<Longrightarrow> unat c < 65537"
  unfolding challenge_def by (drule challenge_from_bound) (simp add: word_le_nat_alt)

section \<open>Arithmetic modulo n\<close>

definition modeq :: "nat \<Rightarrow> nat \<Rightarrow> nat \<Rightarrow> bool" where
  "modeq n a b \<longleftrightarrow> a mod n = b mod n"

lemma modeq_refl [simp]: "modeq n a a" and modeq_sym: "modeq n a b \<Longrightarrow> modeq n b a"
  and modeq_trans [trans]: "modeq n a b \<Longrightarrow> modeq n b c \<Longrightarrow> modeq n a c"
  by (simp_all add: modeq_def)

lemma modeq_mult: "modeq n a b \<Longrightarrow> modeq n c d \<Longrightarrow> modeq n (a * c) (b * d)"
  unfolding modeq_def by (metis mod_mult_eq)

lemma modeq_power: "modeq n a b \<Longrightarrow> modeq n (a ^ k) (b ^ k)"
  unfolding modeq_def by (metis power_mod)

lemma inverse_exists:
  assumes "coprime a n"
  shows "\<exists>x. modeq n (a * x) 1"
proof (cases "a = 0")
  case True
  with assms show ?thesis by (simp add: modeq_def)
next
  case False
  obtain x y where "a * x = n * y + gcd a n" using bezout_nat [OF False, of n] by blast
  then have "a * x = n * y + 1" using assms by simp
  then have "(a * x) mod n = 1 mod n"
    by (simp only: mod_mult_self4 mod_mult_self1 mod_mult_self2 add.commute)
  then show ?thesis by (auto simp: modeq_def)
qed

lemma modeq_cancel:
  assumes "modeq n (c * x) 1" "modeq n (c * a) (c * b)"
  shows "modeq n a b"
proof -
  have "modeq n a ((c * x) * a)" using modeq_mult [OF assms(1) modeq_refl, of a] by (simp add: modeq_sym)
  also have "(c * x) * a = (c * a) * x" by simp
  also have "modeq n \<dots> ((c * b) * x)" by (rule modeq_mult [OF assms(2) modeq_refl])
  also have "(c * b) * x = (c * x) * b" by simp
  also have "modeq n \<dots> b" using modeq_mult [OF assms(1) modeq_refl, of b] by simp
  finally show ?thesis .
qed

text \<open>The exponent is prime: every smaller positive challenge difference is invertible modulo it.\<close>

lemma exponent_small_divisors: "\<forall>k\<in>set [2..<257]. 65537 mod k \<noteq> (0::nat)"
  by (simp add: upt_rec_numeral)

lemma exponent_no_small_divisor:
  assumes "k dvd (65537::nat)"
  shows "k < 2 \<or> 257 \<le> k"
proof (rule ccontr)
  assume "\<not> (k < 2 \<or> 257 \<le> k)"
  then have "k \<in> set [2..<257]" unfolding set_upt by (simp only: atLeastLessThan_iff) linarith
  with exponent_small_divisors assms show False by (simp only: dvd_eq_mod_eq_0)
qed

lemma exponent_prime: "0 < d \<Longrightarrow> d < 65537 \<Longrightarrow> coprime d (65537::nat)"
proof (rule ccontr)
  assume d: "0 < d" "d < 65537" "\<not> coprime d (65537::nat)"
  define g where "g = gcd d 65537"
  have g: "g dvd d" "g dvd 65537" "g \<noteq> 1" "g \<noteq> 0"
    using d by (auto simp: g_def coprime_iff_gcd_eq_1)
  then obtain h where h: "65537 = g * h" by blast
  have "g \<le> d" using g(1) d(1) by (simp add: dvd_imp_le)
  then have "h \<noteq> 1" using h d(2) by auto
  have "h \<noteq> 0" using h by (cases "h = 0") simp_all
  have "h dvd 65537" unfolding h by simp
  have "257 \<le> g" using exponent_no_small_divisor [OF g(2)] g(3,4) by linarith
  moreover have "257 \<le> h"
    using exponent_no_small_divisor [OF \<open>h dvd 65537\<close>] \<open>h \<noteq> 1\<close> \<open>h \<noteq> 0\<close> by linarith
  ultimately have "257 * 257 \<le> g * h" by (rule mult_le_mono)
  then show False using h by simp
qed



section \<open>Special soundness\<close>

text \<open>
  Two accepting answers to different challenges for one commitment give a root of the encoded
  message: dividing the two equations gives a root of a power of it, and the difference of the
  challenges is invertible modulo the exponent. The root is computed from the answers, the
  challenges and the public values only.
\<close>

definition inverse_mod :: "nat \<Rightarrow> nat \<Rightarrow> nat" where
  "inverse_mod a n = nat (fst (bezw a n) mod int n)"

definition root_of_quotient :: "nat \<Rightarrow> nat \<Rightarrow> nat \<Rightarrow> nat \<Rightarrow> nat" where
  "root_of_quotient n y d w =
     (let a = inverse_mod d 65537 in w ^ a * inverse_mod y n ^ (d * a div 65537) mod n)"

definition extracted_signature :: "nat \<Rightarrow> nat \<Rightarrow> nat \<Rightarrow> nat \<Rightarrow> nat \<Rightarrow> nat \<Rightarrow> nat" where
  "extracted_signature n message c R c' R' =
     (if c < c' then root_of_quotient n message (c' - c) (R' * inverse_mod R n)
      else root_of_quotient n message (c - c') (R * inverse_mod R' n))"

lemma inverse_mod_inverse:
  assumes "coprime a n" "0 < n"
  shows "modeq n (a * inverse_mod a n) 1"
proof -
  have "fst (bezw a n) * int a + snd (bezw a n) * int n = 1"
    using bezw_aux [of a n] assms(1) by simp
  then have "int a * fst (bezw a n) mod int n = 1 mod int n"
    by (metis mod_mult_self1 mult.commute)
  then have "int (a * inverse_mod a n) mod int n = int 1 mod int n"
    using assms(2) by (simp add: inverse_mod_def mod_mult_right_eq)
  then show ?thesis unfolding modeq_def by (simp only: zmod_int [symmetric] of_nat_eq_iff)
qed

lemma root_of_power:
  assumes y: "coprime y n" "0 < n" and d: "0 < d" "d < 65537"
    and w: "modeq n (w ^ 65537) (y ^ d)"
  shows "modeq n (root_of_quotient n y d w ^ 65537) y"
proof -
  define a b z where abz: "a = inverse_mod d 65537" "b = d * a div 65537" "z = inverse_mod y n"
  have "d * a mod 65537 = 1"
    using inverse_mod_inverse [OF exponent_prime [OF d]] by (simp add: modeq_def abz)
  then have ab: "d * a = 65537 * b + 1"
    using mult_div_mod_eq [of 65537 "d * a"] by (simp only: abz(2))
  have z: "modeq n (y * z) 1" using inverse_mod_inverse [OF y] by (simp only: abz(3))
  have zb: "modeq n ((z * y) ^ (65537 * b)) 1"
    using modeq_power [OF z, of "65537 * b"] by (simp only: power_one mult.commute)
  have "modeq n (root_of_quotient n y d w ^ 65537) ((w ^ a * z ^ b) ^ 65537)"
    by (rule modeq_power) (simp add: root_of_quotient_def abz modeq_def Let_def)
  also have "(w ^ a * z ^ b) ^ 65537 = (w ^ 65537) ^ a * z ^ (65537 * b)"
    by (simp only: power_mult_distrib power_mult [symmetric] mult.commute)
  also have "modeq n \<dots> ((y ^ d) ^ a * z ^ (65537 * b))"
    by (rule modeq_mult [OF modeq_power [OF w] modeq_refl])
  also have "(y ^ d) ^ a * z ^ (65537 * b) = y * (z * y) ^ (65537 * b)"
    unfolding power_mult [symmetric] ab power_add power_one_right power_mult_distrib
    by (simp only: mult.assoc mult.commute mult.left_commute)
  also have "modeq n \<dots> (y * 1)" by (rule modeq_mult [OF modeq_refl zb])
  finally show ?thesis by (simp only: mult_1_right)
qed

lemma root_of_answers:
  assumes eqs: "modeq n (R ^ 65537) (T * y ^ c)" "modeq n (R' ^ 65537) (T * y ^ c')"
    and c: "c < c'" "c' < 65537" and cop: "coprime y n" "coprime R n" "0 < n"
  shows "modeq n (root_of_quotient n y (c' - c) (R' * inverse_mod R n) ^ 65537) y"
proof -
  define v where "v = inverse_mod R n"
  have v: "modeq n (R * v) 1" using inverse_mod_inverse [OF cop(2,3)] by (simp only: v_def)
  have Rv: "modeq n ((R * v) ^ 65537) 1" using modeq_power [OF v, of 65537] by (simp only: power_one)
  have "T * y ^ c' = T * y ^ c * y ^ (c' - c)" using c(1) by (simp add: mult.assoc flip: power_add)
  then have "modeq n (R' ^ 65537) (R ^ 65537 * y ^ (c' - c))"
    using modeq_trans [OF eqs(2)] modeq_mult [OF modeq_sym [OF eqs(1)] modeq_refl [of n "y ^ (c' - c)"]]
    by metis
  then have "modeq n (R' ^ 65537 * v ^ 65537) (R ^ 65537 * y ^ (c' - c) * v ^ 65537)"
    by (rule modeq_mult [OF _ modeq_refl])
  also have "R ^ 65537 * y ^ (c' - c) * v ^ 65537 = (R * v) ^ 65537 * y ^ (c' - c)"
    by (simp only: power_mult_distrib mult.assoc mult.commute mult.left_commute)
  also have "modeq n \<dots> (1 * y ^ (c' - c))" by (rule modeq_mult [OF Rv modeq_refl])
  finally have "modeq n ((R' * v) ^ 65537) (y ^ (c' - c))"
    by (simp only: power_mult_distrib mult_1)
  from root_of_power [OF cop(1,3) _ _ this] c show ?thesis by (simp add: v_def)
qed

text \<open>
  C13. Special soundness of a round: from two answers R and R' to different challenges c and c' for
  the same commitment, both accepted by the verifier's check, an RSA signature of the encoded
  message is computed, by \<open>extracted_signature\<close>, without the private key: a number whose 65537th
  power is the message modulo n. Whoever can answer two challenges could therefore sign.
\<close>

theorem check_round_special_soundness:
  assumes "openssl_bn ossl" "0 < n" "coprime message n" "coprime R n" "coprime R' n"
    and "check_round ossl 65537 n message th i (mk_round (T, R))"
    and "check_round ossl 65537 n message th' i' (mk_round (T, R'))"
    and "challenge ossl th (of_nat i) = Inr c" "challenge ossl th' (of_nat i') = Inr c'" "c \<noteq> c'"
  shows "extracted_signature n message (unat c) R (unat c') R' ^ 65537 mod n = message mod n"
proof -
  have eqs: "modeq n (R ^ 65537) (T * message ^ unat c)" "modeq n (R' ^ 65537) (T * message ^ unat c')"
    using assms(6-9) unfolding check_round_iff [OF assms(1,2)] modeq_def by auto
  have "unat c \<noteq> unat c'" using assms(10) by (auto simp: word_unat_eq_iff)
  then consider "unat c < unat c'" | "unat c' < unat c" by linarith
  then have "modeq n (extracted_signature n message (unat c) R (unat c') R' ^ 65537) message"
  proof cases
    case 1
    then show ?thesis
      using root_of_answers [OF eqs 1 challenge_bound [OF assms(9)] assms(3,4,2)]
      by (simp only: extracted_signature_def if_True)
  next
    case 2
    then have "\<not> unat c < unat c'" by simp
    then show ?thesis
      using root_of_answers [OF eqs(2,1) 2 challenge_bound [OF assms(8)] assms(3,5,2)]
      by (simp only: extracted_signature_def if_False)
  qed
  then show ?thesis by (simp only: modeq_def)
qed

section \<open>The honest prover\<close>

text \<open>
  C14. Completeness of a round: a prover that knows a signature s of the message, commits to
  \<open>r^65537\<close> and answers \<open>r * s^c\<close> passes the verifier's check, for every transcript hash and
  every challenge derived from it.
\<close>

theorem check_round_honest_prover:
  assumes "openssl_bn ossl" "0 < n" "s ^ 65537 mod n = message mod n"
    and "challenge ossl th (of_nat i) = Inr c"
  shows "check_round ossl 65537 n message th i
     (mk_round (r ^ 65537 mod n, r * s ^ unat c mod n))"
proof -
  have "modeq n ((r * s ^ unat c mod n) ^ 65537) ((r * s ^ unat c) ^ 65537)"
    by (rule modeq_power) (simp add: modeq_def)
  also have "(r * s ^ unat c) ^ 65537 = r ^ 65537 * (s ^ 65537) ^ unat c"
    by (simp only: power_mult_distrib power_mult [symmetric] mult.commute)
  also have "modeq n \<dots> ((r ^ 65537 mod n) * message ^ unat c)"
    by (intro modeq_mult modeq_power) (use assms(3) in \<open>simp_all add: modeq_def\<close>)
  finally show ?thesis
    using assms(4) by (simp add: check_round_iff [OF assms(1,2)] modeq_def del: mk_round.simps)
qed

section \<open>What the transcript binds\<close>

lemma gq_field_unique:
  assumes "length a < 2 ^ 64" "length b < 2 ^ 64"
  shows "gq_field a @ s = gq_field b @ t \<longleftrightarrow> a = b \<and> s = t"
proof -
  have "length a = length b" if "(of_nat (length a) :: u64) = of_nat (length b)"
    using arg_cong [OF that, of unat] assms by simp
  then show ?thesis unfolding gq_field_def append_assoc
    by (metis append_eq_append_conv length_u64_bytes u64_bytes_inject)
qed

lemma gq_fields_unique:
  assumes "\<forall>a\<in>set as. length a < 2 ^ 64" "\<forall>b\<in>set bs. length b < 2 ^ 64"
    and "concat (map gq_field as) = concat (map gq_field bs)"
  shows "as = bs"
  using assms
proof (induction as arbitrary: bs)
  case Nil
  then show ?case by (cases bs) (auto simp: gq_field_def dest: arg_cong [where f = length])
next
  case (Cons a as)
  then show ?case
  proof (cases bs)
    case Nil
    then show ?thesis using Cons.prems by (auto simp: gq_field_def dest: arg_cong [where f = length])
  next
    case (Cons b bs')
    then show ?thesis using Cons.prems Cons.IH [of bs'] by (simp add: gq_field_unique)
  qed
qed

lemma gq_transcript_fields:
  "gq_transcript header payload commitment issuer key em rounds =
     (bytes ''CredBind-GQ-Transcript-v1'' @ [0] @ gq_field (bytes kGqProfile) @ gq_field (bytes kHashSuite)) @
     gq_field (bytes header) @ gq_field (bytes payload) @ gq_field (bytes commitment) @
     gq_field (bytes issuer) @ gq_field (rsa_modulus key) @ gq_field (encoded_exponent (rsa_exponent key)) @
     gq_field em @ u32_bytes (of_nat kGqRounds) @ concat (map gq_field (map round_encoded_commitment rounds))"
proof -
  have "foldl (\<lambda>t r. append_value t (round_encoded_commitment r)) out rounds =
      out @ concat (map gq_field (map round_encoded_commitment rounds))" for out
    by (induction rounds arbitrary: out) (simp_all add: append_value_field)
  then show ?thesis by (simp add: gq_transcript_def append_value_field Let_def)
qed

lemma length_encoded_exponent: "length (encoded_exponent e) \<le> 4"
  by (simp add: encoded_exponent_def Let_def)

definition transcript_sizes :: "string \<Rightarrow> string \<Rightarrow> string \<Rightarrow> string \<Rightarrow> RsaPublicKey \<Rightarrow> u8 list \<Rightarrow> Round list \<Rightarrow> bool" where
  "transcript_sizes header payload commitment issuer key em rounds \<longleftrightarrow>
     length header < 2 ^ 64 \<and> length payload < 2 ^ 64 \<and> length commitment < 2 ^ 64 \<and>
     length issuer < 2 ^ 64 \<and> length (rsa_modulus key) < 2 ^ 64 \<and> length em < 2 ^ 64 \<and>
     (\<forall>r\<in>set rounds. length (round_encoded_commitment r) < 2 ^ 64)"

text \<open>
  C15. The hashed transcript binds everything the proof is about: two equal transcripts (of
  fields whose sizes fit 64 bits) have the same header, payload, CredBind commitment, issuer,
  modulus, encoded message and round commitments. No field can be shifted into another.
\<close>

theorem gq_transcript_binds:
  assumes "transcript_sizes header payload commitment issuer key em rounds"
    and "transcript_sizes header' payload' commitment' issuer' key' em' rounds'"
    and "gq_transcript header payload commitment issuer key em rounds =
      gq_transcript header' payload' commitment' issuer' key' em' rounds'"
  shows "header = header' \<and> payload = payload' \<and> commitment = commitment' \<and> issuer = issuer' \<and>
     rsa_modulus key = rsa_modulus key' \<and> em = em' \<and>
     map round_encoded_commitment rounds = map round_encoded_commitment rounds'"
proof -
  have exponent: "length (encoded_exponent e) < 2 ^ 64" for e
    by (rule le_less_trans [OF length_encoded_exponent]) simp
  note s = assms(1,2) [unfolded transcript_sizes_def]
  have *: "header = header' \<and> payload = payload' \<and> commitment = commitment' \<and> issuer = issuer' \<and>
      rsa_modulus key = rsa_modulus key' \<and> em = em' \<and>
      concat (map gq_field (map round_encoded_commitment rounds)) =
      concat (map gq_field (map round_encoded_commitment rounds'))"
    using assms(3) s exponent [of "rsa_exponent key"] exponent [of "rsa_exponent key'"]
    unfolding gq_transcript_fields same_append_eq
    by (simp add: gq_field_unique del: map_map)
  then have "map round_encoded_commitment rounds = map round_encoded_commitment rounds'"
    using s by (intro gq_fields_unique) auto
  with * show ?thesis by blast
qed

section \<open>Instances\<close>

text \<open>
  An OpenSSL to compute with: the documented arithmetic, and a digest that depends on one octet
  of its input. It is used by the instances only.
\<close>

fun bit_count :: "nat \<Rightarrow> nat" where
  "bit_count n = (if n = 0 then 0 else Suc (bit_count (n div 2)))"

declare bit_count.simps [simp del]

lemma bit_count_ge: "2 ^ k \<le> n \<Longrightarrow> k < bit_count n"
proof (induction n arbitrary: k rule: bit_count.induct)
  case (1 n)
  have "n \<noteq> 0" using "1.prems" by (cases "n = 0") simp_all
  then show ?case
  proof (cases k)
    case (Suc k')
    then have "2 ^ k' \<le> n div 2" using "1.prems" by simp
    then show ?thesis using "1.IH" [OF \<open>n \<noteq> 0\<close>, of k'] \<open>n \<noteq> 0\<close> Suc by (subst bit_count.simps) simp
  qed (subst bit_count.simps, simp)
qed

definition demo_openssl :: "unit openssl" where
  "demo_openssl =
     \<lparr>EVP_Q_digest = \<lambda>bs. Some ([0, 0, (case drop 33 bs of [] \<Rightarrow> 0 | b # _ \<Rightarrow> push_bit 7 b)] @ replicate 29 0),
      BN_bin2bn = \<lambda>bs. Some (octets_nat bs), BN_set_word = \<lambda>w. Some (unat w), BN_num_bits = bit_count,
      BN_is_zero = \<lambda>n. n = 0, BN_is_negative = \<lambda>n. False,
      BN_cmp = \<lambda>a b. if a < b then -1 else if a = b then 0 else 1, BN_CTX_new = True,
      BN_mod_exp = \<lambda>a p m. if m = 0 then None else Some (a ^ p mod m),
      BN_mod_mul = \<lambda>a b m. if m = 0 then None else Some (a * b mod m),
      EVP_PKEY_fromdata_rsa = \<lambda>n e. Some (), EVP_PKEY_fromdata_p256 = \<lambda>point. Some (),
      EVP_PKEY_new_raw_ed25519 = \<lambda>raw. Some (), EVP_PKEY_public_check = \<lambda>_. True,
      i2d_ECDSA_SIG = \<lambda>r s. Some (nat_octets r @ nat_octets s),
      EVP_DigestVerify_rsa_pkcs1_sha256 = \<lambda>_ _ _. True, EVP_DigestVerify_sha256 = \<lambda>_ _ _. True,
      EVP_DigestVerify_ed25519 = \<lambda>_ _ _. True,
      CRYPTO_memcmp = \<lambda>a b. if a = b then 0 else 1\<rparr>"

lemma demo_openssl_bn: "openssl_bn demo_openssl"
  by (simp add: openssl_bn_def demo_openssl_def)

definition demo_key :: RsaPublicKey where
  "demo_key = \<lparr>rsa_modulus = 0x80 # replicate 255 0, rsa_exponent = 65537\<rparr>"

lemma demo_modulus: "octets_nat (rsa_modulus demo_key) = 2 ^ 2047"
  by (simp add: demo_key_def octets_nat_Cons power_mult [symmetric, of 2 8, simplified] power_add [symmetric]
      flip: power_mult)

lemma demo_make_rsa_key: "make_rsa_key demo_openssl demo_key k = Inr ()"
proof -
  have "2047 < bit_count (2 ^ 2047)" by (rule bit_count_ge) simp
  moreover have "make_bn demo_openssl (rsa_modulus demo_key) = Some (2 ^ 2047)"
    unfolding make_bn_def demo_modulus [symmetric] by (simp add: demo_openssl_def demo_key_def)
  moreover have "rsa_modulus demo_key \<noteq> []" "hd (rsa_modulus demo_key) \<noteq> 0" "rsa_exponent demo_key = kRsaExponent"
    by (simp_all add: demo_key_def kRsaExponent_def)
  ultimately show ?thesis
    by (simp add: make_rsa_key_def make_word_def demo_openssl_def)
qed

lemma demo_challenge:
  assumes "b < 2"
  shows "challenge demo_openssl (b # th) i = Inr (ucast b)"
proof -
  have "drop 33 (challenge_input (b # th) i 0) = b # th @ u32_bytes i @ u32_bytes 0"
    by (simp add: challenge_input_def bytes_def)
  then have "digest_sha256 demo_openssl (challenge_input (b # th) i 0) =
      Inr ([0, 0, push_bit 7 b] @ replicate 29 0)"
    by (simp add: digest_sha256_def demo_openssl_def)
  moreover have "unat b < 2" using assms by (simp add: word_less_nat_alt)
  then have "b = 0 \<or> b = 1" by (auto simp: word_unat_eq_iff less_2_cases_iff)
  moreover from this have "challenge_candidate ([0, 0, push_bit 7 b] @ replicate 29 0) = ucast b"
    by (auto simp: challenge_candidate_def)
  ultimately show ?thesis by (auto simp: challenge_def challenge_from.simps [of demo_openssl])
qed

lemma demo_check_round:
  assumes "b < 2"
  shows "check_round demo_openssl 65537 15 4 (b # th) i (mk_round (T, R)) \<longleftrightarrow>
     modeq 15 (R ^ 65537) (T * 4 ^ unat b)"
proof -
  have "unat (ucast b :: u32) = unat b"
    by (simp add: unsigned_ucast_eq take_bit_nat_eq_self
        order_less_le_trans [OF unsigned_less [where 'a = nat, of b]])
  then show ?thesis
    unfolding check_round_iff [OF demo_openssl_bn zero_less_numeral] demo_challenge [OF assms] modeq_def
    by auto
qed

lemma modeq_odd_power: "modeq n (a ^ 2) 1 \<Longrightarrow> modeq n (a ^ (2 * k + 1)) a"
  using modeq_mult [OF modeq_power modeq_refl, of n "a ^ 2" 1 k a]
  unfolding power_add power_mult power_one_right by simp

lemma demo_root: "modeq 15 (4 ^ 65537) 4"
proof -
  have "modeq 15 (4 ^ (2 * 32768 + 1)) 4" by (rule modeq_odd_power) (simp add: modeq_def)
  moreover have "2 * 32768 + 1 = (65537::nat)" by simp
  ultimately show ?thesis by (simp only:)
qed

lemma check_round_special_soundness_witness:
  "extracted_signature 15 4 0 1 1 4 = 4 \<and>
   extracted_signature 15 4 (unat (0::u32)) 1 (unat (1::u32)) 4 ^ 65537 mod 15 = 4 mod 15"
proof (rule conjI)
  show "extracted_signature 15 4 0 1 1 4 = 4"
    by (simp add: extracted_signature_def root_of_quotient_def inverse_mod_def bezw.simps)
  show "extracted_signature 15 4 (unat (0::u32)) 1 (unat (1::u32)) 4 ^ 65537 mod 15 = 4 mod 15"
  proof (rule check_round_special_soundness [of demo_openssl 15 4 1 4 "[0]" 0 1 "[1]" 0])
    have one: "modeq 15 (1 ^ 65537) (1 * 4 ^ unat (0::u8))" by (simp only: power_one) simp
    then show "check_round demo_openssl 65537 15 4 [0] 0 (mk_round (1, 1))"
      by (subst demo_check_round) simp_all
    have four: "modeq 15 (4 ^ 65537) (1 * 4 ^ unat (1::u8))"
      using demo_root by (simp only: unsigned_1 power_one_right mult_1)
    show "check_round demo_openssl 65537 15 4 [1] 0 (mk_round (1, 4))"
      by (subst demo_check_round) (simp, rule four)
    show "challenge demo_openssl [0] (of_nat 0) = Inr 0" "challenge demo_openssl [1] (of_nat 0) = Inr 1"
      by (simp_all add: demo_challenge)
  qed (simp_all add: demo_openssl_bn coprime_iff_gcd_eq_1 gcd_non_0_nat)
qed

lemma check_round_honest_prover_witness:
  "check_round demo_openssl 65537 15 4 [1] 0 (mk_round (2 ^ 65537 mod 15, 2 * 4 ^ unat (1::u32) mod 15))"
proof (rule check_round_honest_prover [OF demo_openssl_bn])
  show "4 ^ 65537 mod 15 = 4 mod (15::nat)" using demo_root by (simp only: modeq_def)
  show "challenge demo_openssl [1] (of_nat 0) = Inr 1" by (simp add: demo_challenge)
qed simp

lemma gq_transcript_binds_witness:
  "gq_transcript ''a'' ''bc'' [] [] demo_key [] [] \<noteq> gq_transcript ''ab'' ''c'' [] [] demo_key [] []"
  using gq_transcript_binds [of "''a''" "''bc''" "[]" "[]" demo_key "[]" "[]"
      "''ab''" "''c''" "[]" "[]" demo_key "[]" "[]"]
  by (auto simp: transcript_sizes_def demo_key_def)


lemma demo_accepts:
  "\<exists>em th. gq_accepts demo_openssl ''c'' ''k'' ''i'' demo_key ''e30'' (replicate 8 (1, 1)) em th"
proof -
  let ?d = "[0, 0, 0] @ replicate 29 (0::u8)"
  define em where "em = [0, 1] @ replicate 202 0xff @ [0] @ kSha256DigestInfoPrefix @ ?d"
  have digest: "digest_sha256 demo_openssl bs = Inr ([0, 0, (case drop 33 bs of [] \<Rightarrow> 0 | b # _ \<Rightarrow> push_bit 7 b)] @ replicate 29 0)" for bs
    by (simp add: digest_sha256_def demo_openssl_def)
  define th' where "th' bs = [0, (case drop 33 bs of [] \<Rightarrow> 0 | b # _ \<Rightarrow> push_bit 7 b)] @ replicate 29 0" for bs :: "u8 list"
  have th: "digest_sha256 demo_openssl bs = Inr (0 # th' bs)" for bs
    unfolding digest th'_def append_Cons ..
  have "encoded_message demo_openssl (length (rsa_modulus demo_key)) (''e30'' @ ''.'' @ ''c'') = Inr em"
    by (simp add: encoded_message_def digest em_def kSha256DigestInfoPrefix_def demo_key_def bytes_def Let_def)
  moreover have "octets_nat em < octets_nat (rsa_modulus demo_key)"
  proof -
    have "octets_nat em = octets_nat (tl em)" by (simp add: em_def octets_nat_Cons)
    also have "\<dots> < 256 ^ length (tl em)" by (rule octets_nat_less)
    also have "length (tl em) = 255" by (simp add: em_def kSha256DigestInfoPrefix_def)
    also have "(256::nat) = 2 ^ 8" by simp
    also have "((2::nat) ^ 8) ^ 255 \<le> 2 ^ 2047" unfolding power_mult [symmetric] by (rule power_increasing) simp_all
    finally show ?thesis by (simp only: demo_modulus)
  qed
  moreover have "gq_equation demo_openssl demo_key em (0 # t) i (1, 1)" for t i
    by (simp add: gq_equation_def demo_challenge)
  moreover have "list_all (round_in_range (octets_nat (rsa_modulus demo_key))) (replicate 8 (1, 1))"
    unfolding demo_modulus by (simp add: round_in_range_def list_all_iff)
  moreover have "encode_base64url [0x7b, 0x7d] = ''e30''" by code_simp
  then have "has_value (decode ''e30'' 32768)"
    using decode_encode_base64url [of "[0x7b, 0x7d]" 32768] by simp
  ultimately have "gq_accepts demo_openssl ''c'' ''k'' ''i'' demo_key ''e30'' (replicate 8 (1, 1)) em
     (0 # th' (gq_transcript ''e30'' ''c'' ''k'' ''i'' demo_key em (map mk_round (replicate 8 (1, 1)))))"
    by (simp add: gq_accepts_def demo_make_rsa_key kGqRounds_def th del: mk_round.simps)
  then show ?thesis by blast
qed

lemma verify_gq_rs256_iff_witness:
  "verify_gq_rs256 demo_openssl ''c'' ''k'' ''i'' (gq_evidence ''e30'' (replicate 8 (1, 1))) demo_key = Inr ()"
proof -
  have "length (gq_evidence ''e30'' (replicate 8 (1, 1))) \<le> gq_kMaximumEvidenceBytes"
    by (simp add: gq_evidence_def bytes_def nat_octets.simps gq_kMaximumEvidenceBytes_def sum_list_replicate length_concat)
  then show ?thesis
    unfolding verify_gq_rs256_iff [OF demo_openssl_bn] using demo_accepts by blast
qed

end
