(* ===== verification/Cb_Posix.thy ===== *)
theory Cb_Posix
  imports Cb_Prelude
begin

text \<open>
  The system calls the sources make on files. The operating system is not code of the
  repository: it is a parameter, a record of functions on a state of the world \<open>'w\<close> that the
  model threads through every call in program order. What a call returns is a value; the
  loop that repeats an interrupted \<^verbatim>\<open>read\<close> may run forever, so it is a partial function.
\<close>

section \<open>System calls\<close>

datatype open_flag = O_RDONLY | O_CLOEXEC | O_NOFOLLOW | O_NONBLOCK | O_DIRECTORY | O_WRONLY | O_CREAT | O_EXCL

record file_stat =
  st_mode :: u32
  st_uid :: u32
  st_size :: int
  st_dev :: u64
  st_ino :: u64

text \<open>\<^verbatim>\<open>S_ISREG\<close>, and the bits \<^verbatim>\<open>S_IWGRP | S_IWOTH\<close>.\<close>

definition S_ISREG :: "u32 \<Rightarrow> bool" where
  "S_ISREG mode \<longleftrightarrow> mode AND 0xF000 = 0x8000"

definition writable_by_others :: "u32 \<Rightarrow> bool" where
  "writable_by_others mode \<longleftrightarrow> mode AND 0x12 \<noteq> 0"

text \<open>What \<^verbatim>\<open>read\<close> returned: \<open>-1\<close> with \<^verbatim>\<open>EINTR\<close>, \<open>-1\<close> otherwise, or that many bytes.\<close>

datatype read_result = Read_interrupted | Read_failed | Read_bytes string

record 'w posix =
  sys_open :: "string \<Rightarrow> open_flag list \<Rightarrow> 'w \<Rightarrow> int \<times> 'w"
  sys_fstat :: "int \<Rightarrow> 'w \<Rightarrow> file_stat option \<times> 'w"
  sys_read :: "int \<Rightarrow> nat \<Rightarrow> 'w \<Rightarrow> read_result \<times> 'w"
  sys_close :: "int \<Rightarrow> 'w \<Rightarrow> bool \<times> 'w"

section \<open>Reading a whole file\<close>

text \<open>
  The read loop of \<^verbatim>\<open>load_static_file\<close> and of \<^verbatim>\<open>read_file\<close>. The buffer up to the
  offset is \<open>acc\<close>; the inner \<open>None\<close> is a failed or premature end of the file.
\<close>

partial_function (option) read_loop ::
  "'w posix \<Rightarrow> int \<Rightarrow> nat \<Rightarrow> string \<Rightarrow> 'w \<Rightarrow> (string option \<times> 'w) option" where
  "read_loop os fd wanted acc w =
     (if length acc < wanted then
        case sys_read os fd (wanted - length acc) w of (result, w) \<Rightarrow>
          (case result of
             Read_interrupted \<Rightarrow> read_loop os fd wanted acc w
           | Read_failed \<Rightarrow> Some (None, w)
           | Read_bytes chunk \<Rightarrow>
               if chunk = [] then Some (None, w) else read_loop os fd wanted (acc @ chunk) w)
      else Some (Some acc, w))"

text \<open>What POSIX documents of \<^verbatim>\<open>read\<close>: at most the bytes asked for.\<close>

definition read_bounded :: "'w posix \<Rightarrow> bool" where
  "read_bounded os \<longleftrightarrow> (\<forall>fd n w chunk w'. sys_read os fd n w = (Read_bytes chunk, w') \<longrightarrow> length chunk \<le> n)"

text \<open>Signals do not interrupt a read forever: some rank of the world falls at each interruption.\<close>

definition interrupts_finite :: "'w posix \<Rightarrow> ('w \<Rightarrow> nat) \<Rightarrow> bool" where
  "interrupts_finite os rank \<longleftrightarrow>
     (\<forall>fd n w w'. sys_read os fd n w = (Read_interrupted, w') \<longrightarrow> rank w' < rank w)"


text \<open>One round of the loop, as the two inductions below use it.\<close>

lemma read_loop_done: "wanted \<le> length acc \<Longrightarrow> read_loop os fd wanted acc w = Some (Some acc, w)"
  by (subst read_loop.simps) simp

lemma read_loop_more:
  assumes "length acc < wanted"
  shows "read_loop os fd wanted acc w =
     (case sys_read os fd (wanted - length acc) w of
        (Read_interrupted, w) \<Rightarrow> read_loop os fd wanted acc w
      | (Read_failed, w) \<Rightarrow> Some (None, w)
      | (Read_bytes chunk, w) \<Rightarrow>
          if chunk = [] then Some (None, w) else read_loop os fd wanted (acc @ chunk) w)"
  using assms by (subst read_loop.simps) (simp split: prod.split read_result.split)

lemma read_boundedD:
  assumes "read_bounded os" "sys_read os fd n w = (Read_bytes chunk, w')"
  shows "length chunk \<le> n"
  by (rule assms(1) [unfolded read_bounded_def, rule_format, OF assms(2)])

lemma read_loop_result:
  assumes "read_bounded os" "read_loop os fd wanted acc w = Some (Some s, w')" "length acc \<le> wanted"
  shows "length s = wanted \<and> (\<exists>rest. s = acc @ rest)"
proof -
  define Q :: "'a posix \<Rightarrow> int \<Rightarrow> nat \<Rightarrow> string \<Rightarrow> 'a \<Rightarrow> string option \<times> 'a \<Rightarrow> bool" where
    "Q = (\<lambda>os fd wanted acc w r. read_bounded os \<longrightarrow> length acc \<le> wanted \<longrightarrow>
     (\<forall>s. fst r = Some s \<longrightarrow> length s = wanted \<and> (\<exists>rest. s = acc @ rest)))"
  have "Q os fd wanted acc w (Some s, w')"
  proof (rule read_loop.raw_induct [OF _ assms(2), of Q])
    fix read_loop and os :: "'a posix" and fd wanted acc w r
    assume IH: "\<And>os fd wanted acc w r. read_loop os fd wanted acc w = Some r \<Longrightarrow> Q os fd wanted acc w r"
      and eq: "(if length acc < wanted
         then case sys_read os fd (wanted - length acc) w of (result, w) \<Rightarrow>
           (case result of Read_interrupted \<Rightarrow> read_loop os fd wanted acc w
            | Read_failed \<Rightarrow> Some (None, w)
            | Read_bytes chunk \<Rightarrow> if chunk = [] then Some (None, w) else read_loop os fd wanted (acc @ chunk) w)
         else Some (Some acc, w)) = Some r"
    show "Q os fd wanted acc w r"
    proof (cases "length acc < wanted")
      case True
      obtain result w1 where call: "sys_read os fd (wanted - length acc) w = (result, w1)" by fastforce
      show ?thesis
      proof (cases result)
        case Read_interrupted
        then have "Q os fd wanted acc w1 r" using eq True call by (intro IH) simp
        then show ?thesis by (simp add: Q_def)
      next
        case Read_failed
        then show ?thesis using eq True call by (auto simp: Q_def)
      next
        case (Read_bytes chunk)
        then have "chunk = [] \<and> r = (None, w1) \<or> Q os fd wanted (acc @ chunk) w1 r"
          using eq True call by (auto split: if_splits dest: IH)
        moreover have "length chunk \<le> wanted - length acc" if "read_bounded os"
          using read_boundedD [OF that] call Read_bytes by simp
        ultimately show ?thesis using True by (auto simp: Q_def)
      qed
    next
      case False
      with eq show ?thesis by (auto simp: Q_def)
    qed
  qed
  with assms show ?thesis by (simp add: Q_def)
qed

lemma read_loop_returns:
  assumes finite: "interrupts_finite os rank"
  shows "\<exists>r w'. read_loop os fd wanted acc w = Some (r, w')"
proof (induction "wanted - length acc" arbitrary: acc w rule: less_induct)
  case outer: less
  show ?case
  proof (induction "rank w" arbitrary: w rule: less_induct)
    case inner: less
    show ?case
    proof (cases "length acc < wanted")
      case True
      obtain result w1 where call: "sys_read os fd (wanted - length acc) w = (result, w1)" by fastforce
      show ?thesis
      proof (cases result)
        case Read_interrupted
        then have "rank w1 < rank w" using finite call by (auto simp: interrupts_finite_def)
        then show ?thesis using inner True call Read_interrupted by (simp add: read_loop_more)
      next
        case (Read_bytes chunk)
        then have "wanted - length (acc @ chunk) < wanted - length acc" if "chunk \<noteq> []"
          using that True by (cases chunk) auto
        then show ?thesis using outer [of "acc @ chunk" w1] True call Read_bytes
          by (simp add: read_loop_more)
      qed (use True call in \<open>simp add: read_loop_more\<close>)
    qed (simp add: read_loop_done)
  qed
qed

end
