(* ===== verification/Cb_Jwks.thy ===== *)
theory Cb_Jwks
  imports Cb_Crypto Cb_Sax Cb_Posix
begin

text \<open>
  The issuer key set, \<^verbatim>\<open>src/jwks.cpp\<close>: the strict handler \<^verbatim>\<open>JwksSax\<close> callback by
  callback, \<^verbatim>\<open>decode_key\<close>, \<^verbatim>\<open>parse\<close>, \<^verbatim>\<open>StaticJwks::resolve_rs256\<close> and the
  loading of the file; then which documents are accepted, which keys, and what a successful
  load has checked.
\<close>

section \<open>Types\<close>

record jwks_Limits =
  jl_max_bytes :: nat
  jl_max_keys :: nat
  jl_max_members :: nat
  jl_max_kid_bytes :: nat

definition default_jwks_limits :: jwks_Limits where
  "default_jwks_limits =
     \<lparr>jl_max_bytes = 1048576, jl_max_keys = 64, jl_max_members = 512, jl_max_kid_bytes = 256\<rparr>"

record FilePolicy =
  fp_required_owner :: u32
  fp_allow_root_owner :: bool
  fp_limits :: jwks_Limits

type_synonym StaticJwks = "string \<rightharpoonup> RsaPublicKey"

datatype KeySourceProfile = static_jwks_file | oidc_discovery

record KeySource =
  ks_profile :: KeySourceProfile
  ks_path :: string

record ParsedKey =
  pk_kty :: string
  pk_kid :: string
  pk_use :: string
  pk_alg :: string
  pk_n :: string
  pk_e :: string

definition empty_key :: ParsedKey where
  "empty_key = \<lparr>pk_kty = '''', pk_kid = '''', pk_use = '''', pk_alg = '''', pk_n = '''', pk_e = ''''\<rparr>"

datatype jwks_context_kind = jwks_root_object | keys_array | key_object

record jwks_context =
  jx_kind :: jwks_context_kind
  jx_members :: "string set"
  jx_pending_name :: string

definition new_jwks_context :: "jwks_context_kind \<Rightarrow> jwks_context" where
  "new_jwks_context kind = \<lparr>jx_kind = kind, jx_members = {}, jx_pending_name = ''''\<rparr>"

text \<open>The members of the handler; the back of \<^verbatim>\<open>stack_\<close> is the head of the list.\<close>

record JwksSax =
  js_limits :: jwks_Limits
  js_stack :: "jwks_context list"
  js_parsed_keys :: "ParsedKey list"
  js_current :: ParsedKey
  js_error :: ParseErrorKind
  js_key_count :: nat
  js_member_count :: nat
  js_have_keys :: bool
  js_failed :: bool

definition jwks_init :: "jwks_Limits \<Rightarrow> JwksSax" where
  "jwks_init limits =
     \<lparr>js_limits = limits, js_stack = [], js_parsed_keys = [], js_current = empty_key,
      js_error = issuer_untrusted, js_key_count = 0, js_member_count = 0, js_have_keys = False,
      js_failed = False\<rparr>"

section \<open>The callbacks\<close>

definition jwks_fail :: "JwksSax \<Rightarrow> ParseErrorKind \<Rightarrow> JwksSax \<times> bool" where
  "jwks_fail s kind = (if \<not> js_failed s then s\<lparr>js_error := kind, js_failed := True\<rparr> else s, False)"

definition jwks_wrong_type :: "JwksSax \<Rightarrow> JwksSax \<times> bool" where
  "jwks_wrong_type s = jwks_fail s issuer_untrusted"

text \<open>\<^verbatim>\<open>assign\<close> to the field of the member, when it is one of the six.\<close>

definition assign_key_member :: "string \<Rightarrow> string \<Rightarrow> ParsedKey \<Rightarrow> ParsedKey option" where
  "assign_key_member name v k =
     (if name = ''kty'' then Some (k\<lparr>pk_kty := v\<rparr>)
      else if name = ''kid'' then Some (k\<lparr>pk_kid := v\<rparr>)
      else if name = ''use'' then Some (k\<lparr>pk_use := v\<rparr>)
      else if name = ''alg'' then Some (k\<lparr>pk_alg := v\<rparr>)
      else if name = ''n'' then Some (k\<lparr>pk_n := v\<rparr>)
      else if name = ''e'' then Some (k\<lparr>pk_e := v\<rparr>)
      else None)"

definition jwks_string :: "JwksSax \<Rightarrow> string \<Rightarrow> JwksSax \<times> bool" where
  "jwks_string s v =
     (if js_stack s = [] \<or> jx_kind (hd (js_stack s)) \<noteq> key_object then jwks_fail s issuer_untrusted
      else
        let context = hd (js_stack s) in
        if jx_pending_name context = '''' then jwks_fail s issuer_untrusted
        else if jx_pending_name context = ''kid'' \<and>
            (v = '''' \<or> length v > jl_max_kid_bytes (js_limits s))
        then jwks_fail s issuer_untrusted
        else
          case assign_key_member (jx_pending_name context) v (js_current s) of
            None \<Rightarrow> jwks_fail s issuer_untrusted
          | Some current \<Rightarrow>
              (s\<lparr>js_current := current,
                 js_stack := context\<lparr>jx_pending_name := ''''\<rparr> # tl (js_stack s)\<rparr>, True))"

definition jwks_start_object :: "JwksSax \<Rightarrow> JwksSax \<times> bool" where
  "jwks_start_object s =
     (if js_stack s = [] then (s\<lparr>js_stack := [new_jwks_context jwks_root_object]\<rparr>, True)
      else if jx_kind (hd (js_stack s)) \<noteq> keys_array then jwks_fail s issuer_untrusted
      else
        let s = s\<lparr>js_key_count := js_key_count s + 1\<rparr> in
        if js_key_count s > jl_max_keys (js_limits s) then jwks_fail s resource_limit
        else (s\<lparr>js_current := empty_key, js_stack := new_jwks_context key_object # js_stack s\<rparr>, True))"

definition jwks_key :: "JwksSax \<Rightarrow> string \<Rightarrow> JwksSax \<times> bool" where
  "jwks_key s name =
     (if js_stack s = [] \<or> jx_kind (hd (js_stack s)) = keys_array then jwks_fail s issuer_untrusted
      else
        let s = s\<lparr>js_member_count := js_member_count s + 1\<rparr> in
        if js_member_count s > jl_max_members (js_limits s) then jwks_fail s resource_limit
        else
          let context = hd (js_stack s) in
          if name \<in> jx_members context then jwks_fail s issuer_untrusted
          else
            let context = context\<lparr>jx_members := insert name (jx_members context)\<rparr>;
                s = s\<lparr>js_stack := context # tl (js_stack s)\<rparr>
            in if jx_kind context = jwks_root_object \<and> name \<noteq> ''keys'' then jwks_fail s issuer_untrusted
               else if jx_kind context \<noteq> jwks_root_object \<and> name \<noteq> ''kty'' \<and> name \<noteq> ''kid'' \<and>
                   name \<noteq> ''use'' \<and> name \<noteq> ''alg'' \<and> name \<noteq> ''n'' \<and> name \<noteq> ''e''
               then jwks_fail s issuer_untrusted
               else (s\<lparr>js_stack := context\<lparr>jx_pending_name := name\<rparr> # tl (js_stack s)\<rparr>, True))"

definition jwks_complete_key :: "JwksSax \<Rightarrow> JwksSax \<times> bool" where
  "jwks_complete_key s =
     (let members = jx_members (hd (js_stack s)); current = js_current s in
      if card members \<noteq> 6 \<or> pk_kty current = '''' \<or> pk_kid current = '''' \<or> pk_use current = '''' \<or>
          pk_alg current = '''' \<or> pk_n current = '''' \<or> pk_e current = ''''
      then jwks_fail s issuer_untrusted
      else if pk_kty current \<noteq> ''RSA'' \<or> pk_use current \<noteq> ''sig'' \<or> pk_alg current \<noteq> ''RS256''
      then jwks_fail s issuer_untrusted
      else (s, True))"

definition jwks_end_object :: "JwksSax \<Rightarrow> JwksSax \<times> bool" where
  "jwks_end_object s =
     (if js_stack s = [] then jwks_fail s issuer_untrusted
      else
        case jx_kind (hd (js_stack s)) of
          key_object \<Rightarrow>
            (case jwks_complete_key s of (s, completed) \<Rightarrow>
               if \<not> completed then (s, False)
               else (s\<lparr>js_parsed_keys := js_parsed_keys s @ [js_current s], js_stack := tl (js_stack s)\<rparr>, True))
        | jwks_root_object \<Rightarrow>
            if \<not> js_have_keys s \<or> card (jx_members (hd (js_stack s))) \<noteq> 1 then jwks_fail s issuer_untrusted
            else (s\<lparr>js_stack := tl (js_stack s)\<rparr>, True)
        | keys_array \<Rightarrow> jwks_fail s issuer_untrusted)"

definition jwks_start_array :: "JwksSax \<Rightarrow> JwksSax \<times> bool" where
  "jwks_start_array s =
     (if js_stack s = [] \<or> jx_kind (hd (js_stack s)) \<noteq> jwks_root_object \<or>
          jx_pending_name (hd (js_stack s)) \<noteq> ''keys''
      then jwks_fail s issuer_untrusted
      else
        (s\<lparr>js_have_keys := True,
           js_stack := new_jwks_context keys_array #
             (hd (js_stack s))\<lparr>jx_pending_name := ''''\<rparr> # tl (js_stack s)\<rparr>, True))"

definition jwks_end_array :: "JwksSax \<Rightarrow> JwksSax \<times> bool" where
  "jwks_end_array s =
     (if js_stack s = [] \<or> jx_kind (hd (js_stack s)) \<noteq> keys_array then jwks_fail s issuer_untrusted
      else if js_key_count s = 0 then jwks_fail s issuer_untrusted
      else (s\<lparr>js_stack := tl (js_stack s)\<rparr>, True))"

definition jwks_step :: "JwksSax \<Rightarrow> sax_event \<Rightarrow> JwksSax \<times> bool" where
  "jwks_step s e =
     (case e of
        Ev_null \<Rightarrow> jwks_wrong_type s
      | Ev_boolean _ \<Rightarrow> jwks_wrong_type s
      | Ev_number_integer _ \<Rightarrow> jwks_wrong_type s
      | Ev_number_unsigned _ \<Rightarrow> jwks_wrong_type s
      | Ev_number_float _ \<Rightarrow> jwks_wrong_type s
      | Ev_string v \<Rightarrow> jwks_string s v
      | Ev_binary \<Rightarrow> jwks_fail s issuer_untrusted
      | Ev_start_object \<Rightarrow> jwks_start_object s
      | Ev_key name \<Rightarrow> jwks_key s name
      | Ev_end_object \<Rightarrow> jwks_end_object s
      | Ev_start_array \<Rightarrow> jwks_start_array s
      | Ev_end_array \<Rightarrow> jwks_end_array s
      | Ev_parse_error \<Rightarrow> jwks_fail s issuer_untrusted)"

section \<open>Keys\<close>

text \<open>The decoded modulus and exponent; every refusal reports the same error.\<close>

definition decode_key :: "ParsedKey \<Rightarrow> RsaPublicKey expected" where
  "decode_key k =
     (case (decode (pk_n k) 1024, decode (pk_e k) 8) of
        (Inr modulus, Inr exponent) \<Rightarrow>
          if modulus = [] \<or> hd modulus = 0 \<or>
             (length modulus < 256 \<or> (length modulus = 256 \<and> hd modulus AND 0x80 = 0)) \<or>
             exponent \<noteq> [0x01, 0x00, 0x01]
          then Inl issuer_untrusted
          else Inr \<lparr>rsa_modulus = modulus, rsa_exponent = 65537\<rparr>
      | _ \<Rightarrow> Inl issuer_untrusted)"

definition resolve_rs256 :: "StaticJwks \<Rightarrow> string \<Rightarrow> RsaPublicKey expected" where
  "resolve_rs256 keys kid =
     (if kid = '''' then Inl issuer_untrusted
      else case keys kid of None \<Rightarrow> Inl issuer_untrusted | Some key \<Rightarrow> Inr key)"

text \<open>The loop that fills \<^verbatim>\<open>keys_\<close>; \<^verbatim>\<open>emplace\<close> refuses a key ID already there.\<close>

fun collect_keys :: "ParsedKey list \<Rightarrow> StaticJwks \<Rightarrow> StaticJwks expected" where
  "collect_keys [] result = Inr result"
| "collect_keys (parsed_key # parsed_keys) result =
     ebind (decode_key parsed_key) (\<lambda>key.
       if result (pk_kid parsed_key) \<noteq> None then Inl issuer_untrusted
       else collect_keys parsed_keys (result(pk_kid parsed_key \<mapsto> key)))"

definition jwks_parse :: "json_lexer \<Rightarrow> string \<Rightarrow> jwks_Limits \<Rightarrow> StaticJwks expected" where
  "jwks_parse lexer input limits =
     (if jl_max_bytes limits = 0 \<or> jl_max_keys limits = 0 \<or> jl_max_members limits = 0 \<or>
         jl_max_kid_bytes limits = 0 \<or> length input > jl_max_bytes limits
      then Inl resource_limit
      else
        case sax_run jwks_step (jwks_init limits) (lexer input) of (handler, parsed) \<Rightarrow>
          if \<not> parsed \<or> js_failed handler then Inl (js_error handler)
          else collect_keys (js_parsed_keys handler) Map.empty)"

section \<open>The key file\<close>

text \<open>The destructor of \<^verbatim>\<open>FileDescriptor\<close>, run on every exit once the file is open.\<close>

definition close_descriptor :: "'w posix \<Rightarrow> int \<Rightarrow> 'w \<Rightarrow> 'w" where
  "close_descriptor os fd w = (if 0 \<le> fd then snd (sys_close os fd w) else w)"

definition unsafe_metadata :: "FilePolicy \<Rightarrow> file_stat \<Rightarrow> bool" where
  "unsafe_metadata policy metadata \<longleftrightarrow>
     \<not> S_ISREG (st_mode metadata) \<or> writable_by_others (st_mode metadata) \<or>
     (st_uid metadata \<noteq> fp_required_owner policy \<and>
      \<not> (fp_allow_root_owner policy \<and> st_uid metadata = 0)) \<or>
     st_size metadata < 0"

text \<open>What happens between the opening and the closing of the file.\<close>

definition load_open_file ::
  "json_lexer \<Rightarrow> 'w posix \<Rightarrow> FilePolicy \<Rightarrow> int \<Rightarrow> 'w \<Rightarrow> (StaticJwks expected \<times> 'w) option" where
  "load_open_file lexer os policy fd w =
     (case sys_fstat os fd w of (before, w) \<Rightarrow>
        (case before of
           None \<Rightarrow> Some (Inl issuer_untrusted, w)
         | Some metadata \<Rightarrow>
             if unsafe_metadata policy metadata then Some (Inl issuer_untrusted, w)
             else if nat (st_size metadata) > jl_max_bytes (fp_limits policy) \<or>
                 nat (st_size metadata) \<ge> 2 ^ 64
             then Some (Inl resource_limit, w)
             else
               Option.bind (read_loop os fd (nat (st_size metadata)) [] w) (\<lambda>(snapshot, w).
                 case snapshot of
                   None \<Rightarrow> Some (Inl issuer_untrusted, w)
                 | Some snapshot \<Rightarrow>
                     (case sys_fstat os fd w of (again, w) \<Rightarrow>
                        (case again of
                           None \<Rightarrow> Some (Inl issuer_untrusted, w)
                         | Some after \<Rightarrow>
                             if st_dev after \<noteq> st_dev metadata \<or> st_ino after \<noteq> st_ino metadata \<or>
                                st_size after \<noteq> st_size metadata
                             then Some (Inl issuer_untrusted, w)
                             else Some (jwks_parse lexer snapshot (fp_limits policy), w))))))"

definition load_static_file ::
  "json_lexer \<Rightarrow> 'w posix \<Rightarrow> string \<Rightarrow> FilePolicy \<Rightarrow> 'w \<Rightarrow> (StaticJwks expected \<times> 'w) option" where
  "load_static_file lexer os path policy w =
     (if length path < 2 \<or> hd path \<noteq> CHR ''/'' \<or> CHR 0x00 \<in> set path
      then Some (Inl issuer_untrusted, w)
      else
        case sys_open os path [O_RDONLY, O_CLOEXEC, O_NOFOLLOW, O_NONBLOCK] w of (descriptor, w) \<Rightarrow>
          if descriptor < 0 then Some (Inl issuer_untrusted, close_descriptor os descriptor w)
          else
            Option.bind (load_open_file lexer os policy descriptor w) (\<lambda>(result, w).
              Some (result, close_descriptor os descriptor w)))"

definition jwks_load ::
  "json_lexer \<Rightarrow> 'w posix \<Rightarrow> KeySource \<Rightarrow> FilePolicy \<Rightarrow> 'w \<Rightarrow> (StaticJwks expected \<times> 'w) option" where
  "jwks_load lexer os source policy w =
     (if ks_profile source \<noteq> static_jwks_file then Some (Inl unsupported_profile, w)
      else load_static_file lexer os (ks_path source) policy w)"

section \<open>Which keys are admitted\<close>

lemma high_bit_iff: "(b :: u8) AND 0x80 = 0 \<longleftrightarrow> unat b < 128"
proof -
  have "\<forall>n<256. (of_nat n :: u8) AND 0x80 = 0 \<longleftrightarrow> n < 128"
    by code_simp
  moreover have "unat b < 256" using unsigned_less [where 'a = nat, of b] by simp
  ultimately have "(of_nat (unat b) :: u8) AND 0x80 = 0 \<longleftrightarrow> unat b < 128" by blast
  then show ?thesis by simp
qed

lemma octets_nat_lower: "bs \<noteq> [] \<Longrightarrow> hd bs \<noteq> 0 \<Longrightarrow> 256 ^ (length bs - 1) \<le> octets_nat bs"
  by (cases bs) (auto simp: octets_nat_Cons word_unat_eq_iff intro: trans_le_add1)

lemma octets_nat_upper:
  assumes "bs \<noteq> []" "hd bs \<noteq> 0"
  shows "octets_nat bs < 256 ^ k \<longleftrightarrow> length bs \<le> k"
proof
  assume "octets_nat bs < 256 ^ k"
  with octets_nat_lower [OF assms] have "(256::nat) ^ (length bs - 1) < 256 ^ k" by (rule le_less_trans)
  then have "length bs - 1 < k" by (simp add: power_strict_increasing_iff)
  then show "length bs \<le> k" by simp
next
  assume "length bs \<le> k"
  then have "(256::nat) ^ length bs \<le> 256 ^ k" by (intro power_increasing) simp_all
  with octets_nat_less show "octets_nat bs < 256 ^ k" by (rule less_le_trans)
qed

lemma octets_nat_half:
  assumes "bs \<noteq> []" "hd bs \<noteq> 0"
  shows "128 * 256 ^ k \<le> octets_nat bs \<longleftrightarrow>
     k + 1 < length bs \<or> (length bs = k + 1 \<and> 128 \<le> unat (hd bs))"
proof -
  obtain b rest where bs: "bs = b # rest" using assms(1) by (cases bs) auto
  consider "length bs \<le> k" | "k + 1 < length bs" | "length bs = k + 1" by linarith
  then show ?thesis
  proof cases
    case 1
    then have "octets_nat bs < 256 ^ k" by (simp add: octets_nat_upper [OF assms])
    also have "(256::nat) ^ k \<le> 128 * 256 ^ k" by simp
    finally show ?thesis using 1 by simp
  next
    case 2
    then have "(256::nat) ^ (k + 1) \<le> 256 ^ (length bs - 1)" by (intro power_increasing) simp_all
    also note octets_nat_lower [OF assms]
    finally have "128 * 256 ^ k \<le> octets_nat bs" by simp
    then show ?thesis using 2 by simp
  next
    case 3
    have rest: "octets_nat rest < 256 ^ k" using octets_nat_less [of rest] 3 bs by simp
    have "128 * 256 ^ k \<le> unat b * 256 ^ k + octets_nat rest \<longleftrightarrow> 128 \<le> unat b"
    proof
      assume *: "128 * 256 ^ k \<le> unat b * 256 ^ k + octets_nat rest"
      show "128 \<le> unat b"
      proof (rule ccontr)
        assume "\<not> 128 \<le> unat b"
        then have "(unat b + 1) * 256 ^ k \<le> 128 * 256 ^ k" by (intro mult_le_mono1) simp
        then have "unat b * 256 ^ k + 256 ^ k \<le> 128 * 256 ^ k" by (simp only: add_mult_distrib mult_1)
        with * rest show False by linarith
      qed
    next
      assume "128 \<le> unat b"
      then have "128 * 256 ^ k \<le> unat b * 256 ^ k" by (intro mult_le_mono1)
      then show "128 * 256 ^ k \<le> unat b * 256 ^ k + octets_nat rest" by (rule trans_le_add1)
    qed
    then show ?thesis using 3 bs by (simp add: octets_nat_Cons)
  qed
qed

lemma nat_octets_canonical:
  assumes "bs \<noteq> []" "hd bs \<noteq> 0"
  shows "\<exists>n>0. bs = nat_octets n"
  using nat_octets_octets_nat [of bs] octets_nat_pos [OF assms] assms by (metis)

text \<open>The range of the modulus, kept folded: the numerals have hundreds of digits.\<close>

definition modulus_in_range :: "nat \<Rightarrow> bool" where
  "modulus_in_range n \<longleftrightarrow> 2 ^ 2047 \<le> n \<and> n < 2 ^ 8192"

lemma modulus_in_range_iff: "modulus_in_range n \<longleftrightarrow> 128 * 256 ^ 255 \<le> n \<and> n < 256 ^ 1024"
proof -
  have "(2::nat) ^ 2047 = 2 ^ 7 * (2 ^ 8) ^ 255" unfolding power_mult [symmetric] power_add [symmetric] by simp
  moreover have "(2::nat) ^ 8192 = (2 ^ 8) ^ 1024" unfolding power_mult [symmetric] by simp
  moreover have "(2::nat) ^ 7 = 128" "(2::nat) ^ 8 = 256" by simp_all
  ultimately show ?thesis unfolding modulus_in_range_def by (simp only:)
qed

lemma modulus_bytes_iff:
  assumes "n = octets_nat bs" "bs \<noteq> []" "hd bs \<noteq> 0"
  shows "modulus_in_range n \<longleftrightarrow>
     length bs \<le> 1024 \<and> \<not> (length bs < 256 \<or> (length bs = 256 \<and> hd bs AND 0x80 = 0))"
  unfolding modulus_in_range_iff assms(1) octets_nat_half [OF assms(2,3)] octets_nat_upper [OF assms(2,3)]
    high_bit_iff by auto

lemma decode_key_eq:
  "decode_key k = Inr key \<longleftrightarrow>
     (\<exists>n. modulus_in_range n \<and> pk_n k = encode_base64url (nat_octets n) \<and>
        pk_e k = encode_base64url [1, 0, 1] \<and> key = \<lparr>rsa_modulus = nat_octets n, rsa_exponent = 65537\<rparr>)"
proof
  assume "decode_key k = Inr key"
  then obtain bs where bs: "decode (pk_n k) 1024 = Inr bs" "decode (pk_e k) 8 = Inr [1, 0, 1]"
      "bs \<noteq> []" "hd bs \<noteq> 0" "\<not> (length bs < 256 \<or> (length bs = 256 \<and> hd bs AND 0x80 = 0))"
      "key = \<lparr>rsa_modulus = bs, rsa_exponent = 65537\<rparr>"
    by (auto simp: decode_key_def split: sum.splits if_splits)
  moreover from this have "bs = nat_octets (octets_nat bs)" by (simp add: nat_octets_octets_nat)
  moreover have "modulus_in_range (octets_nat bs)"
    using bs modulus_bytes_iff [OF refl bs(3,4)] by (simp add: decode_iff)
  ultimately show "\<exists>n. modulus_in_range n \<and> pk_n k = encode_base64url (nat_octets n) \<and>
      pk_e k = encode_base64url [1, 0, 1] \<and> key = \<lparr>rsa_modulus = nat_octets n, rsa_exponent = 65537\<rparr>"
    by (metis decode_iff)
next
  assume "\<exists>n. modulus_in_range n \<and> pk_n k = encode_base64url (nat_octets n) \<and>
      pk_e k = encode_base64url [1, 0, 1] \<and> key = \<lparr>rsa_modulus = nat_octets n, rsa_exponent = 65537\<rparr>"
  then obtain n where n: "modulus_in_range n" "pk_n k = encode_base64url (nat_octets n)"
      "pk_e k = encode_base64url [1, 0, 1]" "key = \<lparr>rsa_modulus = nat_octets n, rsa_exponent = 65537\<rparr>"
    by blast
  have "n \<noteq> 0" using n(1) by (cases "n = 0") (simp_all add: modulus_in_range_iff)
  then have bs: "nat_octets n \<noteq> []" "hd (nat_octets n) \<noteq> 0" by (simp_all add: hd_nat_octets)
  with n(1) have range: "length (nat_octets n) \<le> 1024"
      "\<not> (length (nat_octets n) < 256 \<or> (length (nat_octets n) = 256 \<and> hd (nat_octets n) AND 0x80 = 0))"
    using modulus_bytes_iff [OF _ bs, of n] by simp_all
  have "decode (pk_n k) 1024 = Inr (nat_octets n)" "decode (pk_e k) 8 = Inr [1, 0, 1]"
    using n(2,3) range(1) bs(1) by (simp_all add: decode_encode_base64url)
  then show "decode_key k = Inr key" using bs range(2) n(4) by (simp add: decode_key_def)
qed

text \<open>
  C16. A JWK is admitted as an issuer key exactly when its modulus is the canonical encoding of
  an integer of 2048 to 8192 bits, without leading zero octets, and its exponent is the
  canonical encoding of 65537.
\<close>

theorem decode_key_iff:
  "decode_key k = Inr key \<longleftrightarrow>
     (\<exists>n. 2 ^ 2047 \<le> n \<and> n < 2 ^ 8192 \<and> pk_n k = encode_base64url (nat_octets n) \<and>
        pk_e k = ''AQAB'' \<and> key = \<lparr>rsa_modulus = nat_octets n, rsa_exponent = 65537\<rparr>)"
proof -
  have "encode_base64url [1, 0, 1] = ''AQAB''" by code_simp
  then show ?thesis unfolding decode_key_eq modulus_in_range_def by (metis (no_types))
qed

text \<open>
  Such a key passes every check of its own that \<^verbatim>\<open>make_rsa_key\<close> makes, as soon as
  \<^verbatim>\<open>BN_num_bits\<close> counts the bits.
\<close>

definition counts_bits :: "'k openssl \<Rightarrow> bool" where
  "counts_bits ossl \<longleftrightarrow> (\<forall>n k. k < BN_num_bits ossl n \<longleftrightarrow> 2 ^ k \<le> n)"

lemma decoded_key_eligible:
  assumes "openssl_bn ossl" "counts_bits ossl" "decode_key k = Inr key"
  shows "make_rsa_key ossl key e =
     (case EVP_PKEY_fromdata_rsa ossl (octets_nat (rsa_modulus key)) 65537 of
        None \<Rightarrow> Inl e | Some raw_key \<Rightarrow> Inr raw_key)"
proof -
  from assms(3) obtain n where n: "modulus_in_range n" "rsa_modulus key = nat_octets n" "rsa_exponent key = 65537"
    by (auto simp: decode_key_eq)
  have "n \<noteq> 0" using n(1) by (cases "n = 0") (simp_all add: modulus_in_range_iff)
  then have bs: "nat_octets n \<noteq> []" "hd (nat_octets n) \<noteq> 0" by (simp_all add: hd_nat_octets)
  have "length (nat_octets n) \<le> 1024"
    using n(1) modulus_bytes_iff [OF _ bs, of n] by simp
  then have "make_bn ossl (nat_octets n) = Some n" using bs assms(1) by (simp add: make_bn_def openssl_bn_def)
  moreover have "2 ^ 2047 \<le> n" using n(1) unfolding modulus_in_range_def by (rule conjunct1)
  then have "2047 < BN_num_bits ossl n" using assms(2) unfolding counts_bits_def by (elim allE) (rule iffD2)
  then have "\<not> BN_num_bits ossl n < 2048" by simp
  ultimately show ?thesis
    using bs n(2,3) assms(1) by (simp add: make_rsa_key_def make_word_def kRsaExponent_def openssl_bn_def)
qed

section \<open>Which documents are accepted\<close>

lemmas jwks_callback_defs =
  jwks_step_def jwks_wrong_type_def jwks_string_def jwks_start_object_def jwks_key_def
  jwks_complete_key_def jwks_end_object_def jwks_start_array_def jwks_end_array_def jwks_fail_def Let_def

interpretation jwks_sax: sax_handler jwks_step js_failed
  by unfold_locales
    (auto simp: jwks_callback_defs
      split: sax_event.splits if_splits jwks_context_kind.splits prod.splits option.splits)

definition jwk_names :: "string set" where
  "jwk_names = {''kty'', ''kid'', ''use'', ''alg'', ''n'', ''e''}"

definition assigned :: "string \<Rightarrow> string \<Rightarrow> ParsedKey \<Rightarrow> ParsedKey" where
  "assigned name v k = (case assign_key_member name v k of Some k' \<Rightarrow> k' | None \<Rightarrow> k)"

lemma assign_key_member_iff: "assign_key_member name v k = Some k' \<longleftrightarrow> name \<in> jwk_names \<and> k' = assigned name v k"
  by (auto simp: assign_key_member_def assigned_def jwk_names_def)

lemma assign_key_member_None: "assign_key_member name v k = None \<longleftrightarrow> name \<notin> jwk_names"
  by (simp add: assign_key_member_def jwk_names_def)

definition after_jwk_member :: "JwksSax \<Rightarrow> jwks_context \<Rightarrow> jwks_context list \<Rightarrow> string \<Rightarrow> string \<Rightarrow> JwksSax" where
  "after_jwk_member s c rest name x =
     s\<lparr>js_member_count := js_member_count s + 1, js_current := assigned name x (js_current s),
       js_stack := c\<lparr>jx_members := insert name (jx_members c), jx_pending_name := ''''\<rparr> # rest\<rparr>"

definition jwk_string_ok :: "jwks_Limits \<Rightarrow> string \<Rightarrow> string \<Rightarrow> bool" where
  "jwk_string_ok limits name x \<longleftrightarrow> name \<noteq> ''kid'' \<or> (x \<noteq> '''' \<and> length x \<le> jl_max_kid_bytes limits)"

lemma jwks_key_in_object:
  assumes "js_stack s = c # rest" "jx_kind c = key_object"
  shows "jwks_key s name = (t, True) \<longleftrightarrow>
     js_member_count s < jl_max_members (js_limits s) \<and> name \<notin> jx_members c \<and> name \<in> jwk_names \<and>
     t = s\<lparr>js_member_count := js_member_count s + 1,
         js_stack := c\<lparr>jx_members := insert name (jx_members c), jx_pending_name := name\<rparr> # rest\<rparr>"
  using assms by (auto simp: jwks_key_def jwks_fail_def Let_def jwk_names_def)

lemma jwks_string_in_object:
  assumes "js_stack s = c # rest" "jx_kind c = key_object" "jx_pending_name c \<in> jwk_names"
  shows "jwks_string s x = (t, True) \<longleftrightarrow>
     jwk_string_ok (js_limits s) (jx_pending_name c) x \<and>
     t = s\<lparr>js_current := assigned (jx_pending_name c) x (js_current s),
         js_stack := c\<lparr>jx_pending_name := ''''\<rparr> # rest\<rparr>"
proof -
  have "jx_pending_name c \<noteq> ''''" using assms(3) by (auto simp: jwk_names_def)
  then show ?thesis
    using assms by (auto simp: jwks_string_def jwks_fail_def Let_def jwk_string_ok_def
        assign_key_member_iff assign_key_member_None split: option.splits)
qed

lemma jwk_member_iff:
  assumes "js_stack s = c # rest" "jx_kind c = key_object"
  shows "sax_run jwks_step s (Ev_key name # events_of v) = (t, True) \<longleftrightarrow>
     (\<exists>x. v = JString x \<and> js_member_count s < jl_max_members (js_limits s) \<and> name \<notin> jx_members c \<and>
        name \<in> jwk_names \<and> jwk_string_ok (js_limits s) name x \<and> t = after_jwk_member s c rest name x)"
proof -
  have key: "jwks_step s (Ev_key name) = jwks_key s name" for s by (simp add: jwks_step_def)
  have val: "sax_run jwks_step s1 (events_of v) = (t, True) \<longleftrightarrow>
      (\<exists>x. v = JString x \<and> jwks_string s1 x = (t, True))"
    if "js_stack s1 = c1 # rest" "jx_kind c1 = key_object" for s1 c1
    using that
    by (cases v)
      (auto simp: jwks_step_def jwks_wrong_type_def jwks_fail_def jwks_start_object_def jwks_start_array_def
        split: prod.splits if_splits)
  show ?thesis
    unfolding sax_run_Cons_True_iff key jwks_key_in_object [OF assms]
    using assms by (auto simp: val jwks_string_in_object after_jwk_member_def)
qed

text \<open>The fields of a key by the names of the members.\<close>

definition key_field :: "string \<Rightarrow> ParsedKey \<Rightarrow> string" where
  "key_field name k =
     (if name = ''kty'' then pk_kty k else if name = ''kid'' then pk_kid k
      else if name = ''use'' then pk_use k else if name = ''alg'' then pk_alg k
      else if name = ''n'' then pk_n k else pk_e k)"

lemma key_field_assigned:
  "name \<in> jwk_names \<Longrightarrow> name' \<in> jwk_names \<Longrightarrow>
     key_field name' (assigned name v k) = (if name' = name then v else key_field name' k)"
  by (auto simp: jwk_names_def key_field_def assigned_def assign_key_member_def)

lemma ParsedKey_eqI: "(\<And>name. name \<in> jwk_names \<Longrightarrow> key_field name k = key_field name k') \<Longrightarrow> k = k'"
  by (intro ParsedKey.equality) (force simp: jwk_names_def key_field_def)+

definition key_of_members :: "(string \<times> json) list \<Rightarrow> ParsedKey \<Rightarrow> ParsedKey" where
  "key_of_members ms k = foldl (\<lambda>k (name, v). assigned name (get_string v) k) k ms"

lemma key_of_members_Cons: "key_of_members ((name, v) # ms) k = key_of_members ms (assigned name (get_string v) k)"
  by (simp add: key_of_members_def)

lemma img_fst: "(a, b) \<in> s \<Longrightarrow> a \<in> fst ` s"
  by force

lemma key_of_members_field:
  "fst ` set ms \<subseteq> jwk_names \<Longrightarrow> distinct (map fst ms) \<Longrightarrow> name \<in> jwk_names \<Longrightarrow>
     key_field name (key_of_members ms k) =
       (case map_of ms name of Some v \<Rightarrow> get_string v | None \<Rightarrow> key_field name k)"
proof (induction ms arbitrary: k)
  case (Cons m ms)
  then show ?case
    by (cases m) (auto simp: key_of_members_Cons key_field_assigned split: option.splits dest!: map_of_SomeD dest: img_fst)
qed (simp add: key_of_members_def)

definition jwk_members_ok :: "jwks_Limits \<Rightarrow> (string \<times> json) list \<Rightarrow> bool" where
  "jwk_members_ok limits ms \<longleftrightarrow>
     (\<forall>(name, v)\<in>set ms. name \<in> jwk_names \<and> (\<exists>x. v = JString x \<and> jwk_string_ok limits name x)) \<and>
     distinct (map fst ms)"

definition after_jwk_members ::
  "JwksSax \<Rightarrow> jwks_context \<Rightarrow> jwks_context list \<Rightarrow> (string \<times> json) list \<Rightarrow> JwksSax" where
  "after_jwk_members s c rest ms =
     s\<lparr>js_member_count := js_member_count s + length ms, js_current := key_of_members ms (js_current s),
       js_stack := c\<lparr>jx_members := jx_members c \<union> fst ` set ms\<rparr> # rest\<rparr>"

lemma jwk_members_run:
  assumes "js_stack s = c # rest" "jx_kind c = key_object" "jx_pending_name c = ''''"
  shows "sax_run jwks_step s (member_events ms) = (t, True) \<longleftrightarrow>
     jwk_members_ok (js_limits s) ms \<and> fst ` set ms \<inter> jx_members c = {} \<and>
     (ms = [] \<or> js_member_count s + length ms \<le> jl_max_members (js_limits s)) \<and>
     t = after_jwk_members s c rest ms"
  using assms
proof (induction ms arbitrary: s c)
  case Nil
  then show ?case
    by (auto simp: jwk_members_ok_def after_jwk_members_def key_of_members_def)
next
  case (Cons m ms)
  obtain name v where m: "m = (name, v)" by (cases m)
  have step: "sax_run jwks_step s (member_events (m # ms)) = (t, True) \<longleftrightarrow>
      (\<exists>x. v = JString x \<and> js_member_count s < jl_max_members (js_limits s) \<and> name \<notin> jx_members c \<and>
        name \<in> jwk_names \<and> jwk_string_ok (js_limits s) name x \<and>
        sax_run jwks_step (after_jwk_member s c rest name x) (member_events ms) = (t, True))"
    using member_events_Cons [of name v ms "[]"]
    by (simp only: m append_Nil2 sax_run_append_True_iff jwk_member_iff [OF Cons.prems(1,2)]) blast
  have stack: "js_stack (after_jwk_member s c rest name x) =
      c\<lparr>jx_members := insert name (jx_members c), jx_pending_name := ''''\<rparr> # rest" for x
    by (simp add: after_jwk_member_def)
  have final: "after_jwk_members (after_jwk_member s c rest name x)
        (c\<lparr>jx_members := insert name (jx_members c), jx_pending_name := ''''\<rparr>) rest ms =
      after_jwk_members s c rest ((name, JString x) # ms)" for x
    using Cons.prems(3)
    by (intro JwksSax.equality)
      (simp_all add: after_jwk_members_def after_jwk_member_def key_of_members_Cons get_string_def)
  have "sax_run jwks_step (after_jwk_member s c rest name x) (member_events ms) = (t, True) \<longleftrightarrow>
      jwk_members_ok (js_limits s) ms \<and> fst ` set ms \<inter> insert name (jx_members c) = {} \<and>
      (ms = [] \<or> js_member_count s + 1 + length ms \<le> jl_max_members (js_limits s)) \<and>
      t = after_jwk_members s c rest ((name, JString x) # ms)" for x
    unfolding final [symmetric]
    by (subst Cons.IH [OF stack]) (simp_all add: Cons.prems(2) after_jwk_member_def)
  then show ?case
    unfolding step by (auto simp: m jwk_members_ok_def)
qed

text \<open>
  A key of the document: an object of exactly the six members, all strings, with the fixed role
  and a bounded non-empty key ID.
\<close>

definition jwk_object :: "jwks_Limits \<Rightarrow> json \<Rightarrow> ParsedKey \<Rightarrow> bool" where
  "jwk_object limits t k \<longleftrightarrow>
     (\<exists>ms. t = JObject ms \<and> distinct (map fst ms) \<and>
        set ms = (\<lambda>name. (name, JString (key_field name k))) ` jwk_names) \<and>
     pk_kty k = ''RSA'' \<and> pk_use k = ''sig'' \<and> pk_alg k = ''RS256'' \<and>
     pk_kid k \<noteq> '''' \<and> length (pk_kid k) \<le> jl_max_kid_bytes limits \<and> pk_n k \<noteq> '''' \<and> pk_e k \<noteq> ''''"

lemma card_jwk_names: "card jwk_names = 6" and finite_jwk_names: "finite jwk_names"
  by (simp_all add: jwk_names_def)

lemma jwk_object_members:
  "jwk_object limits (JObject ms) k \<longleftrightarrow>
     jwk_members_ok limits ms \<and> card (fst ` set ms) = 6 \<and> k = key_of_members ms empty_key \<and>
     pk_kty k = ''RSA'' \<and> pk_use k = ''sig'' \<and> pk_alg k = ''RS256'' \<and>
     pk_kid k \<noteq> '''' \<and> pk_n k \<noteq> '''' \<and> pk_e k \<noteq> ''''"
  (is "?L \<longleftrightarrow> ?R")
proof
  assume L: ?L
  then have d: "distinct (map fst ms)" and ms: "set ms = (\<lambda>name. (name, JString (key_field name k))) ` jwk_names"
    by (auto simp: jwk_object_def)
  have names: "fst ` set ms = jwk_names" by (simp add: ms image_image)
  have look: "map_of ms name = Some (JString (key_field name k))" if "name \<in> jwk_names" for name
    using that ms d by (intro map_of_is_SomeI) auto
  have "k = key_of_members ms empty_key"
    by (intro ParsedKey_eqI) (simp add: key_of_members_field names d get_string_def look)
  moreover have "jwk_members_ok limits ms"
    using L d by (auto simp: jwk_object_def jwk_members_ok_def jwk_string_ok_def ms key_field_def jwk_names_def)
  ultimately show ?R using L names by (simp add: jwk_object_def card_jwk_names)
next
  assume R: ?R
  then have d: "distinct (map fst ms)" and sub: "fst ` set ms \<subseteq> jwk_names"
    and strings: "\<And>name v. (name, v) \<in> set ms \<Longrightarrow> \<exists>x. v = JString x \<and> jwk_string_ok limits name x"
    by (auto simp: jwk_members_ok_def)
  then have names: "fst ` set ms = jwk_names"
    using R finite_jwk_names card_jwk_names by (intro card_subset_eq) simp_all
  have field: "(name, v) \<in> set ms \<longleftrightarrow> name \<in> jwk_names \<and> v = JString (key_field name k)" for name v
  proof
    assume *: "(name, v) \<in> set ms"
    then have "map_of ms name = Some v" using d by simp
    moreover have "name \<in> jwk_names" using * sub by (auto dest: img_fst)
    moreover obtain x where "v = JString x" using strings [OF *] by blast
    ultimately show "name \<in> jwk_names \<and> v = JString (key_field name k)"
      using R sub d by (simp add: key_of_members_field get_string_def)
  next
    assume *: "name \<in> jwk_names \<and> v = JString (key_field name k)"
    with names obtain w where w: "(name, w) \<in> set ms" by force
    then obtain x where "w = JString x" "map_of ms name = Some w" using strings [OF w] d by auto
    with * w R sub d show "(name, v) \<in> set ms" by (simp add: key_of_members_field get_string_def)
  qed
  have "set ms = (\<lambda>name. (name, JString (key_field name k))) ` jwk_names"
    using field by (auto simp: image_iff)
  moreover have "(''kid'', JString (pk_kid k)) \<in> set ms"
    using field [of "''kid''"] by (simp add: jwk_names_def key_field_def)
  then have "length (pk_kid k) \<le> jl_max_kid_bytes limits"
    using strings by (fastforce simp: jwk_string_ok_def)
  moreover have "pk_kty k = ''RSA'' \<and> pk_use k = ''sig'' \<and> pk_alg k = ''RS256'' \<and>
      pk_kid k \<noteq> '''' \<and> pk_n k \<noteq> '''' \<and> pk_e k \<noteq> ''''"
    using R by (elim conjE) (intro conjI)
  ultimately show ?L using d unfolding jwk_object_def by (elim conjE) (intro conjI exI [of _ ms] refl)
qed

definition after_jwk :: "JwksSax \<Rightarrow> ParsedKey \<Rightarrow> JwksSax" where
  "after_jwk s k =
     s\<lparr>js_key_count := js_key_count s + 1, js_member_count := js_member_count s + 6, js_current := k,
       js_parsed_keys := js_parsed_keys s @ [k]\<rparr>"

lemma end_key_object:
  assumes "js_stack s = c # rest" "jx_kind c = key_object"
  shows "jwks_step s Ev_end_object = (t, True) \<longleftrightarrow>
     card (jx_members c) = 6 \<and> pk_kty (js_current s) = ''RSA'' \<and> pk_use (js_current s) = ''sig'' \<and>
     pk_alg (js_current s) = ''RS256'' \<and> pk_kid (js_current s) \<noteq> '''' \<and> pk_n (js_current s) \<noteq> '''' \<and>
     pk_e (js_current s) \<noteq> '''' \<and>
     t = s\<lparr>js_parsed_keys := js_parsed_keys s @ [js_current s], js_stack := rest\<rparr>"
  using assms
  by (auto simp: jwks_step_def jwks_end_object_def jwks_complete_key_def jwks_fail_def Let_def)

lemma jwk_object_iff:
  assumes "js_stack s = a # rest" "jx_kind a = keys_array"
  shows "sax_run jwks_step s (events_of v) = (t, True) \<longleftrightarrow>
     (\<exists>k. jwk_object (js_limits s) v k \<and> js_key_count s < jl_max_keys (js_limits s) \<and>
        js_member_count s + 6 \<le> jl_max_members (js_limits s) \<and> t = after_jwk s k)"
proof (cases "\<exists>ms. v = JObject ms")
  case True
  then obtain ms where v: "v = JObject ms" by blast
  let ?c = "new_jwks_context key_object"
  let ?s = "s\<lparr>js_key_count := Suc (js_key_count s), js_current := empty_key, js_stack := ?c # a # rest\<rparr>"
  have start: "jwks_step s Ev_start_object = (s', True) \<longleftrightarrow>
      js_key_count s < jl_max_keys (js_limits s) \<and> s' = ?s" for s'
    using assms by (auto simp: jwks_step_def jwks_start_object_def jwks_fail_def Let_def)
  have c: "js_stack ?s = ?c # a # rest" "jx_kind ?c = key_object" "jx_pending_name ?c = ''''" "jx_members ?c = {}"
    by (simp_all add: new_jwks_context_def)
  let ?t = "after_jwk_members ?s ?c (a # rest) ms" and ?k = "key_of_members ms empty_key"
  have t: "js_stack ?t = ?c\<lparr>jx_members := fst ` set ms\<rparr> # a # rest" "js_current ?t = ?k"
    by (simp_all add: after_jwk_members_def c(4))
  have t_kind: "jx_kind (?c\<lparr>jx_members := fst ` set ms\<rparr>) = key_object" by (simp add: c(2))
  have final: "?t\<lparr>js_parsed_keys := js_parsed_keys ?t @ [?k], js_stack := a # rest\<rparr> = after_jwk s ?k"
    if "length ms = 6"
    using that assms(1) by (intro JwksSax.equality) (simp_all add: after_jwk_members_def after_jwk_def)
  have len: "length ms = 6" "ms \<noteq> []" if "jwk_members_ok (js_limits s) ms" "card (fst ` set ms) = 6"
    using that distinct_card [of "map fst ms"] by (auto simp: jwk_members_ok_def)
  have "sax_run jwks_step s (events_of v) = (t, True) \<longleftrightarrow>
      js_key_count s < jl_max_keys (js_limits s) \<and> jwk_members_ok (js_limits s) ms \<and>
      (ms = [] \<or> js_member_count s + length ms \<le> jl_max_members (js_limits s)) \<and>
      jwks_step ?t Ev_end_object = (t, True)"
    unfolding v events_of_object sax_run_Cons_True_iff start sax_run_append_True_iff
    by (auto simp: jwk_members_run [OF c(1-3)] c(4) split: prod.splits if_splits)
  also have "\<dots> \<longleftrightarrow> jwk_object (js_limits s) v ?k \<and> js_key_count s < jl_max_keys (js_limits s) \<and>
        js_member_count s + 6 \<le> jl_max_members (js_limits s) \<and> t = after_jwk s ?k"
    unfolding end_key_object [OF t(1) t_kind] t(2) v jwk_object_members using len final by auto
  also have "\<dots> \<longleftrightarrow> (\<exists>k. jwk_object (js_limits s) v k \<and> js_key_count s < jl_max_keys (js_limits s) \<and>
        js_member_count s + 6 \<le> jl_max_members (js_limits s) \<and> t = after_jwk s k)"
    unfolding v jwk_object_members by blast
  finally show ?thesis .
next
  case False
  then have "\<not> sax_run jwks_step s (events_of v) = (t, True)"
    using assms
    by (cases v)
      (auto simp: jwks_step_def jwks_wrong_type_def jwks_string_def jwks_fail_def jwks_start_array_def
        split: prod.splits if_splits)
  with False show ?thesis by (auto simp: jwk_object_def)
qed

definition after_jwks :: "JwksSax \<Rightarrow> ParsedKey list \<Rightarrow> JwksSax" where
  "after_jwks s ks = foldl after_jwk s ks"

lemma after_jwks_Cons: "after_jwks s (k # ks) = after_jwks (after_jwk s k) ks"
  by (simp add: after_jwks_def)

lemma after_jwk_frame [simp]:
  "js_stack (after_jwk s k) = js_stack s" "js_limits (after_jwk s k) = js_limits s"
  "js_key_count (after_jwk s k) = Suc (js_key_count s)"
  "js_member_count (after_jwk s k) = js_member_count s + 6"
  "js_parsed_keys (after_jwk s k) = js_parsed_keys s @ [k]"
  "js_have_keys (after_jwk s k) = js_have_keys s" "js_failed (after_jwk s k) = js_failed s"
  by (simp_all add: after_jwk_def)

lemma after_jwks_frame [simp]:
  "js_stack (after_jwks s ks) = js_stack s" "js_limits (after_jwks s ks) = js_limits s"
  "js_key_count (after_jwks s ks) = js_key_count s + length ks"
  "js_parsed_keys (after_jwks s ks) = js_parsed_keys s @ ks"
  "js_have_keys (after_jwks s ks) = js_have_keys s" "js_failed (after_jwks s ks) = js_failed s"
  by (induction ks arbitrary: s) (simp_all add: after_jwks_def)

lemma jwk_items_iff:
  assumes "js_stack s = a # rest" "jx_kind a = keys_array"
  shows "sax_run jwks_step s (concat (map events_of items)) = (t, True) \<longleftrightarrow>
     (\<exists>ks. list_all2 (jwk_object (js_limits s)) items ks \<and>
        (items = [] \<or> (js_key_count s + length items \<le> jl_max_keys (js_limits s) \<and>
           js_member_count s + 6 * length items \<le> jl_max_members (js_limits s))) \<and>
        t = after_jwks s ks)"
  using assms(1)
proof (induction items arbitrary: s)
  case Nil
  then show ?case by (auto simp: after_jwks_def)
next
  case (Cons v items)
  have stack: "js_stack (after_jwk s k) = a # rest" for k using Cons.prems by simp
  let ?room = "js_key_count s + length (v # items) \<le> jl_max_keys (js_limits s) \<and>
      js_member_count s + 6 * length (v # items) \<le> jl_max_members (js_limits s)"
  have room: "js_key_count s < jl_max_keys (js_limits s) \<and> js_member_count s + 6 \<le> jl_max_members (js_limits s) \<and>
      (items = [] \<or> (js_key_count (after_jwk s k) + length items \<le> jl_max_keys (js_limits (after_jwk s k)) \<and>
        js_member_count (after_jwk s k) + 6 * length items \<le> jl_max_members (js_limits (after_jwk s k)))) \<longleftrightarrow> ?room" for k
    by (cases items) auto
  have "sax_run jwks_step s (concat (map events_of (v # items))) = (t, True) \<longleftrightarrow>
      (\<exists>k. jwk_object (js_limits s) v k \<and> js_key_count s < jl_max_keys (js_limits s) \<and>
        js_member_count s + 6 \<le> jl_max_members (js_limits s) \<and>
        sax_run jwks_step (after_jwk s k) (concat (map events_of items)) = (t, True))"
    unfolding list.map concat.simps sax_run_append_True_iff jwk_object_iff [OF Cons.prems assms(2)] by blast
  also have "\<dots> \<longleftrightarrow> (\<exists>k ks. jwk_object (js_limits s) v k \<and> list_all2 (jwk_object (js_limits s)) items ks \<and>
      ?room \<and> t = after_jwks (after_jwk s k) ks)"
  proof (intro arg_cong [where f = Ex] ext)
    fix k
    have rest: "sax_run jwks_step (after_jwk s k) (concat (map events_of items)) = (t, True) \<longleftrightarrow>
        (items = [] \<or> (js_key_count (after_jwk s k) + length items \<le> jl_max_keys (js_limits (after_jwk s k)) \<and>
          js_member_count (after_jwk s k) + 6 * length items \<le> jl_max_members (js_limits (after_jwk s k)))) \<and>
        (\<exists>ks. list_all2 (jwk_object (js_limits s)) items ks \<and> t = after_jwks (after_jwk s k) ks)"
      unfolding Cons.IH [OF stack] after_jwk_frame(2) by blast
    show "(jwk_object (js_limits s) v k \<and> js_key_count s < jl_max_keys (js_limits s) \<and>
          js_member_count s + 6 \<le> jl_max_members (js_limits s) \<and>
          sax_run jwks_step (after_jwk s k) (concat (map events_of items)) = (t, True)) \<longleftrightarrow>
        (\<exists>ks. jwk_object (js_limits s) v k \<and> list_all2 (jwk_object (js_limits s)) items ks \<and>
          ?room \<and> t = after_jwks (after_jwk s k) ks)"
      unfolding rest using room [of k] by blast
  qed
  also have "\<dots> \<longleftrightarrow> (\<exists>ks. list_all2 (jwk_object (js_limits s)) (v # items) ks \<and> ?room \<and> t = after_jwks s ks)"
    unfolding list_all2_Cons1 after_jwks_Cons [symmetric] by blast
  finally show ?case by simp
qed

text \<open>The documents that are accepted, with the keys they hold.\<close>

definition jwks_document :: "jwks_Limits \<Rightarrow> json \<Rightarrow> ParsedKey list \<Rightarrow> bool" where
  "jwks_document limits t ks \<longleftrightarrow>
     (\<exists>items. t = JObject [(''keys'', JArray items)] \<and> list_all2 (jwk_object limits) items ks) \<and>
     ks \<noteq> [] \<and> length ks \<le> jl_max_keys limits \<and> 1 + 6 * length ks \<le> jl_max_members limits"

definition jwks_root_state :: "jwks_Limits \<Rightarrow> JwksSax" where
  "jwks_root_state limits = (jwks_init limits)\<lparr>js_stack := [new_jwks_context jwks_root_object]\<rparr>"

definition jwks_array_state :: "jwks_Limits \<Rightarrow> JwksSax" where
  "jwks_array_state limits =
     (jwks_init limits)\<lparr>js_member_count := 1, js_have_keys := True,
       js_stack := [new_jwks_context keys_array,
         (new_jwks_context jwks_root_object)\<lparr>jx_members := {''keys''}\<rparr>]\<rparr>"

lemma jwks_start_root: "jwks_step (jwks_init limits) Ev_start_object = (jwks_root_state limits, True)"
  by (simp add: jwks_step_def jwks_start_object_def jwks_init_def jwks_root_state_def)

lemma jwks_root_members:
  assumes "1 \<le> jl_max_members limits"
  shows "jwks_step (jwks_root_state limits) (Ev_key name) = (s, True) \<longleftrightarrow>
     name = ''keys'' \<and>
     s = (jwks_root_state limits)\<lparr>js_member_count := 1,
       js_stack := [(new_jwks_context jwks_root_object)\<lparr>jx_members := {''keys''}, jx_pending_name := ''keys''\<rparr>]\<rparr>"
  using assms
  by (auto simp: jwks_step_def jwks_key_def jwks_fail_def Let_def jwks_root_state_def jwks_init_def new_jwks_context_def)

lemma jwks_keys_value:
  assumes "s = (jwks_root_state limits)\<lparr>js_member_count := 1,
       js_stack := [(new_jwks_context jwks_root_object)\<lparr>jx_members := {''keys''}, jx_pending_name := ''keys''\<rparr>]\<rparr>"
  shows "sax_run jwks_step s (events_of v) = (t, True) \<longleftrightarrow>
     (\<exists>items. v = JArray items \<and>
        sax_run jwks_step (jwks_array_state limits) (concat (map events_of items) @ [Ev_end_array]) = (t, True))"
  unfolding assms
  by (cases v)
    (auto simp: jwks_step_def jwks_wrong_type_def jwks_string_def jwks_fail_def jwks_start_object_def
      jwks_start_array_def jwks_root_state_def jwks_array_state_def jwks_init_def new_jwks_context_def
      split: prod.splits if_splits)

lemma jwks_run_document:
  assumes "1 \<le> jl_max_keys limits" "1 \<le> jl_max_members limits"
  shows "sax_run jwks_step (jwks_init limits) (events_of t) = (s, True) \<longleftrightarrow>
     (\<exists>ks. jwks_document limits t ks \<and> s = (after_jwks (jwks_array_state limits) ks)\<lparr>js_stack := []\<rparr>)"
proof (cases t)
  case (JObject members)
  have array: "js_stack (jwks_array_state limits) =
      [new_jwks_context keys_array, (new_jwks_context jwks_root_object)\<lparr>jx_members := {''keys''}\<rparr>]"
      "jx_kind (new_jwks_context keys_array) = keys_array"
      "js_key_count (jwks_array_state limits) = 0" "js_member_count (jwks_array_state limits) = 1"
      "js_limits (jwks_array_state limits) = limits" "js_have_keys (jwks_array_state limits)"
    by (simp_all add: jwks_array_state_def new_jwks_context_def jwks_init_def)
  let ?fin = "\<lambda>s'. jwks_step (s'\<lparr>js_stack := [(new_jwks_context jwks_root_object)\<lparr>jx_members := {''keys''}\<rparr>]\<rparr>) Ev_end_object"
  have close_array: "sax_run jwks_step (after_jwks (jwks_array_state limits) ks) [Ev_end_array] = (s', True) \<longleftrightarrow>
      ks \<noteq> [] \<and> s' = (after_jwks (jwks_array_state limits) ks)
        \<lparr>js_stack := [(new_jwks_context jwks_root_object)\<lparr>jx_members := {''keys''}\<rparr>]\<rparr>" for ks s'
    using array by (auto simp: jwks_step_def jwks_end_array_def jwks_fail_def split: if_splits)
  have close_object: "sax_run jwks_step (s'\<lparr>js_stack := [(new_jwks_context jwks_root_object)\<lparr>jx_members := {''keys''}\<rparr>]\<rparr>)
      (member_events rest @ [Ev_end_object]) = (s'', True) \<longleftrightarrow>
      rest = [] \<and> s'' = s'\<lparr>js_stack := []\<rparr>" if "js_have_keys s'" for s' s'' rest
  proof (cases rest)
    case Nil
    then show ?thesis using that
      by (auto simp: jwks_step_def jwks_end_object_def jwks_fail_def new_jwks_context_def)
  next
    case (Cons m rest')
    then show ?thesis
      by (cases m)
        (auto simp: member_events_Cons jwks_step_def jwks_key_def jwks_fail_def Let_def new_jwks_context_def
          split: prod.splits if_splits)
  qed
  have keys: "sax_run jwks_step (jwks_array_state limits) (concat (map events_of items) @ [Ev_end_array]) = (s', True) \<longleftrightarrow>
      (\<exists>ks. list_all2 (jwk_object limits) items ks \<and> ks \<noteq> [] \<and> length ks \<le> jl_max_keys limits \<and>
        1 + 6 * length ks \<le> jl_max_members limits \<and>
        s' = (after_jwks (jwks_array_state limits) ks)
          \<lparr>js_stack := [(new_jwks_context jwks_root_object)\<lparr>jx_members := {''keys''}\<rparr>]\<rparr>)" for items s'
  proof -
    have "sax_run jwks_step (jwks_array_state limits) (concat (map events_of items) @ [Ev_end_array]) = (s', True) \<longleftrightarrow>
        (\<exists>ks. list_all2 (jwk_object limits) items ks \<and>
          (items = [] \<or> (0 + length items \<le> jl_max_keys limits \<and> 1 + 6 * length items \<le> jl_max_members limits)) \<and>
          sax_run jwks_step (after_jwks (jwks_array_state limits) ks) [Ev_end_array] = (s', True))"
      unfolding sax_run_append_True_iff jwk_items_iff [OF array(1,2)] array(3-5) by blast
    also have "\<dots> \<longleftrightarrow> (\<exists>ks. list_all2 (jwk_object limits) items ks \<and> ks \<noteq> [] \<and> length ks \<le> jl_max_keys limits \<and>
        1 + 6 * length ks \<le> jl_max_members limits \<and>
        s' = (after_jwks (jwks_array_state limits) ks)
          \<lparr>js_stack := [(new_jwks_context jwks_root_object)\<lparr>jx_members := {''keys''}\<rparr>]\<rparr>)"
      unfolding close_array
      by (intro arg_cong [where f = Ex] ext) (cases items; auto dest: list_all2_lengthD)
    finally show ?thesis .
  qed
  show ?thesis
  proof (cases members)
    case Nil
    then show ?thesis
      by (auto simp: JObject jwks_document_def jwks_start_root jwks_step_def jwks_start_object_def
          jwks_end_object_def jwks_fail_def jwks_root_state_def jwks_init_def new_jwks_context_def)
  next
    case (Cons m rest)
    obtain name v where m: "m = (name, v)" by (cases m)
    have "sax_run jwks_step (jwks_init limits) (events_of t) = (s, True) \<longleftrightarrow>
        name = ''keys'' \<and> (\<exists>items s'. v = JArray items \<and>
          sax_run jwks_step (jwks_array_state limits) (concat (map events_of items) @ [Ev_end_array]) = (s', True) \<and>
          sax_run jwks_step s' (member_events rest @ [Ev_end_object]) = (s, True))"
      unfolding JObject Cons m events_of_object member_events_Cons append_Cons sax_run_Cons_True_iff
        jwks_start_root sax_run_append_True_iff [of _ _ "events_of v"]
      by (auto simp: jwks_root_members [OF assms(2)] jwks_keys_value)
    also have "\<dots> \<longleftrightarrow> (\<exists>ks. jwks_document limits t ks \<and> s = (after_jwks (jwks_array_state limits) ks)\<lparr>js_stack := []\<rparr>)"
    proof -
      let ?f = "\<lambda>ks. (after_jwks (jwks_array_state limits) ks)
          \<lparr>js_stack := [(new_jwks_context jwks_root_object)\<lparr>jx_members := {''keys''}\<rparr>]\<rparr>"
      have "sax_run jwks_step (?f ks) (member_events rest @ [Ev_end_object]) = (s, True) \<longleftrightarrow>
          rest = [] \<and> s = (after_jwks (jwks_array_state limits) ks)\<lparr>js_stack := []\<rparr>" for ks
        by (rule close_object) (simp add: array(6))
      then show ?thesis
        unfolding keys jwks_document_def JObject Cons m
        by (auto simp del: sax_run.simps)
    qed
    finally show ?thesis .
  qed
qed (simp_all add: jwks_document_def jwks_step_def jwks_wrong_type_def jwks_string_def jwks_fail_def
    jwks_start_array_def jwks_init_def)

text \<open>What the loop over the parsed keys returns.\<close>

lemma collect_keys_iff:
  "collect_keys ks m = Inr keys \<longleftrightarrow>
     (\<exists>rsa. list_all2 (\<lambda>k key. decode_key k = Inr key) ks rsa \<and> distinct (map pk_kid ks) \<and>
        set (map pk_kid ks) \<inter> dom m = {} \<and> keys = m ++ map_of (zip (map pk_kid ks) rsa))"
proof (induction ks arbitrary: m)
  case (Cons k ks)
  have step: "collect_keys (k # ks) m = Inr keys \<longleftrightarrow>
      (\<exists>key. decode_key k = Inr key \<and> m (pk_kid k) = None \<and> collect_keys ks (m(pk_kid k \<mapsto> key)) = Inr keys)"
    by (auto simp: ebind_Inr_iff)
  have merge: "m(pk_kid k \<mapsto> key) ++ map_of (zip (map pk_kid ks) rsa) =
      m ++ map_of (zip (map pk_kid (k # ks)) (key # rsa))"
    if "pk_kid k \<notin> set (map pk_kid ks)" "length ks = length rsa" for key rsa
    using that by (simp add: map_add_upd_left dom_map_of_zip)
  have "collect_keys (k # ks) m = Inr keys \<longleftrightarrow>
      (\<exists>key rsa. decode_key k = Inr key \<and> m (pk_kid k) = None \<and>
        list_all2 (\<lambda>k key. decode_key k = Inr key) ks rsa \<and> distinct (map pk_kid ks) \<and>
        set (map pk_kid ks) \<inter> dom (m(pk_kid k \<mapsto> key)) = {} \<and>
        keys = m(pk_kid k \<mapsto> key) ++ map_of (zip (map pk_kid ks) rsa))"
    unfolding step Cons.IH by blast
  also have "\<dots> \<longleftrightarrow> (\<exists>key rsa. decode_key k = Inr key \<and>
        list_all2 (\<lambda>k key. decode_key k = Inr key) ks rsa \<and> distinct (map pk_kid (k # ks)) \<and>
        set (map pk_kid (k # ks)) \<inter> dom m = {} \<and>
        keys = m ++ map_of (zip (map pk_kid (k # ks)) (key # rsa)))"
  proof (intro arg_cong [where f = Ex] ext)
    fix key rsa
    have "m(pk_kid k \<mapsto> key) ++ map_of (zip (map pk_kid ks) rsa) =
        m ++ map_of (zip (map pk_kid (k # ks)) (key # rsa))"
      if "list_all2 (\<lambda>k key. decode_key k = Inr key) ks rsa" "pk_kid k \<notin> set (map pk_kid ks)"
      using that(2) list_all2_lengthD [OF that(1)] by (rule merge)
    moreover have "pk_kid k \<notin> set (map pk_kid ks) \<and> m (pk_kid k) = None \<and> set (map pk_kid ks) \<inter> dom m = {} \<longleftrightarrow>
        m (pk_kid k) = None \<and> set (map pk_kid ks) \<inter> dom (m(pk_kid k \<mapsto> key)) = {}"
      by auto
    ultimately show "(decode_key k = Inr key \<and> m (pk_kid k) = None \<and>
        list_all2 (\<lambda>k key. decode_key k = Inr key) ks rsa \<and> distinct (map pk_kid ks) \<and>
        set (map pk_kid ks) \<inter> dom (m(pk_kid k \<mapsto> key)) = {} \<and>
        keys = m(pk_kid k \<mapsto> key) ++ map_of (zip (map pk_kid ks) rsa)) \<longleftrightarrow>
      (decode_key k = Inr key \<and>
        list_all2 (\<lambda>k key. decode_key k = Inr key) ks rsa \<and> distinct (map pk_kid (k # ks)) \<and>
        set (map pk_kid (k # ks)) \<inter> dom m = {} \<and>
        keys = m ++ map_of (zip (map pk_kid (k # ks)) (key # rsa)))"
      by (auto simp del: zip_Cons_Cons)
  qed
  also have "\<dots> \<longleftrightarrow> (\<exists>rsa. list_all2 (\<lambda>k key. decode_key k = Inr key) (k # ks) rsa \<and>
      distinct (map pk_kid (k # ks)) \<and> set (map pk_kid (k # ks)) \<inter> dom m = {} \<and>
      keys = m ++ map_of (zip (map pk_kid (k # ks)) rsa))"
    unfolding list_all2_Cons1 by blast
  finally show ?case .
qed auto

text \<open>The accepted documents, as a specification of \<^verbatim>\<open>parse\<close>.\<close>

definition jwks_limits_ok :: "jwks_Limits \<Rightarrow> bool" where
  "jwks_limits_ok limits \<longleftrightarrow>
     0 < jl_max_bytes limits \<and> 0 < jl_max_keys limits \<and> 0 < jl_max_members limits \<and> 0 < jl_max_kid_bytes limits"

lemma jwks_parse_eq:
  assumes lex: "lexer input = events_of t"
  shows "jwks_parse lexer input limits = Inr keys \<longleftrightarrow>
     jwks_limits_ok limits \<and> length input \<le> jl_max_bytes limits \<and>
     (\<exists>ks. jwks_document limits t ks \<and> collect_keys ks Map.empty = Inr keys)"
proof (cases "jwks_limits_ok limits \<and> length input \<le> jl_max_bytes limits")
  case within: True
  then have pos: "1 \<le> jl_max_keys limits" "1 \<le> jl_max_members limits" by (simp_all add: jwks_limits_ok_def)
  obtain h parsed where run: "sax_run jwks_step (jwks_init limits) (events_of t) = (h, parsed)" by fastforce
  have ok: "parsed \<longleftrightarrow> (\<exists>ks. jwks_document limits t ks \<and> h = (after_jwks (jwks_array_state limits) ks)\<lparr>js_stack := []\<rparr>)"
    using jwks_run_document [OF pos, of t h] jwks_run_document [OF pos, of t] run by auto
  have parse: "jwks_parse lexer input limits =
      (if \<not> parsed \<or> js_failed h then Inl (js_error h) else collect_keys (js_parsed_keys h) Map.empty)"
    using within by (auto simp: jwks_parse_def lex run jwks_limits_ok_def)
  have init: "\<not> js_failed (jwks_array_state limits)" "js_parsed_keys (jwks_array_state limits) = []"
    by (simp_all add: jwks_array_state_def jwks_init_def)
  show ?thesis
  proof (cases parsed)
    case True
    with ok obtain ks where ks: "jwks_document limits t ks" "h = (after_jwks (jwks_array_state limits) ks)\<lparr>js_stack := []\<rparr>"
      by blast
    have "ks' = ks" if that: "jwks_document limits t ks'" for ks'
    proof -
      have "sax_run jwks_step (jwks_init limits) (events_of t) =
          ((after_jwks (jwks_array_state limits) ks')\<lparr>js_stack := []\<rparr>, True)"
        using that by (auto simp: jwks_run_document [OF pos])
      then have "(after_jwks (jwks_array_state limits) ks')\<lparr>js_stack := []\<rparr> = h" using run by simp
      from arg_cong [OF this, of js_parsed_keys] ks(2) show ?thesis by (simp add: init)
    qed
    moreover have "jwks_parse lexer input limits = collect_keys ks Map.empty"
      using parse True ks(2) by (simp add: init)
    moreover from calculation(1) have "(\<exists>ks'. jwks_document limits t ks' \<and> P ks') \<longleftrightarrow> P ks" for P
      using ks(1) by blast
    ultimately show ?thesis using within by simp
  next
    case False
    have "\<not> jwks_document limits t ks" for ks
    proof
      assume "jwks_document limits t ks"
      then have "sax_run jwks_step (jwks_init limits) (events_of t) =
          ((after_jwks (jwks_array_state limits) ks)\<lparr>js_stack := []\<rparr>, True)"
        by (auto simp: jwks_run_document [OF pos])
      with run False show False by simp
    qed
    with False parse show ?thesis by auto
  qed
next
  case False
  then show ?thesis by (auto simp: jwks_parse_def jwks_limits_ok_def)
qed

text \<open>
  C17. On a well-formed JSON text \<open>t\<close> the key-set parser accepts exactly one shape of document:
  an object with the single member \<open>keys\<close>, a non-empty array within the bounds of objects of
  exactly the six public members in any order, each an admissible RS256 signing key, the key IDs
  pairwise distinct; the result maps each key ID to its key.
\<close>

theorem jwks_parse_iff:
  assumes "lexer input = events_of t"
  shows "jwks_parse lexer input limits = Inr keys \<longleftrightarrow>
     jwks_limits_ok limits \<and> length input \<le> jl_max_bytes limits \<and>
     (\<exists>ks rsa. jwks_document limits t ks \<and> list_all2 (\<lambda>k key. decode_key k = Inr key) ks rsa \<and>
        distinct (map pk_kid ks) \<and> keys = map_of (zip (map pk_kid ks) rsa))"
  unfolding jwks_parse_eq [of lexer input t, OF assms] collect_keys_iff by auto

section \<open>Loading the file\<close>

text \<open>The open file, with the size checked: what the loop reads and what is parsed.\<close>

lemma load_open_file_success:
  "load_open_file lexer os policy fd w = Some (Inr keys, w') \<Longrightarrow>
     (\<exists>metadata after snapshot w1 w2.
        sys_fstat os fd w = (Some metadata, w1) \<and> \<not> unsafe_metadata policy metadata \<and>
        nat (st_size metadata) \<le> jl_max_bytes (fp_limits policy) \<and> nat (st_size metadata) < 2 ^ 64 \<and>
        read_loop os fd (nat (st_size metadata)) [] w1 = Some (Some snapshot, w2) \<and>
        sys_fstat os fd w2 = (Some after, w') \<and> st_dev after = st_dev metadata \<and>
        st_ino after = st_ino metadata \<and> st_size after = st_size metadata \<and>
        jwks_parse lexer snapshot (fp_limits policy) = Inr keys)"
  (is "?L \<Longrightarrow> _")
proof -
  assume L: ?L
  obtain before w1 where first: "sys_fstat os fd w = (before, w1)" by fastforce
  with L obtain metadata where before: "before = Some metadata" by (cases before) (auto simp: load_open_file_def)
  with first L obtain snapshot w2 where ok: "\<not> unsafe_metadata policy metadata"
      "nat (st_size metadata) \<le> jl_max_bytes (fp_limits policy)" "nat (st_size metadata) < 2 ^ 64"
    and loop: "read_loop os fd (nat (st_size metadata)) [] w1 = Some (snapshot, w2)"
    by (auto simp: load_open_file_def bind_eq_Some_conv split: if_splits)
  obtain again w3 where second: "sys_fstat os fd w2 = (again, w3)" by fastforce
  have "(case snapshot of None \<Rightarrow> Some (Inl issuer_untrusted, w2) | Some snapshot \<Rightarrow>
      (case again of None \<Rightarrow> Some (Inl issuer_untrusted, w3) | Some after \<Rightarrow>
        if st_dev after \<noteq> st_dev metadata \<or> st_ino after \<noteq> st_ino metadata \<or> st_size after \<noteq> st_size metadata
        then Some (Inl issuer_untrusted, w3)
        else Some (jwks_parse lexer snapshot (fp_limits policy), w3))) = Some (Inr keys, w')"
    using L ok by (cases snapshot) (simp_all add: load_open_file_def first before loop second)
  then obtain contents after where "snapshot = Some contents" "again = Some after" "w3 = w'"
      "st_dev after = st_dev metadata" "st_ino after = st_ino metadata" "st_size after = st_size metadata"
      "jwks_parse lexer contents (fp_limits policy) = Inr keys"
    by (auto split: option.splits if_splits)
  with first before ok loop second show ?thesis by blast
qed

lemma load_open_file_returns:
  assumes "interrupts_finite os rank"
  shows "\<exists>result w'. load_open_file lexer os policy fd w = Some (result, w')"
proof (cases "sys_fstat os fd w")
  case (Pair before w1)
  show ?thesis
  proof (cases before)
    case (Some metadata)
    obtain r w2 where "read_loop os fd (nat (st_size metadata)) [] w1 = Some (r, w2)"
      using read_loop_returns [OF assms] by blast
    then show ?thesis
      using Pair Some by (auto simp: load_open_file_def split: option.splits prod.splits)
  qed (use Pair in \<open>simp add: load_open_file_def\<close>)
qed

text \<open>
  C18. A key set that loads comes from a file opened without following a symbolic link, regular,
  not writable by group or others, owned by the required owner or (where allowed) by root, no
  larger than the bound, whose device, inode and size are the same after the read as before;
  what was parsed is a snapshot of exactly that size, and the descriptor is closed.
\<close>

theorem load_static_file_safe:
  assumes "read_bounded os" "load_static_file lexer os path policy w = Some (Inr keys, w')"
  shows "hd path = CHR ''/'' \<and> CHR 0x00 \<notin> set path \<and>
     (\<exists>fd before after snapshot w0 w1 w2 w3.
        sys_open os path [O_RDONLY, O_CLOEXEC, O_NOFOLLOW, O_NONBLOCK] w = (fd, w0) \<and> 0 \<le> fd \<and>
        sys_fstat os fd w0 = (Some before, w1) \<and> sys_fstat os fd w2 = (Some after, w3) \<and>
        S_ISREG (st_mode before) \<and> \<not> writable_by_others (st_mode before) \<and>
        (st_uid before = fp_required_owner policy \<or> (fp_allow_root_owner policy \<and> st_uid before = 0)) \<and>
        (st_dev after, st_ino after, st_size after) = (st_dev before, st_ino before, st_size before) \<and>
        int (length snapshot) = st_size before \<and> length snapshot \<le> jl_max_bytes (fp_limits policy) \<and>
        jwks_parse lexer snapshot (fp_limits policy) = Inr keys \<and>
        w' = snd (sys_close os fd w3))"
proof -
  from assms(2) obtain fd w0 w3 where path: "hd path = CHR ''/''" "CHR 0x00 \<notin> set path"
    and fd: "sys_open os path [O_RDONLY, O_CLOEXEC, O_NOFOLLOW, O_NONBLOCK] w = (fd, w0)" "0 \<le> fd"
    and load: "load_open_file lexer os policy fd w0 = Some (Inr keys, w3)" and w': "w' = snd (sys_close os fd w3)"
    by (auto simp: load_static_file_def close_descriptor_def bind_eq_Some_conv split: prod.splits if_splits)
  from load obtain before after snapshot w1 w2 where
    stat: "sys_fstat os fd w0 = (Some before, w1)" "\<not> unsafe_metadata policy before"
      "nat (st_size before) \<le> jl_max_bytes (fp_limits policy)"
      "read_loop os fd (nat (st_size before)) [] w1 = Some (Some snapshot, w2)"
      "sys_fstat os fd w2 = (Some after, w3)" "st_dev after = st_dev before" "st_ino after = st_ino before"
      "st_size after = st_size before" "jwks_parse lexer snapshot (fp_limits policy) = Inr keys"
    using load_open_file_success [OF load] by blast
  have "length snapshot = nat (st_size before)" using read_loop_result [OF assms(1) stat(4)] by simp
  with stat(2,3) have "int (length snapshot) = st_size before" "length snapshot \<le> jl_max_bytes (fp_limits policy)"
    by (simp_all add: unsafe_metadata_def)
  moreover have "S_ISREG (st_mode before) \<and> \<not> writable_by_others (st_mode before) \<and>
      (st_uid before = fp_required_owner policy \<or> (fp_allow_root_owner policy \<and> st_uid before = 0))"
    using stat(2) by (simp add: unsafe_metadata_def)
  ultimately show ?thesis using path fd stat w' by (intro conjI exI) (assumption | simp)+
qed

text \<open>
  C19. Loading always returns, if signals do not interrupt one read forever; and whatever it
  returns, a descriptor that was opened has been closed, by the last call it makes.
\<close>

theorem load_static_file_returns:
  assumes "interrupts_finite os rank"
  shows "\<exists>result w'. load_static_file lexer os path policy w = Some (result, w') \<and>
     (result = Inl issuer_untrusted \<and> w' = w \<or>
      (\<exists>fd w0. sys_open os path [O_RDONLY, O_CLOEXEC, O_NOFOLLOW, O_NONBLOCK] w = (fd, w0) \<and>
         (if fd < 0 then result = Inl issuer_untrusted \<and> w' = w0
          else \<exists>w1. w' = snd (sys_close os fd w1))))"
proof -
  obtain fd w0 where fd: "sys_open os path [O_RDONLY, O_CLOEXEC, O_NOFOLLOW, O_NONBLOCK] w = (fd, w0)" by fastforce
  obtain result w1 where load: "load_open_file lexer os policy fd w0 = Some (result, w1)"
    using load_open_file_returns [OF assms] by blast
  have returned: "load_static_file lexer os path policy w =
      (if length path < 2 \<or> hd path \<noteq> CHR ''/'' \<or> CHR 0x00 \<in> set path then Some (Inl issuer_untrusted, w)
       else if fd < 0 then Some (Inl issuer_untrusted, w0)
       else Some (result, snd (sys_close os fd w1)))"
    using fd load by (simp add: load_static_file_def close_descriptor_def)
  show ?thesis unfolding returned fd by auto
qed

section \<open>Instances\<close>

text \<open>
  A key set with one key, and an operating system with one file: the world is the number of
  interruptions still to come and what remains of the file.
\<close>

definition demo_jwk :: ParsedKey where
  "demo_jwk = \<lparr>pk_kty = ''RSA'', pk_kid = ''k'', pk_use = ''sig'', pk_alg = ''RS256'',
     pk_n = encode_base64url (rsa_modulus demo_key), pk_e = ''AQAB''\<rparr>"

definition demo_jwks :: json where
  "demo_jwks = JObject [(''keys'', JArray [JObject
     (map (\<lambda>name. (name, JString (key_field name demo_jwk))) [''kid'', ''kty'', ''alg'', ''use'', ''e'', ''n''])])]"

definition demo_posix :: "string \<Rightarrow> (nat \<times> string) posix" where
  "demo_posix contents =
     \<lparr>sys_open = \<lambda>path flags w. (3, (fst w, contents)),
      sys_fstat = \<lambda>fd w. (Some \<lparr>st_mode = 0x81A4, st_uid = 0, st_size = int (length contents),
         st_dev = 1, st_ino = 7\<rparr>, w),
      sys_read = \<lambda>fd n w. (case w of (k, rest) \<Rightarrow>
         if 0 < k then (Read_interrupted, (k - 1, rest)) else (Read_bytes (take n rest), (0, drop n rest))),
      sys_close = \<lambda>fd w. (True, w)\<rparr>"

lemma demo_posix_calls:
  "sys_open (demo_posix c) path flags w = (3, (fst w, c))"
  "sys_fstat (demo_posix c) fd w =
     (Some \<lparr>st_mode = 0x81A4, st_uid = 0, st_size = int (length c), st_dev = 1, st_ino = 7\<rparr>, w)"
  "sys_read (demo_posix c) fd n w =
     (if 0 < fst w then (Read_interrupted, (fst w - 1, snd w))
      else (Read_bytes (take n (snd w)), (0, drop n (snd w))))"
  "sys_close (demo_posix c) fd w = (True, w)"
  by (simp_all add: demo_posix_def split: prod.split)

lemma demo_posix_laws: "read_bounded (demo_posix c)" "interrupts_finite (demo_posix c) fst"
  by (auto simp: read_bounded_def interrupts_finite_def demo_posix_def split: prod.splits if_splits)

lemma demo_decode_key: "decode_key demo_jwk = Inr demo_key"
proof -
  have "nat_octets (2 ^ 2047) = rsa_modulus demo_key"
    unfolding demo_modulus [symmetric] by (rule nat_octets_octets_nat) (simp add: demo_key_def)
  moreover have "encode_base64url [1, 0, 1] = ''AQAB''" by code_simp
  moreover have "modulus_in_range (2 ^ 2047)"
    unfolding modulus_in_range_def by (intro conjI order_refl power_strict_increasing) simp_all
  moreover have "demo_key = \<lparr>rsa_modulus = rsa_modulus demo_key, rsa_exponent = 65537\<rparr>"
    by (simp add: demo_key_def)
  ultimately show ?thesis
    unfolding decode_key_eq by (intro exI [of _ "2 ^ 2047"]) (simp only: demo_jwk_def ParsedKey.simps)
qed

lemma demo_document: "jwks_document default_jwks_limits demo_jwks [demo_jwk]"
proof -
  let ?names = "[''kid'', ''kty'', ''alg'', ''use'', ''e'', ''n'']"
  have "set ?names = jwk_names" by (auto simp: jwk_names_def)
  moreover have "distinct ?names" by simp
  moreover have "pk_n demo_jwk \<noteq> ''''" by (simp add: demo_jwk_def demo_key_def)
  ultimately have "jwk_object default_jwks_limits
      (JObject (map (\<lambda>name. (name, JString (key_field name demo_jwk))) ?names)) demo_jwk"
    unfolding jwk_object_def
    by (intro conjI exI [of _ "map (\<lambda>name. (name, JString (key_field name demo_jwk))) ?names"] refl)
      (simp_all only: set_map map_map comp_def fst_conv list.map_ident, simp_all add: demo_jwk_def default_jwks_limits_def)
  then show ?thesis by (simp add: jwks_document_def demo_jwks_def default_jwks_limits_def)
qed

lemma jwks_parse_iff_witness:
  "jwks_parse (\<lambda>_. events_of demo_jwks) [] default_jwks_limits = Inr [''k'' \<mapsto> demo_key]"
proof -
  have "jwks_limits_ok default_jwks_limits" by (simp add: jwks_limits_ok_def default_jwks_limits_def)
  moreover have "[''k'' \<mapsto> demo_key] = map_of (zip (map pk_kid [demo_jwk]) [demo_key])"
    by (simp add: demo_jwk_def)
  ultimately show ?thesis
    unfolding jwks_parse_iff [of "\<lambda>_. events_of demo_jwks" "[]" demo_jwks, OF refl]
    using demo_document demo_decode_key
    by (intro conjI exI [of _ "[demo_jwk]"] exI [of _ "[demo_key]"]) simp_all
qed

lemma demo_jwks_parse: "jwks_parse (\<lambda>_. events_of demo_jwks) ''doc'' default_jwks_limits = Inr [''k'' \<mapsto> demo_key]"
proof -
  have "collect_keys [demo_jwk] Map.empty = Inr [''k'' \<mapsto> demo_key]"
    by (simp add: demo_decode_key) (simp add: demo_jwk_def)
  moreover have "jwks_limits_ok default_jwks_limits" "length ''doc'' \<le> jl_max_bytes default_jwks_limits"
    by (simp_all add: jwks_limits_ok_def default_jwks_limits_def)
  ultimately show ?thesis
    unfolding jwks_parse_eq [of "\<lambda>_. events_of demo_jwks" "''doc''" demo_jwks, OF refl] using demo_document by blast
qed

definition demo_policy :: FilePolicy where
  "demo_policy = \<lparr>fp_required_owner = 0, fp_allow_root_owner = False, fp_limits = default_jwks_limits\<rparr>"

lemma demo_load:
  "load_static_file (\<lambda>_. events_of demo_jwks) (demo_posix ''doc'') ''/k'' demo_policy (1, []) =
     Some (Inr [''k'' \<mapsto> demo_key], (0, []))"
proof -
  have "read_loop (demo_posix ''doc'') 3 3 [] (Suc 0, ''doc'') = Some (Some ''doc'', (0, []))"
    by (simp add: read_loop_more read_loop_done demo_posix_calls)
  moreover have "\<not> unsafe_metadata demo_policy \<lparr>st_mode = 0x81A4, st_uid = 0, st_size = 3, st_dev = 1, st_ino = 7\<rparr>"
    by (simp add: unsafe_metadata_def demo_policy_def S_ISREG_def writable_by_others_def)
  moreover have "fp_limits demo_policy = default_jwks_limits" "jl_max_bytes default_jwks_limits = 1048576"
    by (simp_all add: demo_policy_def default_jwks_limits_def)
  ultimately show ?thesis
    using demo_jwks_parse
    by (simp add: load_static_file_def load_open_file_def close_descriptor_def demo_posix_calls)
qed

lemma load_static_file_safe_witness:
  "\<exists>snapshot. length snapshot \<le> 1048576 \<and>
     jwks_parse (\<lambda>_. events_of demo_jwks) snapshot default_jwks_limits = Inr [''k'' \<mapsto> demo_key]"
proof -
  have "fp_limits demo_policy = default_jwks_limits" "jl_max_bytes default_jwks_limits = 1048576"
    by (simp_all add: demo_policy_def default_jwks_limits_def)
  with load_static_file_safe [OF demo_posix_laws(1) demo_load] show ?thesis by (elim conjE exE) auto
qed

lemma load_static_file_returns_witness:
  "\<exists>result w'. load_static_file (\<lambda>_. events_of demo_jwks) (demo_posix ''doc'') ''/k'' demo_policy (5, []) =
     Some (result, w')"
  using load_static_file_returns [OF demo_posix_laws(2)] by blast

end
