(* ===== verification/Cb_Issuer.thy ===== *)
theory Cb_Issuer
  imports Cb_Jwks Cb_Dom
begin

text \<open>
  The issuer verifier, \<^verbatim>\<open>src/issuer_verifier.cpp\<close>: the strict object parser
  \<^verbatim>\<open>ObjectSax\<close>, the protected header, the framing of the standard evidence, the policy and
  claim checks and \<^verbatim>\<open>verify\<close>. The theorems: which JSON objects the parser accepts, the
  time window of an accepted credential, what a successful verification has checked.
\<close>

section \<open>Types\<close>

definition kMaximumJsonBytes :: nat where "kMaximumJsonBytes = 32768"
definition issuer_kMaximumEvidenceBytes :: nat where "issuer_kMaximumEvidenceBytes = 16384"
definition kMaximumJsonDepth :: nat where "kMaximumJsonDepth = 32"
definition kMaximumJsonMembers :: nat where "kMaximumJsonMembers = 4096"
definition kMaximumJsonValues :: nat where "kMaximumJsonValues = 4096"
definition kMaximumJsonKeyBytes :: nat where "kMaximumJsonKeyBytes = 256"

definition kStandardEvidence :: string where "kStandardEvidence = ''standard-jws-v1''"
definition kGqEvidence :: string where "kGqEvidence = ''gq-rs256-v1''"
definition kOidcNonceBinding :: string where "kOidcNonceBinding = ''oidc-nonce-v1''"
definition kAudienceBinding :: string where "kAudienceBinding = ''audience-v1''"
definition kCredBindClaimBinding :: string where "kCredBindClaimBinding = ''credbind-claim-v1''"

type_synonym Claims = "string \<rightharpoonup> json"

datatype PredicateOperation = string_equals | string_one_of | string_array_contains

record Predicate =
  pr_claim :: string
  pr_operation :: PredicateOperation
  pr_value :: string
  pr_values :: "string list"

record Policy =
  po_issuer :: string
  po_audiences :: "string set"
  po_authorized_parties :: "string set"
  po_issuer_algorithms :: "string set"
  po_evidence_profiles :: "string set"
  po_binding_profiles :: "string set"
  po_require_non_reconstructible_evidence :: bool
  po_maximum_credential_age_seconds :: int
  po_clock_skew_seconds :: int
  po_required_claims :: "Predicate list"
  po_admitted_claims :: "string set"

record VerificationInput =
  vi_evidence_profile :: string
  vi_binding_profile :: string
  vi_commitment :: string
  vi_issuer_encoded_payload :: string
  vi_evidence_representation :: "u8 list"
  vi_verification_time_unix :: int

record VerificationResult =
  vr_issuer :: string
  vr_issuer_key_id :: string
  vr_binding_profile :: string
  vr_claims :: Claims
  vr_credential_valid_until_unix :: int
  vr_verified_evidence_digest :: "u8 list"

section \<open>The class ObjectSax\<close>

definition object_start_object :: "dom_state \<Rightarrow> dom_state \<times> bool" where
  "object_start_object s =
     (case dom_count_value kMaximumJsonValues s of (s, proceed) \<Rightarrow>
        if \<not> proceed then (s, False)
        else if ds_stack s = [] then (push_context (new_context ctx_object True) s, True)
        else if length (ds_stack s) + 1 > kMaximumJsonDepth then (s, False)
        else
          case dom_parent_ready s of (s, is_ready) \<Rightarrow>
            if \<not> is_ready then (s, False)
            else (push_context (new_context ctx_object False) s, True))"

definition object_start_array :: "dom_state \<Rightarrow> dom_state \<times> bool" where
  "object_start_array s =
     (if ds_stack s = [] then dom_fail s malformed_input
      else
        case dom_count_value kMaximumJsonValues s of (s, proceed) \<Rightarrow>
          if \<not> proceed \<or> length (ds_stack s) + 1 > kMaximumJsonDepth then (s, False)
          else
            case dom_parent_ready s of (s, is_ready) \<Rightarrow>
              if \<not> is_ready then (s, False)
              else (push_context (new_context ctx_array False) s, True))"

definition object_step :: "dom_state \<Rightarrow> sax_event \<Rightarrow> dom_state \<times> bool" where
  "object_step s e =
     (case e of
        Ev_null \<Rightarrow> dom_scalar kMaximumJsonValues s JNull
      | Ev_boolean b \<Rightarrow> dom_scalar kMaximumJsonValues s (JBool b)
      | Ev_number_integer i \<Rightarrow> dom_scalar kMaximumJsonValues s (JInteger i)
      | Ev_number_unsigned n \<Rightarrow> dom_scalar kMaximumJsonValues s (JUnsigned n)
      | Ev_number_float d \<Rightarrow>
          if \<not> isfinite d then dom_fail s malformed_input
          else dom_scalar kMaximumJsonValues s (JFloat d)
      | Ev_string v \<Rightarrow> dom_scalar kMaximumJsonValues s (JString v)
      | Ev_binary \<Rightarrow> dom_fail s malformed_input
      | Ev_start_object \<Rightarrow> object_start_object s
      | Ev_key name \<Rightarrow> dom_key kMaximumJsonMembers kMaximumJsonKeyBytes s name
      | Ev_end_object \<Rightarrow> dom_end_object s
      | Ev_start_array \<Rightarrow> object_start_array s
      | Ev_end_array \<Rightarrow> dom_end_array s
      | Ev_parse_error \<Rightarrow> dom_fail s malformed_input)"

text \<open>\<^verbatim>\<open>take_object\<close>: the members of the root, as an unordered map.\<close>

definition take_object :: "json \<Rightarrow> Claims" where
  "take_object j = (case j of JObject members \<Rightarrow> map_of members | _ \<Rightarrow> Map.empty)"

definition parse_object :: "json_lexer \<Rightarrow> string \<Rightarrow> Claims expected" where
  "parse_object lexer input =
     (if length input > kMaximumJsonBytes then Inl resource_limit
      else
        case sax_run object_step dom_init (lexer input) of (handler, parsed) \<Rightarrow>
          if \<not> parsed \<or> ds_failed handler \<or> \<not> dom_done handler then Inl (ds_error handler)
          else Inr (take_object (ds_root handler)))"

section \<open>Claims\<close>

definition string_claim :: "Claims \<Rightarrow> string \<Rightarrow> string option" where
  "string_claim claims name = (case claims name of Some (JString s) \<Rightarrow> Some s | _ \<Rightarrow> None)"

text \<open>\<^verbatim>\<open>std::trunc(number) == number\<close> says that the number is an integer.\<close>

definition integer_claim :: "Claims \<Rightarrow> string \<Rightarrow> int option" where
  "integer_claim claims name =
     (case claims name of
        None \<Rightarrow> None
      | Some v \<Rightarrow>
          (case v of
             JUnsigned number \<Rightarrow> if unat number \<le> 9007199254740991 then Some (uint number) else None
           | JInteger number \<Rightarrow>
               if - 9007199254740991 \<le> number \<and> number \<le> 9007199254740991 then Some number else None
           | JFloat (Finite number) \<Rightarrow>
               if of_int \<lfloor>number\<rfloor> = number \<and> - 9007199254740991 \<le> number \<and> number \<le> 9007199254740991
               then Some \<lfloor>number\<rfloor> else None
           | _ \<Rightarrow> None))"

section \<open>Header and evidence\<close>

record Header =
  hdr_algorithm :: string
  hdr_kid :: string

definition prohibited_parameters :: "string list" where
  "prohibited_parameters = [''jku'', ''x5u'', ''jwk'', ''x5c'']"

definition parse_header :: "json_lexer \<Rightarrow> string \<Rightarrow> Header expected" where
  "parse_header lexer encoded =
     ebind (decode encoded kMaximumJsonBytes) (\<lambda>decoded.
     ebind (parse_object lexer (text_of decoded)) (\<lambda>object.
       if list_ex (\<lambda>prohibited. object prohibited \<noteq> None) prohibited_parameters then Inl issuer_untrusted
       else if object ''crit'' \<noteq> None then Inl unsupported_profile
       else
         case (string_claim object ''alg'', string_claim object ''kid'') of
           (Some algorithm, Some kid) \<Rightarrow>
             if algorithm = '''' \<or> kid = '''' then Inl malformed_input
             else Inr \<lparr>hdr_algorithm = algorithm, hdr_kid = kid\<rparr>
         | _ \<Rightarrow> Inl malformed_input))"

definition read_text :: "u8 cursor \<Rightarrow> (string \<times> u8 cursor) expected" where
  "read_text r =
     (if left r < 8 then Inl malformed_input
      else
        let len = be_value (window r 8) :: u64; r = advance 8 r in
        if len = 0 \<or> unat len > left r \<or> unat len > kMaximumJsonBytes then Inl malformed_input
        else let size = unat len in Inr (text_of (window r size), advance size r))"

record StandardEvidence =
  se_header :: string
  se_signature :: "u8 list"

definition parse_standard :: "u8 list \<Rightarrow> StandardEvidence expected" where
  "parse_standard encoded_evidence =
     ebind (read_text (start_cursor encoded_evidence)) (\<lambda>(header, offset).
     ebind (read_text offset) (\<lambda>(encoded_signature, offset).
       if \<not> at_end offset then Inl malformed_input
       else
         ebind (decode encoded_signature 1024) (\<lambda>signature.
           Inr \<lparr>se_header = header, se_signature = signature\<rparr>)))"

definition gq_header :: "u8 list \<Rightarrow> string expected" where
  "gq_header encoded_evidence =
     (case read_text (start_cursor encoded_evidence) of
        Inl _ \<Rightarrow> Inl evidence_invalid | Inr (header, offset) \<Rightarrow> Inr header)"

section \<open>Policy\<close>

text \<open>The loop over the values of a one-of predicate, with the set \<^verbatim>\<open>unique\<close>.\<close>

fun valid_one_of :: "string list \<Rightarrow> string set \<Rightarrow> bool" where
  "valid_one_of [] unique \<longleftrightarrow> True"
| "valid_one_of (v # vs) unique \<longleftrightarrow> v \<noteq> '''' \<and> v \<notin> unique \<and> valid_one_of vs (insert v unique)"

definition valid_required_claim :: "Predicate \<Rightarrow> bool" where
  "valid_required_claim predicate \<longleftrightarrow>
     \<not> (pr_claim predicate = '''' \<or>
        (pr_operation predicate = string_equals \<and> pr_values predicate \<noteq> []) \<or>
        (pr_operation predicate = string_one_of \<and> (pr_values predicate = [] \<or> pr_value predicate \<noteq> '''')) \<or>
        (pr_operation predicate = string_array_contains \<and> pr_values predicate \<noteq> [])) \<and>
     (pr_operation predicate = string_one_of \<longrightarrow> valid_one_of (pr_values predicate) {})"

definition validate_policy :: "VerificationInput \<Rightarrow> Policy \<Rightarrow> unit expected" where
  "validate_policy input policy =
     (if length (po_issuer policy) < 9 \<or> take 8 (po_issuer policy) \<noteq> ''https://'' \<or>
         po_audiences policy = {} \<or> po_issuer_algorithms policy = {} \<or>
         po_evidence_profiles policy = {} \<or> po_binding_profiles policy = {} \<or>
         po_clock_skew_seconds policy < 0 \<or> po_maximum_credential_age_seconds policy < 0
      then Inl issuer_untrusted
      else if (vi_evidence_profile input \<noteq> kStandardEvidence \<and> vi_evidence_profile input \<noteq> kGqEvidence) \<or>
         vi_evidence_profile input \<notin> po_evidence_profiles policy \<or>
         (po_require_non_reconstructible_evidence policy \<and> vi_evidence_profile input = kStandardEvidence)
      then Inl unsupported_profile
      else if (vi_binding_profile input \<noteq> kOidcNonceBinding \<and> vi_binding_profile input \<noteq> kAudienceBinding \<and>
           vi_binding_profile input \<noteq> kCredBindClaimBinding) \<or>
         vi_binding_profile input \<notin> po_binding_profiles policy
      then Inl unsupported_profile
      else if \<not> list_all valid_required_claim (po_required_claims policy) then Inl issuer_untrusted
      else Inr ())"

text \<open>The loop over the items of the audience array: \<open>None\<close> is its early return.\<close>

fun audience_items :: "string set \<Rightarrow> json list \<Rightarrow> string set \<Rightarrow> bool \<Rightarrow> bool" where
  "audience_items allowed [] seen matched = matched"
| "audience_items allowed (item # items) seen matched =
     (if \<not> is_string item then False
      else if get_string item \<in> seen then False
      else audience_items allowed items (insert (get_string item) seen) (matched \<or> get_string item \<in> allowed))"

definition audience_allowed :: "json \<Rightarrow> string set \<Rightarrow> bool" where
  "audience_allowed v allowed =
     (case v of
        JString s \<Rightarrow> s \<in> allowed
      | JArray items \<Rightarrow> items \<noteq> [] \<and> audience_items allowed items {} False
      | _ \<Rightarrow> False)"

definition exact_audience :: "json \<Rightarrow> string \<Rightarrow> bool" where
  "exact_audience v commitment =
     (case v of
        JString s \<Rightarrow> s = commitment
      | JArray items \<Rightarrow> length items = 1 \<and> is_string (hd items) \<and> get_string (hd items) = commitment
      | _ \<Rightarrow> False)"

definition predicate_matches :: "Claims \<Rightarrow> Predicate \<Rightarrow> bool" where
  "predicate_matches claims predicate =
     (case claims (pr_claim predicate) of
        None \<Rightarrow> False
      | Some v \<Rightarrow>
          if pr_claim predicate = '''' then False
          else if pr_operation predicate = string_array_contains then
            (case v of
               JArray items \<Rightarrow> list_ex (\<lambda>item. is_string item \<and> get_string item = pr_value predicate) items
             | _ \<Rightarrow> False)
          else
            (case v of
               JString text \<Rightarrow>
                 if pr_operation predicate = string_equals then text = pr_value predicate
                 else text \<in> set (pr_values predicate)
             | _ \<Rightarrow> False))"

definition checked_add :: "int \<Rightarrow> int \<Rightarrow> ParseErrorKind \<Rightarrow> int expected" where
  "checked_add l r kind =
     (if (r > 0 \<and> l > int64_max - r) \<or> (r < 0 \<and> l < int64_min - r) then Inl kind else Inr (l + r))"

definition issuer_checked_add :: "int \<Rightarrow> int \<Rightarrow> int expected" where
  "issuer_checked_add l r = checked_add l r issuer_claims_invalid"

section \<open>Validation of the claims\<close>

definition kCommitmentClaim :: string where
  "kCommitmentClaim = ''https://credbind.dev/commitment''"

definition audience_claim_allowed :: "Policy \<Rightarrow> Claims \<Rightarrow> bool" where
  "audience_claim_allowed policy claims =
     (case claims ''aud'' of None \<Rightarrow> False | Some v \<Rightarrow> audience_allowed v (po_audiences policy))"

text \<open>The binding and audience checks, by binding profile.\<close>

definition check_binding :: "VerificationInput \<Rightarrow> Policy \<Rightarrow> Claims \<Rightarrow> unit expected" where
  "check_binding input policy claims =
     (if vi_binding_profile input = kOidcNonceBinding then
        if string_claim claims ''nonce'' \<noteq> Some (vi_commitment input) then Inl binding_invalid
        else if \<not> audience_claim_allowed policy claims then Inl issuer_claims_invalid
        else Inr ()
      else if vi_binding_profile input = kAudienceBinding then
        case claims ''aud'' of
          None \<Rightarrow> Inl binding_invalid
        | Some v \<Rightarrow> if \<not> exact_audience v (vi_commitment input) then Inl binding_invalid else Inr ()
      else
        if string_claim claims kCommitmentClaim \<noteq> Some (vi_commitment input) then Inl binding_invalid
        else if \<not> audience_claim_allowed policy claims then Inl issuer_claims_invalid
        else Inr ())"

definition check_authorized_party :: "Policy \<Rightarrow> Claims \<Rightarrow> unit expected" where
  "check_authorized_party policy claims =
     (if po_authorized_parties policy \<noteq> {} then
        case string_claim claims ''azp'' of
          None \<Rightarrow> Inl issuer_claims_invalid
        | Some party \<Rightarrow> if party \<notin> po_authorized_parties policy then Inl issuer_claims_invalid else Inr ()
      else Inr ())"

definition validate_claims :: "VerificationInput \<Rightarrow> Policy \<Rightarrow> Claims \<Rightarrow> int expected" where
  "validate_claims input policy claims =
     (if string_claim claims ''iss'' \<noteq> Some (po_issuer policy) then Inl issuer_claims_invalid else
      ebind (check_binding input policy claims) (\<lambda>_.
      ebind (check_authorized_party policy claims) (\<lambda>_.
      if \<not> list_all (predicate_matches claims) (po_required_claims policy) then Inl issuer_claims_invalid else
      case (integer_claim claims ''iat'', integer_claim claims ''exp'') of
        (Some issued_at, Some expires_at) \<Rightarrow>
          ebind (issuer_checked_add (vi_verification_time_unix input) (po_clock_skew_seconds policy)) (\<lambda>now_with_skew.
          if now_with_skew < issued_at then Inl credential_not_yet_valid else
          let not_before = integer_claim claims ''nbf'' in
          if claims ''nbf'' \<noteq> None \<and> not_before = None then Inl issuer_claims_invalid else
          if (case not_before of Some t \<Rightarrow> now_with_skew < t | None \<Rightarrow> False)
          then Inl credential_not_yet_valid else
          ebind (issuer_checked_add (vi_verification_time_unix input) (- po_clock_skew_seconds policy)) (\<lambda>now_without_skew.
          if now_without_skew \<ge> expires_at then Inl credential_expired else
          if po_maximum_credential_age_seconds policy > 0 then
            ebind (issuer_checked_add issued_at (po_maximum_credential_age_seconds policy)) (\<lambda>maximum_age_until.
              let valid_until = min expires_at maximum_age_until in
              if now_without_skew \<ge> valid_until then Inl credential_expired else Inr valid_until)
          else Inr expires_at))
      | _ \<Rightarrow> Inl issuer_claims_invalid)))"

definition validate_authenticated_claims :: "VerificationInput \<Rightarrow> Policy \<Rightarrow> Claims \<Rightarrow> int expected" where
  "validate_authenticated_claims input policy claims =
     ebind (validate_policy input policy) (\<lambda>_. validate_claims input policy claims)"

section \<open>Verification\<close>

definition evidence_digest_input :: "string \<Rightarrow> string \<Rightarrow> u8 list \<Rightarrow> u8 list" where
  "evidence_digest_input profile payload evidence =
     (let digest_input = bytes ''CredBind-Issuer-Evidence-Digest-v1'' @ [0];
          digest_input = append_value digest_input (bytes profile);
          digest_input = append_value digest_input (bytes payload)
      in append_value digest_input evidence)"

definition evidence_digest :: "'k openssl \<Rightarrow> VerificationInput \<Rightarrow> u8 list expected" where
  "evidence_digest ossl input =
     digest_sha256 ossl (evidence_digest_input (vi_evidence_profile input)
       (vi_issuer_encoded_payload input) (vi_evidence_representation input))"

text \<open>The protected header and, for the standard profile, the signature of the evidence.\<close>

definition evidence_header :: "VerificationInput \<Rightarrow> (string \<times> u8 list) expected" where
  "evidence_header input =
     (if vi_evidence_profile input = kStandardEvidence then
        ebind (parse_standard (vi_evidence_representation input)) (\<lambda>standard.
          Inr (se_header standard, se_signature standard))
      else
        ebind (gq_header (vi_evidence_representation input)) (\<lambda>header. Inr (header, [])))"

definition admitted :: "string set \<Rightarrow> Claims \<Rightarrow> Claims" where
  "admitted names claims = (\<lambda>name. if name \<in> names then claims name else None)"

definition issuer_verify ::
  "json_lexer \<Rightarrow> 'k openssl \<Rightarrow> VerificationInput \<Rightarrow> Policy \<Rightarrow> StaticJwks \<Rightarrow> VerificationResult expected" where
  "issuer_verify lexer ossl input policy keys =
     (if length (vi_evidence_representation input) > issuer_kMaximumEvidenceBytes then Inl resource_limit else
      ebind (validate_policy input policy) (\<lambda>_.
      ebind (decode (vi_issuer_encoded_payload input) kMaximumJsonBytes) (\<lambda>payload_bytes.
      ebind (parse_object lexer (text_of payload_bytes)) (\<lambda>claims.
      ebind (evidence_header input) (\<lambda>(encoded_header, standard_signature).
      case parse_header lexer encoded_header of
        Inl e \<Rightarrow>
          if vi_evidence_profile input = kGqEvidence \<and> e = malformed_input then Inl evidence_invalid else Inl e
      | Inr header \<Rightarrow>
          if hdr_algorithm header \<noteq> ''RS256'' \<or> hdr_algorithm header \<notin> po_issuer_algorithms policy
          then Inl unsupported_algorithm else
          ebind (resolve_rs256 keys (hdr_kid header)) (\<lambda>key.
          ebind
            (if vi_evidence_profile input = kStandardEvidence
             then verify_rs256 ossl (encoded_header @ ''.'' @ vi_issuer_encoded_payload input) standard_signature key
             else verify_gq_rs256 ossl (vi_issuer_encoded_payload input) (vi_commitment input)
                    (po_issuer policy) (vi_evidence_representation input) key) (\<lambda>_.
          ebind (validate_claims input policy claims) (\<lambda>valid_until.
          ebind (evidence_digest ossl input) (\<lambda>digest.
            Inr \<lparr>vr_issuer = po_issuer policy, vr_issuer_key_id = hdr_kid header,
                 vr_binding_profile = vi_binding_profile input,
                 vr_claims = admitted (po_admitted_claims policy) claims,
                 vr_credential_valid_until_unix = valid_until, vr_verified_evidence_digest = digest\<rparr>)))))))))"

section \<open>Which JSON objects are parsed\<close>

definition object_bounds :: dom_bounds where
  "object_bounds =
     \<lparr>db_depth = kMaximumJsonDepth, db_members = kMaximumJsonMembers, db_values = kMaximumJsonValues,
      db_key_bytes = kMaximumJsonKeyBytes, db_finite = True\<rparr>"

lemmas object_callback_defs =
  object_step_def object_start_object_def object_start_array_def dom_scalar_def dom_attach_def
  dom_key_def dom_end_object_def dom_end_array_def dom_count_value_def dom_parent_ready_def dom_fail_def Let_def

lemma object_bounds_simps [simp]:
  "db_depth object_bounds = kMaximumJsonDepth" "db_members object_bounds = kMaximumJsonMembers"
  "db_values object_bounds = kMaximumJsonValues" "db_key_bytes object_bounds = kMaximumJsonKeyBytes"
  "db_finite object_bounds"
  by (simp_all add: object_bounds_def)

lemma object_scalar_iff:
  "dom_scalar kMaximumJsonValues s v = (s', True) \<longleftrightarrow> Option.bind (counted object_bounds s) (attached v) = Some s'"
  using dom_scalar_iff [of object_bounds] by simp

lemma object_count_iff:
  "dom_count_value kMaximumJsonValues s = (s', True) \<longleftrightarrow> counted object_bounds s = Some s'"
  using dom_count_value_iff [of object_bounds] by simp

lemma object_start_object_iff:
  "object_start_object s = (s', True) \<longleftrightarrow> Option.bind (counted object_bounds s) (opened object_bounds ctx_object) = Some s'"
proof (cases "dom_count_value kMaximumJsonValues s")
  case (Pair s1 proceed)
  show ?thesis
  proof (cases proceed)
    case True
    then have c: "counted object_bounds s = Some s1" using Pair object_count_iff by simp
    show ?thesis
      by (cases "ds_stack s1")
        (auto simp: object_start_object_def Pair True c opened_def dom_parent_ready_iff split: prod.splits,
          auto simp: dom_parent_ready_def dom_fail_def ready_def Let_def split: if_splits)
  next
    case False
    then have "counted object_bounds s = None"
      using Pair object_count_iff [of s] by (cases "counted object_bounds s") auto
    then show ?thesis using Pair False by (simp add: object_start_object_def)
  qed
qed

lemma object_start_array_iff:
  "object_start_array s = (s', True) \<longleftrightarrow> Option.bind (counted object_bounds s) (opened object_bounds ctx_array) = Some s'"
proof (cases "ds_stack s")
  case Nil
  then show ?thesis
    by (auto simp: object_start_array_def counted_def opened_def bind_eq_Some_conv)
next
  case (Cons c rest)
  obtain s1 proceed where Pair: "dom_count_value kMaximumJsonValues s = (s1, proceed)" by fastforce
  show ?thesis
  proof (cases proceed)
    case True
    then have c: "counted object_bounds s = Some s1" using Pair object_count_iff by simp
    then have stack: "ds_stack s1 = c # rest" using Cons by (auto simp: counted_def split: if_splits)
    show ?thesis
      by (auto simp: object_start_array_def Pair True c opened_def stack Cons dom_parent_ready_iff split: prod.splits)
        (auto simp: dom_parent_ready_def dom_fail_def ready_def Let_def stack split: if_splits)
  next
    case False
    then have "counted object_bounds s = None"
      using Pair object_count_iff [of s] by (cases "counted object_bounds s") auto
    then show ?thesis using Pair False Cons by (simp add: object_start_array_def)
  qed
qed

lemma object_step_iff:
  assumes wf: "dom_wf s"
  shows "object_step s e = (s', True) \<longleftrightarrow> dom_next object_bounds s e = Some s'"
  using dom_key_iff [of object_bounds] dom_end_object_iff [OF wf] dom_end_array_iff [OF wf]
  by (cases e)
    (simp_all add: object_step_def dom_next_def scalar_of_def scalar_ok_def object_scalar_iff
      object_start_object_iff object_start_array_iff)

interpretation object_sax: dom_handler object_step object_bounds
proof unfold_locales
  show "\<not> ds_failed s'" if "object_step s e = (s', True)" "\<not> ds_failed s" for s e s'
    using that
    by (cases e) (auto simp: object_callback_defs push_context_def split: prod.splits if_splits)
qed (simp_all add: object_step_iff kMaximumJsonDepth_def kMaximumJsonValues_def)

text \<open>Members with distinct names keep their values in the map the parser returns.\<close>

lemma map_of_assigned:
  "map_of (foldl (\<lambda>ms (name, v). member_assign name v ms) ms0 ms) = map_of ms0 ++ map_of (rev ms)"
  by (induction ms arbitrary: ms0) (auto simp: map_add_def fun_eq_iff split: option.splits)

lemma map_of_values: "map_of (map (\<lambda>(name, v). (name, f v)) ms) = map_option f \<circ> map_of ms"
  by (induction ms) (auto simp: fun_eq_iff)

lemma take_object_value:
  assumes "distinct (map fst members)"
  shows "take_object (json_value (JObject members)) = map_option json_value \<circ> map_of members"
proof -
  let ?ms = "map (\<lambda>(name, v). (name, json_value v)) members"
  have "distinct (map fst ?ms)" using assms by (simp add: case_prod_beta' comp_def)
  then have "map_of (rev ?ms) = map_of ?ms"
    by (subst map_of_inject_set) (simp_all add: rev_map [symmetric] del: map_map)
  then show ?thesis by (simp add: take_object_def map_of_assigned map_of_values del: rev_map map_map)
qed

definition object_claims :: "json \<Rightarrow> Claims" where
  "object_claims t = (case t of JObject members \<Rightarrow> map_option json_value \<circ> map_of members | _ \<Rightarrow> Map.empty)"

lemma parse_object_eq:
  assumes lex: "lexer input = events_of t"
  shows "parse_object lexer input = Inr claims \<longleftrightarrow>
     length input \<le> kMaximumJsonBytes \<and> document_ok object_bounds t \<and> claims = object_claims t"
proof -
  obtain h parsed where run: "sax_run object_step dom_init (events_of t) = (h, parsed)" by fastforce
  have accepts: "(parsed \<and> \<not> ds_failed h \<and> dom_done h \<and> ds_root h = v) \<longleftrightarrow> document_ok object_bounds t \<and> v = json_value t" for v
    using object_sax.accepts_iff [of t v] run by simp
  have "take_object (json_value t) = object_claims t" if "document_ok object_bounds t"
    using that by (auto simp: document_ok_def object_claims_def take_object_value simp del: json_value.simps)
  then show ?thesis
    using accepts [of "ds_root h"] accepts [of "json_value t"] by (auto simp: parse_object_def lex run not_less)
qed

text \<open>
  C20. The issuer's object parser, on a well-formed JSON text \<open>t\<close>, accepts exactly the objects
  within its bounds (bytes, depth, members, values, name length) whose names are distinct in
  every nested object and whose numbers are finite; the result gives each member its value.
\<close>

theorem parse_object_iff:
  assumes "lexer input = events_of t"
  shows "parse_object lexer input = Inr claims \<longleftrightarrow>
     length input \<le> kMaximumJsonBytes \<and> document_ok object_bounds t \<and>
     (\<exists>members. t = JObject members \<and> claims = (\<lambda>name. map_option json_value (map_of members name)))"
  unfolding parse_object_eq [of lexer input t, OF assms]
  by (auto simp: document_ok_def object_claims_def comp_def)

section \<open>Numbers and audiences\<close>

text \<open>The number a JSON value stands for.\<close>

definition json_number :: "json \<Rightarrow> rat option" where
  "json_number j =
     (case j of JInteger i \<Rightarrow> Some (of_int i) | JUnsigned n \<Rightarrow> Some (of_int (uint n))
      | JFloat (Finite r) \<Rightarrow> Some r | _ \<Rightarrow> None)"

lemma integer_claim_eq:
  "integer_claim claims name = Some i \<longleftrightarrow>
     (\<exists>v. claims name = Some v \<and> json_number v = Some (of_int i) \<and> \<bar>i\<bar> \<le> 9007199254740991)"
proof (cases "claims name")
  case (Some v)
  have float: "(of_int \<lfloor>r\<rfloor> = r \<and> - 9007199254740991 \<le> r \<and> r \<le> 9007199254740991 \<and> \<lfloor>r\<rfloor> = i) \<longleftrightarrow>
      r = of_int i \<and> \<bar>i\<bar> \<le> 9007199254740991" for r :: rat
  proof -
    have "(- 9007199254740991 \<le> (of_int i :: rat) \<and> (of_int i :: rat) \<le> 9007199254740991) \<longleftrightarrow>
        \<bar>i\<bar> \<le> 9007199254740991"
      using of_int_le_iff [of "- 9007199254740991" i, where 'a = rat] of_int_le_iff [of i 9007199254740991, where 'a = rat]
      by (auto simp: abs_le_iff)
    then show ?thesis by (auto simp del: of_int_le_iff)
  qed
  have unsigned: "unat (n :: u64) \<le> 9007199254740991 \<longleftrightarrow> \<bar>uint n\<bar> \<le> 9007199254740991" for n
    using uint_nat [of n] by linarith
  show ?thesis
  proof (cases v)
    case (JFloat d)
    then show ?thesis using Some float by (cases d) (auto simp: integer_claim_def json_number_def)
  next
    case (JUnsigned n)
    have "integer_claim claims name = Some i \<longleftrightarrow> unat n \<le> 9007199254740991 \<and> uint n = i"
      using Some JUnsigned by (simp add: integer_claim_def)
    also have "\<dots> \<longleftrightarrow> of_int (uint n) = (of_int i :: rat) \<and> \<bar>i\<bar> \<le> 9007199254740991"
      unfolding of_int_eq_iff unsigned by blast
    finally show ?thesis using Some JUnsigned by (simp add: json_number_def)
  qed (use Some in \<open>auto simp: integer_claim_def json_number_def abs_le_iff\<close>)
qed (simp add: integer_claim_def)

text \<open>
  C21. A NumericDate claim is read exactly: the integer returned is the value of the parsed number
  (signed, unsigned or a \<^verbatim>\<open>double\<close>), and it is returned precisely when that value is an integer
  of at most \<open>2^53 - 1\<close> in absolute value, where a \<^verbatim>\<open>double\<close> tells neighbouring integers apart.
\<close>

theorem integer_claim_iff:
  "integer_claim claims name = Some i \<longleftrightarrow>
     (\<exists>v. claims name = Some v \<and> json_number v = Some (of_int i) \<and> \<bar>i\<bar> \<le> 2 ^ 53 - 1)"
  using integer_claim_eq [of claims name i] by simp

lemma is_string_iff: "is_string v \<longleftrightarrow> (\<exists>s. v = JString s)"
  by (cases v) (simp_all add: is_string_def)

lemma get_string_JString [simp]: "get_string (JString s) = s" "is_string (JString s)"
  by (simp_all add: get_string_def is_string_def)

lemma ex_map_JString_Cons:
  "(\<exists>ss. JString s # items = map JString ss \<and> P ss) \<longleftrightarrow> (\<exists>ss. items = map JString ss \<and> P (s # ss))"
  by (auto simp: Cons_eq_map_conv)

lemma audience_items_iff:
  "audience_items allowed items seen matched \<longleftrightarrow>
     (\<exists>ss. items = map JString ss \<and> distinct ss \<and> set ss \<inter> seen = {} \<and> (matched \<or> set ss \<inter> allowed \<noteq> {}))"
proof (induction allowed items seen matched rule: audience_items.induct)
  case (2 allowed item items seen matched)
  show ?case
  proof (cases "is_string item \<and> get_string item \<notin> seen")
    case True
    then obtain s where s: "item = JString s" "s \<notin> seen" by (auto simp: is_string_iff)
    have "audience_items allowed (item # items) seen matched \<longleftrightarrow>
        audience_items allowed items (insert s seen) (matched \<or> s \<in> allowed)"
      by (simp add: s)
    also have "\<dots> \<longleftrightarrow> (\<exists>ss. items = map JString ss \<and> distinct (s # ss) \<and> set (s # ss) \<inter> seen = {} \<and>
        (matched \<or> set (s # ss) \<inter> allowed \<noteq> {}))"
      using "2.IH" True s by auto
    also have "\<dots> \<longleftrightarrow> (\<exists>ss. item # items = map JString ss \<and> distinct ss \<and> set ss \<inter> seen = {} \<and>
        (matched \<or> set ss \<inter> allowed \<noteq> {}))"
      unfolding s by (rule ex_map_JString_Cons [symmetric])
    finally show ?thesis .
  next
    case False
    then show ?thesis by (auto simp: Cons_eq_map_conv)
  qed
qed simp

text \<open>
  An audience claim is allowed exactly when it is an allowed string, or an array of
  pairwise different strings one of which is allowed: an array with a repeated, non-string or
  no item is refused whatever else it holds.
\<close>

theorem audience_allowed_iff:
  "audience_allowed v allowed \<longleftrightarrow>
     (\<exists>s\<in>allowed. v = JString s) \<or>
     (\<exists>ss. v = JArray (map JString ss) \<and> distinct ss \<and> set ss \<inter> allowed \<noteq> {})"
  by (cases v) (auto simp: audience_allowed_def audience_items_iff)

section \<open>The time window\<close>

lemma checked_add_iff:
  assumes "int64 l"
  shows "checked_add l r k = Inr x \<longleftrightarrow> int64 (l + r) \<and> x = l + r"
  using assms by (auto simp: checked_add_def int64_def)

lemma integer_claim_int64: "integer_claim claims name = Some i \<Longrightarrow> int64 i"
  by (auto simp: integer_claim_eq int64_def int64_min_def int64_max_def abs_le_iff)

text \<open>When the claims admit the credential at a time, and until when: without overflow.\<close>

definition credential_window :: "VerificationInput \<Rightarrow> Policy \<Rightarrow> Claims \<Rightarrow> int \<Rightarrow> bool" where
  "credential_window input policy claims until \<longleftrightarrow>
     (let now = vi_verification_time_unix input; skew = po_clock_skew_seconds policy;
          age = po_maximum_credential_age_seconds policy
      in \<exists>iat expiry. integer_claim claims ''iat'' = Some iat \<and> integer_claim claims ''exp'' = Some expiry \<and>
           iat \<le> now + skew \<and>
           (claims ''nbf'' = None \<or> (\<exists>nbf. integer_claim claims ''nbf'' = Some nbf \<and> nbf \<le> now + skew)) \<and>
           until = (if 0 < age then min expiry (iat + age) else expiry) \<and> now - skew < until \<and>
           int64 (now + skew) \<and> int64 (now - skew) \<and> (0 < age \<longrightarrow> int64 (iat + age)))"

text \<open>What binds the claims to the CredBind commitment, by profile.\<close>

definition claims_bound :: "VerificationInput \<Rightarrow> Policy \<Rightarrow> Claims \<Rightarrow> bool" where
  "claims_bound input policy claims \<longleftrightarrow>
     (if vi_binding_profile input = kAudienceBinding
      then \<exists>v. claims ''aud'' = Some v \<and> exact_audience v (vi_commitment input)
      else string_claim claims (if vi_binding_profile input = kOidcNonceBinding then ''nonce'' else kCommitmentClaim)
             = Some (vi_commitment input) \<and>
           (\<exists>v. claims ''aud'' = Some v \<and> audience_allowed v (po_audiences policy)))"

definition party_authorized :: "Policy \<Rightarrow> Claims \<Rightarrow> bool" where
  "party_authorized policy claims \<longleftrightarrow>
     po_authorized_parties policy = {} \<or> (\<exists>party\<in>po_authorized_parties policy. string_claim claims ''azp'' = Some party)"

lemma profiles_distinct:
  "kOidcNonceBinding \<noteq> kAudienceBinding" "kOidcNonceBinding \<noteq> kCredBindClaimBinding"
  "kAudienceBinding \<noteq> kCredBindClaimBinding" "kStandardEvidence \<noteq> kGqEvidence"
  by (simp_all add: kOidcNonceBinding_def kAudienceBinding_def kCredBindClaimBinding_def
      kStandardEvidence_def kGqEvidence_def)

lemma check_binding_iff: "check_binding input policy claims = Inr u \<longleftrightarrow> claims_bound input policy claims"
  using profiles_distinct
  by (auto simp: check_binding_def claims_bound_def audience_claim_allowed_def split: option.splits)

lemma check_authorized_party_iff: "check_authorized_party policy claims = Inr u \<longleftrightarrow> party_authorized policy claims"
  by (auto simp: check_authorized_party_def party_authorized_def split: option.splits)

definition claims_admitted :: "VerificationInput \<Rightarrow> Policy \<Rightarrow> Claims \<Rightarrow> bool" where
  "claims_admitted input policy claims \<longleftrightarrow>
     string_claim claims ''iss'' = Some (po_issuer policy) \<and> claims_bound input policy claims \<and>
     party_authorized policy claims \<and> list_all (predicate_matches claims) (po_required_claims policy)"

lemma validate_claims_eq:
  assumes now: "int64 (vi_verification_time_unix input)"
  shows "validate_claims input policy claims = Inr until \<longleftrightarrow>
     claims_admitted input policy claims \<and> credential_window input policy claims until"
proof -
  let ?now = "vi_verification_time_unix input" and ?skew = "po_clock_skew_seconds policy"
  let ?age = "po_maximum_credential_age_seconds policy"
  note add = checked_add_iff [OF now, of ?skew issuer_claims_invalid] checked_add_iff [OF now, of "- ?skew" issuer_claims_invalid]
  show ?thesis
  proof (cases "integer_claim claims ''iat''")
    case iat: (Some iat)
    note age = checked_add_iff [OF integer_claim_int64 [OF iat], of ?age issuer_claims_invalid]
    show ?thesis
    proof (cases "integer_claim claims ''exp''")
      case expiry: (Some expiry)
      have nbf: "claims ''nbf'' \<noteq> None" if "integer_claim claims ''nbf'' = Some t" for t
        using that by (auto simp: integer_claim_def split: option.splits)
      have window: "credential_window input policy claims until \<longleftrightarrow>
          iat \<le> ?now + ?skew \<and> (claims ''nbf'' = None \<or> (\<exists>nbf. integer_claim claims ''nbf'' = Some nbf \<and> nbf \<le> ?now + ?skew)) \<and>
          until = (if 0 < ?age then min expiry (iat + ?age) else expiry) \<and> ?now - ?skew < until \<and>
          int64 (?now + ?skew) \<and> int64 (?now - ?skew) \<and> (0 < ?age \<longrightarrow> int64 (iat + ?age))"
        by (simp add: credential_window_def Let_def iat expiry)
      have "validate_claims input policy claims = Inr until \<longleftrightarrow>
          claims_admitted input policy claims \<and> int64 (?now + ?skew) \<and> \<not> ?now + ?skew < iat \<and>
          (claims ''nbf'' = None \<or> integer_claim claims ''nbf'' \<noteq> None) \<and>
          \<not> (case integer_claim claims ''nbf'' of Some t \<Rightarrow> ?now + ?skew < t | None \<Rightarrow> False) \<and>
          int64 (?now - ?skew) \<and> \<not> ?now - ?skew \<ge> expiry \<and>
          (if ?age > 0 then int64 (iat + ?age) \<and> \<not> ?now - ?skew \<ge> min expiry (iat + ?age) \<and> until = min expiry (iat + ?age)
           else until = expiry)"
        by (auto simp: validate_claims_def claims_admitted_def iat expiry expected_iffs check_binding_iff
            check_authorized_party_iff issuer_checked_add_def add age Let_def)
      also have "\<dots> \<longleftrightarrow> claims_admitted input policy claims \<and> credential_window input policy claims until"
        unfolding window using nbf by (cases "integer_claim claims ''nbf''") (auto simp: not_less)
      finally show ?thesis .
    qed (auto simp: validate_claims_def credential_window_def expected_iffs iat)
  qed (auto simp: validate_claims_def credential_window_def expected_iffs)
qed

text \<open>
  C22. Claims are accepted at a time exactly when issuer, binding, audience, authorized party and
  every required predicate hold and the time is inside the credential's window; the value
  returned is the exact end of that window, the earlier of \<open>exp\<close> and \<open>iat\<close> plus the maximum
  age. Every sum is computed in range: an addition that would overflow 64 bits refuses.
\<close>

theorem validate_claims_iff:
  assumes "int64 (vi_verification_time_unix input)"
  shows "validate_claims input policy claims = Inr until \<longleftrightarrow>
     claims_admitted input policy claims \<and> credential_window input policy claims until"
  by (rule validate_claims_eq [OF assms])

section \<open>Reading the evidence\<close>

interpretation text_reader: field_reader read_text "\<lambda>s. gq_field (bytes s)" "\<lambda>s. gq_field_ok kMaximumJsonBytes (bytes s)"
proof
  show "read_text (between p (gq_field (bytes s) @ t)) = Inr (s, between (p @ gq_field (bytes s)) t)"
    if ok: "gq_field_ok kMaximumJsonBytes (bytes s)" for s p t
  proof -
    have "length s < 2 ^ 64" "s \<noteq> []" "length s \<le> kMaximumJsonBytes" using ok by (auto simp: gq_field_ok_def)
    then show ?thesis
      using advance_between [of "u64_bytes (of_nat (length s))" p "bytes s @ t"]
        advance_between [of "bytes s" "p @ u64_bytes (of_nat (length s))" t]
      by (simp add: read_text_def gq_field_def Let_def text_of_def [of "[]"])
  qed
  show "gq_field_ok kMaximumJsonBytes (bytes s) \<and> (\<exists>t. x = gq_field (bytes s) @ t)"
    if read: "read_text (between p x) = Inr (s, r')" for s p x r'
  proof -
    define w :: u64 where "w = be_value (take 8 x)"
    have x: "8 \<le> length x" using read by (auto simp: read_text_def split: if_splits)
    have adv: "advance 8 (between p x) = between (p @ take 8 x) (drop 8 x)" using x by (rule advance_between_take)
    from read x have len: "w \<noteq> 0" "unat w \<le> length (drop 8 x)" "unat w \<le> kMaximumJsonBytes"
      and s: "s = text_of (take (unat w) (drop 8 x))"
      by (auto simp: read_text_def adv w_def Let_def split: if_splits)
    have size: "length s = unat w" using len(2) s by simp
    have "x = take 8 x @ take (unat w) (drop 8 x) @ drop (unat w) (drop 8 x)"
      by (metis append_take_drop_id)
    moreover have "u64_bytes (of_nat (length s)) = take 8 x" using x size by (simp add: w_def)
    ultimately have "x = gq_field (bytes s) @ drop (unat w) (drop 8 x)" using s by (simp add: gq_field_def)
    moreover have "gq_field_ok kMaximumJsonBytes (bytes s)"
      using size len unsigned_less [where 'a = nat, of w]
      by (auto simp: gq_field_ok_def word_unat_eq_iff simp del: length_text_of)
    ultimately show ?thesis by blast
  qed
qed

definition standard_evidence :: "string \<Rightarrow> u8 list \<Rightarrow> u8 list" where
  "standard_evidence header signature =
     gq_field (bytes header) @ gq_field (bytes (encode_base64url signature))"

lemma header_ok_iff: "gq_field_ok kMaximumJsonBytes (bytes s) \<longleftrightarrow> s \<noteq> '''' \<and> length s \<le> kMaximumJsonBytes"
  by (auto simp: gq_field_ok_def kMaximumJsonBytes_def)

lemma encoded_signature_ok:
  "signature \<noteq> [] \<Longrightarrow> length signature \<le> 1024 \<Longrightarrow>
     gq_field_ok kMaximumJsonBytes (bytes (encode_base64url signature))"
  unfolding header_ok_iff by (simp add: length_encode_base64url kMaximumJsonBytes_def) presburger

lemma parse_standard_iff:
  "parse_standard bs = Inr standard \<longleftrightarrow>
     bs = standard_evidence (se_header standard) (se_signature standard) \<and>
     se_header standard \<noteq> '''' \<and> length (se_header standard) \<le> kMaximumJsonBytes \<and>
     se_signature standard \<noteq> [] \<and> length (se_signature standard) \<le> 1024"
proof
  assume "parse_standard bs = Inr standard"
  then obtain header r1 encoded r2 signature where
    reads: "read_text (between [] bs) = Inr (header, r1)" "read_text r1 = Inr (encoded, r2)" "at_end r2"
    and sig: "decode encoded 1024 = Inr signature" and st: "standard = \<lparr>se_header = header, se_signature = signature\<rparr>"
    by (auto simp: parse_standard_def start_cursor_between expected_iffs)
  note h = text_reader.read_consumed [OF reads(1) reached_between]
  note t = text_reader.read_consumed [OF reads(2) h(3)]
  have "consumed (between [] bs) (gq_field (bytes header) @ gq_field (bytes encoded)) r2"
    using h(2) t(2) by (rule consumed_append)
  then have "bs = gq_field (bytes header) @ gq_field (bytes encoded)" using reads(3) by (rule consumed_all)
  then show "bs = standard_evidence (se_header standard) (se_signature standard) \<and>
     se_header standard \<noteq> '''' \<and> length (se_header standard) \<le> kMaximumJsonBytes \<and>
     se_signature standard \<noteq> [] \<and> length (se_signature standard) \<le> 1024"
    using sig h(1) by (simp add: st standard_evidence_def decode_iff header_ok_iff)
next
  assume *: "bs = standard_evidence (se_header standard) (se_signature standard) \<and>
     se_header standard \<noteq> '''' \<and> length (se_header standard) \<le> kMaximumJsonBytes \<and>
     se_signature standard \<noteq> [] \<and> length (se_signature standard) \<le> 1024"
  then have ok: "gq_field_ok kMaximumJsonBytes (bytes (se_header standard))"
      "gq_field_ok kMaximumJsonBytes (bytes (encode_base64url (se_signature standard)))"
    by (simp_all add: header_ok_iff encoded_signature_ok [unfolded header_ok_iff])
  show "parse_standard bs = Inr standard"
    using * by (simp add: parse_standard_def start_cursor_between standard_evidence_def
        text_reader.read_enc [OF ok(1)] text_reader.read_last [OF ok(2)] decode_encode_base64url cong: ebind_weak_cong)
qed

lemma gq_header_iff:
  "gq_header bs = Inr header \<longleftrightarrow>
     header \<noteq> '''' \<and> length header \<le> kMaximumJsonBytes \<and> (\<exists>t. bs = gq_field (bytes header) @ t)"
proof -
  have "gq_header bs = Inr header \<longleftrightarrow> (\<exists>r. read_text (between [] bs) = Inr (header, r))"
    by (auto simp: gq_header_def start_cursor_between split: sum.splits)
  then show ?thesis by (simp add: text_reader.read_iff header_ok_iff)
qed

lemma gq_header_evidence:
  "gq_header (gq_evidence header qs) = Inr header' \<longleftrightarrow>
     header' = header \<and> header \<noteq> '''' \<and> length header \<le> kMaximumJsonBytes" if "length header < 2 ^ 64"
proof
  assume "gq_header (gq_evidence header qs) = Inr header'"
  then obtain t where ok: "header' \<noteq> ''''" "length header' \<le> kMaximumJsonBytes"
    and eq: "gq_evidence header qs = gq_field (bytes header') @ t"
    by (auto simp: gq_header_iff)
  have "length (bytes header') < 2 ^ 64" using ok by (simp add: kMaximumJsonBytes_def)
  then have "bytes header = bytes header'"
    using eq that by (simp add: gq_evidence_def gq_field_unique)
  then show "header' = header \<and> header \<noteq> '''' \<and> length header \<le> kMaximumJsonBytes" using ok by simp
qed (auto simp: gq_header_iff gq_evidence_def)

section \<open>What a successful verification has established\<close>

lemma verify_rs256_iff:
  "verify_rs256 ossl signing_input signature key = Inr u \<longleftrightarrow>
     (\<exists>public_key. make_rsa_key ossl key issuer_signature_invalid = Inr public_key \<and>
        length signature = length (rsa_modulus key) \<and>
        EVP_DigestVerify_rsa_pkcs1_sha256 ossl public_key signature (bytes signing_input))"
  by (auto simp: verify_rs256_def split: sum.splits)

text \<open>
  The evidence authenticates header and payload under the key: with an RS256 signature, or with
  a proof whose transcript also binds the commitment and the issuer.
\<close>

definition evidence_authentic ::
  "'k openssl \<Rightarrow> VerificationInput \<Rightarrow> Policy \<Rightarrow> string \<Rightarrow> RsaPublicKey \<Rightarrow> bool" where
  "evidence_authentic ossl input policy header key \<longleftrightarrow>
     (if vi_evidence_profile input = kStandardEvidence
      then \<exists>signature public_key. vi_evidence_representation input = standard_evidence header signature \<and>
        length signature \<le> 1024 \<and> make_rsa_key ossl key issuer_signature_invalid = Inr public_key \<and>
        length signature = length (rsa_modulus key) \<and>
        EVP_DigestVerify_rsa_pkcs1_sha256 ossl public_key signature
          (bytes (header @ ''.'' @ vi_issuer_encoded_payload input))
      else \<exists>qs em th. vi_evidence_representation input = gq_evidence header qs \<and>
        gq_accepts ossl (vi_issuer_encoded_payload input) (vi_commitment input) (po_issuer policy) key header qs em th)"

definition issuer_verified ::
  "json_lexer \<Rightarrow> 'k openssl \<Rightarrow> VerificationInput \<Rightarrow> Policy \<Rightarrow> StaticJwks \<Rightarrow> VerificationResult \<Rightarrow> bool" where
  "issuer_verified lexer ossl input policy keys r \<longleftrightarrow>
     length (vi_evidence_representation input) \<le> issuer_kMaximumEvidenceBytes \<and>
     validate_policy input policy = Inr () \<and>
     (\<exists>payload claims header key.
        vi_issuer_encoded_payload input = encode_base64url payload \<and> payload \<noteq> [] \<and> length payload \<le> kMaximumJsonBytes \<and>
        parse_object lexer (text_of payload) = Inr claims \<and>
        header \<noteq> '''' \<and> length header \<le> kMaximumJsonBytes \<and>
        parse_header lexer header = Inr \<lparr>hdr_algorithm = ''RS256'', hdr_kid = vr_issuer_key_id r\<rparr> \<and>
        ''RS256'' \<in> po_issuer_algorithms policy \<and>
        resolve_rs256 keys (vr_issuer_key_id r) = Inr key \<and>
        evidence_authentic ossl input policy header key \<and>
        claims_admitted input policy claims \<and>
        credential_window input policy claims (vr_credential_valid_until_unix r) \<and>
        vr_claims r = admitted (po_admitted_claims policy) claims) \<and>
     vr_issuer r = po_issuer policy \<and> vr_binding_profile r = vi_binding_profile input \<and>
     evidence_digest ossl input = Inr (vr_verified_evidence_digest r)"

lemma evidence_header_authentic:
  assumes bn: "openssl_bn ossl"
    and size: "length (vi_evidence_representation input) \<le> issuer_kMaximumEvidenceBytes"
  shows "(\<exists>standard_signature. evidence_header input = Inr (header, standard_signature) \<and>
      (if vi_evidence_profile input = kStandardEvidence
       then verify_rs256 ossl (header @ ''.'' @ vi_issuer_encoded_payload input) standard_signature key
       else verify_gq_rs256 ossl (vi_issuer_encoded_payload input) (vi_commitment input)
              (po_issuer policy) (vi_evidence_representation input) key) = Inr u) \<longleftrightarrow>
    header \<noteq> '''' \<and> length header \<le> kMaximumJsonBytes \<and> evidence_authentic ossl input policy header key"
proof (cases "vi_evidence_profile input = kStandardEvidence")
  case True
  have "(\<exists>standard_signature. evidence_header input = Inr (header, standard_signature) \<and>
      verify_rs256 ossl (header @ ''.'' @ vi_issuer_encoded_payload input) standard_signature key = Inr u) \<longleftrightarrow>
    (\<exists>signature. parse_standard (vi_evidence_representation input) = Inr \<lparr>se_header = header, se_signature = signature\<rparr> \<and>
      verify_rs256 ossl (header @ ''.'' @ vi_issuer_encoded_payload input) signature key = Inr u)"
  proof -
    have "evidence_header input = Inr (header, signature) \<longleftrightarrow>
        parse_standard (vi_evidence_representation input) = Inr \<lparr>se_header = header, se_signature = signature\<rparr>" for signature
      using True by (auto simp: evidence_header_def expected_iffs)
    then show ?thesis by simp
  qed
  also have "\<dots> \<longleftrightarrow> header \<noteq> '''' \<and> length header \<le> kMaximumJsonBytes \<and> evidence_authentic ossl input policy header key"
    using True
    by (auto simp: parse_standard_iff verify_rs256_iff evidence_authentic_def make_rsa_key_def split: if_splits)
  finally show ?thesis using True by simp
next
  case False
  have head: "evidence_header input = Inr (header, signature) \<longleftrightarrow>
      gq_header (vi_evidence_representation input) = Inr header \<and> signature = []" for signature
    using False by (auto simp: evidence_header_def expected_iffs)
  have "gq_header (vi_evidence_representation input) = Inr header \<and>
      (\<exists>header' qs em th. vi_evidence_representation input = gq_evidence header' qs \<and>
        gq_accepts ossl (vi_issuer_encoded_payload input) (vi_commitment input) (po_issuer policy) key header' qs em th) \<longleftrightarrow>
    header \<noteq> '''' \<and> length header \<le> kMaximumJsonBytes \<and> evidence_authentic ossl input policy header key"
    (is "?L \<longleftrightarrow> ?R")
  proof
    assume ?L
    then obtain header' qs em th where ev: "vi_evidence_representation input = gq_evidence header' qs"
      "gq_accepts ossl (vi_issuer_encoded_payload input) (vi_commitment input) (po_issuer policy) key header' qs em th"
      "gq_header (gq_evidence header' qs) = Inr header"
      by auto
    moreover from ev(2) have "length header' < 2 ^ 64" by (simp add: gq_accepts_def)
    ultimately have "header = header' \<and> header' \<noteq> '''' \<and> length header' \<le> kMaximumJsonBytes"
      by (simp add: gq_header_evidence)
    with ev False show ?R by (auto simp: evidence_authentic_def)
  next
    assume R: ?R
    then obtain qs em th where ev: "vi_evidence_representation input = gq_evidence header qs"
      "gq_accepts ossl (vi_issuer_encoded_payload input) (vi_commitment input) (po_issuer policy) key header qs em th"
      using False by (auto simp: evidence_authentic_def)
    moreover from ev(2) have "length header < 2 ^ 64" by (simp add: gq_accepts_def)
    ultimately show ?L using R by (auto simp: gq_header_evidence)
  qed
  moreover have "verify_gq_rs256 ossl (vi_issuer_encoded_payload input) (vi_commitment input)
              (po_issuer policy) (vi_evidence_representation input) key = Inr u \<longleftrightarrow>
      (\<exists>header' qs em th. vi_evidence_representation input = gq_evidence header' qs \<and>
        gq_accepts ossl (vi_issuer_encoded_payload input) (vi_commitment input) (po_issuer policy) key header' qs em th)"
    using size verify_gq_sound [OF bn] verify_gq_complete [OF bn]
    by (auto simp: issuer_kMaximumEvidenceBytes_def gq_kMaximumEvidenceBytes_def)
  ultimately show ?thesis using False by (auto simp: head)
qed

lemma parse_header_ok:
  "parse_header lexer header = Inr h \<Longrightarrow> header \<noteq> ''''"
  by (auto simp: parse_header_def expected_iffs decode_iff)

lemma issuer_verify_eq:
  assumes bn: "openssl_bn ossl" and now: "int64 (vi_verification_time_unix input)"
  shows "issuer_verify lexer ossl input policy keys = Inr r \<longleftrightarrow> issuer_verified lexer ossl input policy keys r"
proof (cases "length (vi_evidence_representation input) \<le> issuer_kMaximumEvidenceBytes \<and>
    validate_policy input policy = Inr ()")
  case True
  let ?crypto = "\<lambda>header signature key. (if vi_evidence_profile input = kStandardEvidence
       then verify_rs256 ossl (header @ ''.'' @ vi_issuer_encoded_payload input) signature key
       else verify_gq_rs256 ossl (vi_issuer_encoded_payload input) (vi_commitment input)
              (po_issuer policy) (vi_evidence_representation input) key)"
  have "issuer_verify lexer ossl input policy keys = Inr r \<longleftrightarrow>
      (\<exists>payload claims header signature kid key until digest.
        decode (vi_issuer_encoded_payload input) kMaximumJsonBytes = Inr payload \<and>
        parse_object lexer (text_of payload) = Inr claims \<and>
        evidence_header input = Inr (header, signature) \<and>
        parse_header lexer header = Inr \<lparr>hdr_algorithm = ''RS256'', hdr_kid = kid\<rparr> \<and>
        ''RS256'' \<in> po_issuer_algorithms policy \<and> resolve_rs256 keys kid = Inr key \<and>
        ?crypto header signature key = Inr () \<and> validate_claims input policy claims = Inr until \<and>
        evidence_digest ossl input = Inr digest \<and>
        r = \<lparr>vr_issuer = po_issuer policy, vr_issuer_key_id = kid,
             vr_binding_profile = vi_binding_profile input,
             vr_claims = admitted (po_admitted_claims policy) claims,
             vr_credential_valid_until_unix = until, vr_verified_evidence_digest = digest\<rparr>)"
    (is "?L \<longleftrightarrow> ?R")
  proof
    assume L: ?L
    then obtain payload claims header signature where
      1: "decode (vi_issuer_encoded_payload input) kMaximumJsonBytes = Inr payload"
        "parse_object lexer (text_of payload) = Inr claims" "evidence_header input = Inr (header, signature)"
      using True by (auto simp: issuer_verify_def expected_iffs)
    with L True obtain h where 2: "parse_header lexer header = Inr h"
      by (cases "parse_header lexer header") (auto simp: issuer_verify_def split: if_splits)
    obtain alg kid where h: "h = \<lparr>hdr_algorithm = alg, hdr_kid = kid\<rparr>" by (cases h)
    from L True 1 2 h show ?R
      by (auto simp: issuer_verify_def expected_iffs simp del: if_Inl_Inr_iff)
        (auto simp: expected_iffs)
  next
    assume ?R
    then show ?L using True by (auto simp: issuer_verify_def cong: ebind_weak_cong)
  qed
  also have "\<dots> \<longleftrightarrow> (\<exists>payload claims header kid key until digest.
        decode (vi_issuer_encoded_payload input) kMaximumJsonBytes = Inr payload \<and>
        parse_object lexer (text_of payload) = Inr claims \<and>
        (\<exists>signature. evidence_header input = Inr (header, signature) \<and> ?crypto header signature key = Inr ()) \<and>
        parse_header lexer header = Inr \<lparr>hdr_algorithm = ''RS256'', hdr_kid = kid\<rparr> \<and>
        ''RS256'' \<in> po_issuer_algorithms policy \<and> resolve_rs256 keys kid = Inr key \<and>
        validate_claims input policy claims = Inr until \<and>
        evidence_digest ossl input = Inr digest \<and>
        r = \<lparr>vr_issuer = po_issuer policy, vr_issuer_key_id = kid,
             vr_binding_profile = vi_binding_profile input,
             vr_claims = admitted (po_admitted_claims policy) claims,
             vr_credential_valid_until_unix = until, vr_verified_evidence_digest = digest\<rparr>)"
    by blast
  also have "\<dots> \<longleftrightarrow> issuer_verified lexer ossl input policy keys r"
    unfolding evidence_header_authentic [OF bn conjunct1 [OF True]] validate_claims_eq [OF now] decode_iff
      issuer_verified_def
    using True by (cases r) auto
  finally show ?thesis .
next
  case False
  then show ?thesis by (auto simp: issuer_verify_def issuer_verified_def expected_iffs)
qed

text \<open>
  C23. The issuer verifier succeeds exactly when its specification holds: size, policy, an exact
  Base64url payload that parses to the claims, a protected header that is the very header the
  evidence authenticates, naming RS256 and a key of the key set, authentic evidence under that
  key (an RS256 signature over header and payload, or the eight-round proof whose transcript
  binds them with the commitment and the issuer), admitted claims and an open time window. Only
  admitted claims leave the verifier.
\<close>

theorem issuer_verify_iff:
  assumes "openssl_bn ossl" "int64 (vi_verification_time_unix input)"
  shows "issuer_verify lexer ossl input policy keys = Inr r \<longleftrightarrow> issuer_verified lexer ossl input policy keys r"
  by (rule issuer_verify_eq [OF assms])

section \<open>Instances\<close>

definition demo_claims :: json where
  "demo_claims = JObject
     [(''iss'', JString ''https://i''), (''aud'', JArray [JString ''b'', JString ''a'']),
      (''nonce'', JString ''c''), (''iat'', JInteger 100), (''exp'', JFloat (Finite 200)), (''sub'', JString ''u'')]"

definition demo_header :: json where
  "demo_header = JObject [(''alg'', JString ''RS256''), (''kid'', JString ''k'')]"

definition demo_lexer :: json_lexer where
  "demo_lexer input = events_of (if input = ''h'' then demo_header else demo_claims)"

definition demo_issuer_policy :: Policy where
  "demo_issuer_policy =
     \<lparr>po_issuer = ''https://i'', po_audiences = {''a''}, po_authorized_parties = {},
      po_issuer_algorithms = {''RS256''}, po_evidence_profiles = {kStandardEvidence},
      po_binding_profiles = {kOidcNonceBinding}, po_require_non_reconstructible_evidence = False,
      po_maximum_credential_age_seconds = 60, po_clock_skew_seconds = 5,
      po_required_claims = [\<lparr>pr_claim = ''sub'', pr_operation = string_one_of, pr_value = '''', pr_values = [''v'', ''u'']\<rparr>],
      po_admitted_claims = {''sub''}\<rparr>"

definition demo_input :: VerificationInput where
  "demo_input =
     \<lparr>vi_evidence_profile = kStandardEvidence, vi_binding_profile = kOidcNonceBinding, vi_commitment = ''c'',
      vi_issuer_encoded_payload = encode_base64url (bytes ''p''),
      vi_evidence_representation = standard_evidence (encode_base64url (bytes ''h'')) (replicate 256 1),
      vi_verification_time_unix = 150\<rparr>"

lemma demo_claims_object:
  "object_claims demo_claims = [''iss'' \<mapsto> JString ''https://i'', ''aud'' \<mapsto> JArray [JString ''b'', JString ''a''],
     ''nonce'' \<mapsto> JString ''c'', ''iat'' \<mapsto> JInteger 100, ''exp'' \<mapsto> JFloat (Finite 200), ''sub'' \<mapsto> JString ''u'']"
  by (auto simp: object_claims_def demo_claims_def fun_eq_iff)

lemma demo_documents: "document_ok object_bounds demo_claims" "document_ok object_bounds demo_header"
  by (simp_all add: document_ok_def demo_claims_def demo_header_def kMaximumJsonDepth_def kMaximumJsonValues_def
      kMaximumJsonMembers_def kMaximumJsonKeyBytes_def scalar_ok_def isfinite_def)

lemma parse_object_iff_witness:
  "parse_object demo_lexer ''p'' = Inr (\<lambda>name. map_option json_value
     (map_of [(''iss'', JString ''https://i''), (''aud'', JArray [JString ''b'', JString ''a'']),
      (''nonce'', JString ''c''), (''iat'', JInteger 100), (''exp'', JFloat (Finite 200)), (''sub'', JString ''u'')] name))"
  using demo_documents(1)
  unfolding parse_object_iff [of demo_lexer "''p''" demo_claims, unfolded demo_lexer_def, simplified]
  by (simp add: parse_object_iff [of demo_lexer "''p''" demo_claims] demo_lexer_def kMaximumJsonBytes_def demo_claims_def)

lemma demo_window: "credential_window demo_input demo_issuer_policy (object_claims demo_claims) 160"
proof -
  have "integer_claim (object_claims demo_claims) ''iat'' = Some 100"
    "integer_claim (object_claims demo_claims) ''exp'' = Some 200"
    "object_claims demo_claims ''nbf'' = None"
    by (simp_all add: integer_claim_def demo_claims_object)
  then show ?thesis
    by (simp add: credential_window_def demo_input_def demo_issuer_policy_def int64_def int64_min_def int64_max_def)
qed

lemma demo_admitted: "claims_admitted demo_input demo_issuer_policy (object_claims demo_claims)"
proof -
  have "audience_allowed (JArray [JString ''b'', JString ''a'']) {''a''}"
    by (simp add: audience_allowed_def)
  moreover have "string_claim (object_claims demo_claims) ''iss'' = Some ''https://i''"
    "string_claim (object_claims demo_claims) ''nonce'' = Some ''c''"
    "object_claims demo_claims ''aud'' = Some (JArray [JString ''b'', JString ''a''])"
    "object_claims demo_claims ''sub'' = Some (JString ''u'')"
    by (simp_all add: string_claim_def demo_claims_object)
  ultimately show ?thesis
    using profiles_distinct
    by (simp add: claims_admitted_def claims_bound_def party_authorized_def demo_input_def demo_issuer_policy_def
        predicate_matches_def)
qed

lemma validate_claims_iff_witness:
  "validate_claims demo_input demo_issuer_policy (object_claims demo_claims) = Inr 160"
proof -
  have "int64 (vi_verification_time_unix demo_input)" by (simp add: demo_input_def int64_def int64_min_def int64_max_def)
  from validate_claims_iff [OF this] show ?thesis using demo_admitted demo_window by blast
qed

lemma demo_parse: "parse_object demo_lexer ''p'' = Inr (object_claims demo_claims)"
  "parse_object demo_lexer ''h'' = Inr (object_claims demo_header)"
  using demo_documents
  by (simp_all add: parse_object_eq [of demo_lexer "''p''" demo_claims] parse_object_eq [of demo_lexer "''h''" demo_header]
      demo_lexer_def kMaximumJsonBytes_def)

lemma demo_parse_header:
  "parse_header demo_lexer (encode_base64url (bytes ''h'')) = Inr \<lparr>hdr_algorithm = ''RS256'', hdr_kid = ''k''\<rparr>"
proof -
  have "decode (encode_base64url (bytes ''h'')) kMaximumJsonBytes = Inr (bytes ''h'')"
    by (rule decode_encode_base64url) (simp_all add: kMaximumJsonBytes_def)
  moreover have "object_claims demo_header = [''alg'' \<mapsto> JString ''RS256'', ''kid'' \<mapsto> JString ''k'']"
    by (auto simp: object_claims_def demo_header_def fun_eq_iff)
  ultimately show ?thesis
    by (simp add: parse_header_def demo_parse prohibited_parameters_def string_claim_def)
qed

lemma demo_policy_valid: "validate_policy demo_input demo_issuer_policy = Inr ()"
  by (simp add: validate_policy_def demo_input_def demo_issuer_policy_def valid_required_claim_def)

lemma demo_authentic:
  "evidence_authentic demo_openssl demo_input demo_issuer_policy (encode_base64url (bytes ''h'')) demo_key"
proof -
  have "EVP_DigestVerify_rsa_pkcs1_sha256 demo_openssl k s m" for k s m by (simp add: demo_openssl_def)
  then show ?thesis
    by (simp add: evidence_authentic_def demo_input_def demo_make_rsa_key)
      (rule exI [of _ "replicate 256 1"], simp add: demo_key_def)
qed

definition demo_result :: VerificationResult where
  "demo_result = \<lparr>vr_issuer = ''https://i'', vr_issuer_key_id = ''k'', vr_binding_profile = kOidcNonceBinding,
     vr_claims = admitted {''sub''} (object_claims demo_claims), vr_credential_valid_until_unix = 160,
     vr_verified_evidence_digest = projr (evidence_digest demo_openssl demo_input)\<rparr>"

lemma issuer_verify_iff_witness:
  "issuer_verify demo_lexer demo_openssl demo_input demo_issuer_policy [''k'' \<mapsto> demo_key] = Inr demo_result"
proof -
  have now: "int64 (vi_verification_time_unix demo_input)" by (simp add: demo_input_def int64_def int64_min_def int64_max_def)
  have "evidence_digest demo_openssl demo_input = Inr (projr (evidence_digest demo_openssl demo_input))"
    by (simp add: evidence_digest_def digest_sha256_def demo_openssl_def)
  moreover have "length (vi_evidence_representation demo_input) \<le> issuer_kMaximumEvidenceBytes"
    by (simp add: demo_input_def standard_evidence_def length_encode_base64url issuer_kMaximumEvidenceBytes_def)
  moreover have "vi_issuer_encoded_payload demo_input = encode_base64url (bytes ''p'')" by (simp add: demo_input_def)
  moreover have "length (encode_base64url (bytes ''h'')) \<le> kMaximumJsonBytes" "encode_base64url (bytes ''h'') \<noteq> ''''"
    by (simp_all add: length_encode_base64url kMaximumJsonBytes_def)
  moreover have "resolve_rs256 [''k'' \<mapsto> demo_key] ''k'' = Inr demo_key" by (simp add: resolve_rs256_def)
  moreover have "po_issuer demo_issuer_policy = ''https://i''" "''RS256'' \<in> po_issuer_algorithms demo_issuer_policy"
    "po_admitted_claims demo_issuer_policy = {''sub''}" "vi_binding_profile demo_input = kOidcNonceBinding"
    by (simp_all add: demo_issuer_policy_def demo_input_def)
  ultimately show ?thesis
    unfolding issuer_verify_iff [OF demo_openssl_bn now] issuer_verified_def
    using demo_policy_valid demo_parse(1) demo_parse_header demo_authentic demo_admitted demo_window
    by (intro conjI exI [of _ "bytes ''p''"] exI [of _ "object_claims demo_claims"]
        exI [of _ "encode_base64url (bytes ''h'')"] exI [of _ demo_key])
      (simp_all add: demo_result_def kMaximumJsonBytes_def)
qed

end
