(* ===== verification/Cb_Header.thy ===== *)
theory Cb_Header
  imports Cb_Dom
begin

text \<open>
  The JSON parser of the caller's protected header (the CIC): \<^verbatim>\<open>HeaderSax\<close> and
  \<^verbatim>\<open>parse_header_json\<close> of \<^verbatim>\<open>src/direct_verifier.cpp\<close>. The handler is
  the issuer's one (\<open>Cb_Dom\<close>) with smaller bounds, numbers taken as they come and a resource
  error for documents that are too deep.
\<close>

definition kMaximumHeaderBytes :: nat where "kMaximumHeaderBytes = 8192"
definition kMaximumHeaderDepth :: nat where "kMaximumHeaderDepth = 8"
definition kMaximumHeaderMembers :: nat where "kMaximumHeaderMembers = 32"
definition kMaximumHeaderValues :: nat where "kMaximumHeaderValues = 64"
definition kMaximumHeaderKeyBytes :: nat where "kMaximumHeaderKeyBytes = 256"

section \<open>The class HeaderSax\<close>

definition header_start_object :: "dom_state \<Rightarrow> dom_state \<times> bool" where
  "header_start_object s =
     (case dom_count_value kMaximumHeaderValues s of (s, proceed) \<Rightarrow>
        if \<not> proceed then (s, False)
        else if ds_stack s = [] then (push_context (new_context ctx_object True) s, True)
        else
          case dom_parent_ready s of (s, is_ready) \<Rightarrow>
            if \<not> is_ready \<or> length (ds_stack s) + 1 > kMaximumHeaderDepth
            then (if length (ds_stack s) + 1 \<le> kMaximumHeaderDepth then (s, False) else dom_fail s resource_limit)
            else (push_context (new_context ctx_object False) s, True))"

definition header_start_array :: "dom_state \<Rightarrow> dom_state \<times> bool" where
  "header_start_array s =
     (if ds_stack s = [] then (s, False)
      else
        case dom_count_value kMaximumHeaderValues s of (s, proceed) \<Rightarrow>
          if \<not> proceed then (s, False)
          else
            case dom_parent_ready s of (s, is_ready) \<Rightarrow>
              if \<not> is_ready then (s, False)
              else if length (ds_stack s) + 1 > kMaximumHeaderDepth then dom_fail s resource_limit
              else (push_context (new_context ctx_array False) s, True))"

definition header_step :: "dom_state \<Rightarrow> sax_event \<Rightarrow> dom_state \<times> bool" where
  "header_step s e =
     (case e of
        Ev_null \<Rightarrow> dom_scalar kMaximumHeaderValues s JNull
      | Ev_boolean b \<Rightarrow> dom_scalar kMaximumHeaderValues s (JBool b)
      | Ev_number_integer i \<Rightarrow> dom_scalar kMaximumHeaderValues s (JInteger i)
      | Ev_number_unsigned n \<Rightarrow> dom_scalar kMaximumHeaderValues s (JUnsigned n)
      | Ev_number_float d \<Rightarrow> dom_scalar kMaximumHeaderValues s (JFloat d)
      | Ev_string v \<Rightarrow> dom_scalar kMaximumHeaderValues s (JString v)
      | Ev_binary \<Rightarrow> dom_fail s malformed_input
      | Ev_start_object \<Rightarrow> header_start_object s
      | Ev_key name \<Rightarrow> dom_key kMaximumHeaderMembers kMaximumHeaderKeyBytes s name
      | Ev_end_object \<Rightarrow> dom_end_object s
      | Ev_start_array \<Rightarrow> header_start_array s
      | Ev_end_array \<Rightarrow> dom_end_array s
      | Ev_parse_error \<Rightarrow> dom_fail s malformed_input)"

definition parse_header_json :: "json_lexer \<Rightarrow> string \<Rightarrow> json expected" where
  "parse_header_json lexer input =
     (if length input > kMaximumHeaderBytes then Inl resource_limit
      else
        case sax_run header_step dom_init (lexer input) of (handler, parsed) \<Rightarrow>
          if \<not> parsed \<or> ds_failed handler \<or> \<not> dom_done handler then Inl (ds_error handler)
          else Inr (ds_root handler))"

section \<open>Which documents are parsed\<close>

definition header_bounds :: dom_bounds where
  "header_bounds =
     \<lparr>db_depth = kMaximumHeaderDepth, db_members = kMaximumHeaderMembers, db_values = kMaximumHeaderValues,
      db_key_bytes = kMaximumHeaderKeyBytes, db_finite = False\<rparr>"

lemma header_bounds_simps [simp]:
  "db_depth header_bounds = kMaximumHeaderDepth" "db_members header_bounds = kMaximumHeaderMembers"
  "db_values header_bounds = kMaximumHeaderValues" "db_key_bytes header_bounds = kMaximumHeaderKeyBytes"
  "\<not> db_finite header_bounds"
  by (simp_all add: header_bounds_def)

lemma count_cases:
  obtains s1 where "counted b s = Some s1" "dom_count_value (db_values b) s = (s1, True)"
    "ds_stack s1 = ds_stack s"
  | s1 where "counted b s = None" "dom_count_value (db_values b) s = (s1, False)"
proof (cases "counted b s")
  case None
  obtain s1 p where run: "dom_count_value (db_values b) s = (s1, p)" by fastforce
  then show ?thesis
    using dom_count_value_iff [of b s s1] None that(2) by (cases p) auto
next
  case (Some s1)
  then show ?thesis
    using dom_count_value_iff [of b s s1] that(1) by (auto simp: counted_def split: if_splits)
qed

lemma ready_cases:
  obtains "ds_stack s \<noteq> []" "ready (hd (ds_stack s))" "dom_parent_ready s = (s, True)"
  | s1 where "ds_stack s \<noteq> []" "\<not> ready (hd (ds_stack s))" "dom_parent_ready s = (s1, False)"
  | "ds_stack s = []"
  by (cases "ds_stack s = []"; cases "ready (hd (ds_stack s))")
    (auto simp: dom_parent_ready_def ready_def dom_fail_def Let_def split: if_splits
       intro: json_context_kind.exhaust [of "jc_kind (hd (ds_stack s))"])

lemma header_start_object_iff:
  "header_start_object s = (s', True) \<longleftrightarrow> Option.bind (counted header_bounds s) (opened header_bounds ctx_object) = Some s'"
proof (cases header_bounds s rule: count_cases)
  case (1 s1)
  then show ?thesis
    by (cases s1 rule: ready_cases)
      (auto simp: header_start_object_def opened_def neq_Nil_conv split: list.splits)
qed (simp add: header_start_object_def)

lemma header_start_array_iff:
  "header_start_array s = (s', True) \<longleftrightarrow> Option.bind (counted header_bounds s) (opened header_bounds ctx_array) = Some s'"
proof (cases header_bounds s rule: count_cases)
  case (1 s1)
  then show ?thesis
    by (cases s1 rule: ready_cases)
      (auto simp: header_start_array_def opened_def neq_Nil_conv split: list.splits)
qed (simp add: header_start_array_def)

lemma header_step_iff:
  assumes wf: "dom_wf s"
  shows "header_step s e = (s', True) \<longleftrightarrow> dom_next header_bounds s e = Some s'"
  using dom_key_iff [of header_bounds] dom_end_object_iff [OF wf] dom_end_array_iff [OF wf]
    dom_scalar_iff [of header_bounds]
  by (cases e)
    (simp_all add: header_step_def dom_next_def scalar_of_def scalar_ok_def
      header_start_object_iff header_start_array_iff)

interpretation header_sax: dom_handler header_step header_bounds
proof unfold_locales
  show "\<not> ds_failed s'" if "header_step s e = (s', True)" "\<not> ds_failed s" for s e s'
    using that
    by (cases e)
      (auto simp: header_step_def header_start_object_def header_start_array_def dom_scalar_def dom_attach_def
        dom_key_def dom_end_object_def dom_end_array_def dom_count_value_def dom_parent_ready_def dom_fail_def
        Let_def push_context_def split: prod.splits if_splits)
qed (simp_all add: header_step_iff kMaximumHeaderDepth_def kMaximumHeaderValues_def)

lemma parse_header_json_eq:
  assumes lex: "lexer input = events_of t"
  shows "parse_header_json lexer input = Inr j \<longleftrightarrow>
     length input \<le> kMaximumHeaderBytes \<and> document_ok header_bounds t \<and> j = json_value t"
proof -
  obtain h parsed where run: "sax_run header_step dom_init (events_of t) = (h, parsed)" by fastforce
  have accepts: "(parsed \<and> \<not> ds_failed h \<and> dom_done h \<and> ds_root h = v) \<longleftrightarrow> document_ok header_bounds t \<and> v = json_value t" for v
    using header_sax.accepts_iff [of t v] run by simp
  then show ?thesis
    using accepts [of "ds_root h"] accepts [of j] by (auto simp: parse_header_json_def lex run not_less)
qed

text \<open>
  The header parser, on a well-formed JSON text \<open>t\<close>, accepts exactly the objects of at most
  8192 bytes, 32 members, 64 values and 8 levels whose names are of at most 256 bytes and distinct
  in every nested object.
\<close>

theorem parse_header_json_iff:
  assumes "lexer input = events_of t"
  shows "parse_header_json lexer input = Inr j \<longleftrightarrow>
     length input \<le> 8192 \<and> (\<exists>members. t = JObject members) \<and> json_ok header_bounds t \<and>
     json_members t \<le> 32 \<and> json_values t \<le> 64 \<and> json_depth t \<le> 8 \<and> j = json_value t"
  unfolding parse_header_json_eq [of lexer input t, OF assms]
  by (auto simp: document_ok_def kMaximumHeaderBytes_def kMaximumHeaderMembers_def kMaximumHeaderValues_def
      kMaximumHeaderDepth_def)

theorem parse_header_json_iff_witness:
  "parse_header_json (\<lambda>_. events_of (JObject [(''b'', JNull), (''a'', JArray [])])) ''text'' =
     Inr (JObject [(''a'', JArray []), (''b'', JNull)])"
  using parse_header_json_iff [of "\<lambda>_. events_of (JObject [(''b'', JNull), (''a'', JArray [])])" "''text''"
      "JObject [(''b'', JNull), (''a'', JArray [])]"]
  by (simp add: kMaximumHeaderKeyBytes_def scalar_ok_def)

end
