(* ===== verification/Cb_Cic.thy ===== *)
theory Cb_Cic
  imports Cb_Header Cb_Issuer Cb_Openssh
begin

text \<open>
  The caller's side of \<^verbatim>\<open>src/direct_verifier.cpp\<close>: public keys and signature checks
  (\<^verbatim>\<open>p256_key\<close> to \<^verbatim>\<open>verify_signature\<close>), the protected header that binds the caller's key
  to the credential (\<^verbatim>\<open>parse_cic\<close>), its commitment, and the check of the certificate's
  signature. The constants \<^verbatim>\<open>kEcdsaKey\<close> and so on, which the source repeats, are those of
  \<open>Cb_Openssh\<close>.
\<close>

section \<open>Types\<close>

datatype CallerAlgorithm = es256 | ed25519

record CallerKey =
  ck_algorithm :: CallerAlgorithm
  ck_canonical_public_key :: "u8 list"

record CoreLimits =
  core_max_token_bytes :: nat
  core_max_evidence_bytes :: nat

record CorePolicy =
  cp_caller_algorithms :: "string set"
  cp_issuer_policy :: Policy
  cp_limits :: CoreLimits

record 'k Cic =
  cic_key :: CallerKey
  cic_verification_key :: 'k
  cic_binding_profile :: string
  cic_evidence_profile :: string

definition kVersionName :: string where "kVersionName = ''https://credbind.dev/core/v1#version''"
definition kRoleName :: string where "kRoleName = ''https://credbind.dev/core/v1#role''"
definition kBindingName :: string where "kBindingName = ''https://credbind.dev/core/v1#binding''"
definition kEvidenceName :: string where "kEvidenceName = ''https://credbind.dev/core/v1#evidence''"
definition kNonceName :: string where "kNonceName = ''https://credbind.dev/core/v1#nonce''"

section \<open>Keys and signatures\<close>

definition p256_key :: "'k openssl \<Rightarrow> u8 list \<Rightarrow> ParseErrorKind \<Rightarrow> 'k expected" where
  "p256_key ossl point kind =
     (if length point \<noteq> 65 \<or> hd point \<noteq> 0x04 then Inl kind
      else
        case EVP_PKEY_fromdata_p256 ossl point of
          None \<Rightarrow> Inl kind
        | Some key \<Rightarrow> if \<not> EVP_PKEY_public_check ossl key then Inl kind else Inr key)"

definition ed25519_key :: "'k openssl \<Rightarrow> u8 list \<Rightarrow> ParseErrorKind \<Rightarrow> 'k expected" where
  "ed25519_key ossl encoded kind =
     (if length encoded \<noteq> 32 then Inl kind
      else
        case EVP_PKEY_new_raw_ed25519 ossl encoded of
          None \<Rightarrow> Inl kind
        | Some key \<Rightarrow> if \<not> EVP_PKEY_public_check ossl key then Inl kind else Inr key)"

definition ecdsa_der :: "'k openssl \<Rightarrow> u8 list \<Rightarrow> u8 list \<Rightarrow> ParseErrorKind \<Rightarrow> u8 list expected" where
  "ecdsa_der ossl r s kind =
     (if r = [] \<or> s = [] \<or> length r > 33 \<or> length s > 33 then Inl kind
      else
        case (BN_bin2bn ossl r, BN_bin2bn ossl s) of
          (Some r_bn, Some s_bn) \<Rightarrow>
            if BN_is_zero ossl r_bn \<or> BN_is_zero ossl s_bn then Inl kind
            else (case i2d_ECDSA_SIG ossl r_bn s_bn of
                    None \<Rightarrow> Inl kind
                  | Some result \<Rightarrow> if result = [] then Inl kind else Inr result)
        | _ \<Rightarrow> Inl kind)"

definition verify_signature ::
  "'k openssl \<Rightarrow> 'k \<Rightarrow> CallerAlgorithm \<Rightarrow> u8 list \<Rightarrow> u8 list \<Rightarrow> ParseErrorKind \<Rightarrow> unit expected" where
  "verify_signature ossl key algorithm input signature kind =
     (if algorithm = ed25519 then
        if length signature \<noteq> 64 \<or> \<not> EVP_DigestVerify_ed25519 ossl key signature input then Inl kind else Inr ()
      else if \<not> EVP_DigestVerify_sha256 ossl key signature input then Inl kind
      else Inr ())"

section \<open>The protected header\<close>

definition exact_names :: "string list" where
  "exact_names =
     [''alg'', ''jwk'', ''typ'', ''crit'', kVersionName, kRoleName, kBindingName, kEvidenceName, kNonceName]"

definition has_exact_members :: "json \<Rightarrow> string list \<Rightarrow> bool" where
  "has_exact_members object names \<longleftrightarrow>
     (case object of
        JObject members \<Rightarrow> length members = length names \<and> list_all (\<lambda>name. json_find object name \<noteq> None) names
      | _ \<Rightarrow> False)"

definition required_critical :: "string set" where
  "required_critical = {kVersionName, kRoleName, kBindingName, kEvidenceName, kNonceName}"

fun actual_critical :: "json list \<Rightarrow> string set \<Rightarrow> string set option" where
  "actual_critical [] seen = Some seen"
| "actual_critical (v # items) seen =
     (if \<not> is_string v \<or> get_string v \<in> seen then None
      else actual_critical items (insert (get_string v) seen))"

definition check_critical :: "json \<Rightarrow> unit expected" where
  "check_critical object =
     (case json_find object ''crit'' of
        Some (JArray items) \<Rightarrow>
          if length items \<noteq> 5 then Inl malformed_input
          else (case actual_critical items {} of
                  None \<Rightarrow> Inl malformed_input
                | Some actual \<Rightarrow> if actual \<noteq> required_critical then Inl malformed_input else Inr ())
      | _ \<Rightarrow> Inl malformed_input)"

definition check_profiles :: "Policy \<Rightarrow> string \<Rightarrow> string \<Rightarrow> unit expected" where
  "check_profiles policy binding evidence =
     (if (binding \<noteq> kOidcNonceBinding \<and> binding \<noteq> kAudienceBinding \<and> binding \<noteq> kCredBindClaimBinding) \<or>
         (evidence \<noteq> kStandardEvidence \<and> evidence \<noteq> kGqEvidence)
      then Inl unsupported_profile
      else if binding \<notin> po_binding_profiles policy \<or> evidence \<notin> po_evidence_profiles policy \<or>
         (po_require_non_reconstructible_evidence policy \<and> evidence = kStandardEvidence)
      then Inl unsupported_profile
      else Inr ())"

definition es256_jwk :: "'k openssl \<Rightarrow> json \<Rightarrow> (CallerKey \<times> 'k) expected" where
  "es256_jwk ossl jwk =
     (case (json_string jwk ''x'', json_string jwk ''y'') of
        (Some encoded_x, Some encoded_y) \<Rightarrow>
          if \<not> has_exact_members jwk [''kty'', ''crv'', ''x'', ''y''] \<or>
             json_string jwk ''kty'' \<noteq> Some ''EC'' \<or> json_string jwk ''crv'' \<noteq> Some ''P-256''
          then Inl caller_key_invalid
          else
            (case (decode encoded_x 32, decode encoded_y 32) of
               (Inr x, Inr y) \<Rightarrow>
                 if length x \<noteq> 32 \<or> length y \<noteq> 32 then Inl caller_key_invalid
                 else
                   let point = 0x04 # x @ y in
                   ebind (p256_key ossl point caller_key_invalid) (\<lambda>key.
                     Inr (\<lparr>ck_algorithm = es256, ck_canonical_public_key = point\<rparr>, key))
             | _ \<Rightarrow> Inl caller_key_invalid)
      | _ \<Rightarrow> Inl caller_key_invalid)"

definition ed25519_jwk :: "'k openssl \<Rightarrow> json \<Rightarrow> (CallerKey \<times> 'k) expected" where
  "ed25519_jwk ossl jwk =
     (case json_string jwk ''x'' of
        Some encoded_x \<Rightarrow>
          if \<not> has_exact_members jwk [''kty'', ''crv'', ''x''] \<or>
             json_string jwk ''kty'' \<noteq> Some ''OKP'' \<or> json_string jwk ''crv'' \<noteq> Some ''Ed25519''
          then Inl caller_key_invalid
          else
            (case decode encoded_x 32 of
               Inr encoded \<Rightarrow>
                 if length encoded \<noteq> 32 then Inl caller_key_invalid
                 else ebind (ed25519_key ossl encoded caller_key_invalid) (\<lambda>key.
                   Inr (\<lparr>ck_algorithm = ed25519, ck_canonical_public_key = encoded\<rparr>, key))
             | Inl _ \<Rightarrow> Inl caller_key_invalid)
      | None \<Rightarrow> Inl caller_key_invalid)"

definition caller_key :: "'k openssl \<Rightarrow> json \<Rightarrow> string \<Rightarrow> (CallerKey \<times> 'k) expected" where
  "caller_key ossl object algorithm =
     (case json_find object ''jwk'' of
        Some (JObject members) \<Rightarrow>
          if algorithm = ''ES256'' then es256_jwk ossl (JObject members)
          else if algorithm = ''Ed25519'' then ed25519_jwk ossl (JObject members)
          else Inl unsupported_algorithm
      | _ \<Rightarrow> Inl caller_key_invalid)"

definition parse_cic :: "json_lexer \<Rightarrow> 'k openssl \<Rightarrow> string \<Rightarrow> CorePolicy \<Rightarrow> 'k Cic expected" where
  "parse_cic lexer ossl json policy =
     ebind (parse_header_json lexer json) (\<lambda>object.
       if \<not> has_exact_members object exact_names then Inl malformed_input else
       case json_string object kVersionName of None \<Rightarrow> Inl malformed_input | Some version \<Rightarrow>
       if version \<noteq> ''1'' then Inl unsupported_version else
       case (json_string object kRoleName, json_string object ''typ'', json_string object kBindingName,
             json_string object kEvidenceName, json_string object kNonceName, json_string object ''alg'') of
         (Some role, Some typ, Some binding, Some evidence, Some nonce, Some algorithm) \<Rightarrow>
           if role \<noteq> ''caller'' then Inl unsupported_version else
           if typ \<noteq> ''credbind+json'' then Inl malformed_input else
           ebind (decode nonce 16) (\<lambda>nonce_bytes.
           if length nonce_bytes \<noteq> 16 then Inl malformed_input else
           ebind (check_critical object) (\<lambda>_.
           ebind (check_profiles (cp_issuer_policy policy) binding evidence) (\<lambda>_.
           if algorithm \<notin> cp_caller_algorithms policy then Inl unsupported_algorithm else
           ebind (caller_key ossl object algorithm) (\<lambda>(key, verification_key).
             Inr \<lparr>cic_key = key, cic_verification_key = verification_key,
                  cic_binding_profile = binding, cic_evidence_profile = evidence\<rparr>))))
       | _ \<Rightarrow> Inl malformed_input)"

definition commitment :: "'k openssl \<Rightarrow> string \<Rightarrow> string expected" where
  "commitment ossl cic =
     (let input = append_value (bytes ''CredBind-CIC-v1'' @ [0]) (bytes cic) in
      ebind (digest_sha256 ossl input) (\<lambda>digest. Inr (encode_base64url digest)))"

section \<open>The signature of the certificate\<close>

definition read_u32 :: "ParseErrorKind \<Rightarrow> char cursor \<Rightarrow> (u32 \<times> char cursor) expected" where
  "read_u32 kind r =
     (if left r < 4 then Inl kind else Inr (be_value (bytes (window r 4)), advance 4 r))"

definition read_ssh_string :: "nat \<Rightarrow> ParseErrorKind \<Rightarrow> char cursor \<Rightarrow> (string \<times> char cursor) expected" where
  "read_ssh_string maximum kind r =
     ebind (read_u32 kind r) (\<lambda>(len, r).
       if unat len > left r \<or> unat len > maximum then Inl kind
       else Inr (window r (unat len), advance (unat len) r))"

definition verify_certificate_signature ::
  "'k openssl \<Rightarrow> Certificate \<Rightarrow> CallerAlgorithm \<Rightarrow> unit expected" where
  "verify_certificate_signature ossl certificate algorithm =
     (let kind = ssh_certificate_invalid in
      ebind (read_ssh_string 256 kind (start_cursor (text_of (cert_signature_key certificate)))) (\<lambda>(key_type, blob).
        if algorithm = es256 then
          case (case read_ssh_string 256 kind blob of Inl e \<Rightarrow> Inl e | Inr (curve, blob) \<Rightarrow>
                case read_ssh_string 65 kind blob of Inl e \<Rightarrow> Inl e | Inr (point, blob) \<Rightarrow> Inr (curve, point, blob)) of
            Inl _ \<Rightarrow> Inl kind
          | Inr (curve, point, blob) \<Rightarrow>
              if key_type \<noteq> kEcdsaKey \<or> curve \<noteq> ''nistp256'' \<or> \<not> at_end blob then Inl kind
              else
                ebind (p256_key ossl (bytes point) kind) (\<lambda>key.
                case (case read_ssh_string 33 kind (start_cursor (text_of (cert_signature certificate))) of
                        Inl e \<Rightarrow> Inl e | Inr (r, encoded) \<Rightarrow>
                      case read_ssh_string 33 kind encoded of Inl e \<Rightarrow> Inl e | Inr (s, encoded) \<Rightarrow> Inr (r, s, encoded)) of
                  Inl _ \<Rightarrow> Inl kind
                | Inr (r, s, encoded) \<Rightarrow>
                    if \<not> at_end encoded then Inl kind
                    else
                      ebind (ecdsa_der ossl (bytes r) (bytes s) kind) (\<lambda>der.
                        verify_signature ossl key algorithm (cert_signed_bytes certificate) der kind))
        else
          case read_ssh_string 32 kind blob of
            Inl _ \<Rightarrow> Inl kind
          | Inr (encoded_key, blob) \<Rightarrow>
              if key_type \<noteq> kEd25519Key \<or> length encoded_key \<noteq> 32 \<or> \<not> at_end blob then Inl kind
              else
                ebind (ed25519_key ossl (bytes encoded_key) kind) (\<lambda>key.
                  verify_signature ossl key algorithm (cert_signed_bytes certificate)
                    (cert_signature certificate) kind)))"

section \<open>What the signature of a parsed certificate says\<close>

lemma read_ssh_string_iff: "read_ssh_string maximum kind r = Inr y \<longleftrightarrow> openssh_string maximum r = Inr y"
  by (cases y) (auto simp: read_ssh_string_def read_u32_def openssh_string_def openssh_u32_def Let_def)

interpretation ssh_reader: field_reader "read_ssh_string maximum kind" ssh_string "ssh_string_ok maximum" for maximum kind
  by unfold_locales
    (auto simp: read_ssh_string_iff openssh_string_reader.read_enc dest: openssh_string_reader.read_sound)

text \<open>A public key that OpenSSL loads from its encoding and finds valid.\<close>

definition public_key :: "'k openssl \<Rightarrow> CallerAlgorithm \<Rightarrow> u8 list \<Rightarrow> 'k \<Rightarrow> bool" where
  "public_key ossl algorithm encoded key \<longleftrightarrow>
     (case algorithm of
        es256 \<Rightarrow> length encoded = 65 \<and> hd encoded = 0x04 \<and> EVP_PKEY_fromdata_p256 ossl encoded = Some key
      | ed25519 \<Rightarrow> length encoded = 32 \<and> EVP_PKEY_new_raw_ed25519 ossl encoded = Some key) \<and>
     EVP_PKEY_public_check ossl key"

lemma p256_key_iff: "p256_key ossl point kind = Inr key \<longleftrightarrow> public_key ossl es256 point key"
  by (auto simp: p256_key_def public_key_def split: option.splits)

lemma ed25519_key_iff: "ed25519_key ossl encoded kind = Inr key \<longleftrightarrow> public_key ossl ed25519 encoded key"
  by (auto simp: ed25519_key_def public_key_def split: option.splits)

text \<open>A signature: the DER form of two positive scalars, or the raw form of Ed25519.\<close>

definition ecdsa_valid :: "'k openssl \<Rightarrow> 'k \<Rightarrow> nat \<Rightarrow> nat \<Rightarrow> u8 list \<Rightarrow> bool" where
  "ecdsa_valid ossl key r s message \<longleftrightarrow>
     0 < r \<and> 0 < s \<and>
     (\<exists>der. i2d_ECDSA_SIG ossl r s = Some der \<and> der \<noteq> [] \<and> EVP_DigestVerify_sha256 ossl key der message)"

definition ed25519_valid :: "'k openssl \<Rightarrow> 'k \<Rightarrow> u8 list \<Rightarrow> u8 list \<Rightarrow> bool" where
  "ed25519_valid ossl key signature message \<longleftrightarrow>
     length signature = 64 \<and> EVP_DigestVerify_ed25519 ossl key signature message"

lemma ecdsa_signature_iff:
  assumes "openssl_bn ossl" "r \<noteq> []" "s \<noteq> []" "length r \<le> 33" "length s \<le> 33"
  shows "ebind (ecdsa_der ossl r s kind) (\<lambda>der. verify_signature ossl key es256 message der kind) = Inr u \<longleftrightarrow>
     ecdsa_valid ossl key (octets_nat r) (octets_nat s) message"
  using assms
  by (auto simp: ecdsa_der_def verify_signature_def ecdsa_valid_def openssl_bn_def expected_iffs split: option.splits)

lemma ed25519_signature_iff:
  "verify_signature ossl key ed25519 message signature kind = Inr u \<longleftrightarrow> ed25519_valid ossl key signature message"
  by (simp add: verify_signature_def ed25519_valid_def)

definition carrier_algorithm :: "openssh_CallerAlgorithm \<Rightarrow> CallerAlgorithm" where
  "carrier_algorithm a = (case a of openssh_es256 \<Rightarrow> es256 | openssh_ed25519 \<Rightarrow> ed25519)"

definition certificate_signed :: "'k openssl \<Rightarrow> Certificate \<Rightarrow> bool" where
  "certificate_signed ossl c \<longleftrightarrow>
     (\<exists>ca key. text_of (cert_signature_key c) =
          ssh_string (key_name (cert_caller_algorithm c)) @ key_fields (cert_caller_algorithm c) ca \<and>
        public_key ossl (carrier_algorithm (cert_caller_algorithm c)) (bytes ca) key \<and>
        (case cert_caller_algorithm c of
           openssh_es256 \<Rightarrow>
             (\<exists>r s. text_of (cert_signature c) = ssh_string (ssh_mpint r) @ ssh_string (ssh_mpint s) \<and>
                length (ssh_mpint r) \<le> 33 \<and> length (ssh_mpint s) \<le> 33 \<and>
                ecdsa_valid ossl key r s (cert_signed_bytes c))
         | openssh_ed25519 \<Rightarrow> ed25519_valid ossl key (cert_signature c) (cert_signed_bytes c)))"

lemma octets_nat_mpint: "octets_nat (bytes (ssh_mpint n)) = n"
  by (simp add: ssh_mpint_def Let_def octets_nat_Cons)

lemma ssh_mpint_nonempty: "0 < n \<Longrightarrow> ssh_mpint n \<noteq> []"
  using octets_nat_mpint [of n] by (auto simp: bytes_def)

lemma ssh_mpint_inject: "ssh_mpint m = ssh_mpint n \<longleftrightarrow> m = n"
  by (metis octets_nat_mpint)

lemma verify_certificate_signature_iff:
  assumes bn: "openssl_bn ossl" and wf: "certificate_wf limits nonce c"
  shows "verify_certificate_signature ossl c (carrier_algorithm (cert_caller_algorithm c)) = Inr () \<longleftrightarrow>
     certificate_signed ossl c"
proof -
  let ?a = "cert_caller_algorithm c" and ?kind = ssh_certificate_invalid
  obtain ca where ca: "key_ok limits ?a ca"
      "text_of (cert_signature_key c) = ssh_string (key_name ?a) @ key_fields ?a ca"
    using wf by (auto simp: certificate_wf_def)
  have "ssh_string_ok 256 (key_name ?a)" by (cases ?a) (simp_all add: ssh_string_ok_def)
  note name = ssh_reader.read_enc [OF this, of ?kind "[]", simplified]
  show ?thesis
  proof (cases ?a)
    case openssh_es256
    then have point: "length ca = 65" "hd (bytes ca) = 0x04"
      using ca(1) by (cases ca; simp add: key_ok_def valid_ecdsa_point_def bytes_def)+
    obtain r s where rs: "0 < r" "0 < s" "text_of (cert_signature c) = ssh_string (ssh_mpint r) @ ssh_string (ssh_mpint s)"
        "length (ssh_mpint r) \<le> 33" "length (ssh_mpint s) \<le> 33"
      using wf openssh_es256 by (auto simp: certificate_wf_def signature_ok_def)
    have ok: "ssh_string_ok 256 kCurve" "ssh_string_ok 65 ca" "ssh_string_ok 33 (ssh_mpint r)" "ssh_string_ok 33 (ssh_mpint s)"
      using point rs by (simp_all add: ssh_string_ok_def)
    note sig = ecdsa_signature_iff [OF bn, of "bytes (ssh_mpint r)" "bytes (ssh_mpint s)" ?kind]
    have "verify_certificate_signature ossl c es256 = Inr () \<longleftrightarrow>
        (\<exists>key. public_key ossl es256 (bytes ca) key \<and> ecdsa_valid ossl key r s (cert_signed_bytes c))"
      using ca(2) rs ok point openssh_es256 name
      by (simp add: verify_certificate_signature_def key_fields_def start_cursor_between
          ssh_reader.read_enc ssh_reader.read_last kCurve_def [symmetric] ebind_Inr_iff [of "p256_key _ _ _"]
          p256_key_iff sig octets_nat_mpint ssh_mpint_nonempty)
    moreover have "r' = r \<and> s' = s"
      if "ssh_string (ssh_mpint r) @ ssh_string (ssh_mpint s) = ssh_string (ssh_mpint r') @ ssh_string (ssh_mpint s')"
        "length (ssh_mpint r') \<le> 33" for r' s'
      using openssh_string_reader.unique_decoding [OF ok(3) _ that(1)] that(2)
      by (simp add: ssh_string_ok_def ssh_mpint_inject)
    ultimately show ?thesis
      using openssh_es256 ca(2) rs
      by (auto simp: certificate_signed_def carrier_algorithm_def key_fields_def)
  next
    case openssh_ed25519
    then have key: "length ca = 32" using ca(1) by (simp add: key_ok_def)
    then have ok: "ssh_string_ok 32 ca" by (simp add: ssh_string_ok_def)
    have "verify_certificate_signature ossl c ed25519 = Inr () \<longleftrightarrow>
        (\<exists>key. public_key ossl ed25519 (bytes ca) key \<and> ed25519_valid ossl key (cert_signature c) (cert_signed_bytes c))"
      using ca(2) ok key openssh_ed25519 name
      by (simp add: verify_certificate_signature_def key_fields_def start_cursor_between
          ssh_reader.read_enc ssh_reader.read_last ebind_Inr_iff [of "ed25519_key _ _ _"]
          ed25519_key_iff ed25519_signature_iff)
    then show ?thesis
      using openssh_ed25519 ca(2) by (auto simp: certificate_signed_def carrier_algorithm_def key_fields_def)
  qed
qed

section \<open>Which protected headers are accepted\<close>

text \<open>An object with exactly these member names.\<close>

definition members_are :: "json \<Rightarrow> string list \<Rightarrow> bool" where
  "members_are j names \<longleftrightarrow> (\<exists>members. j = JObject members \<and> fst ` set members = set names)"

text \<open>The values a handler builds have distinct member names, at every level.\<close>

fun distinct_members :: "json \<Rightarrow> bool" where
  "distinct_members (JArray items) \<longleftrightarrow> list_all distinct_members items"
| "distinct_members (JObject members) \<longleftrightarrow> distinct (map fst members) \<and> list_all (\<lambda>(name, v). distinct_members v) members"
| "distinct_members j \<longleftrightarrow> True"

lemma set_member_assign: "set (member_assign name v members) \<subseteq> insert (name, v) (set members)"
  by (induction name v members rule: member_assign.induct) auto

lemma assigned_distinct:
  assumes "sorted_wrt (<) (map fst ms0)" "\<forall>(name, v)\<in>set ms0 \<union> set ms. distinct_members v"
  shows "distinct_members (JObject (foldl (\<lambda>ms (name, v). member_assign name v ms) ms0 ms))"
  using assms
proof (induction ms arbitrary: ms0)
  case Nil
  then show ?case by (auto simp: list_all_iff strict_sorted_iff)
next
  case (Cons nv ms)
  obtain name v where nv: "nv = (name, v)" by fastforce
  have "\<forall>(name, v)\<in>set (member_assign name v ms0) \<union> set ms. distinct_members v"
    using Cons.prems(2) set_member_assign [of name v ms0] nv by fastforce
  from Cons.IH [OF sorted_member_assign [OF Cons.prems(1)] this] show ?case by (simp add: nv)
qed

lemma json_value_distinct [simp]: "distinct_members (json_value t)"
proof (induction t rule: json_value.induct)
  case (2 members)
  then have "\<forall>(name, v)\<in>set [] \<union> set (map (\<lambda>(name, v). (name, json_value v)) members). distinct_members v"
    by auto
  from assigned_distinct [OF _ this] show ?case by simp
qed (simp_all add: list_all_iff)

lemma json_find_distinct: "distinct_members j \<Longrightarrow> json_find j name = Some v \<Longrightarrow> distinct_members v"
  by (cases j) (auto simp: json_find_def list_all_iff dest: map_of_SomeD)

lemma has_exact_members_iff:
  assumes j: "distinct_members j" and names: "distinct names"
  shows "has_exact_members j names \<longleftrightarrow> members_are j names"
proof (cases j)
  case (JObject members)
  then have d: "card (fst ` set members) = length members" using j distinct_card [of "map fst members"] by simp
  have n: "card (set names) = length names" using names by (rule distinct_card)
  have "list_all (\<lambda>name. json_find j name \<noteq> None) names \<longleftrightarrow> set names \<subseteq> fst ` set members"
    by (auto simp: list_all_iff json_find_def JObject map_of_eq_None_iff)
  then have "has_exact_members j names \<longleftrightarrow> length members = length names \<and> set names \<subseteq> fst ` set members"
    by (simp add: has_exact_members_def JObject)
  also have "\<dots> \<longleftrightarrow> fst ` set members = set names"
    using card_subset_eq [of "fst ` set members" "set names"] d n by (metis List.finite_set finite_imageI order_refl)
  finally show ?thesis by (simp add: members_are_def JObject)
qed (simp_all add: has_exact_members_def members_are_def)

lemma actual_critical_iff:
  "actual_critical items seen = Some s \<longleftrightarrow>
     (\<exists>names. items = map JString names \<and> distinct names \<and> set names \<inter> seen = {} \<and> s = seen \<union> set names)"
proof (induction items seen rule: actual_critical.induct)
  case (2 v items seen)
  show ?case
  proof (cases v)
    case (JString x)
    show ?thesis
    proof (cases "x \<in> seen")
      case True
      then show ?thesis using JString by (auto simp: is_string_def get_string_def Cons_eq_map_conv)
    next
      case False
      then have "actual_critical (v # items) seen = actual_critical items (insert x seen)"
        using JString by (simp add: is_string_def get_string_def)
      then show ?thesis
        using 2 JString False by (fastforce simp: is_string_def get_string_def Cons_eq_map_conv)
    qed
  qed (auto simp: is_string_def)
qed auto

lemma name_facts:
  "distinct exact_names" "card required_critical = 5"
  "distinct [''kty'', ''crv'', ''x'', ''y'']" "distinct [''kty'', ''crv'', ''x'']"
  by (simp_all add: exact_names_def required_critical_def kVersionName_def kRoleName_def kBindingName_def
      kEvidenceName_def kNonceName_def)

lemma check_critical_iff:
  "check_critical j = Inr u \<longleftrightarrow>
     (\<exists>names. json_find j ''crit'' = Some (JArray (map JString names)) \<and> distinct names \<and> set names = required_critical)"
proof -
  have length5: "length names = 5" if "distinct names" "set names = required_critical" for names
    using distinct_card [OF that(1)] that(2) name_facts(2) by simp
  show ?thesis
  proof
    assume *: "check_critical j = Inr u"
    then obtain items where "json_find j ''crit'' = Some (JArray items)" "actual_critical items {} = Some required_critical"
      by (auto simp: check_critical_def split: option.splits json.splits if_splits)
    then show "\<exists>names. json_find j ''crit'' = Some (JArray (map JString names)) \<and> distinct names \<and> set names = required_critical"
      by (auto simp: actual_critical_iff)
  next
    assume "\<exists>names. json_find j ''crit'' = Some (JArray (map JString names)) \<and> distinct names \<and> set names = required_critical"
    then obtain names where n: "json_find j ''crit'' = Some (JArray (map JString names))" "distinct names"
        "set names = required_critical" by blast
    moreover from n have "actual_critical (map JString names) {} = Some required_critical"
      by (subst actual_critical_iff) auto
    ultimately show "check_critical j = Inr u" using length5 by (simp add: check_critical_def)
  qed
qed

text \<open>The caller key of a JWK: exactly the members of its type, fixed-length canonical coordinates.\<close>

definition jwk_key :: "'k openssl \<Rightarrow> json \<Rightarrow> string \<Rightarrow> CallerKey \<Rightarrow> 'k \<Rightarrow> bool" where
  "jwk_key ossl jwk algorithm key verification_key \<longleftrightarrow>
     public_key ossl (ck_algorithm key) (ck_canonical_public_key key) verification_key \<and>
     ((algorithm = ''ES256'' \<and> ck_algorithm key = es256 \<and> members_are jwk [''kty'', ''crv'', ''x'', ''y''] \<and>
       json_string jwk ''kty'' = Some ''EC'' \<and> json_string jwk ''crv'' = Some ''P-256'' \<and>
       (\<exists>x y. length x = 32 \<and> length y = 32 \<and> ck_canonical_public_key key = 0x04 # x @ y \<and>
          json_string jwk ''x'' = Some (encode_base64url x) \<and> json_string jwk ''y'' = Some (encode_base64url y))) \<or>
      (algorithm = ''Ed25519'' \<and> ck_algorithm key = ed25519 \<and> members_are jwk [''kty'', ''crv'', ''x''] \<and>
       json_string jwk ''kty'' = Some ''OKP'' \<and> json_string jwk ''crv'' = Some ''Ed25519'' \<and>
       json_string jwk ''x'' = Some (encode_base64url (ck_canonical_public_key key))))"

lemma decode_32_iff:
  "decode s 32 = Inr x \<and> length x = 32 \<longleftrightarrow> length x = 32 \<and> s = encode_base64url x"
  by (auto simp: decode_iff)

lemma es256_jwk_iff:
  assumes "distinct_members jwk"
  shows "es256_jwk ossl jwk = Inr (key, vk) \<longleftrightarrow> jwk_key ossl jwk ''ES256'' key vk"
proof -
  have "es256_jwk ossl jwk = Inr (key, vk) \<longleftrightarrow>
      members_are jwk [''kty'', ''crv'', ''x'', ''y''] \<and>
      json_string jwk ''kty'' = Some ''EC'' \<and> json_string jwk ''crv'' = Some ''P-256'' \<and>
      (\<exists>x y ex ey. json_string jwk ''x'' = Some ex \<and> json_string jwk ''y'' = Some ey \<and>
         (decode ex 32 = Inr x \<and> length x = 32) \<and> (decode ey 32 = Inr y \<and> length y = 32) \<and>
         public_key ossl es256 (0x04 # x @ y) vk \<and> key = \<lparr>ck_algorithm = es256, ck_canonical_public_key = 0x04 # x @ y\<rparr>)"
    unfolding has_exact_members_iff [OF assms name_facts(3), symmetric]
    by (auto simp: es256_jwk_def Let_def expected_iffs p256_key_iff split: option.splits sum.splits)
  then show ?thesis
    unfolding decode_32_iff jwk_key_def
    by (cases key) (auto simp: public_key_def)
qed

lemma ed25519_jwk_iff:
  assumes "distinct_members jwk"
  shows "ed25519_jwk ossl jwk = Inr (key, vk) \<longleftrightarrow> jwk_key ossl jwk ''Ed25519'' key vk"
proof -
  have "ed25519_jwk ossl jwk = Inr (key, vk) \<longleftrightarrow>
      members_are jwk [''kty'', ''crv'', ''x''] \<and>
      json_string jwk ''kty'' = Some ''OKP'' \<and> json_string jwk ''crv'' = Some ''Ed25519'' \<and>
      (\<exists>x ex. json_string jwk ''x'' = Some ex \<and> (decode ex 32 = Inr x \<and> length x = 32) \<and>
         public_key ossl ed25519 x vk \<and> key = \<lparr>ck_algorithm = ed25519, ck_canonical_public_key = x\<rparr>)"
    unfolding has_exact_members_iff [OF assms name_facts(4), symmetric]
    by (auto simp: ed25519_jwk_def expected_iffs ed25519_key_iff split: option.splits sum.splits)
  then show ?thesis
    unfolding decode_32_iff jwk_key_def
    by (cases key) (auto simp: public_key_def)
qed

definition cic_document :: "'k openssl \<Rightarrow> CorePolicy \<Rightarrow> json \<Rightarrow> 'k Cic \<Rightarrow> bool" where
  "cic_document ossl policy j c \<longleftrightarrow>
     members_are j exact_names \<and>
     json_string j kVersionName = Some ''1'' \<and> json_string j kRoleName = Some ''caller'' \<and>
     json_string j ''typ'' = Some ''credbind+json'' \<and>
     (\<exists>nonce. length nonce = 16 \<and> json_string j kNonceName = Some (encode_base64url nonce)) \<and>
     (\<exists>names. json_find j ''crit'' = Some (JArray (map JString names)) \<and> distinct names \<and> set names = required_critical) \<and>
     json_string j kBindingName = Some (cic_binding_profile c) \<and>
     json_string j kEvidenceName = Some (cic_evidence_profile c) \<and>
     check_profiles (cp_issuer_policy policy) (cic_binding_profile c) (cic_evidence_profile c) = Inr () \<and>
     (\<exists>jwk algorithm. json_find j ''jwk'' = Some jwk \<and> json_string j ''alg'' = Some algorithm \<and>
        algorithm \<in> cp_caller_algorithms policy \<and>
        jwk_key ossl jwk algorithm (cic_key c) (cic_verification_key c))"

lemma caller_key_iff:
  assumes "distinct_members j"
  shows "caller_key ossl j algorithm = Inr (key, vk) \<longleftrightarrow>
     (\<exists>jwk. json_find j ''jwk'' = Some jwk \<and> jwk_key ossl jwk algorithm key vk)"
proof (cases "json_find j ''jwk''")
  case (Some jwk)
  note d = json_find_distinct [OF assms Some]
  show ?thesis
  proof (cases "\<exists>members. jwk = JObject members")
    case True
    then have "caller_key ossl j algorithm =
        (if algorithm = ''ES256'' then es256_jwk ossl jwk
         else if algorithm = ''Ed25519'' then ed25519_jwk ossl jwk else Inl unsupported_algorithm)"
      using Some by (auto simp: caller_key_def)
    moreover have "jwk_key ossl jwk algorithm key vk \<Longrightarrow> algorithm = ''ES256'' \<or> algorithm = ''Ed25519''"
      by (auto simp: jwk_key_def)
    ultimately show ?thesis
      using Some es256_jwk_iff [OF d, of ossl key vk] ed25519_jwk_iff [OF d, of ossl key vk] by auto
  next
    case False
    then have "\<not> jwk_key ossl jwk algorithm key vk" by (auto simp: jwk_key_def members_are_def)
    then show ?thesis using Some False by (auto simp: caller_key_def split: json.splits)
  qed
qed (simp add: caller_key_def)

lemma decode_16_iff: "decode s 16 = Inr n \<and> length n = 16 \<longleftrightarrow> length n = 16 \<and> s = encode_base64url n"
  by (auto simp: decode_iff)

lemma parse_cic_checks:
  assumes j: "parse_header_json lexer json = Inr j" "distinct_members j"
  shows "parse_cic lexer ossl json policy = Inr c \<longleftrightarrow> cic_document ossl policy j c"
proof
  assume *: "parse_cic lexer ossl json policy = Inr c"
  from * obtain nonce nonce_bytes algorithm key vk where
    "members_are j exact_names"
    "json_string j kVersionName = Some ''1''" "json_string j kRoleName = Some ''caller''"
    "json_string j ''typ'' = Some ''credbind+json''" "json_string j kNonceName = Some nonce"
    "decode nonce 16 = Inr nonce_bytes \<and> length nonce_bytes = 16" "check_critical j = Inr ()"
    "json_string j kBindingName = Some (cic_binding_profile c)"
    "json_string j kEvidenceName = Some (cic_evidence_profile c)"
    "check_profiles (cp_issuer_policy policy) (cic_binding_profile c) (cic_evidence_profile c) = Inr ()"
    "json_string j ''alg'' = Some algorithm" "algorithm \<in> cp_caller_algorithms policy"
    "caller_key ossl j algorithm = Inr (key, vk)" "cic_key c = key" "cic_verification_key c = vk"
    unfolding has_exact_members_iff [OF j(2) name_facts(1), symmetric]
    by (auto simp: parse_cic_def j(1) expected_iffs split: option.splits)
  then show "cic_document ossl policy j c"
    unfolding decode_16_iff check_critical_iff caller_key_iff [OF j(2)] cic_document_def by blast
next
  assume "cic_document ossl policy j c"
  then obtain nonce jwk algorithm where
    "members_are j exact_names"
    "json_string j kVersionName = Some ''1''" "json_string j kRoleName = Some ''caller''"
    "json_string j ''typ'' = Some ''credbind+json''" "json_string j kNonceName = Some (encode_base64url nonce)"
    "length nonce = 16" "check_critical j = Inr ()"
    "json_string j kBindingName = Some (cic_binding_profile c)"
    "json_string j kEvidenceName = Some (cic_evidence_profile c)"
    "check_profiles (cp_issuer_policy policy) (cic_binding_profile c) (cic_evidence_profile c) = Inr ()"
    "json_string j ''alg'' = Some algorithm" "algorithm \<in> cp_caller_algorithms policy"
    "json_find j ''jwk'' = Some jwk" "jwk_key ossl jwk algorithm (cic_key c) (cic_verification_key c)"
    unfolding cic_document_def check_critical_iff by blast
  moreover from this have "caller_key ossl j algorithm = Inr (cic_key c, cic_verification_key c)"
    unfolding caller_key_iff [OF j(2)] by blast
  moreover have "decode (encode_base64url nonce) 16 = Inr nonce"
    using \<open>length nonce = 16\<close> by (intro decode_encode_base64url) auto
  ultimately show "parse_cic lexer ossl json policy = Inr c"
    unfolding has_exact_members_iff [OF j(2) name_facts(1), symmetric]
    by (simp add: parse_cic_def j(1))
qed

lemma parse_cic_eq:
  assumes lex: "lexer json = events_of t"
  shows "parse_cic lexer ossl json policy = Inr c \<longleftrightarrow>
     length json \<le> kMaximumHeaderBytes \<and> document_ok header_bounds t \<and> cic_document ossl policy (json_value t) c"
proof (cases "length json \<le> kMaximumHeaderBytes \<and> document_ok header_bounds t")
  case True
  then have "parse_header_json lexer json = Inr (json_value t)"
    by (simp add: parse_header_json_eq [of lexer json t, OF lex])
  from parse_cic_checks [OF this json_value_distinct] show ?thesis using True by simp
next
  case False
  then have "\<nexists>j. parse_header_json lexer json = Inr j"
    by (simp add: parse_header_json_eq [of lexer json t, OF lex])
  then show ?thesis using False by (auto simp: parse_cic_def ebind_Inr_iff)
qed

text \<open>
  C6. The protected header of the caller is accepted exactly when it is a JSON object within the
  bounds with exactly its nine members: version 1, role caller, the media type, a nonce of 16
  octets, the five critical names each once, profiles the program knows and the policy permits,
  a permitted algorithm and a public key of that algorithm in a JWK with exactly the members of
  its type, whose canonical encoding becomes the caller key.
\<close>

theorem parse_cic_iff:
  assumes "lexer json = events_of t"
  shows "parse_cic lexer ossl json policy = Inr c \<longleftrightarrow>
     length json \<le> kMaximumHeaderBytes \<and> document_ok header_bounds t \<and> cic_document ossl policy (json_value t) c"
  using assms by (rule parse_cic_eq)

text \<open>
  C26. For a certificate the parser produced, the signature check succeeds exactly when the
  certificate's CA key is a valid public key under which the signature verifies over the signed
  octets: reading key and signature again fails on nothing the parser let pass.
\<close>

theorem certificate_signature_iff:
  assumes "openssl_bn ossl" "parse_certificate blob limits = Inr c"
  shows "verify_certificate_signature ossl c (carrier_algorithm (cert_caller_algorithm c)) = Inr () \<longleftrightarrow>
     certificate_signed ossl c"
  using parse_certificate_sound [OF assms(2)] verify_certificate_signature_iff [OF assms(1)] by blast

section \<open>A protected header\<close>

definition demo_cic_document :: json where
  "demo_cic_document = JObject
     [(''alg'', JString ''Ed25519''),
      (''crit'', JArray (map JString [kNonceName, kVersionName, kRoleName, kBindingName, kEvidenceName])),
      (kBindingName, JString kOidcNonceBinding), (kEvidenceName, JString kStandardEvidence),
      (kNonceName, JString (encode_base64url (replicate 16 3))), (kRoleName, JString ''caller''),
      (kVersionName, JString ''1''),
      (''jwk'', JObject [(''crv'', JString ''Ed25519''), (''kty'', JString ''OKP''),
         (''x'', JString (encode_base64url (replicate 32 7)))]),
      (''typ'', JString ''credbind+json'')]"

definition demo_core_policy :: CorePolicy where
  "demo_core_policy =
     \<lparr>cp_caller_algorithms = {''ES256'', ''Ed25519''}, cp_issuer_policy = demo_issuer_policy,
      cp_limits = \<lparr>core_max_token_bytes = 32768, core_max_evidence_bytes = 16384\<rparr>\<rparr>"

definition demo_cic :: "unit Cic" where
  "demo_cic =
     \<lparr>cic_key = \<lparr>ck_algorithm = ed25519, ck_canonical_public_key = replicate 32 7\<rparr>, cic_verification_key = (),
      cic_binding_profile = kOidcNonceBinding, cic_evidence_profile = kStandardEvidence\<rparr>"

lemmas cic_name_defs = kVersionName_def kRoleName_def kBindingName_def kEvidenceName_def kNonceName_def

lemma demo_cic_value: "json_value demo_cic_document = demo_cic_document"
  by (simp add: demo_cic_document_def cic_name_defs)

lemma demo_cic_bounds: "document_ok header_bounds demo_cic_document"
  by (simp add: document_ok_def demo_cic_document_def cic_name_defs kMaximumHeaderDepth_def kMaximumHeaderMembers_def
      kMaximumHeaderValues_def kMaximumHeaderKeyBytes_def scalar_ok_def)

lemma demo_cic_members: "members_are demo_cic_document exact_names"
  by (auto simp: members_are_def demo_cic_document_def exact_names_def)

lemma demo_cic_finds:
  "json_string demo_cic_document kVersionName = Some ''1''" "json_string demo_cic_document kRoleName = Some ''caller''"
  "json_string demo_cic_document ''typ'' = Some ''credbind+json''"
  "json_string demo_cic_document kNonceName = Some (encode_base64url (replicate 16 3))"
  "json_string demo_cic_document kBindingName = Some kOidcNonceBinding"
  "json_string demo_cic_document kEvidenceName = Some kStandardEvidence"
  "json_string demo_cic_document ''alg'' = Some ''Ed25519''"
  "json_find demo_cic_document ''crit'' =
     Some (JArray (map JString [kNonceName, kVersionName, kRoleName, kBindingName, kEvidenceName]))"
  "json_find demo_cic_document ''jwk'' = Some (JObject [(''crv'', JString ''Ed25519''), (''kty'', JString ''OKP''),
         (''x'', JString (encode_base64url (replicate 32 7)))])"
  by (simp_all add: json_string_def json_find_def demo_cic_document_def cic_name_defs)

lemma demo_cic_jwk:
  "jwk_key demo_openssl (JObject [(''crv'', JString ''Ed25519''), (''kty'', JString ''OKP''),
     (''x'', JString (encode_base64url (replicate 32 7)))]) ''Ed25519'' (cic_key demo_cic) (cic_verification_key demo_cic)"
  by (auto simp: jwk_key_def public_key_def demo_cic_def members_are_def json_string_def json_find_def demo_openssl_def)

lemma demo_cic_accepted: "cic_document demo_openssl demo_core_policy demo_cic_document demo_cic"
proof -
  let ?crit = "[kNonceName, kVersionName, kRoleName, kBindingName, kEvidenceName]"
  have crit: "distinct ?crit" "set ?crit = required_critical"
    by (auto simp: required_critical_def) (simp_all add: cic_name_defs)
  have "check_profiles demo_issuer_policy kOidcNonceBinding kStandardEvidence = Inr ()"
    by (simp add: check_profiles_def demo_issuer_policy_def)
  then show ?thesis
    unfolding cic_document_def
    using demo_cic_members demo_cic_jwk crit
    by (intro conjI exI [of _ "replicate 16 3"] exI [of _ ?crit] exI [of _ "''Ed25519''"] exI)
      (auto simp: demo_cic_finds demo_core_policy_def demo_cic_def)
qed

theorem parse_cic_iff_witness:
  "parse_cic (\<lambda>_. events_of demo_cic_document) demo_openssl ''q'' demo_core_policy = Inr demo_cic"
  using parse_cic_iff [of "\<lambda>_. events_of demo_cic_document" "''q''" demo_cic_document demo_openssl demo_core_policy demo_cic]
    demo_cic_accepted demo_cic_bounds
  by (simp add: kMaximumHeaderBytes_def demo_cic_value)

theorem certificate_signature_iff_witness:
  "verify_certificate_signature demo_openssl example_certificate ed25519 = Inr ()"
proof -
  have "certificate_signed demo_openssl example_certificate"
    by (simp add: certificate_signed_def example_certificate_def Let_def key_fields_def carrier_algorithm_def
        public_key_def ed25519_valid_def demo_openssl_def)
  moreover have "carrier_algorithm (cert_caller_algorithm example_certificate) = ed25519"
    by (simp add: carrier_algorithm_def example_certificate_def Let_def)
  ultimately show ?thesis
    using certificate_signature_iff [OF demo_openssl_bn example_certificate_parses] by simp
qed

end
