(* ===== verification/Cb_User.thy ===== *)
theory Cb_User
  imports Cb_Prelude
begin

text \<open>
  The check of the requested user name: \<^verbatim>\<open>valid_requested_user\<close> of
  \<^verbatim>\<open>src/direct_verifier.cpp\<close>, a UTF-8 decoder that also refuses control characters.
  \<open>utf8\<close> is the standard's encoder, and the check is compared with it.
\<close>

section \<open>The decoder\<close>

text \<open>The first octet of a character: the bits it contributes and how many octets follow.\<close>

definition lead_octet :: "u8 \<Rightarrow> (u32 \<times> nat) option" where
  "lead_octet first =
     (if first \<le> 0x7f then Some (ucast first, 0)
      else if first \<ge> 0xc2 \<and> first \<le> 0xdf then Some (ucast (first AND 0x1f), 1)
      else if first \<ge> 0xe0 \<and> first \<le> 0xef then Some (ucast (first AND 0x0f), 2)
      else if first \<ge> 0xf0 \<and> first \<le> 0xf4 then Some (ucast (first AND 0x07), 3)
      else None)"

fun continuation_octets :: "u8 list \<Rightarrow> u32 \<Rightarrow> u32 option" where
  "continuation_octets [] codepoint = Some codepoint"
| "continuation_octets (continuation # octets) codepoint =
     (if continuation AND 0xc0 \<noteq> 0x80 then None
      else continuation_octets octets (push_bit 6 codepoint OR ucast (continuation AND 0x3f)))"

definition forbidden_codepoint :: "nat \<Rightarrow> u32 \<Rightarrow> bool" where
  "forbidden_codepoint continuation_count codepoint \<longleftrightarrow>
     (continuation_count = 2 \<and> codepoint < 0x800) \<or> (continuation_count = 3 \<and> codepoint < 0x10000) \<or>
     (codepoint \<ge> 0xd800 \<and> codepoint \<le> 0xdfff) \<or> codepoint > 0x10ffff \<or>
     codepoint \<le> 0x1f \<or> (codepoint \<ge> 0x7f \<and> codepoint \<le> 0x9f)"

function valid_from :: "string \<Rightarrow> nat \<Rightarrow> bool" where
  "valid_from name offset =
     (if offset < length name then
        case lead_octet (of_char (name ! offset)) of
          None \<Rightarrow> False
        | Some (codepoint, continuation_count) \<Rightarrow>
            if continuation_count > length name - offset - 1 then False
            else
              case continuation_octets (bytes (take continuation_count (drop (offset + 1) name))) codepoint of
                None \<Rightarrow> False
              | Some codepoint \<Rightarrow>
                  if forbidden_codepoint continuation_count codepoint then False
                  else valid_from name (offset + (continuation_count + 1))
      else True)"
  by auto
termination by (relation "measure (\<lambda>(name, offset). length name - offset)") auto

declare valid_from.simps [simp del]

definition valid_requested_user :: "string \<Rightarrow> bool" where
  "valid_requested_user name =
     (if name = [] \<or> length name > 256 then False else valid_from name 0)"

section \<open>The encoding of the standard\<close>

definition utf8_octets :: "nat \<Rightarrow> nat list" where
  "utf8_octets c =
     (if c < 0x80 then [c]
      else if c < 0x800 then [0xc0 + c div 0x40, 0x80 + c mod 0x40]
      else if c < 0x10000 then [0xe0 + c div 0x1000, 0x80 + c div 0x40 mod 0x40, 0x80 + c mod 0x40]
      else [0xf0 + c div 0x40000, 0x80 + c div 0x1000 mod 0x40, 0x80 + c div 0x40 mod 0x40, 0x80 + c mod 0x40])"

definition utf8 :: "nat \<Rightarrow> string" where
  "utf8 c = map char_of (utf8_octets c)"

text \<open>Scalar values that are not control characters.\<close>

definition printable :: "nat \<Rightarrow> bool" where
  "printable c \<longleftrightarrow>
     c \<le> 0x10ffff \<and> \<not> (0xd800 \<le> c \<and> c \<le> 0xdfff) \<and> \<not> c \<le> 0x1f \<and> \<not> (0x7f \<le> c \<and> c \<le> 0x9f)"

section \<open>One character\<close>

lemma and_masks:
  "(w :: u8) AND 0x1f = take_bit 5 w" "(w :: u8) AND 0x0f = take_bit 4 w"
  "(w :: u8) AND 0x07 = take_bit 3 w" "(w :: u8) AND 0x3f = take_bit 6 w"
  "(w :: u8) AND 0xc0 = push_bit 6 (drop_bit 6 w)"
  by (simp_all add: take_bit_eq_mask mask_eq_exp_minus_1) (auto simp: u8_eq_iff bit_simps)

lemma u8_less: "unat (w :: u8) < 256"
  using unsigned_less [of w] by simp

lemma unat_low_bits: "unat (take_bit k (w :: u8)) = unat w mod 2 ^ k"
  by (simp add: unsigned_take_bit_eq flip: take_bit_eq_mod)

lemma unat_widen: "unat (ucast (w :: u8) :: u32) = unat w"
  using u8_less [of w] by (simp add: unsigned_ucast_eq take_bit_nat_eq_self)

lemma unat_high_bits: "unat (push_bit 6 (drop_bit 6 (w :: u8))) = unat w div 64 * 64"
proof -
  have "unat (push_bit 6 (drop_bit 6 w)) = take_bit 8 (push_bit 6 (drop_bit 6 (unat w)))"
    using u8_less [of w]
    by (simp only: unsigned_push_bit_eq unsigned_drop_bit_eq) (simp add: take_bit_nat_eq_self)
  also have "\<dots> = unat w div 64 * 64 mod 256"
    by (simp add: push_bit_eq_mult drop_bit_eq_div take_bit_eq_mod)
  finally show ?thesis
    using u8_less [of w] le_less_trans [OF div_times_less_eq_dividend [of "unat w" 64]] by simp
qed

lemma continuation_iff: "(c :: u8) AND 0xc0 = 0x80 \<longleftrightarrow> 128 \<le> unat c \<and> unat c < 192"
proof -
  have "c AND 0xc0 = 0x80 \<longleftrightarrow> unat c div 64 * 64 = 128"
    unfolding and_masks(5) word_unat_eq_iff unat_high_bits by simp
  also have "\<dots> \<longleftrightarrow> 2 \<le> unat c div 64 \<and> unat c div 64 < 3" by auto
  also have "\<dots> \<longleftrightarrow> 128 \<le> unat c \<and> unat c < 192"
    by (simp add: less_eq_div_iff_mult_less_eq div_less_iff_less_mult)
  finally show ?thesis .
qed

lemma unat_continuation:
  assumes "unat cp < 2 ^ 26"
  shows "unat (push_bit 6 (cp :: u32) OR ucast ((c :: u8) AND 0x3f)) = unat cp * 64 + unat c mod 64"
proof -
  have "push_bit 6 cp OR ucast (c AND 0x3f) = push_bit 6 cp + ucast (c AND 0x3f)"
    by (rule disjunctive_add [symmetric]) (auto simp: and_masks bit_simps)
  moreover have "unat (push_bit 6 cp) = unat cp * 64"
  proof -
    have "unat (push_bit 6 cp) = take_bit 32 (push_bit 6 (unat cp))" by (simp only: unsigned_push_bit_eq) simp
    then show ?thesis using assms by (simp add: push_bit_eq_mult take_bit_nat_eq_self)
  qed
  moreover have "unat (ucast (c AND 0x3f) :: u32) = unat c mod 64"
    by (simp add: and_masks unat_widen unat_low_bits)
  ultimately show ?thesis
    using assms by (simp add: unat_add_lem [THEN iffD1])
qed

lemma lead_bits:
  "194 \<le> m \<Longrightarrow> m \<le> 223 \<Longrightarrow> m mod 32 = m - (192::nat)"
  "224 \<le> m \<Longrightarrow> m \<le> 239 \<Longrightarrow> m mod 16 = m - (224::nat)"
  "240 \<le> m \<Longrightarrow> m \<le> 244 \<Longrightarrow> m mod 8 = m - (240::nat)"
  using mod_add_left_eq [of 192 32 "m - 192"] mod_add_left_eq [of 224 16 "m - 224"]
    mod_add_left_eq [of 240 8 "m - 240"] by simp_all

lemma lead_octet_iff:
  "lead_octet b = Some (cp, n) \<longleftrightarrow>
     (unat b < 128 \<and> n = 0 \<and> unat cp = unat b) \<or>
     (194 \<le> unat b \<and> unat b < 224 \<and> n = 1 \<and> unat cp = unat b - 192) \<or>
     (224 \<le> unat b \<and> unat b < 240 \<and> n = 2 \<and> unat cp = unat b - 224) \<or>
     (240 \<le> unat b \<and> unat b < 245 \<and> n = 3 \<and> unat cp = unat b - 240)"
proof -
  have eq: "ucast (take_bit k b) = cp \<longleftrightarrow> unat cp = unat b mod 2 ^ k" "ucast b = cp \<longleftrightarrow> unat cp = unat b" for k
    by (auto simp: word_unat_eq_iff unat_widen unat_low_bits)
  show ?thesis
    using u8_less [of b]
    by (auto simp: lead_octet_def word_le_nat_alt and_masks eq lead_bits)
qed

lemma continuation_octets_iff:
  assumes "(unat cp0 + 1) * 64 ^ length cs \<le> 2 ^ 32"
  shows "continuation_octets cs cp0 = Some cp \<longleftrightarrow>
     (\<forall>c\<in>set cs. 128 \<le> unat c \<and> unat c < 192) \<and>
     unat cp = foldl (\<lambda>v c. v * 64 + unat c mod 64) (unat cp0) cs"
  using assms
proof (induction cs arbitrary: cp0)
  case Nil
  then show ?case by (auto simp: word_unat_eq_iff)
next
  case (Cons c cs)
  let ?cp = "push_bit 6 cp0 OR ucast (c AND 0x3f)"
  have "(unat cp0 + 1) * 64 * 1 \<le> (unat cp0 + 1) * 64 * 64 ^ length cs" by (rule mult_le_mono2) simp
  also have "\<dots> \<le> 2 ^ 32" using Cons.prems by (simp add: algebra_simps)
  finally have small: "(unat cp0 + 1) * 64 \<le> 2 ^ 32" by simp
  then have v: "unat ?cp = unat cp0 * 64 + unat c mod 64" by (intro unat_continuation) simp
  then have "unat ?cp + 1 \<le> (unat cp0 + 1) * 64" by (simp add: Suc_le_eq)
  then have "(unat ?cp + 1) * 64 ^ length cs \<le> (unat cp0 + 1) * 64 * 64 ^ length cs" by (rule mult_le_mono1)
  also have "\<dots> \<le> 2 ^ 32" using Cons.prems by (simp add: algebra_simps)
  finally have "(unat ?cp + 1) * 64 ^ length cs \<le> 2 ^ 32" .
  from Cons.IH [OF this] show ?case
    unfolding v by (auto simp: continuation_iff)
qed

lemma encoded_digits:
  "0 < k \<Longrightarrow> x < k \<Longrightarrow> (y * k + x) div k = (y :: nat)"
  "0 < k \<Longrightarrow> x < k \<Longrightarrow> (y * k + x) mod k = (x :: nat)"
  by simp_all

lemma div_parts: "(c :: nat) div 4096 = c div 64 div 64" "c div 262144 = c div 64 div 64 div 64"
  by (simp_all flip: div_mult2_eq)

text \<open>What one round of the loop accepts is the encoding of one printable character.\<close>

definition accepted_round :: "u8 \<Rightarrow> u8 list \<Rightarrow> nat \<Rightarrow> bool" where
  "accepted_round b cs c \<longleftrightarrow>
     (\<exists>cp0 cp. lead_octet b = Some (cp0, length cs) \<and> continuation_octets cs cp0 = Some cp \<and>
        \<not> forbidden_codepoint (length cs) cp \<and> unat cp = c)"

lemma forbidden_codepoint_nat:
  "\<not> forbidden_codepoint n cp \<longleftrightarrow>
     printable (unat cp) \<and> (n = 2 \<longrightarrow> 0x800 \<le> unat cp) \<and> (n = 3 \<longrightarrow> 0x10000 \<le> unat cp)"
  by (auto simp: forbidden_codepoint_def printable_def word_less_nat_alt word_le_nat_alt)

definition lead_value :: "u8 \<Rightarrow> nat \<Rightarrow> nat \<Rightarrow> bool" where
  "lead_value b n v \<longleftrightarrow>
     (unat b < 128 \<and> n = 0 \<and> v = unat b) \<or> (194 \<le> unat b \<and> unat b < 224 \<and> n = 1 \<and> v = unat b - 192) \<or>
     (224 \<le> unat b \<and> unat b < 240 \<and> n = 2 \<and> v = unat b - 224) \<or>
     (240 \<le> unat b \<and> unat b < 245 \<and> n = 3 \<and> v = unat b - 240)"

lemma lead_value_bound: "lead_value b n v \<Longrightarrow> (v + 1) * 64 ^ n \<le> 2 ^ 32 \<and> v < 2 ^ 32"
  by (auto simp: lead_value_def)

lemma word_of_small: "v < 2 ^ 32 \<Longrightarrow> unat (word_of_nat v :: u32) = v"
  by (simp add: unat_of_nat)

lemma accepted_round_nat:
  "accepted_round b cs c \<longleftrightarrow>
     printable c \<and> (length cs = 2 \<longrightarrow> 0x800 \<le> c) \<and> (length cs = 3 \<longrightarrow> 0x10000 \<le> c) \<and>
     (\<forall>d\<in>set cs. 128 \<le> unat d \<and> unat d < 192) \<and>
     (\<exists>v. lead_value b (length cs) v \<and> c = foldl (\<lambda>v d. v * 64 + unat d mod 64) v cs)"
    (is "_ \<longleftrightarrow> ?rhs")
proof
  assume "accepted_round b cs c"
  then obtain cp0 cp where *: "lead_value b (length cs) (unat cp0)" "continuation_octets cs cp0 = Some cp"
      "\<not> forbidden_codepoint (length cs) cp" "unat cp = c"
    by (auto simp: accepted_round_def lead_octet_iff lead_value_def)
  from lead_value_bound [OF *(1)] *(2)
  show ?rhs
    using * by (auto simp: continuation_octets_iff forbidden_codepoint_nat)
next
  assume r: ?rhs
  then obtain v where v: "lead_value b (length cs) v" "c = foldl (\<lambda>v d. v * 64 + unat d mod 64) v cs" by blast
  have c: "c < 2 ^ 32" using r by (auto simp: printable_def)
  have b: "(unat (word_of_nat v :: u32) + 1) * 64 ^ length cs \<le> 2 ^ 32"
    using lead_value_bound [OF v(1)] word_of_small [of v] by simp
  have "lead_octet b = Some (word_of_nat v, length cs)"
    using v(1) lead_value_bound [OF v(1)] word_of_small [of v] by (auto simp: lead_octet_iff lead_value_def)
  moreover have "continuation_octets cs (word_of_nat v) = Some (word_of_nat c)"
    unfolding continuation_octets_iff [OF b]
    using r v(2) lead_value_bound [OF v(1)] word_of_small [of v] word_of_small [OF c] by simp
  moreover have "\<not> forbidden_codepoint (length cs) (word_of_nat c)"
    using r word_of_small [OF c] by (simp add: forbidden_codepoint_nat)
  ultimately show "accepted_round b cs c"
    using word_of_small [OF c] unfolding accepted_round_def by blast
qed

lemma continuation_digit: "128 \<le> m \<Longrightarrow> m < 192 \<Longrightarrow> \<exists>x<64. m = 128 + (x :: nat)"
  by (rule exI [of _ "m - 128"]) simp

lemma digit_mod [simp]: "x < 64 \<Longrightarrow> (128 + x) mod 64 = (x :: nat)"
  using mod_add_left_eq [of 128 64 x] by simp

lemma list_lengths:
  "length xs = Suc 0 \<longleftrightarrow> (\<exists>a. xs = [a])"
  "length xs = 2 \<longleftrightarrow> (\<exists>a b. xs = [a, b])"
  "length xs = 3 \<longleftrightarrow> (\<exists>a b c. xs = [a, b, c])"
  by (auto simp: length_Suc_conv numeral_2_eq_2 numeral_3_eq_3)

lemma accepted_round_encodes:
  assumes "accepted_round b cs c"
  shows "printable c \<and> map unat (b # cs) = utf8_octets c"
proof -
  from assms obtain v where p: "printable c" and v: "lead_value b (length cs) v"
      and c: "c = foldl (\<lambda>v d. v * 64 + unat d mod 64) v cs"
      and cs: "\<forall>d\<in>set cs. \<exists>x<64. unat d = 128 + x"
      and l: "length cs = 2 \<longrightarrow> 0x800 \<le> c" "length cs = 3 \<longrightarrow> 0x10000 \<le> c"
    using continuation_digit by (auto simp: accepted_round_nat)
  from v have "length cs = 0 \<or> length cs = 1 \<or> length cs = 2 \<or> length cs = 3" by (auto simp: lead_value_def)
  then have "map unat (b # cs) = utf8_octets c"
  proof (elim disjE)
    assume "length cs = 0" then show ?thesis using v c by (auto simp: lead_value_def utf8_octets_def)
  next
    assume "length cs = 1"
    then obtain d x where d: "cs = [d]" "x < 64" "unat d = 128 + x" using cs by (auto simp: list_lengths)
    then have "c = v * 64 + x" "unat b = 192 + v" "2 \<le> v" "v < 32" using v c by (auto simp: lead_value_def)
    then show ?thesis using d by (simp add: utf8_octets_def)
  next
    assume "length cs = 2"
    then obtain d e x y where d: "cs = [d, e]" "x < 64" "unat d = 128 + x" "y < 64" "unat e = 128 + y"
      using cs by (auto simp: list_lengths)
    then have "c = (v * 64 + x) * 64 + y" "unat b = 224 + v" "v < 16" using v c by (auto simp: lead_value_def)
    moreover from this have "c div 64 = v * 64 + x" "c mod 64 = y"
      using encoded_digits [of 64 y "v * 64 + x"] d by simp_all
    ultimately show ?thesis using d l(1) by (auto simp: utf8_octets_def div_parts)
  next
    assume "length cs = 3"
    then obtain d e f x y z where d: "cs = [d, e, f]" "x < 64" "unat d = 128 + x" "y < 64" "unat e = 128 + y"
        "z < 64" "unat f = 128 + z"
      using cs by (auto simp: list_lengths)
    then have "c = ((v * 64 + x) * 64 + y) * 64 + z" "unat b = 240 + v" "v < 5" using v c by (auto simp: lead_value_def)
    moreover from this have "c div 64 = (v * 64 + x) * 64 + y" "c mod 64 = z"
      using encoded_digits [of 64 z "(v * 64 + x) * 64 + y"] d by simp_all
    moreover have "((v * 64 + x) * 64 + y) div 64 = v * 64 + x" "((v * 64 + x) * 64 + y) mod 64 = y"
      using encoded_digits [of 64 y "v * 64 + x"] d by simp_all
    ultimately show ?thesis using d l(2) by (auto simp: utf8_octets_def div_parts)
  qed
  with p show ?thesis by simp
qed

lemma lead_value_exists: "lead_value b n v \<Longrightarrow> c = f v \<Longrightarrow> \<exists>v. lead_value b n v \<and> c = f v"
  by blast

lemma digits_value: "c div 64 * 64 + c mod 64 = (c :: nat)"
  by simp

lemma accepted_round_complete:
  assumes p: "printable c" and e: "map unat (b # cs) = utf8_octets c"
  shows "accepted_round b cs c"
proof -
  have le: "c \<le> 0x10ffff" using p by (simp add: printable_def)
  have small: "c mod 64 < 64" for c :: nat by simp
  consider "c < 0x80" | "0x80 \<le> c" "c < 0x800" | "0x800 \<le> c" "c < 0x10000" | "0x10000 \<le> c" by linarith
  then show ?thesis
  proof cases
    case 1
    then show ?thesis using p e by (simp add: accepted_round_nat utf8_octets_def lead_value_def)
  next
    case 2
    then obtain d where d: "cs = [d]" "unat b = 192 + c div 64" "unat d = 128 + c mod 64"
      using e by (auto simp: utf8_octets_def)
    have "2 \<le> c div 64" "c div 64 < 32" using 2 by (simp_all add: less_eq_div_iff_mult_less_eq div_less_iff_less_mult)
    then have "lead_value b 1 (c div 64)" using d by (simp add: lead_value_def)
    from lead_value_exists [OF this, of c "\<lambda>v. v * 64 + c mod 64"] show ?thesis
      using p d small by (simp add: accepted_round_nat)
  next
    case 3
    then obtain d e where d: "cs = [d, e]" "unat b = 224 + c div 64 div 64"
        "unat d = 128 + c div 64 mod 64" "unat e = 128 + c mod 64"
      using e by (auto simp: utf8_octets_def div_parts)
    have "c div 64 div 64 < 16" using 3 by (simp add: div_less_iff_less_mult flip: div_mult2_eq)
    then have "lead_value b (Suc (Suc 0)) (c div 64 div 64)" using d by (simp add: lead_value_def)
    from lead_value_exists [OF this, of c "\<lambda>v. (v * 64 + c div 64 mod 64) * 64 + c mod 64"] show ?thesis
      using p d small 3 by (simp add: accepted_round_nat)
  next
    case 4
    then obtain d e f where d: "cs = [d, e, f]" "unat b = 240 + c div 64 div 64 div 64"
        "unat d = 128 + c div 64 div 64 mod 64" "unat e = 128 + c div 64 mod 64" "unat f = 128 + c mod 64"
      using e by (auto simp: utf8_octets_def div_parts)
    have "c div 64 div 64 div 64 < 5" using le by (simp add: div_less_iff_less_mult flip: div_mult2_eq)
    then have "lead_value b (Suc (Suc (Suc 0))) (c div 64 div 64 div 64)" using d by (simp add: lead_value_def)
    from lead_value_exists [OF this, of c "\<lambda>v. ((v * 64 + c div 64 div 64 mod 64) * 64 + c div 64 mod 64) * 64 + c mod 64"]
    show ?thesis using p d small 4 by (simp add: accepted_round_nat)
  qed
qed

section \<open>The whole name\<close>

lemma map_char_of_unat: "map char_of (map unat (bytes s)) = s"
  using text_of_bytes [of s] by (simp add: text_of_def comp_def)

lemma length_utf8: "length (utf8 c) = length (utf8_octets c)"
  by (simp add: utf8_def)

lemma utf8_octets_range: "c \<le> 0x10ffff \<Longrightarrow> \<forall>n\<in>set (utf8_octets c). n < 256"
  by (auto simp: utf8_octets_def)

lemma map_unat_bytes_utf8:
  assumes "c \<le> 0x10ffff"
  shows "map unat (bytes (utf8 c)) = utf8_octets c"
  using utf8_octets_range [OF assms]
  by (simp add: bytes_def utf8_def comp_def of_char_u8_unat map_idI)

text \<open>The loop from an offset accepts exactly the encodings of printable characters.\<close>

lemma valid_from_round:
  assumes offset: "offset < length name"
  shows "valid_from name offset \<longleftrightarrow>
       (\<exists>n c. n \<le> length name - offset - 1 \<and>
          accepted_round (of_char (name ! offset)) (bytes (take n (drop (offset + 1) name))) c \<and>
          valid_from name (offset + (n + 1)))" (is "_ \<longleftrightarrow> (\<exists>n c. ?R n c)")
proof
  assume "valid_from name offset"
  then obtain cp0 n cp where r: "lead_octet (of_char (name ! offset)) = Some (cp0, n)" "n \<le> length name - offset - 1"
      "continuation_octets (bytes (take n (drop (offset + 1) name))) cp0 = Some cp" "\<not> forbidden_codepoint n cp"
      "valid_from name (offset + (n + 1))"
    using offset by (subst (asm) valid_from.simps) (auto simp: not_less split: option.splits if_splits)
  moreover have "length (bytes (take n (drop (offset + 1) name))) = n" using r(2) by simp
  ultimately have "?R n (unat cp)" by (auto simp: accepted_round_def)
  then show "\<exists>n c. ?R n c" by blast
next
  assume "\<exists>n c. ?R n c"
  then obtain n c where r: "?R n c" by blast
  moreover have "length (bytes (take n (drop (offset + 1) name))) = n" using r by simp
  ultimately show "valid_from name offset"
    using offset by (subst valid_from.simps) (auto simp: accepted_round_def)
qed

lemma valid_from_sound:
  "valid_from name offset \<Longrightarrow> \<exists>cs. drop offset name = concat (map utf8 cs) \<and> list_all printable cs"
proof (induction "length name - offset" arbitrary: offset rule: less_induct)
  case less
  show ?case
  proof (cases "offset < length name")
    case True
    let ?cs = "\<lambda>n. take n (drop (offset + 1) name)"
    obtain n c where n: "n \<le> length name - offset - 1"
        "accepted_round (of_char (name ! offset)) (bytes (?cs n)) c" "valid_from name (offset + (n + 1))"
      using less.prems valid_from_round [OF True] by blast
    have "length name - (offset + (n + 1)) < length name - offset" using True by simp
    from less.hyps [OF this n(3)] obtain cs where cs: "drop (offset + (n + 1)) name = concat (map utf8 cs)"
        "list_all printable cs"
      by blast
    note e = accepted_round_encodes [OF n(2)]
    then have "utf8 c = map char_of (map unat (bytes (name ! offset # ?cs n)))"
      by (simp add: utf8_def bytes_def)
    then have "utf8 c = name ! offset # ?cs n" by (simp add: map_char_of_unat del: map_map)
    then have "drop offset name = utf8 c @ drop (offset + (n + 1)) name"
      using True append_take_drop_id [of n "drop (Suc offset) name"]
      by (simp add: Cons_nth_drop_Suc [symmetric] ac_simps)
    then show ?thesis using cs e by (intro exI [of _ "c # cs"]) simp
  qed (auto intro: exI [of _ "[]"])
qed

lemma valid_from_complete:
  "drop offset name = concat (map utf8 cs) \<Longrightarrow> list_all printable cs \<Longrightarrow> valid_from name offset"
proof (induction cs arbitrary: offset)
  case Nil
  then show ?case by (simp add: valid_from.simps)
next
  case (Cons c cs)
  then have p: "printable c" "c \<le> 0x10ffff" by (auto simp: printable_def)
  have e: "map unat (bytes (utf8 c)) = utf8_octets c" by (rule map_unat_bytes_utf8 [OF p(2)])
  obtain h t where u: "utf8 c = h # t" by (cases "utf8 c") (auto simp: utf8_def utf8_octets_def split: if_splits)
  have d: "drop offset name = h # t @ concat (map utf8 cs)" using Cons.prems u by simp
  then have at: "offset < length name" "name ! offset = h" "drop (offset + 1) name = t @ concat (map utf8 cs)"
    by (auto simp: nth_via_drop drop_Suc tl_drop [symmetric] simp flip: length_greater_0_conv)
      (metis drop_all list.discI not_less)
  have "accepted_round (of_char h) (bytes t) c"
    using e u by (intro accepted_round_complete p(1)) (simp add: bytes_def)
  moreover have "drop (offset + (length t + 1)) name = concat (map utf8 cs)"
    using at(3) by (metis add.assoc add.commute append_eq_conv_conj drop_drop)
  then have "valid_from name (offset + (length t + 1))" using Cons by simp
  moreover have "length t \<le> length name - offset - 1"
    using arg_cong [OF at(3), of length] by simp
  ultimately show ?case
    unfolding valid_from_round [OF at(1)] using at by (intro exI [of _ "length t"] exI [of _ c]) auto
qed

lemma valid_requested_user_eq:
  "valid_requested_user name \<longleftrightarrow>
     name \<noteq> [] \<and> length name \<le> 256 \<and> (\<exists>cs. name = concat (map utf8 cs) \<and> list_all printable cs)"
  using valid_from_sound [of name 0] valid_from_complete [of 0 name]
  by (auto simp: valid_requested_user_def)

text \<open>
  C27. A requested user name is accepted exactly when it has 1 to 256 octets and is the UTF-8
  encoding of a sequence of Unicode scalar values (at most 0x10ffff, no surrogate) none of
  which is a control character: no overlong form, stray octet or truncated character passes.
\<close>

theorem valid_requested_user_iff:
  "valid_requested_user name \<longleftrightarrow>
     name \<noteq> [] \<and> length name \<le> 256 \<and> (\<exists>cs. name = concat (map utf8 cs) \<and> list_all printable cs)"
  by (rule valid_requested_user_eq)

end
