(* ===== verification/Cb_Direct.thy ===== *)
theory Cb_Direct
  imports Cb_Cic Cb_User Cb_Strict_Json Cb_Base64
begin

text \<open>
  Tokens, carriers and accounts: the rest of \<^verbatim>\<open>src/direct_verifier.cpp\<close>.
  \<^verbatim>\<open>verify_token\<close> composes the envelope parser, the header parser and the issuer verifier and
  checks the caller's signature; \<^verbatim>\<open>verify_carrier\<close> adds the certificate, the time window, the
  principal and the account rules.
\<close>

section \<open>Types\<close>

record CoreResult =
  core_issuer :: string
  core_claims :: Claims
  core_caller_key :: CallerKey
  core_binding_profile :: string
  core_evidence_profile :: string
  core_commitment :: string
  core_credential_valid_until_unix :: int

record CarrierPolicy =
  car_certificate_principal_claim :: string
  car_maximum_identity_lifetime_seconds :: int
  car_clock_skew_seconds :: int

record AccountRule =
  ar_issuer :: string
  ar_all :: "Predicate list"
  ar_allowed_certificate_extensions :: "string set"

type_synonym AccountPolicies = "string \<rightharpoonup> AccountRule list"

record CarrierInput =
  ci_certificate_blob :: string
  ci_key_type_argument :: string
  ci_requested_user :: string
  ci_verification_time_unix :: int

record CarrierResult =
  carr_core :: CoreResult
  carr_principal :: string
  carr_ca_key_type :: string
  carr_ca_public_key_base64 :: string

text \<open>\<^verbatim>\<open>core\<close> when \<^verbatim>\<open>core_verified\<close> is set.\<close>

type_synonym CarrierAuditContext = "CoreResult option"

definition kMaximumTokenBytes :: nat where "kMaximumTokenBytes = 32768"
definition kMaximumEvidenceBytes :: nat where "kMaximumEvidenceBytes = 16384"
definition kMaximumPrincipalClaimBytes :: nat where "kMaximumPrincipalClaimBytes = 32768"

section \<open>Tokens\<close>

definition digest_equal :: "'k openssl \<Rightarrow> u8 list \<Rightarrow> u8 list \<Rightarrow> bool" where
  "digest_equal ossl l r \<longleftrightarrow> CRYPTO_memcmp ossl l r = 0"

definition validate_evidence_result_digest :: "'k openssl \<Rightarrow> u8 list \<Rightarrow> u8 list \<Rightarrow> unit expected" where
  "validate_evidence_result_digest ossl expected_digest verified =
     (if \<not> digest_equal ossl expected_digest verified then Inl evidence_result_mismatch else Inr ())"

definition expected_evidence_digest :: "'k openssl \<Rightarrow> string \<Rightarrow> string \<Rightarrow> u8 list \<Rightarrow> u8 list expected" where
  "expected_evidence_digest ossl profile payload evidence =
     (let input = bytes ''CredBind-Issuer-Evidence-Digest-v1'' @ [0];
          input = append_value input (bytes profile);
          input = append_value input (bytes payload)
      in digest_sha256 ossl (input @ u64_bytes (of_nat (length evidence)) @ evidence))"

definition check_caller_signature :: "'k openssl \<Rightarrow> 'k Cic \<Rightarrow> string \<Rightarrow> u8 list \<Rightarrow> unit expected" where
  "check_caller_signature ossl cic signing_input caller_signature =
     (if length caller_signature \<noteq> 64 then Inl caller_signature_invalid
      else if ck_algorithm (cic_key cic) = es256 then
        ebind (ecdsa_der ossl (take 32 caller_signature) (drop 32 caller_signature) caller_signature_invalid) (\<lambda>der.
          verify_signature ossl (cic_verification_key cic) (ck_algorithm (cic_key cic)) (bytes signing_input) der
            caller_signature_invalid)
      else
        verify_signature ossl (cic_verification_key cic) (ck_algorithm (cic_key cic)) (bytes signing_input)
          caller_signature caller_signature_invalid)"

definition verify_token ::
  "json_lexer \<Rightarrow> 'k openssl \<Rightarrow> string \<Rightarrow> CorePolicy \<Rightarrow> StaticJwks \<Rightarrow> int \<Rightarrow> CoreResult expected" where
  "verify_token lexer ossl token policy keys verification_time_unix =
     (let limits = cp_limits policy in
      if core_max_token_bytes limits = 0 \<or> core_max_token_bytes limits > kMaximumTokenBytes \<or>
         core_max_evidence_bytes limits = 0 \<or> core_max_evidence_bytes limits > kMaximumEvidenceBytes
      then Inl resource_limit else
      if length token > core_max_token_bytes limits then Inl resource_limit else
      if cp_caller_algorithms policy = {} then Inl issuer_untrusted else
      ebind (parse_core_envelope lexer token default_strict_limits) (\<lambda>envelope.
      ebind (decode (env_payload envelope) kMaximumTokenBytes) (\<lambda>payload.
      ebind (decode (sig_protected_header (env_caller_signature envelope)) kMaximumHeaderBytes) (\<lambda>protected_header.
      ebind (decode (sig_signature (env_caller_signature envelope)) 128) (\<lambda>caller_signature.
      ebind (decode (env_evidence envelope) (core_max_evidence_bytes limits)) (\<lambda>evidence.
      let cic_json = text_of protected_header in
      ebind (parse_cic lexer ossl cic_json policy) (\<lambda>cic.
      ebind (commitment ossl cic_json) (\<lambda>bound_commitment.
      ebind (expected_evidence_digest ossl (cic_evidence_profile cic) (env_payload envelope) evidence) (\<lambda>expected_digest.
      ebind (issuer_verify lexer ossl
          \<lparr>vi_evidence_profile = cic_evidence_profile cic, vi_binding_profile = cic_binding_profile cic,
           vi_commitment = bound_commitment, vi_issuer_encoded_payload = env_payload envelope,
           vi_evidence_representation = evidence, vi_verification_time_unix = verification_time_unix\<rparr>
          (cp_issuer_policy policy) keys) (\<lambda>evidence_result.
      if vr_issuer evidence_result = '''' \<or> vr_issuer_key_id evidence_result = '''' \<or>
         vr_issuer evidence_result \<noteq> po_issuer (cp_issuer_policy policy) \<or>
         vr_binding_profile evidence_result \<noteq> cic_binding_profile cic \<or>
         \<not> has_value (validate_evidence_result_digest ossl expected_digest (vr_verified_evidence_digest evidence_result))
      then Inl evidence_result_mismatch else
      if \<not> dom (vr_claims evidence_result) \<subseteq> po_admitted_claims (cp_issuer_policy policy)
      then Inl evidence_result_mismatch else
      let signing_input = sig_protected_header (env_caller_signature envelope) @ ''.'' @ env_payload envelope in
      ebind (check_caller_signature ossl cic signing_input caller_signature) (\<lambda>_.
        Inr \<lparr>core_issuer = vr_issuer evidence_result, core_claims = vr_claims evidence_result,
             core_caller_key = cic_key cic, core_binding_profile = cic_binding_profile cic,
             core_evidence_profile = cic_evidence_profile cic, core_commitment = bound_commitment,
             core_credential_valid_until_unix = vr_credential_valid_until_unix evidence_result\<rparr>)))))))))))"

section \<open>Principals and accounts\<close>

definition principal_input :: "string \<Rightarrow> string \<Rightarrow> string \<Rightarrow> u8 list" where
  "principal_input issuer claim_name claim_value =
     (let input = bytes ''CredBind-SSH-Principal-v1'' @ [0];
          input = append_value input (bytes issuer);
          input = append_value input (bytes claim_name)
      in append_value input (bytes claim_value))"

definition core_principal :: "'k openssl \<Rightarrow> CoreResult \<Rightarrow> string \<Rightarrow> string expected" where
  "core_principal ossl core claim_name =
     (if claim_name = '''' then Inl ssh_principal_invalid
      else
        case core_claims core claim_name of
          Some (JString v) \<Rightarrow>
            if v = '''' \<or> length v > kMaximumPrincipalClaimBytes then Inl ssh_principal_invalid
            else
              ebind (digest_sha256 ossl (principal_input (core_issuer core) claim_name v)) (\<lambda>digest.
                Inr (''credbind-v1-'' @ encode_base64url digest))
        | _ \<Rightarrow> Inl ssh_principal_invalid)"

fun array_contains :: "string \<Rightarrow> json list \<Rightarrow> string set \<Rightarrow> bool \<Rightarrow> bool" where
  "array_contains wanted [] unique matched = matched"
| "array_contains wanted (v # items) unique matched =
     (if \<not> is_string v then False
      else if get_string v \<in> unique then False
      else array_contains wanted items (insert (get_string v) unique) (matched \<or> get_string v = wanted))"

definition account_predicate_matches :: "Claims \<Rightarrow> Predicate \<Rightarrow> bool" where
  "account_predicate_matches claims predicate =
     (if pr_claim predicate = '''' then False
      else
        case claims (pr_claim predicate) of
          None \<Rightarrow> False
        | Some v \<Rightarrow>
            if pr_operation predicate = string_array_contains then
              (if pr_values predicate \<noteq> [] then False
               else case v of JArray items \<Rightarrow> array_contains (pr_value predicate) items {} False | _ \<Rightarrow> False)
            else if \<not> is_string v then False
            else if pr_operation predicate = string_equals then
              pr_values predicate = [] \<and> get_string v = pr_value predicate
            else if pr_operation predicate \<noteq> string_one_of \<or> pr_value predicate \<noteq> '''' \<or> pr_values predicate = []
            then False
            else if \<not> valid_one_of (pr_values predicate) {} then False
            else get_string v \<in> set (pr_values predicate))"

definition account_rule_matches :: "AccountRule \<Rightarrow> CoreResult \<Rightarrow> string list \<Rightarrow> bool" where
  "account_rule_matches rule core certificate_extensions =
     (if ar_issuer rule = '''' \<or> ar_issuer rule \<noteq> core_issuer core then False
      else if \<not> list_all (account_predicate_matches (core_claims core)) (ar_all rule) then False
      else list_all (\<lambda>extension. extension \<in> ar_allowed_certificate_extensions rule) certificate_extensions)"

section \<open>Carriers\<close>

definition check_identity_window :: "CarrierPolicy \<Rightarrow> int \<Rightarrow> Certificate \<Rightarrow> int \<Rightarrow> unit expected" where
  "check_identity_window policy verification_time_unix certificate credential_valid_until_unix =
     ebind (checked_add verification_time_unix (car_clock_skew_seconds policy) ssh_identity_not_yet_valid) (\<lambda>now_with_skew.
     ebind (checked_add verification_time_unix (- car_clock_skew_seconds policy) ssh_identity_expired) (\<lambda>now_without_skew.
     if now_with_skew < 0 \<or> (of_int now_with_skew :: u64) < cert_valid_after certificate
     then Inl ssh_identity_not_yet_valid else
     if now_without_skew \<ge> 0 \<and> (of_int now_without_skew :: u64) \<ge> cert_valid_before certificate
     then Inl ssh_identity_expired else
     if credential_valid_until_unix < 0 then Inl ssh_identity_expired else
     let boundary = of_int credential_valid_until_unix :: u64 in
     ebind
       (if car_maximum_identity_lifetime_seconds policy > 0 then
          let lifetime = of_int (car_maximum_identity_lifetime_seconds policy) :: u64 in
          if cert_valid_after certificate > - 1 - lifetime then Inl ssh_certificate_invalid
          else Inr (min boundary (cert_valid_after certificate + lifetime))
        else Inr boundary) (\<lambda>boundary.
     if cert_valid_before certificate > boundary then Inl ssh_identity_expired else Inr ())))"

definition check_caller_key :: "Certificate \<Rightarrow> CallerKey \<Rightarrow> unit expected" where
  "check_caller_key certificate key =
     (let algorithm_matches =
        (cert_caller_algorithm certificate = openssh_es256 \<and> ck_algorithm key = es256) \<or>
        (cert_caller_algorithm certificate = openssh_ed25519 \<and> ck_algorithm key = ed25519)
      in if \<not> algorithm_matches \<or> cert_certified_key certificate \<noteq> ck_canonical_public_key key
         then Inl ssh_key_mismatch else Inr ())"

text \<open>The first half, up to the verified token, and the second, which decides about the account.\<close>

definition verify_carrier_token ::
  "json_lexer \<Rightarrow> 'k openssl \<Rightarrow> CarrierInput \<Rightarrow> CorePolicy \<Rightarrow> CarrierPolicy \<Rightarrow> StaticJwks \<Rightarrow> openssh_Limits \<Rightarrow>
   (Certificate \<times> CoreResult) expected" where
  "verify_carrier_token lexer ossl input core_policy carrier_policy keys limits =
     (if car_clock_skew_seconds carrier_policy < 0 \<or> car_maximum_identity_lifetime_seconds carrier_policy < 0
      then Inl issuer_untrusted else
      if \<not> valid_requested_user (ci_requested_user input) \<or> ci_key_type_argument input = ''''
      then Inl malformed_input else
      ebind (parse_certificate (ci_certificate_blob input) limits) (\<lambda>certificate.
      let expected_type = (if cert_caller_algorithm certificate = openssh_es256
                           then kEcdsaCertificate else kEd25519Certificate) in
      if ci_key_type_argument input \<noteq> expected_type then Inl malformed_input else
      ebind (verify_token lexer ossl (text_of (cert_token certificate)) core_policy keys
               (ci_verification_time_unix input)) (\<lambda>core.
        Inr (certificate, core))))"

definition authorize_account ::
  "AccountPolicies \<Rightarrow> string \<Rightarrow> Certificate \<Rightarrow> CoreResult \<Rightarrow> string \<Rightarrow> CarrierResult expected" where
  "authorize_account accounts requested_user certificate core required_principal =
     (if length (cert_principals certificate) \<noteq> 1 \<or> hd (cert_principals certificate) \<noteq> required_principal
      then Inl ssh_principal_invalid else
      case accounts requested_user of
        None \<Rightarrow> Inl account_unauthorized
      | Some rules \<Rightarrow>
          if requested_user = '''' \<or>
             \<not> list_ex (\<lambda>rule. account_rule_matches rule core (cert_permission_extensions certificate)) rules
          then Inl account_unauthorized
          else
            let ca_type = (if ck_algorithm (core_caller_key core) = es256 then kEcdsaKey else kEd25519Key) in
            Inr \<lparr>carr_core = core, carr_principal = required_principal, carr_ca_key_type = ca_type,
                 carr_ca_public_key_base64 = encode_base64 (cert_signature_key certificate)\<rparr>)"

definition authorize_carrier ::
  "'k openssl \<Rightarrow> CarrierInput \<Rightarrow> CarrierPolicy \<Rightarrow> AccountPolicies \<Rightarrow> Certificate \<Rightarrow> CoreResult \<Rightarrow> CarrierResult expected" where
  "authorize_carrier ossl input carrier_policy accounts certificate core =
     ebind (verify_certificate_signature ossl certificate
              (carrier_algorithm (cert_caller_algorithm certificate))) (\<lambda>_.
     ebind (check_caller_key certificate (core_caller_key core)) (\<lambda>_.
     ebind (check_identity_window carrier_policy (ci_verification_time_unix input) certificate
              (core_credential_valid_until_unix core)) (\<lambda>_.
     ebind (core_principal ossl core (car_certificate_principal_claim carrier_policy)) (\<lambda>required_principal.
       authorize_account accounts (ci_requested_user input) certificate core required_principal))))"

definition verify_carrier ::
  "json_lexer \<Rightarrow> 'k openssl \<Rightarrow> CarrierInput \<Rightarrow> CorePolicy \<Rightarrow> CarrierPolicy \<Rightarrow> AccountPolicies \<Rightarrow> StaticJwks \<Rightarrow>
   openssh_Limits \<Rightarrow> CarrierResult expected \<times> CarrierAuditContext" where
  "verify_carrier lexer ossl input core_policy carrier_policy accounts keys limits =
     (case verify_carrier_token lexer ossl input core_policy carrier_policy keys limits of
        Inl e \<Rightarrow> (Inl e, None)
      | Inr (certificate, core) \<Rightarrow>
          (authorize_carrier ossl input carrier_policy accounts certificate core, Some core))"

section \<open>What a verified token is\<close>

definition token_input :: "'k Cic \<Rightarrow> string \<Rightarrow> string \<Rightarrow> u8 list \<Rightarrow> int \<Rightarrow> VerificationInput" where
  "token_input cic bound payload evidence now =
     \<lparr>vi_evidence_profile = cic_evidence_profile cic, vi_binding_profile = cic_binding_profile cic,
      vi_commitment = bound, vi_issuer_encoded_payload = payload,
      vi_evidence_representation = evidence, vi_verification_time_unix = now\<rparr>"

definition caller_signed :: "'k openssl \<Rightarrow> 'k Cic \<Rightarrow> u8 list \<Rightarrow> u8 list \<Rightarrow> bool" where
  "caller_signed ossl cic message signature \<longleftrightarrow>
     length signature = 64 \<and>
     (case ck_algorithm (cic_key cic) of
        es256 \<Rightarrow> ecdsa_valid ossl (cic_verification_key cic)
                  (octets_nat (take 32 signature)) (octets_nat (drop 32 signature)) message
      | ed25519 \<Rightarrow> ed25519_valid ossl (cic_verification_key cic) signature message)"

lemma check_caller_signature_iff:
  assumes "openssl_bn ossl"
  shows "check_caller_signature ossl cic signing_input signature = Inr u \<longleftrightarrow>
     caller_signed ossl cic (bytes signing_input) signature"
proof (cases "length signature = 64")
  case True
  then have parts: "take 32 signature \<noteq> []" "drop 32 signature \<noteq> []" "length (take 32 signature) \<le> 33"
      "length (drop 32 signature) \<le> 33"
    by auto
  show ?thesis
    using ecdsa_signature_iff [OF assms parts] True
    by (cases "ck_algorithm (cic_key cic)")
      (simp_all add: check_caller_signature_def caller_signed_def ed25519_signature_iff)
qed (simp add: check_caller_signature_def caller_signed_def)

text \<open>Both sides compute the evidence digest over the same octets.\<close>

lemma expected_evidence_digest_eq:
  "expected_evidence_digest ossl (cic_evidence_profile cic) payload evidence =
     evidence_digest ossl (token_input cic bound payload evidence now)"
  by (simp add: expected_evidence_digest_def evidence_digest_def evidence_digest_input_def token_input_def
      append_value_def Let_def)

lemma issuer_verified_consistent:
  assumes r: "issuer_verified lexer ossl (token_input cic bound payload evidence now) policy keys r"
    and bn: "openssl_bn ossl"
  shows "vr_issuer r \<noteq> ''''" "vr_issuer_key_id r \<noteq> ''''" "vr_issuer r = po_issuer policy"
    "vr_binding_profile r = cic_binding_profile cic" "dom (vr_claims r) \<subseteq> po_admitted_claims policy"
    "\<exists>d. expected_evidence_digest ossl (cic_evidence_profile cic) payload evidence = Inr d \<and>
       validate_evidence_result_digest ossl d (vr_verified_evidence_digest r) = Inr ()"
proof -
  show "vr_issuer r = po_issuer policy" "vr_binding_profile r = cic_binding_profile cic"
    using r by (simp_all add: issuer_verified_def token_input_def)
  have "validate_policy (token_input cic bound payload evidence now) policy = Inr ()"
    using r by (simp add: issuer_verified_def)
  then have "9 \<le> length (po_issuer policy)" by (auto simp: validate_policy_def split: if_splits)
  then show "vr_issuer r \<noteq> ''''" using \<open>vr_issuer r = po_issuer policy\<close> by auto
  show "dom (vr_claims r) \<subseteq> po_admitted_claims policy"
    using r by (auto simp: issuer_verified_def admitted_def split: if_splits)
  show "vr_issuer_key_id r \<noteq> ''''"
    using r by (auto simp: issuer_verified_def parse_header_def expected_iffs split: option.splits)
  have "evidence_digest ossl (token_input cic bound payload evidence now) = Inr (vr_verified_evidence_digest r)"
    using r by (simp add: issuer_verified_def)
  then show "\<exists>d. expected_evidence_digest ossl (cic_evidence_profile cic) payload evidence = Inr d \<and>
       validate_evidence_result_digest ossl d (vr_verified_evidence_digest r) = Inr ()"
    using bn by (simp add: expected_evidence_digest_eq [where bound = bound and now = now]
        validate_evidence_result_digest_def digest_equal_def openssl_bn_def)
qed

definition limits_ok :: "CoreLimits \<Rightarrow> bool" where
  "limits_ok limits \<longleftrightarrow>
     0 < core_max_token_bytes limits \<and> core_max_token_bytes limits \<le> kMaximumTokenBytes \<and>
     0 < core_max_evidence_bytes limits \<and> core_max_evidence_bytes limits \<le> kMaximumEvidenceBytes"

definition token_verified ::
  "json_lexer \<Rightarrow> 'k openssl \<Rightarrow> string \<Rightarrow> CorePolicy \<Rightarrow> StaticJwks \<Rightarrow> int \<Rightarrow> CoreResult \<Rightarrow> bool" where
  "token_verified lexer ossl token policy keys now core \<longleftrightarrow>
     limits_ok (cp_limits policy) \<and> length token \<le> core_max_token_bytes (cp_limits policy) \<and>
     cp_caller_algorithms policy \<noteq> {} \<and>
     (\<exists>envelope payload header signature evidence cic r.
        parse_core_envelope lexer token default_strict_limits = Inr envelope \<and>
        decode (env_payload envelope) kMaximumTokenBytes = Inr payload \<and>
        decode (sig_protected_header (env_caller_signature envelope)) kMaximumHeaderBytes = Inr header \<and>
        decode (sig_signature (env_caller_signature envelope)) 128 = Inr signature \<and>
        decode (env_evidence envelope) (core_max_evidence_bytes (cp_limits policy)) = Inr evidence \<and>
        parse_cic lexer ossl (text_of header) policy = Inr cic \<and>
        commitment ossl (text_of header) = Inr (core_commitment core) \<and>
        issuer_verified lexer ossl
          (token_input cic (core_commitment core) (env_payload envelope) evidence now) (cp_issuer_policy policy) keys r \<and>
        caller_signed ossl cic
          (bytes (sig_protected_header (env_caller_signature envelope) @ ''.'' @ env_payload envelope)) signature \<and>
        core = \<lparr>core_issuer = po_issuer (cp_issuer_policy policy), core_claims = vr_claims r,
             core_caller_key = cic_key cic, core_binding_profile = cic_binding_profile cic,
             core_evidence_profile = cic_evidence_profile cic, core_commitment = core_commitment core,
             core_credential_valid_until_unix = vr_credential_valid_until_unix r\<rparr>)"

lemma verify_token_eq:
  assumes bn: "openssl_bn ossl" and now: "int64 now"
  shows "verify_token lexer ossl token policy keys now = Inr core \<longleftrightarrow>
     token_verified lexer ossl token policy keys now core"
proof
  assume *: "verify_token lexer ossl token policy keys now = Inr core"
  then obtain envelope payload header signature evidence cic bound digest r where
    steps: "limits_ok (cp_limits policy)" "length token \<le> core_max_token_bytes (cp_limits policy)"
      "cp_caller_algorithms policy \<noteq> {}" "parse_core_envelope lexer token default_strict_limits = Inr envelope"
      "decode (env_payload envelope) kMaximumTokenBytes = Inr payload"
      "decode (sig_protected_header (env_caller_signature envelope)) kMaximumHeaderBytes = Inr header"
      "decode (sig_signature (env_caller_signature envelope)) 128 = Inr signature"
      "decode (env_evidence envelope) (core_max_evidence_bytes (cp_limits policy)) = Inr evidence"
      "parse_cic lexer ossl (text_of header) policy = Inr cic" "commitment ossl (text_of header) = Inr bound"
    and issuer: "issuer_verify lexer ossl (token_input cic bound (env_payload envelope) evidence now)
        (cp_issuer_policy policy) keys = Inr r" "vr_issuer r = po_issuer (cp_issuer_policy policy)"
    and sig: "check_caller_signature ossl cic
        (sig_protected_header (env_caller_signature envelope) @ ''.'' @ env_payload envelope) signature = Inr ()"
    and core: "core = \<lparr>core_issuer = vr_issuer r, core_claims = vr_claims r,
         core_caller_key = cic_key cic, core_binding_profile = cic_binding_profile cic,
         core_evidence_profile = cic_evidence_profile cic, core_commitment = bound,
         core_credential_valid_until_unix = vr_credential_valid_until_unix r\<rparr>"
    by (simp add: verify_token_def Let_def expected_iffs not_less)
      (elim exE conjE, rule that, (assumption | simp add: limits_ok_def token_input_def)+)
  have "int64 (vi_verification_time_unix (token_input cic bound (env_payload envelope) evidence now))"
    using now by (simp add: token_input_def)
  note verified = issuer_verify_eq [OF bn this, THEN iffD1, OF issuer(1)]
  have "core_commitment core = bound" using core by simp
  then show "token_verified lexer ossl token policy keys now core"
    unfolding token_verified_def
    using steps verified issuer(2) sig core check_caller_signature_iff [OF bn]
    by (intro conjI exI [of _ envelope] exI [of _ payload] exI [of _ header] exI [of _ signature]
        exI [of _ evidence] exI [of _ cic] exI [of _ r]) auto
next
  assume "token_verified lexer ossl token policy keys now core"
  then obtain envelope payload header signature evidence cic r where
    steps: "limits_ok (cp_limits policy)" "length token \<le> core_max_token_bytes (cp_limits policy)"
      "cp_caller_algorithms policy \<noteq> {}" "parse_core_envelope lexer token default_strict_limits = Inr envelope"
      "decode (env_payload envelope) kMaximumTokenBytes = Inr payload"
      "decode (sig_protected_header (env_caller_signature envelope)) kMaximumHeaderBytes = Inr header"
      "decode (sig_signature (env_caller_signature envelope)) 128 = Inr signature"
      "decode (env_evidence envelope) (core_max_evidence_bytes (cp_limits policy)) = Inr evidence"
      "parse_cic lexer ossl (text_of header) policy = Inr cic"
      "commitment ossl (text_of header) = Inr (core_commitment core)"
    and verified: "issuer_verified lexer ossl
        (token_input cic (core_commitment core) (env_payload envelope) evidence now) (cp_issuer_policy policy) keys r"
    and sig: "caller_signed ossl cic
        (bytes (sig_protected_header (env_caller_signature envelope) @ ''.'' @ env_payload envelope)) signature"
    and core: "core = \<lparr>core_issuer = po_issuer (cp_issuer_policy policy), core_claims = vr_claims r,
         core_caller_key = cic_key cic, core_binding_profile = cic_binding_profile cic,
         core_evidence_profile = cic_evidence_profile cic, core_commitment = core_commitment core,
         core_credential_valid_until_unix = vr_credential_valid_until_unix r\<rparr>"
    unfolding token_verified_def by blast
  have now': "int64 (vi_verification_time_unix (token_input cic (core_commitment core) (env_payload envelope) evidence now))"
    using now by (simp add: token_input_def)
  note consistent = issuer_verified_consistent [OF verified bn]
  from consistent(6) obtain d where d:
      "expected_evidence_digest ossl (cic_evidence_profile cic) (env_payload envelope) evidence = Inr d"
      "validate_evidence_result_digest ossl d (vr_verified_evidence_digest r) = Inr ()" by blast
  have "issuer_verify lexer ossl (token_input cic (core_commitment core) (env_payload envelope) evidence now)
      (cp_issuer_policy policy) keys = Inr r"
    using verified by (simp add: issuer_verify_eq [OF bn now'])
  moreover have "check_caller_signature ossl cic
      (sig_protected_header (env_caller_signature envelope) @ ''.'' @ env_payload envelope) signature = Inr ()"
    using sig by (simp add: check_caller_signature_iff [OF bn])
  ultimately have "verify_token lexer ossl token policy keys now =
      Inr \<lparr>core_issuer = po_issuer (cp_issuer_policy policy), core_claims = vr_claims r,
         core_caller_key = cic_key cic, core_binding_profile = cic_binding_profile cic,
         core_evidence_profile = cic_evidence_profile cic, core_commitment = core_commitment core,
         core_credential_valid_until_unix = vr_credential_valid_until_unix r\<rparr>"
    using steps d consistent(1-5)
    by (simp add: verify_token_def limits_ok_def token_input_def Let_def cong: ebind_weak_cong)
  then show "verify_token lexer ossl token policy keys now = Inr core" using core by simp
qed

section \<open>Account rules\<close>

lemma valid_one_of_iff: "valid_one_of vs seen \<longleftrightarrow> distinct vs \<and> '''' \<notin> set vs \<and> set vs \<inter> seen = {}"
  by (induction vs seen rule: valid_one_of.induct) auto

lemma array_contains_iff:
  "array_contains wanted items unique matched \<longleftrightarrow>
     (\<exists>names. items = map JString names \<and> distinct names \<and> set names \<inter> unique = {} \<and> (matched \<or> wanted \<in> set names))"
proof (induction wanted items unique matched rule: array_contains.induct)
  case (2 wanted v items unique matched)
  show ?case
  proof (cases v)
    case (JString x)
    show ?thesis
    proof (cases "x \<in> unique")
      case True
      then show ?thesis using JString by (auto simp: is_string_def get_string_def Cons_eq_map_conv)
    next
      case False
      have "array_contains wanted (v # items) unique matched \<longleftrightarrow>
          array_contains wanted items (insert x unique) (matched \<or> x = wanted)"
        using JString False by (simp add: is_string_def get_string_def)
      also have "\<dots> \<longleftrightarrow> (\<exists>names. items = map JString names \<and> distinct names \<and> set names \<inter> insert x unique = {} \<and>
          ((matched \<or> x = wanted) \<or> wanted \<in> set names))"
        using 2 JString False by (simp add: is_string_def get_string_def)
      finally show ?thesis using JString False by (fastforce simp: Cons_eq_map_conv)
    qed
  qed (auto simp: is_string_def)
qed auto

definition account_predicate :: "Claims \<Rightarrow> Predicate \<Rightarrow> bool" where
  "account_predicate claims p \<longleftrightarrow> pr_claim p \<noteq> '''' \<and>
     (case pr_operation p of
        string_equals \<Rightarrow> pr_values p = [] \<and> claims (pr_claim p) = Some (JString (pr_value p))
      | string_one_of \<Rightarrow> pr_value p = '''' \<and> distinct (pr_values p) \<and> '''' \<notin> set (pr_values p) \<and>
          (\<exists>s\<in>set (pr_values p). claims (pr_claim p) = Some (JString s))
      | string_array_contains \<Rightarrow> pr_values p = [] \<and>
          (\<exists>names. claims (pr_claim p) = Some (JArray (map JString names)) \<and> distinct names \<and> pr_value p \<in> set names))"

lemma account_predicate_eq: "account_predicate_matches claims p \<longleftrightarrow> account_predicate claims p"
proof (cases "claims (pr_claim p)")
  case (Some v)
  show ?thesis
    by (cases "pr_operation p"; cases v)
      (auto simp: account_predicate_matches_def account_predicate_def Some is_string_iff get_string_def
        valid_one_of_iff array_contains_iff)
qed (auto simp: account_predicate_matches_def account_predicate_def split: PredicateOperation.splits)

lemma account_predicate_stricter: "account_predicate claims p \<Longrightarrow> predicate_matches claims p"
  by (auto simp: account_predicate_def predicate_matches_def list_ex_iff is_string_def get_string_def
      split: PredicateOperation.splits)

definition account_rule :: "AccountRule \<Rightarrow> CoreResult \<Rightarrow> string list \<Rightarrow> bool" where
  "account_rule rule core extensions \<longleftrightarrow>
     ar_issuer rule \<noteq> '''' \<and> ar_issuer rule = core_issuer core \<and>
     (\<forall>p\<in>set (ar_all rule). account_predicate (core_claims core) p) \<and>
     set extensions \<subseteq> ar_allowed_certificate_extensions rule"

lemma account_rule_eq: "account_rule_matches rule core extensions \<longleftrightarrow> account_rule rule core extensions"
  by (auto simp: account_rule_matches_def account_rule_def account_predicate_eq list_all_iff)

section \<open>The window of the identity\<close>

definition identity_window :: "CarrierPolicy \<Rightarrow> int \<Rightarrow> Certificate \<Rightarrow> int \<Rightarrow> bool" where
  "identity_window policy now c until \<longleftrightarrow>
     (let skew = car_clock_skew_seconds policy; lifetime = car_maximum_identity_lifetime_seconds policy;
          after = uint (cert_valid_after c); before = uint (cert_valid_before c)
      in int64 (now + skew) \<and> int64 (now - skew) \<and>
         after \<le> now + skew \<and> now - skew < before \<and> before \<le> until \<and>
         (0 < lifetime \<longrightarrow> after + lifetime < 2 ^ 64 \<and> before \<le> after + lifetime))"

lemma uint_u64_of_int: "0 \<le> i \<Longrightarrow> int64 i \<Longrightarrow> uint (of_int i :: u64) = i"
  by (simp add: uint_word_of_int int64_def int64_max_def)

lemma u64_less_of_int: "0 \<le> i \<Longrightarrow> int64 i \<Longrightarrow> (of_int i :: u64) < w \<longleftrightarrow> i < uint w"
  by (simp add: word_less_def uint_u64_of_int)

lemma u64_le_of_int: "0 \<le> i \<Longrightarrow> int64 i \<Longrightarrow> w \<le> (of_int i :: u64) \<longleftrightarrow> uint w \<le> i"
  by (simp add: word_le_def uint_u64_of_int)

lemma lifetime_overflow:
  assumes "0 \<le> i" "int64 i"
  shows "- 1 - (of_int i :: u64) < w \<longleftrightarrow> 2 ^ 64 \<le> uint w + i"
    "uint w + i < 2 ^ 64 \<Longrightarrow> uint (w + of_int i) = uint w + i"
proof -
  have "uint (- 1 - (of_int i :: u64)) = 2 ^ 64 - 1 - i"
    using assms by (simp add: uint_word_ariths uint_u64_of_int int64_def int64_max_def)
  then show "- 1 - (of_int i :: u64) < w \<longleftrightarrow> 2 ^ 64 \<le> uint w + i" by (auto simp: word_less_def)
  show "uint w + i < 2 ^ 64 \<Longrightarrow> uint (w + of_int i) = uint w + i"
    using assms by (simp add: uint_plus_simple_iff [symmetric] uint_word_ariths uint_u64_of_int)
qed

lemma check_identity_window_iff:
  assumes now: "int64 now" and until: "int64 until" and lifetime: "int64 (car_maximum_identity_lifetime_seconds policy)"
  shows "check_identity_window policy now c until = Inr u \<longleftrightarrow> identity_window policy now c until"
proof -
  let ?skew = "car_clock_skew_seconds policy" and ?lifetime = "car_maximum_identity_lifetime_seconds policy"
  let ?after = "cert_valid_after c" and ?before = "cert_valid_before c"
  show ?thesis
  proof (cases "int64 (now + ?skew) \<and> int64 (now - ?skew)")
    case True
    define a b where ab: "a = now + ?skew" "b = now - ?skew"
    have int: "int64 a" "int64 b" using True by (simp_all add: ab)
    have add: "checked_add now ?skew k = Inr a" "checked_add now (- ?skew) k = Inr b" for k
      using True checked_add_iff [OF now] by (simp_all add: ab)
    have not_yet: "(a < 0 \<or> (of_int a :: u64) < ?after) \<longleftrightarrow> \<not> uint ?after \<le> a"
      using int(1) uint_ge_0 [of ?after] u64_less_of_int [of a ?after] by linarith
    have expired: "(0 \<le> b \<and> ?before \<le> (of_int b :: u64)) \<longleftrightarrow> \<not> b < uint ?before"
      using int(2) uint_ge_0 [of ?before] u64_le_of_int [of b ?before] by linarith
    have nonneg: "uint ?before \<le> until \<Longrightarrow> 0 \<le> until"
      using uint_ge_0 [of ?before] by linarith
    have window: "check_identity_window policy now c until = Inr u \<longleftrightarrow>
        uint ?after \<le> a \<and> b < uint ?before \<and> 0 \<le> until \<and>
        (if 0 < ?lifetime then \<not> - 1 - (of_int ?lifetime :: u64) < ?after \<and>
           ?before \<le> of_int until \<and> ?before \<le> ?after + of_int ?lifetime
         else ?before \<le> (of_int until :: u64))"
      unfolding check_identity_window_def add ebind_simps not_yet expired Let_def
      by (auto simp: ebind_Inr_iff not_less min_less_iff_disj)
    show ?thesis
    proof (cases "0 < ?lifetime")
      case life: True
      then have "\<not> - 1 - (of_int ?lifetime :: u64) < ?after \<longleftrightarrow> uint ?after + ?lifetime < 2 ^ 64"
        using lifetime_overflow(1) [OF _ lifetime, of ?after] by linarith
      then show ?thesis
        unfolding window using int life until nonneg lifetime_overflow(2) [OF _ lifetime, of ?after]
        by (auto simp: identity_window_def Let_def ab [symmetric] word_le_def uint_u64_of_int)
    next
      case False
      then show ?thesis
        unfolding window using int until nonneg
        by (auto simp: identity_window_def Let_def ab [symmetric] word_le_def uint_u64_of_int)
    qed
  next
    case False
    then show ?thesis
      using checked_add_iff [OF now, of ?skew] checked_add_iff [OF now, of "- ?skew"]
      by (auto simp: check_identity_window_def identity_window_def ebind_Inr_iff Let_def)
  qed
qed

section \<open>What an authorized carrier is\<close>

definition principal_of :: "'k openssl \<Rightarrow> CoreResult \<Rightarrow> string \<Rightarrow> string \<Rightarrow> bool" where
  "principal_of ossl core claim_name name \<longleftrightarrow>
     claim_name \<noteq> '''' \<and>
     (\<exists>v digest. core_claims core claim_name = Some (JString v) \<and> v \<noteq> '''' \<and> length v \<le> kMaximumPrincipalClaimBytes \<and>
        digest_sha256 ossl (principal_input (core_issuer core) claim_name v) = Inr digest \<and>
        name = ''credbind-v1-'' @ encode_base64url digest)"

lemma core_principal_iff: "core_principal ossl core claim_name = Inr name \<longleftrightarrow> principal_of ossl core claim_name name"
  by (auto simp: core_principal_def principal_of_def expected_iffs split: option.splits json.splits)

lemma check_caller_key_iff:
  "check_caller_key c key = Inr u \<longleftrightarrow>
     ck_algorithm key = carrier_algorithm (cert_caller_algorithm c) \<and> ck_canonical_public_key key = cert_certified_key c"
  by (cases "cert_caller_algorithm c"; cases "ck_algorithm key")
    (auto simp: check_caller_key_def carrier_algorithm_def Let_def)

lemma window_until_int64: "credential_window input policy claims until \<Longrightarrow> int64 until"
  by (auto simp: credential_window_def Let_def min_def dest!: integer_claim_int64 split: if_splits)

lemma token_verified_until: "token_verified lexer ossl token policy keys now core \<Longrightarrow> int64 (core_credential_valid_until_unix core)"
  unfolding token_verified_def issuer_verified_def
  by (metis CoreResult.select_convs(7) window_until_int64)

definition carrier_authorized ::
  "json_lexer \<Rightarrow> 'k openssl \<Rightarrow> CarrierInput \<Rightarrow> CorePolicy \<Rightarrow> CarrierPolicy \<Rightarrow> AccountPolicies \<Rightarrow> StaticJwks \<Rightarrow>
   openssh_Limits \<Rightarrow> CarrierResult \<Rightarrow> bool" where
  "carrier_authorized lexer ossl input core_policy policy accounts keys limits result \<longleftrightarrow>
     0 \<le> car_clock_skew_seconds policy \<and> 0 \<le> car_maximum_identity_lifetime_seconds policy \<and>
     valid_requested_user (ci_requested_user input) \<and>
     (\<exists>nonce c rules rule.
        ci_certificate_blob input = certificate_blob nonce c \<and> certificate_wf limits nonce c \<and>
        ci_key_type_argument input = certificate_name (cert_caller_algorithm c) \<and>
        token_verified lexer ossl (text_of (cert_token c)) core_policy keys (ci_verification_time_unix input) (carr_core result) \<and>
        certificate_signed ossl c \<and>
        ck_algorithm (core_caller_key (carr_core result)) = carrier_algorithm (cert_caller_algorithm c) \<and>
        ck_canonical_public_key (core_caller_key (carr_core result)) = cert_certified_key c \<and>
        identity_window policy (ci_verification_time_unix input) c (core_credential_valid_until_unix (carr_core result)) \<and>
        principal_of ossl (carr_core result) (car_certificate_principal_claim policy) (carr_principal result) \<and>
        cert_principals c = [carr_principal result] \<and>
        accounts (ci_requested_user input) = Some rules \<and> rule \<in> set rules \<and>
        account_rule rule (carr_core result) (cert_permission_extensions c) \<and>
        carr_ca_key_type result = key_name (cert_caller_algorithm c) \<and>
        carr_ca_public_key_base64 result = encode_base64 (cert_signature_key c))"

lemma verify_carrier_token_iff:
  assumes bn: "openssl_bn ossl" and now: "int64 (ci_verification_time_unix input)"
  shows "verify_carrier_token lexer ossl input core_policy policy keys limits = Inr (c, core) \<longleftrightarrow>
     0 \<le> car_clock_skew_seconds policy \<and> 0 \<le> car_maximum_identity_lifetime_seconds policy \<and>
     valid_requested_user (ci_requested_user input) \<and>
     (\<exists>nonce. ci_certificate_blob input = certificate_blob nonce c \<and> certificate_wf limits nonce c) \<and>
     ci_key_type_argument input = certificate_name (cert_caller_algorithm c) \<and>
     token_verified lexer ossl (text_of (cert_token c)) core_policy keys (ci_verification_time_unix input) core"
proof -
  have cert: "parse_certificate (ci_certificate_blob input) limits = Inr c \<longleftrightarrow>
      (\<exists>nonce. ci_certificate_blob input = certificate_blob nonce c \<and> certificate_wf limits nonce c)" for c
    using parse_certificate_sound [of "ci_certificate_blob input" limits c] parse_certificate_complete [of limits _ c] by blast
  have name: "(if a = openssh_es256 then kEcdsaCertificate else kEd25519Certificate) = certificate_name a" for a
    by (cases a) simp_all
  have nonempty: "certificate_name a \<noteq> ''''" for a
    by (cases a) (simp_all add: kEcdsaCertificate_def kEd25519Certificate_def)
  show ?thesis
    unfolding verify_carrier_token_def name Let_def cert [symmetric] verify_token_eq [OF bn now, symmetric]
    using nonempty [of "cert_caller_algorithm c"]
    by (cases "ci_key_type_argument input = ''''") (auto simp: expected_iffs)
qed

lemma authorize_account_iff:
  assumes user: "user \<noteq> ''''"
    and key: "ck_algorithm (core_caller_key core) = carrier_algorithm (cert_caller_algorithm c)"
  shows "authorize_account accounts user c core name = Inr result \<longleftrightarrow>
     (\<exists>rules rule. cert_principals c = [name] \<and> accounts user = Some rules \<and> rule \<in> set rules \<and>
        account_rule rule core (cert_permission_extensions c) \<and>
        result = \<lparr>carr_core = core, carr_principal = name, carr_ca_key_type = key_name (cert_caller_algorithm c),
                  carr_ca_public_key_base64 = encode_base64 (cert_signature_key c)\<rparr>)"
proof -
  have one: "\<not> (length ps \<noteq> 1 \<or> hd ps \<noteq> name) \<longleftrightarrow> ps = [name]" for ps
    by (cases ps) auto
  have ca: "(if ck_algorithm (core_caller_key core) = es256 then kEcdsaKey else kEd25519Key) = key_name (cert_caller_algorithm c)"
    using key by (cases "cert_caller_algorithm c") (simp_all add: carrier_algorithm_def)
  show ?thesis
  proof (cases "cert_principals c = [name]")
    case True
    then show ?thesis
      unfolding authorize_account_def ca using user
      by (cases "accounts user") (auto simp: account_rule_eq list_ex_iff)
  next
    case False
    then have "length (cert_principals c) \<noteq> 1 \<or> hd (cert_principals c) \<noteq> name" using one by blast
    then show ?thesis using False by (simp add: authorize_account_def)
  qed
qed

lemma authorize_carrier_iff:
  assumes bn: "openssl_bn ossl" and now: "int64 (ci_verification_time_unix input)"
    and until: "int64 (core_credential_valid_until_unix core)" and wf: "certificate_wf limits nonce c"
    and lifetime: "int64 (car_maximum_identity_lifetime_seconds policy)"
    and user: "ci_requested_user input \<noteq> ''''"
  shows "authorize_carrier ossl input policy accounts c core = Inr result \<longleftrightarrow>
     certificate_signed ossl c \<and>
     ck_algorithm (core_caller_key core) = carrier_algorithm (cert_caller_algorithm c) \<and>
     ck_canonical_public_key (core_caller_key core) = cert_certified_key c \<and>
     identity_window policy (ci_verification_time_unix input) c (core_credential_valid_until_unix core) \<and>
     (\<exists>name rules rule. principal_of ossl core (car_certificate_principal_claim policy) name \<and>
        cert_principals c = [name] \<and> accounts (ci_requested_user input) = Some rules \<and> rule \<in> set rules \<and>
        account_rule rule core (cert_permission_extensions c) \<and>
        result = \<lparr>carr_core = core, carr_principal = name, carr_ca_key_type = key_name (cert_caller_algorithm c),
                  carr_ca_public_key_base64 = encode_base64 (cert_signature_key c)\<rparr>)"
proof -
  have result: "authorize_account accounts (ci_requested_user input) c core name = Inr result \<longleftrightarrow>
      cert_principals c = [name] \<and> (\<exists>rules rule. accounts (ci_requested_user input) = Some rules \<and> rule \<in> set rules \<and>
        account_rule rule core (cert_permission_extensions c) \<and>
        result = \<lparr>carr_core = core, carr_principal = name, carr_ca_key_type = key_name (cert_caller_algorithm c),
                  carr_ca_public_key_base64 = encode_base64 (cert_signature_key c)\<rparr>)"
    if "ck_algorithm (core_caller_key core) = carrier_algorithm (cert_caller_algorithm c)" for name
    unfolding authorize_account_iff [OF user that] by blast
  show ?thesis
    unfolding authorize_carrier_def ebind_Inr_iff core_principal_iff
    using verify_certificate_signature_iff [OF bn wf] check_caller_key_iff [of c "core_caller_key core"]
      check_identity_window_iff [OF now until lifetime, of c] result
    by auto
qed

lemma verify_carrier_eq:
  assumes bn: "openssl_bn ossl" and now: "int64 (ci_verification_time_unix input)"
    and lifetime: "int64 (car_maximum_identity_lifetime_seconds policy)"
  shows "fst (verify_carrier lexer ossl input core_policy policy accounts keys limits) = Inr result \<longleftrightarrow>
     carrier_authorized lexer ossl input core_policy policy accounts keys limits result"
proof -
  have user: "ci_requested_user input \<noteq> ''''" if "valid_requested_user (ci_requested_user input)"
    using that by (auto simp: valid_requested_user_def)
  have "fst (verify_carrier lexer ossl input core_policy policy accounts keys limits) = Inr result \<longleftrightarrow>
      (\<exists>c core. verify_carrier_token lexer ossl input core_policy policy keys limits = Inr (c, core) \<and>
         authorize_carrier ossl input policy accounts c core = Inr result)"
    by (auto simp: verify_carrier_def split: sum.splits)
  also have "\<dots> \<longleftrightarrow> carrier_authorized lexer ossl input core_policy policy accounts keys limits result"
    (is "?L \<longleftrightarrow> ?R")
  proof
    assume ?L
    then obtain c core where t: "verify_carrier_token lexer ossl input core_policy policy keys limits = Inr (c, core)"
        and a: "authorize_carrier ossl input policy accounts c core = Inr result" by blast
    from t obtain nonce where wf: "certificate_wf limits nonce c" "ci_certificate_blob input = certificate_blob nonce c"
        and v: "valid_requested_user (ci_requested_user input)"
          "token_verified lexer ossl (text_of (cert_token c)) core_policy keys (ci_verification_time_unix input) core"
      unfolding verify_carrier_token_iff [OF bn now] by blast
    from t have policy: "0 \<le> car_clock_skew_seconds policy" "0 \<le> car_maximum_identity_lifetime_seconds policy"
        "ci_key_type_argument input = certificate_name (cert_caller_algorithm c)"
      unfolding verify_carrier_token_iff [OF bn now] by blast+
    from a obtain name rules rule where checks: "certificate_signed ossl c"
        "ck_algorithm (core_caller_key core) = carrier_algorithm (cert_caller_algorithm c)"
        "ck_canonical_public_key (core_caller_key core) = cert_certified_key c"
        "identity_window policy (ci_verification_time_unix input) c (core_credential_valid_until_unix core)"
        "principal_of ossl core (car_certificate_principal_claim policy) name" "cert_principals c = [name]"
        "accounts (ci_requested_user input) = Some rules" "rule \<in> set rules"
        "account_rule rule core (cert_permission_extensions c)"
      and result: "result = \<lparr>carr_core = core, carr_principal = name, carr_ca_key_type = key_name (cert_caller_algorithm c),
                  carr_ca_public_key_base64 = encode_base64 (cert_signature_key c)\<rparr>"
      unfolding authorize_carrier_iff [OF bn now token_verified_until [OF v(2)] wf(1) lifetime user [OF v(1)]]
      by blast
    show ?R
      unfolding carrier_authorized_def
      by (intro conjI exI [of _ nonce] exI [of _ c] exI [of _ rules] exI [of _ rule])
        (simp_all only: result CarrierResult.select_convs policy wf v checks)
  next
    assume R: ?R
    then obtain nonce c where wf: "certificate_wf limits nonce c" "ci_certificate_blob input = certificate_blob nonce c"
        and v: "valid_requested_user (ci_requested_user input)"
          "token_verified lexer ossl (text_of (cert_token c)) core_policy keys (ci_verification_time_unix input) (carr_core result)"
      and r: "0 \<le> car_clock_skew_seconds policy" "0 \<le> car_maximum_identity_lifetime_seconds policy"
        "ci_key_type_argument input = certificate_name (cert_caller_algorithm c)" "certificate_signed ossl c"
        "ck_algorithm (core_caller_key (carr_core result)) = carrier_algorithm (cert_caller_algorithm c)"
        "ck_canonical_public_key (core_caller_key (carr_core result)) = cert_certified_key c"
        "identity_window policy (ci_verification_time_unix input) c (core_credential_valid_until_unix (carr_core result))"
        "\<exists>rules rule. principal_of ossl (carr_core result) (car_certificate_principal_claim policy) (carr_principal result) \<and>
          cert_principals c = [carr_principal result] \<and> accounts (ci_requested_user input) = Some rules \<and> rule \<in> set rules \<and>
          account_rule rule (carr_core result) (cert_permission_extensions c)"
        "carr_ca_key_type result = key_name (cert_caller_algorithm c)"
        "carr_ca_public_key_base64 result = encode_base64 (cert_signature_key c)"
      unfolding carrier_authorized_def by blast
    have "verify_carrier_token lexer ossl input core_policy policy keys limits = Inr (c, carr_core result)"
      unfolding verify_carrier_token_iff [OF bn now] using wf v r by blast
    moreover have "authorize_carrier ossl input policy accounts c (carr_core result) = Inr result"
      unfolding authorize_carrier_iff [OF bn now token_verified_until [OF v(2)] wf(1) lifetime user [OF v(1)]]
      using r by (cases result) auto
    ultimately show ?L by blast
  qed
  finally show ?thesis .
qed

section \<open>What the hashed inputs bind\<close>

lemma gq_field_prefix_free:
  assumes "length v < 2 ^ 64" "length w < 2 ^ 64" "gq_field v @ s = gq_field w @ t"
  shows "v = w \<and> s = t"
proof -
  have "(of_nat (length v) :: u64) = of_nat (length w)" "v @ s = w @ t"
    using assms(3) by (auto simp: gq_field_def append_eq_append_conv)
  moreover have "unat (of_nat (length u) :: u64) = length u" if "length u < 2 ^ 64" for u :: "u8 list"
    using that by (simp add: unat_of_nat)
  ultimately have "length v = length w" using assms(1,2) by metis
  then show ?thesis using \<open>v @ s = w @ t\<close> by simp
qed

text \<open>
  C25. Principals bind what they name: hash inputs of principals are equal only for the same
  issuer, claim name and claim value, with no boundary to shift between them.
\<close>

theorem principal_input_binds:
  assumes "principal_input issuer name v = principal_input issuer' name' v'"
    and "length issuer < 2 ^ 64" "length issuer' < 2 ^ 64" "length name < 2 ^ 64" "length name' < 2 ^ 64"
    and "length v < 2 ^ 64" "length v' < 2 ^ 64"
  shows "issuer = issuer' \<and> name = name' \<and> v = v'"
proof -
  have "gq_field (bytes issuer) @ gq_field (bytes name) @ gq_field (bytes v) @ [] =
      gq_field (bytes issuer') @ gq_field (bytes name') @ gq_field (bytes v') @ []"
    using assms(1) by (simp add: principal_input_def append_value_field)
  then have "bytes issuer = bytes issuer' \<and> bytes name = bytes name' \<and> bytes v = bytes v'"
    using assms(2-) gq_field_prefix_free by (metis length_bytes)
  then show ?thesis by simp
qed

text \<open>
  The digest that ties an issuer's result to the evidence is computed over inputs that are
  equal only for the same profile, payload and evidence.
\<close>

theorem evidence_digest_input_binds:
  assumes "evidence_digest_input profile payload evidence = evidence_digest_input profile' payload' evidence'"
    and "length profile < 2 ^ 64" "length profile' < 2 ^ 64" "length payload < 2 ^ 64" "length payload' < 2 ^ 64"
    and "length evidence < 2 ^ 64" "length evidence' < 2 ^ 64"
  shows "profile = profile' \<and> payload = payload' \<and> evidence = evidence'"
proof -
  have "gq_field (bytes profile) @ gq_field (bytes payload) @ gq_field evidence @ [] =
      gq_field (bytes profile') @ gq_field (bytes payload') @ gq_field evidence' @ []"
    using assms(1) by (simp add: evidence_digest_input_def append_value_field)
  then have "bytes profile = bytes profile' \<and> bytes payload = bytes payload' \<and> evidence = evidence'"
    using assms(2-) gq_field_prefix_free by (metis length_bytes)
  then show ?thesis by simp
qed

section \<open>Properties\<close>

text \<open>
  C4. A token is verified exactly when its specification holds: limits, a well-formed envelope
  of exact Base64url parts, an accepted caller header, issuer evidence that verifies for the
  commitment to that very header and for that payload, and the caller's signature over header and
  payload under the key of the header. The consistency checks on the issuer's result never fail.
\<close>

theorem verify_token_iff:
  assumes "openssl_bn ossl" "int64 now"
  shows "verify_token lexer ossl token policy keys now = Inr core \<longleftrightarrow>
     token_verified lexer ossl token policy keys now core"
  by (rule verify_token_eq [OF assms])

text \<open>
  C3. A carrier is authorized exactly when its specification holds: a valid user name, a
  well-formed certificate of the announced type, signed by its CA, whose token is verified and
  whose certified key is the caller key, whose window lies within the clock, the credential and
  the lifetime policy, whose one principal is the one derived from the verified claims, and an
  account rule of the user that matches issuer, claims and every permission extension.
\<close>

theorem verify_carrier_iff:
  assumes "openssl_bn ossl" "int64 (ci_verification_time_unix input)"
    and "int64 (car_maximum_identity_lifetime_seconds policy)"
  shows "fst (verify_carrier lexer ossl input core_policy policy accounts keys limits) = Inr result \<longleftrightarrow>
     carrier_authorized lexer ossl input core_policy policy accounts keys limits result"
  by (rule verify_carrier_eq [OF assms])

text \<open>
  C5. Default deny: a user for whom no account rule names the configured issuer is never
  authorized, whatever certificate and token are presented.
\<close>

theorem verify_carrier_default_deny:
  assumes "openssl_bn ossl" "int64 (ci_verification_time_unix input)"
    and "int64 (car_maximum_identity_lifetime_seconds policy)"
    and "\<And>rules rule. accounts (ci_requested_user input) = Some rules \<Longrightarrow> rule \<in> set rules \<Longrightarrow>
           ar_issuer rule \<noteq> po_issuer (cp_issuer_policy core_policy)"
  shows "\<exists>e. fst (verify_carrier lexer ossl input core_policy policy accounts keys limits) = Inl e"
proof (cases "fst (verify_carrier lexer ossl input core_policy policy accounts keys limits)")
  case (Inr result)
  then have "carrier_authorized lexer ossl input core_policy policy accounts keys limits result"
    by (simp add: verify_carrier_eq [OF assms(1-3)])
  then obtain rules rule where "accounts (ci_requested_user input) = Some rules" "rule \<in> set rules"
      "ar_issuer rule = core_issuer (carr_core result)" "\<exists>t now. token_verified lexer ossl t core_policy keys now (carr_core result)"
    unfolding carrier_authorized_def account_rule_def by blast
  moreover from this(4) have "core_issuer (carr_core result) = po_issuer (cp_issuer_policy core_policy)"
    unfolding token_verified_def by (metis CoreResult.select_convs(1))
  ultimately show ?thesis using assms(4) by metis
qed simp

text \<open>
  What the audit context records: a core result exactly when the input and the certificate
  were accepted and the token was verified, whatever the decision about the account.
\<close>

theorem verify_carrier_audit:
  assumes "openssl_bn ossl" "int64 (ci_verification_time_unix input)"
  shows "snd (verify_carrier lexer ossl input core_policy policy accounts keys limits) = Some core \<longleftrightarrow>
     0 \<le> car_clock_skew_seconds policy \<and> 0 \<le> car_maximum_identity_lifetime_seconds policy \<and>
     valid_requested_user (ci_requested_user input) \<and>
     (\<exists>c nonce. ci_certificate_blob input = certificate_blob nonce c \<and> certificate_wf limits nonce c \<and>
        ci_key_type_argument input = certificate_name (cert_caller_algorithm c) \<and>
        token_verified lexer ossl (text_of (cert_token c)) core_policy keys (ci_verification_time_unix input) core)"
proof -
  have "snd (verify_carrier lexer ossl input core_policy policy accounts keys limits) = Some core \<longleftrightarrow>
      (\<exists>c. verify_carrier_token lexer ossl input core_policy policy keys limits = Inr (c, core))"
    by (auto simp: verify_carrier_def split: sum.splits)
  then show ?thesis
    unfolding verify_carrier_token_iff [OF assms] by blast
qed

text \<open>
  An authorized carrier's audit context holds the core result that was authorized.
\<close>

theorem verify_carrier_audit_core:
  assumes "fst (verify_carrier lexer ossl input core_policy policy accounts keys limits) = Inr result"
  shows "snd (verify_carrier lexer ossl input core_policy policy accounts keys limits) = Some (carr_core result)"
  using assms
  by (auto simp: verify_carrier_def authorize_carrier_def authorize_account_def Let_def expected_iffs
      split: sum.splits option.splits if_splits)

text \<open>
  C24. The window of an identity, without overflow: the certificate is valid at the time of
  verification, give or take the skew, and ends no later than the credential and the lifetime
  policy allow; sums outside the 64-bit ranges are refused.
\<close>

theorem identity_window_iff:
  assumes "int64 now" "int64 until" "int64 (car_maximum_identity_lifetime_seconds policy)"
  shows "check_identity_window policy now c until = Inr u \<longleftrightarrow> identity_window policy now c until"
  by (rule check_identity_window_iff [OF assms])

text \<open>
  An account predicate holds exactly when it is well-formed (no unused operands, distinct
  non-empty alternatives) and the claim is the value, one of the alternatives, or an array of
  distinct strings that contains the value.
\<close>

theorem account_predicate_iff:
  "account_predicate_matches claims p \<longleftrightarrow> account_predicate claims p"
  by (rule account_predicate_eq)

text \<open>
  Account predicates are no weaker than the issuer policy's: what matches in an account rule
  matches as a required claim.
\<close>

theorem account_predicate_refines:
  assumes "account_predicate_matches claims p"
  shows "predicate_matches claims p"
  using assms account_predicate_stricter by (simp add: account_predicate_eq)

section \<open>An authorized carrier\<close>

definition demo_commitment :: string where
  "demo_commitment = encode_base64url (replicate 32 0)"

definition bound_claims :: json where
  "bound_claims = JObject
     [(''iss'', JString ''https://i''), (''aud'', JArray [JString ''b'', JString ''a'']),
      (''nonce'', JString demo_commitment), (''iat'', JInteger 100), (''exp'', JUnsigned 200), (''sub'', JString ''u'')]"

definition demo_evidence :: "u8 list" where
  "demo_evidence = standard_evidence (encode_base64url (bytes ''h'')) (replicate 256 1)"

definition demo_envelope :: CoreEnvelope where
  "demo_envelope =
     \<lparr>env_payload = encode_base64url (bytes ''p''),
      env_caller_signature = \<lparr>sig_protected_header = encode_base64url (bytes ''q''),
        sig_signature = encode_base64url (replicate 64 1)\<rparr>,
      env_evidence = encode_base64url demo_evidence\<rparr>"

definition demo_envelope_document :: json where
  "demo_envelope_document =
     JObject [(''signatures'', JArray [JObject [(''signature'', JString (encode_base64url (replicate 64 1))),
        (''protected'', JString (encode_base64url (bytes ''q'')))]]),
      (''payload'', JString (encode_base64url (bytes ''p''))), (''credbind_evidence'', JString (encode_base64url demo_evidence))]"

definition token_lexer :: json_lexer where
  "token_lexer input = events_of
     (if input = ''t'' then demo_envelope_document else if input = ''q'' then demo_cic_document
      else if input = ''h'' then demo_header else bound_claims)"

text \<open>Any lexer that reads the documents of the carrier will do.\<close>

definition demo_lexing :: "json_lexer \<Rightarrow> bool" where
  "demo_lexing lexer \<longleftrightarrow>
     lexer ''t'' = events_of demo_envelope_document \<and> lexer ''q'' = events_of demo_cic_document \<and>
     lexer ''h'' = events_of demo_header \<and> lexer ''p'' = events_of bound_claims"

lemma token_lexing: "demo_lexing token_lexer"
  by (simp add: demo_lexing_def token_lexer_def)

lemma bound_claims_object:
  "object_claims bound_claims = [''iss'' \<mapsto> JString ''https://i'', ''aud'' \<mapsto> JArray [JString ''b'', JString ''a''],
     ''nonce'' \<mapsto> JString demo_commitment, ''iat'' \<mapsto> JInteger 100, ''exp'' \<mapsto> JUnsigned 200, ''sub'' \<mapsto> JString ''u'']"
  by (auto simp: object_claims_def bound_claims_def fun_eq_iff)

lemma bound_claims_parse:
  assumes "demo_lexing lexer"
  shows "parse_object lexer ''p'' = Inr (object_claims bound_claims)"
proof -
  have "document_ok object_bounds bound_claims"
    by (simp add: document_ok_def bound_claims_def kMaximumJsonDepth_def kMaximumJsonValues_def
        kMaximumJsonMembers_def kMaximumJsonKeyBytes_def scalar_ok_def)
  then show ?thesis
    using assms by (simp add: parse_object_eq [of lexer "''p''" bound_claims] demo_lexing_def kMaximumJsonBytes_def)
qed

lemma issuer_header_parse:
  assumes "demo_lexing lexer"
  shows "parse_header lexer (encode_base64url (bytes ''h'')) = Inr \<lparr>hdr_algorithm = ''RS256'', hdr_kid = ''k''\<rparr>"
proof -
  have "decode (encode_base64url (bytes ''h'')) kMaximumJsonBytes = Inr (bytes ''h'')"
    by (rule decode_encode_base64url) (simp_all add: kMaximumJsonBytes_def)
  moreover have "parse_object lexer ''h'' = Inr (object_claims demo_header)"
    using demo_documents(2) assms
    by (simp add: parse_object_eq [of lexer "''h''" demo_header] demo_lexing_def kMaximumJsonBytes_def)
  moreover have "object_claims demo_header = [''alg'' \<mapsto> JString ''RS256'', ''kid'' \<mapsto> JString ''k'']"
    by (auto simp: object_claims_def demo_header_def fun_eq_iff)
  ultimately show ?thesis
    by (simp add: parse_header_def prohibited_parameters_def string_claim_def)
qed

definition demo_token_input :: VerificationInput where
  "demo_token_input = token_input demo_cic demo_commitment (encode_base64url (bytes ''p'')) demo_evidence 150"

lemma demo_token_input_simps [simp]:
  "vi_evidence_profile demo_token_input = kStandardEvidence" "vi_binding_profile demo_token_input = kOidcNonceBinding"
  "vi_commitment demo_token_input = demo_commitment"
  "vi_issuer_encoded_payload demo_token_input = encode_base64url (bytes ''p'')"
  "vi_evidence_representation demo_token_input = demo_evidence" "vi_verification_time_unix demo_token_input = 150"
  by (simp_all add: demo_token_input_def token_input_def demo_cic_def)

lemma bound_window: "credential_window demo_token_input demo_issuer_policy (object_claims bound_claims) 160"
proof -
  have "integer_claim (object_claims bound_claims) ''iat'' = Some 100"
    "integer_claim (object_claims bound_claims) ''exp'' = Some 200"
    "object_claims bound_claims ''nbf'' = None"
    by (simp_all add: integer_claim_def bound_claims_object)
  then show ?thesis
    by (simp add: credential_window_def demo_issuer_policy_def int64_def int64_min_def int64_max_def)
qed

lemma bound_admitted: "claims_admitted demo_token_input demo_issuer_policy (object_claims bound_claims)"
proof -
  have "audience_allowed (JArray [JString ''b'', JString ''a'']) {''a''}"
    by (simp add: audience_allowed_def)
  moreover have "string_claim (object_claims bound_claims) ''iss'' = Some ''https://i''"
    "string_claim (object_claims bound_claims) ''nonce'' = Some demo_commitment"
    "object_claims bound_claims ''aud'' = Some (JArray [JString ''b'', JString ''a''])"
    "object_claims bound_claims ''sub'' = Some (JString ''u'')"
    by (simp_all add: string_claim_def bound_claims_object)
  ultimately show ?thesis
    using profiles_distinct
    by (simp add: claims_admitted_def claims_bound_def party_authorized_def demo_issuer_policy_def predicate_matches_def)
qed

definition demo_token_result :: VerificationResult where
  "demo_token_result = \<lparr>vr_issuer = ''https://i'', vr_issuer_key_id = ''k'', vr_binding_profile = kOidcNonceBinding,
     vr_claims = admitted {''sub''} (object_claims bound_claims), vr_credential_valid_until_unix = 160,
     vr_verified_evidence_digest = projr (evidence_digest demo_openssl demo_token_input)\<rparr>"

lemma demo_token_authentic:
  "evidence_authentic demo_openssl demo_token_input demo_issuer_policy (encode_base64url (bytes ''h'')) demo_key"
proof -
  have "EVP_DigestVerify_rsa_pkcs1_sha256 demo_openssl k s m" for k s m by (simp add: demo_openssl_def)
  then show ?thesis
    by (simp add: evidence_authentic_def demo_make_rsa_key demo_evidence_def)
      (rule exI [of _ "replicate 256 1"], simp add: demo_key_def)
qed

lemma demo_token_verified:
  assumes "demo_lexing lexer"
  shows "issuer_verified lexer demo_openssl demo_token_input demo_issuer_policy [''k'' \<mapsto> demo_key] demo_token_result"
proof -
  have "evidence_digest demo_openssl demo_token_input = Inr (projr (evidence_digest demo_openssl demo_token_input))"
    by (simp add: evidence_digest_def digest_sha256_def demo_openssl_def)
  moreover have "length demo_evidence \<le> issuer_kMaximumEvidenceBytes"
    by (simp add: demo_evidence_def standard_evidence_def length_encode_base64url issuer_kMaximumEvidenceBytes_def)
  moreover have "length (encode_base64url (bytes ''h'')) \<le> kMaximumJsonBytes" "encode_base64url (bytes ''h'') \<noteq> ''''"
    by (simp_all add: length_encode_base64url kMaximumJsonBytes_def)
  moreover have "resolve_rs256 [''k'' \<mapsto> demo_key] ''k'' = Inr demo_key" by (simp add: resolve_rs256_def)
  moreover have "po_issuer demo_issuer_policy = ''https://i''" "''RS256'' \<in> po_issuer_algorithms demo_issuer_policy"
    "po_admitted_claims demo_issuer_policy = {''sub''}"
    by (simp_all add: demo_issuer_policy_def)
  moreover have "validate_policy demo_token_input demo_issuer_policy = Inr ()"
    by (simp add: validate_policy_def demo_issuer_policy_def valid_required_claim_def)
  ultimately show ?thesis
    unfolding issuer_verified_def
    using bound_claims_parse [OF assms] issuer_header_parse [OF assms] demo_token_authentic bound_admitted bound_window
    by (intro conjI exI [of _ "bytes ''p''"] exI [of _ "object_claims bound_claims"]
        exI [of _ "encode_base64url (bytes ''h'')"] exI [of _ demo_key])
      (simp_all add: demo_token_result_def kMaximumJsonBytes_def)
qed

definition demo_core :: CoreResult where
  "demo_core =
     \<lparr>core_issuer = ''https://i'', core_claims = admitted {''sub''} (object_claims bound_claims),
      core_caller_key = cic_key demo_cic, core_binding_profile = kOidcNonceBinding,
      core_evidence_profile = kStandardEvidence, core_commitment = demo_commitment,
      core_credential_valid_until_unix = 160\<rparr>"

lemma demo_commitment_computed: "commitment demo_openssl ''q'' = Inr demo_commitment"
proof -
  have "EVP_Q_digest demo_openssl (append_value (bytes ''CredBind-CIC-v1'' @ [0]) (bytes ''q'')) = Some (replicate 32 0)"
    by (simp add: demo_openssl_def append_value_def bytes_def u64_bytes_def numeral_eq_Suc)
  then show ?thesis by (simp add: commitment_def digest_sha256_def demo_commitment_def)
qed

lemma gq_field_nonempty: "gq_field v \<noteq> []"
  using length_gq_field [of v] by force

lemma demo_decodes:
  "decode (env_payload demo_envelope) kMaximumTokenBytes = Inr (bytes ''p'')"
  "decode (sig_protected_header (env_caller_signature demo_envelope)) kMaximumHeaderBytes = Inr (bytes ''q'')"
  "decode (sig_signature (env_caller_signature demo_envelope)) 128 = Inr (replicate 64 1)"
  "decode (env_evidence demo_envelope) 16384 = Inr demo_evidence"
  unfolding demo_envelope_def CoreEnvelope.simps CoreSignature.simps
  by (rule decode_encode_base64url; simp add: kMaximumTokenBytes_def kMaximumHeaderBytes_def demo_evidence_def
      standard_evidence_def length_encode_base64url gq_field_nonempty)+

lemma demo_envelope_parses:
  assumes "demo_lexing lexer"
  shows "parse_core_envelope lexer ''t'' default_strict_limits = Inr demo_envelope"
proof -
  have "envelope_document demo_envelope demo_envelope_document"
    by (auto simp: envelope_document_def demo_envelope_document_def demo_envelope_def envelope_names_def
        member_matches_def signature_members_iff)
  then show ?thesis
    using assms
    by (simp add: parse_core_envelope_accepts [of lexer "''t''" demo_envelope_document] demo_lexing_def
        envelope_fits_def default_strict_limits_def)
qed

lemma demo_cic_parses: "demo_lexing lexer \<Longrightarrow> parse_cic lexer demo_openssl ''q'' demo_core_policy = Inr demo_cic"
  using demo_cic_accepted demo_cic_bounds
  by (simp add: parse_cic_eq [of lexer "''q''" demo_cic_document] demo_lexing_def kMaximumHeaderBytes_def demo_cic_value)

lemma demo_token:
  assumes "demo_lexing lexer"
  shows "token_verified lexer demo_openssl ''t'' demo_core_policy [''k'' \<mapsto> demo_key] 150 demo_core"
proof -
  let ?input = "token_input demo_cic (core_commitment demo_core) (env_payload demo_envelope) demo_evidence 150"
  have "?input = demo_token_input" by (simp add: demo_token_input_def demo_core_def demo_envelope_def)
  then have "issuer_verified lexer demo_openssl ?input (cp_issuer_policy demo_core_policy) [''k'' \<mapsto> demo_key] demo_token_result"
    using demo_token_verified [OF assms] by (simp add: demo_core_policy_def)
  moreover have "caller_signed demo_openssl demo_cic m (replicate 64 1)" for m
    by (simp add: caller_signed_def demo_cic_def ed25519_valid_def demo_openssl_def)
  moreover have "limits_ok (cp_limits demo_core_policy)" "core_max_token_bytes (cp_limits demo_core_policy) = 32768"
    "core_max_evidence_bytes (cp_limits demo_core_policy) = 16384"
    by (simp_all add: limits_ok_def demo_core_policy_def kMaximumTokenBytes_def kMaximumEvidenceBytes_def)
  moreover have "commitment demo_openssl ''q'' = Inr (core_commitment demo_core)"
    by (simp add: demo_commitment_computed demo_core_def)
  moreover have "demo_core = \<lparr>core_issuer = po_issuer (cp_issuer_policy demo_core_policy), core_claims = vr_claims demo_token_result,
             core_caller_key = cic_key demo_cic, core_binding_profile = cic_binding_profile demo_cic,
             core_evidence_profile = cic_evidence_profile demo_cic, core_commitment = core_commitment demo_core,
             core_credential_valid_until_unix = vr_credential_valid_until_unix demo_token_result\<rparr>"
    by (simp add: demo_core_def demo_token_result_def demo_cic_def demo_core_policy_def demo_issuer_policy_def)
  ultimately show ?thesis
    unfolding token_verified_def
    using demo_envelope_parses [OF assms] demo_decodes demo_cic_parses [OF assms]
    by (intro conjI exI [of _ demo_envelope] exI [of _ "bytes ''p''"] exI [of _ "bytes ''q''"] exI [of _ "replicate 64 1"]
        exI [of _ demo_evidence] exI [of _ demo_cic] exI [of _ demo_token_result])
      (simp_all add: demo_core_policy_def)
qed

theorem verify_token_iff_witness:
  "verify_token token_lexer demo_openssl ''t'' demo_core_policy [''k'' \<mapsto> demo_key] 150 = Inr demo_core"
proof -
  have "int64 150" by (simp add: int64_def int64_min_def int64_max_def)
  from verify_token_iff [OF demo_openssl_bn this] show ?thesis using demo_token [OF token_lexing] by blast
qed

definition demo_certificate :: Certificate where
  "demo_certificate =
     (let c = \<lparr>cert_caller_algorithm = openssh_ed25519, cert_certified_key = replicate 32 7,
        cert_serial = 1, cert_key_id = ''id'',
        cert_principals = [''credbind-v1-'' @ encode_base64url ([0, 0, 128] @ replicate 29 0)],
        cert_valid_after = 100, cert_valid_before = 155,
        cert_permission_extensions = [''permit-agent-forwarding'', ''permit-pty''],
        cert_token = bytes ''t'',
        cert_signature_key = bytes (ssh_string kEd25519Key @ ssh_string (text_of (replicate 32 9))),
        cert_signature_algorithm = kEd25519Key, cert_signature = replicate 64 5,
        cert_signed_bytes = []\<rparr>
      in c\<lparr>cert_signed_bytes := bytes (certificate_tbs ''nonce'' c)\<rparr>)"

definition demo_rule :: AccountRule where
  "demo_rule =
     \<lparr>ar_issuer = ''https://i'',
      ar_all = [\<lparr>pr_claim = ''sub'', pr_operation = string_one_of, pr_value = '''', pr_values = [''v'', ''u'']\<rparr>],
      ar_allowed_certificate_extensions = {''permit-pty'', ''permit-agent-forwarding''}\<rparr>"

definition demo_carrier_policy :: CarrierPolicy where
  "demo_carrier_policy =
     \<lparr>car_certificate_principal_claim = ''sub'', car_maximum_identity_lifetime_seconds = 60,
      car_clock_skew_seconds = 5\<rparr>"

definition demo_carrier_input :: CarrierInput where
  "demo_carrier_input =
     \<lparr>ci_certificate_blob = certificate_blob ''nonce'' demo_certificate, ci_key_type_argument = kEd25519Certificate,
      ci_requested_user = ''user'', ci_verification_time_unix = 150\<rparr>"

definition demo_carrier :: CarrierResult where
  "demo_carrier =
     \<lparr>carr_core = demo_core, carr_principal = ''credbind-v1-'' @ encode_base64url ([0, 0, 128] @ replicate 29 0),
      carr_ca_key_type = kEd25519Key, carr_ca_public_key_base64 = encode_base64 (cert_signature_key demo_certificate)\<rparr>"

lemma demo_principal: "principal_of demo_openssl demo_core ''sub'' (carr_principal demo_carrier)"
proof -
  have "EVP_Q_digest demo_openssl (principal_input ''https://i'' ''sub'' ''u'') = Some ([0, 0, 128] @ replicate 29 0)"
    by (simp add: demo_openssl_def principal_input_def append_value_def bytes_def u64_bytes_def)
  then show ?thesis
    by (simp add: principal_of_def demo_core_def admitted_def bound_claims_object digest_sha256_def
        kMaximumPrincipalClaimBytes_def demo_carrier_def)
qed

lemma demo_principal_ascii: "ascii_nonempty (encode_base64url ([0, 0, 128] @ replicate 29 0))"
  by code_simp

lemma demo_certificate_wf: "certificate_wf default_openssh_limits ''nonce'' demo_certificate"
proof -
  have ascii: "ascii_nonempty (''credbind-v1-'' @ encode_base64url ([0, 0, 128] @ replicate 29 0))"
    using demo_principal_ascii by (simp add: ascii_nonempty_def)
  show ?thesis
    using ascii
    by (simp add: demo_certificate_def Let_def certificate_wf_def certificate_blob_def
        default_openssh_limits_def invalid_openssh_limits_def key_ok_def length_encode_base64url
        permission_names_def key_fields_def carrier_extension_def permission_extension_def)
      (simp add: certificate_tbs_def carrier_extension_def permission_extension_def key_fields_def length_encode_base64url)
qed

lemma demo_user: "valid_requested_user ''user''"
proof -
  have "concat (map utf8 [117, 115, 101, 114]) = ''user''" by code_simp
  then show ?thesis
    unfolding valid_requested_user_eq
    by (intro conjI exI [of _ "[117, 115, 101, 114]"]) (simp_all add: printable_def)
qed

lemma demo_carrier_authorized:
  assumes "demo_lexing lexer"
  shows "carrier_authorized lexer demo_openssl demo_carrier_input demo_core_policy demo_carrier_policy
     [''user'' \<mapsto> [demo_rule]] [''k'' \<mapsto> demo_key] default_openssh_limits demo_carrier"
proof -
  have cert: "cert_caller_algorithm demo_certificate = openssh_ed25519" "cert_token demo_certificate = bytes ''t''"
    "cert_certified_key demo_certificate = replicate 32 7" "cert_principals demo_certificate = [carr_principal demo_carrier]"
    "cert_permission_extensions demo_certificate = [''permit-agent-forwarding'', ''permit-pty'']"
    "cert_valid_after demo_certificate = 100" "cert_valid_before demo_certificate = 155"
    by (simp_all add: demo_certificate_def Let_def demo_carrier_def)
  have "certificate_signed demo_openssl demo_certificate"
    by (simp add: certificate_signed_def demo_certificate_def Let_def key_fields_def carrier_algorithm_def
        public_key_def ed25519_valid_def demo_openssl_def)
  moreover have "identity_window demo_carrier_policy 150 demo_certificate 160"
    by (simp add: identity_window_def Let_def cert demo_carrier_policy_def int64_def int64_min_def int64_max_def)
  moreover have "account_rule demo_rule demo_core (cert_permission_extensions demo_certificate)"
    by (simp add: account_rule_def demo_rule_def demo_core_def cert account_predicate_def admitted_def bound_claims_object)
  ultimately show ?thesis
    unfolding carrier_authorized_def
    using demo_certificate_wf demo_token [OF assms] demo_principal demo_user
    by (intro conjI exI [of _ "''nonce''"] exI [of _ demo_certificate] exI [of _ "[demo_rule]"] exI [of _ demo_rule])
      (simp_all add: demo_carrier_input_def demo_carrier_policy_def cert demo_carrier_def demo_core_def demo_cic_def
        carrier_algorithm_def)
qed

lemma demo_carrier_typed:
  "int64 (ci_verification_time_unix demo_carrier_input)"
  "int64 (car_maximum_identity_lifetime_seconds demo_carrier_policy)"
  by (simp_all add: demo_carrier_input_def demo_carrier_policy_def int64_def int64_min_def int64_max_def)

theorem verify_carrier_iff_witness:
  "fst (verify_carrier token_lexer demo_openssl demo_carrier_input demo_core_policy demo_carrier_policy
     [''user'' \<mapsto> [demo_rule]] [''k'' \<mapsto> demo_key] default_openssh_limits) = Inr demo_carrier"
  using verify_carrier_iff [OF demo_openssl_bn demo_carrier_typed] demo_carrier_authorized [OF token_lexing] by blast

theorem verify_carrier_default_deny_witness:
  "\<exists>e. fst (verify_carrier token_lexer demo_openssl demo_carrier_input demo_core_policy demo_carrier_policy
     [''user'' \<mapsto> [demo_rule\<lparr>ar_issuer := ''https://j''\<rparr>]] [''k'' \<mapsto> demo_key] default_openssh_limits) = Inl e"
  by (rule verify_carrier_default_deny [OF demo_openssl_bn demo_carrier_typed])
    (auto simp: demo_carrier_input_def demo_core_policy_def demo_issuer_policy_def)

theorem verify_carrier_audit_witness:
  "snd (verify_carrier token_lexer demo_openssl demo_carrier_input demo_core_policy demo_carrier_policy
     Map.empty [''k'' \<mapsto> demo_key] default_openssh_limits) = Some demo_core"
  using demo_carrier_authorized [OF token_lexing]
  unfolding verify_carrier_audit [OF demo_openssl_bn demo_carrier_typed(1)] carrier_authorized_def
  by (auto simp: demo_carrier_def)

theorem verify_carrier_audit_core_witness:
  "snd (verify_carrier token_lexer demo_openssl demo_carrier_input demo_core_policy demo_carrier_policy
     [''user'' \<mapsto> [demo_rule]] [''k'' \<mapsto> demo_key] default_openssh_limits) = Some (carr_core demo_carrier)"
  by (rule verify_carrier_audit_core)
    (simp add: verify_carrier_eq [OF demo_openssl_bn demo_carrier_typed] demo_carrier_authorized [OF token_lexing])

theorem identity_window_iff_witness:
  "check_identity_window demo_carrier_policy 150 demo_certificate 160 = Inr () \<and>
   check_identity_window demo_carrier_policy 9223372036854775807 demo_certificate 160 \<noteq> Inr ()"
proof -
  have "int64 150" "int64 160" "int64 9223372036854775807" by (simp_all add: int64_def int64_min_def int64_max_def)
  then show ?thesis
    using identity_window_iff [OF _ _ demo_carrier_typed(2)]
    by (simp add: identity_window_def Let_def demo_certificate_def demo_carrier_policy_def int64_def int64_min_def int64_max_def)
qed

theorem account_predicate_refines_witness:
  "predicate_matches [''r'' \<mapsto> JArray [JString ''x'', JString ''y'']]
     \<lparr>pr_claim = ''r'', pr_operation = string_array_contains, pr_value = ''y'', pr_values = []\<rparr>"
  by (rule account_predicate_refines)
    (simp add: account_predicate_matches_def is_string_def get_string_def)

theorem principal_input_binds_witness: "principal_input ''ab'' ''c'' ''d'' \<noteq> principal_input ''a'' ''bc'' ''d''"
  using principal_input_binds [of "''ab''" "''c''" "''d''" "''a''" "''bc''" "''d''"] by auto

theorem evidence_digest_input_binds_witness:
  "evidence_digest_input ''ab'' ''c'' [0] \<noteq> evidence_digest_input ''a'' ''bc'' [0]"
  using evidence_digest_input_binds [of "''ab''" "''c''" "[0]" "''a''" "''bc''" "[0]"] by auto

end
