(* ===== verification/Cb_Audit.thy ===== *)
theory Cb_Audit
  imports Cb_User Cb_Sax Cb_Crypto "HOL-Library.Monad_Syntax"
begin

text \<open>
  The audit records: \<^verbatim>\<open>src/syslog_logger.cpp\<close> and \<^verbatim>\<open>src/syslog_logger.hpp\<close>.
  A record is a line of JSON of at most 1024 bytes; a user name that is not printable UTF-8, or
  that would make the line too long, is replaced by its digest.

  \<^verbatim>\<open>nlohmann::json::dump\<close> is vendored code and a parameter: \<open>dump v indent\<close> is the text of
  \<open>v\<close> (indent \<open>-1\<close> for none), and \<open>None\<close> the exception it throws on a string that is not UTF-8.
  A function that may throw returns an option, \<open>None\<close> for the exception; \<open>dump_laws\<close> states what
  the library documents.
\<close>

type_synonym json_dump = "json \<Rightarrow> int \<Rightarrow> string option"

section \<open>Facilities, severities, events\<close>

datatype Facility =
    facility_authpriv | facility_auth | facility_daemon | facility_user
  | facility_local0 | facility_local1 | facility_local2 | facility_local3
  | facility_local4 | facility_local5 | facility_local6 | facility_local7

datatype Severity = severity_info | severity_notice | severity_error

datatype VerificationOutcome = verification_allow | verification_deny | verification_error

datatype ConfigurationOutcome = configuration_valid | configuration_invalid | configuration_error

record VerificationEvent =
  ve_outcome :: VerificationOutcome
  ve_reason :: "ParseErrorKind option"
  ve_duration_ms :: u32
  ve_requested_user :: string
  ve_issuer_policy :: string
  ve_identity_ref_sha256 :: string
  ve_acquisition_profile :: string
  ve_binding_profile :: string
  ve_evidence_profile :: string
  ve_caller_algorithm :: string

record ConfigurationEvent =
  ce_outcome :: ConfigurationOutcome
  ce_reason :: "ParseErrorKind option"
  ce_duration_ms :: u32

record SerializedEvent =
  se_payload :: string
  se_severity :: Severity

definition new_verification_event :: VerificationEvent where
  "new_verification_event =
     \<lparr>ve_outcome = verification_error, ve_reason = Some internal_error, ve_duration_ms = 0,
      ve_requested_user = '''', ve_issuer_policy = '''', ve_identity_ref_sha256 = '''',
      ve_acquisition_profile = '''', ve_binding_profile = '''', ve_evidence_profile = '''',
      ve_caller_algorithm = ''''\<rparr>"

definition new_configuration_event :: ConfigurationEvent where
  "new_configuration_event =
     \<lparr>ce_outcome = configuration_error, ce_reason = Some internal_error, ce_duration_ms = 0\<rparr>"

fun error_name :: "ParseErrorKind \<Rightarrow> string" where
  "error_name malformed_input = ''malformed_input''"
| "error_name resource_limit = ''resource_limit''"
| "error_name unsupported_version = ''unsupported_version''"
| "error_name unsupported_profile = ''unsupported_profile''"
| "error_name unsupported_algorithm = ''unsupported_algorithm''"
| "error_name caller_key_invalid = ''caller_key_invalid''"
| "error_name issuer_untrusted = ''issuer_untrusted''"
| "error_name issuer_signature_invalid = ''issuer_signature_invalid''"
| "error_name evidence_invalid = ''evidence_invalid''"
| "error_name evidence_result_mismatch = ''evidence_result_mismatch''"
| "error_name binding_invalid = ''binding_invalid''"
| "error_name issuer_claims_invalid = ''issuer_claims_invalid''"
| "error_name credential_not_yet_valid = ''credential_not_yet_valid''"
| "error_name credential_expired = ''credential_expired''"
| "error_name caller_signature_invalid = ''caller_signature_invalid''"
| "error_name ssh_certificate_invalid = ''ssh_certificate_invalid''"
| "error_name ssh_key_mismatch = ''ssh_key_mismatch''"
| "error_name ssh_identity_not_yet_valid = ''ssh_identity_not_yet_valid''"
| "error_name ssh_identity_expired = ''ssh_identity_expired''"
| "error_name ssh_principal_invalid = ''ssh_principal_invalid''"
| "error_name account_unauthorized = ''account_unauthorized''"
| "error_name deadline_exceeded = ''deadline_exceeded''"
| "error_name operation_cancelled = ''operation_cancelled''"
| "error_name state_invalid = ''state_invalid''"
| "error_name internal_error = ''internal_error''"

fun facility_name :: "Facility \<Rightarrow> string" where
  "facility_name facility_authpriv = ''authpriv''"
| "facility_name facility_auth = ''auth''"
| "facility_name facility_daemon = ''daemon''"
| "facility_name facility_user = ''user''"
| "facility_name facility_local0 = ''local0''"
| "facility_name facility_local1 = ''local1''"
| "facility_name facility_local2 = ''local2''"
| "facility_name facility_local3 = ''local3''"
| "facility_name facility_local4 = ''local4''"
| "facility_name facility_local5 = ''local5''"
| "facility_name facility_local6 = ''local6''"
| "facility_name facility_local7 = ''local7''"

definition facility_values :: "(string \<times> Facility) list" where
  "facility_values =
     [(''authpriv'', facility_authpriv), (''auth'', facility_auth), (''daemon'', facility_daemon),
      (''user'', facility_user), (''local0'', facility_local0), (''local1'', facility_local1),
      (''local2'', facility_local2), (''local3'', facility_local3), (''local4'', facility_local4),
      (''local5'', facility_local5), (''local6'', facility_local6), (''local7'', facility_local7)]"

definition parse_facility :: "string \<Rightarrow> Facility expected" where
  "parse_facility name =
     (case find (\<lambda>item. fst item = name) facility_values of
        None \<Rightarrow> Inl unsupported_profile
      | Some item \<Rightarrow> Inr (snd item))"

section \<open>The calls to syslog\<close>

text \<open>
  The constants of \<^verbatim>\<open><syslog.h>\<close> are a parameter; the three calls of \<^verbatim>\<open>emit\<close> are
  recorded as values.
\<close>

record syslog_constants =
  LOG_AUTHPRIV :: int
  LOG_AUTH :: int
  LOG_DAEMON :: int
  LOG_USER :: int
  LOG_LOCAL :: "nat \<Rightarrow> int"
  LOG_INFO :: int
  LOG_NOTICE :: int
  LOG_ERR :: int
  LOG_NDELAY :: int

datatype syslog_call = Openlog string int int | Syslog int string | Closelog

fun facility_value :: "syslog_constants \<Rightarrow> Facility \<Rightarrow> int" where
  "facility_value k facility_authpriv = LOG_AUTHPRIV k"
| "facility_value k facility_auth = LOG_AUTH k"
| "facility_value k facility_daemon = LOG_DAEMON k"
| "facility_value k facility_user = LOG_USER k"
| "facility_value k facility_local0 = LOG_LOCAL k 0"
| "facility_value k facility_local1 = LOG_LOCAL k 1"
| "facility_value k facility_local2 = LOG_LOCAL k 2"
| "facility_value k facility_local3 = LOG_LOCAL k 3"
| "facility_value k facility_local4 = LOG_LOCAL k 4"
| "facility_value k facility_local5 = LOG_LOCAL k 5"
| "facility_value k facility_local6 = LOG_LOCAL k 6"
| "facility_value k facility_local7 = LOG_LOCAL k 7"

fun severity_value :: "syslog_constants \<Rightarrow> Severity \<Rightarrow> int" where
  "severity_value k severity_info = LOG_INFO k"
| "severity_value k severity_notice = LOG_NOTICE k"
| "severity_value k severity_error = LOG_ERR k"

text \<open>\<^verbatim>\<open>%s\<close> prints the bytes before the first NUL.\<close>

definition syslog_emit :: "syslog_constants \<Rightarrow> Facility \<Rightarrow> Severity \<Rightarrow> string \<Rightarrow> syslog_call list" where
  "syslog_emit k facility severity payload =
     [Openlog ''credbind-ssh-authorized-keys'' (LOG_NDELAY k) (facility_value k facility),
      Syslog (severity_value k severity) (takeWhile (\<lambda>c. c \<noteq> CHR 0x00) payload),
      Closelog]"

section \<open>Checks of the fields\<close>

definition kMaximumEventBytes :: nat where "kMaximumEventBytes = 1024"
definition kMaximumUsernameBytes :: nat where "kMaximumUsernameBytes = 256"

text \<open>
  The loop of \<^verbatim>\<open>safe_username\<close>; \<^verbatim>\<open>utf8_without_controls\<close> of
  \<^verbatim>\<open>src/config.cpp\<close> has the same. It counts the octets of a character, where
  \<^verbatim>\<open>valid_requested_user\<close> counts those that follow the first.
\<close>

definition utf8_lead :: "u8 \<Rightarrow> (u32 \<times> nat) option" where
  "utf8_lead first =
     (if first \<le> 0x7f then Some (ucast first, 1)
      else if first \<ge> 0xc2 \<and> first \<le> 0xdf then Some (ucast (first AND 0x1f), 2)
      else if first \<ge> 0xe0 \<and> first \<le> 0xef then Some (ucast (first AND 0x0f), 3)
      else if first \<ge> 0xf0 \<and> first \<le> 0xf4 then Some (ucast (first AND 0x07), 4)
      else None)"

lemma utf8_lead_octet:
  "utf8_lead first = map_option (\<lambda>(codepoint, n). (codepoint, n + 1)) (lead_octet first)"
  by (simp add: utf8_lead_def lead_octet_def)

lemma utf8_lead_positive: "utf8_lead first = Some (codepoint, n) \<Longrightarrow> 0 < n"
  by (auto simp: utf8_lead_octet)

function utf8_loop :: "string \<Rightarrow> nat \<Rightarrow> bool" where
  "utf8_loop s offset =
     (if offset < length s then
        case utf8_lead (of_char (s ! offset)) of
          None \<Rightarrow> False
        | Some (codepoint, n) \<Rightarrow>
            if n > length s - offset then False
            else
              case continuation_octets (bytes (sv_substr s (offset + 1) (n - 1))) codepoint of
                None \<Rightarrow> False
              | Some codepoint \<Rightarrow>
                  if (n = 3 \<and> codepoint < 0x800) \<or> (n = 4 \<and> codepoint < 0x10000) \<or>
                     codepoint > 0x10ffff \<or> (codepoint \<ge> 0xd800 \<and> codepoint \<le> 0xdfff) then False
                  else if codepoint \<le> 0x1f \<or> (codepoint \<ge> 0x7f \<and> codepoint \<le> 0x9f) then False
                  else utf8_loop s (offset + n)
      else True)"
  by auto
termination
  by (relation "measure (\<lambda>(s, offset). length s - offset)") (auto dest: utf8_lead_positive)

declare utf8_loop.simps [simp del]

definition safe_username :: "string \<Rightarrow> bool" where
  "safe_username name =
     (if name = [] \<or> length name > kMaximumUsernameBytes then False else utf8_loop name 0)"

definition ascii_enum :: "string \<Rightarrow> string list \<Rightarrow> bool" where
  "ascii_enum s allowed \<longleftrightarrow> s = '''' \<or> s \<in> set allowed"

definition is_digit :: "char \<Rightarrow> bool" where
  "is_digit c \<longleftrightarrow> CHR ''0'' \<le> c \<and> c \<le> CHR ''9''"

definition is_letter :: "char \<Rightarrow> bool" where
  "is_letter c \<longleftrightarrow> (CHR ''A'' \<le> c \<and> c \<le> CHR ''Z'') \<or> (CHR ''a'' \<le> c \<and> c \<le> CHR ''z'')"

text \<open>The loop both \<^verbatim>\<open>valid_policy_id\<close> share.\<close>

fun policy_id_from :: "nat \<Rightarrow> string \<Rightarrow> bool" where
  "policy_id_from index [] = True"
| "policy_id_from index (character # rest) =
     (if \<not> (is_letter character \<or> is_digit character) \<and>
         (index = 0 \<or> (character \<noteq> CHR ''.'' \<and> character \<noteq> CHR ''_'' \<and> character \<noteq> CHR ''-''))
      then False else policy_id_from (index + 1) rest)"

definition audit_valid_policy_id :: "string \<Rightarrow> bool" where
  "audit_valid_policy_id s =
     (if s = '''' then True else if length s > 64 then False else policy_id_from 0 s)"

definition lower_hex_digest :: "string \<Rightarrow> bool" where
  "lower_hex_digest s =
     (if s = '''' then True
      else length s = 64 \<and> list_all (\<lambda>c. is_digit c \<or> (CHR ''a'' \<le> c \<and> c \<le> CHR ''f'')) s)"

section \<open>Writing a record\<close>

definition quoted :: "json_dump \<Rightarrow> string \<Rightarrow> string option" where
  "quoted dump s = dump (JString s) (- 1)"

fun to_decimal :: "nat \<Rightarrow> string" where
  "to_decimal n =
     (if n < 10 then [char_of (48 + n)] else to_decimal (n div 10) @ [char_of (48 + n mod 10)])"

declare to_decimal.simps [simp del]

text \<open>The line so far, and whether the next member is the first.\<close>

type_synonym payload_state = "string \<times> bool"

definition separated :: "payload_state \<Rightarrow> string" where
  "separated st = fst st @ (if \<not> snd st then '','' else '''')"

definition add_member :: "json_dump \<Rightarrow> string \<Rightarrow> string \<Rightarrow> payload_state \<Rightarrow> payload_state option" where
  "add_member dump name s st = do {
     key \<leftarrow> quoted dump name;
     contents \<leftarrow> quoted dump s;
     Some (separated st @ key @ '':'' @ contents, False)
   }"

definition add_integer_member :: "json_dump \<Rightarrow> string \<Rightarrow> u64 \<Rightarrow> payload_state \<Rightarrow> payload_state option" where
  "add_integer_member dump name n st = do {
     key \<leftarrow> quoted dump name;
     Some (separated st @ key @ '':'' @ to_decimal (unat n), False)
   }"

definition add_nonempty_member :: "json_dump \<Rightarrow> string \<Rightarrow> string \<Rightarrow> payload_state \<Rightarrow> payload_state option" where
  "add_nonempty_member dump name s st = (if s \<noteq> '''' then add_member dump name s st else Some st)"

definition lowercase_hex :: "u8 list \<Rightarrow> string" where
  "lowercase_hex digest =
     concat (map (\<lambda>octet. [''0123456789abcdef'' ! unat (drop_bit 4 octet),
                           ''0123456789abcdef'' ! unat (octet AND 0x0f)]) digest)"

definition sha256_hex :: "'k openssl \<Rightarrow> string \<Rightarrow> string expected" where
  "sha256_hex ossl input =
     (case digest_sha256 ossl (bytes input) of
        Inl _ \<Rightarrow> Inl internal_error
      | Inr digest \<Rightarrow> Inr (lowercase_hex digest))"

definition consistent_outcome :: "VerificationEvent \<Rightarrow> bool" where
  "consistent_outcome event \<longleftrightarrow>
     (ve_outcome event = verification_allow \<and> ve_reason event = None) \<or>
     (ve_outcome event = verification_deny \<and> ve_reason event \<noteq> None \<and> ve_reason event \<noteq> Some internal_error) \<or>
     (ve_outcome event = verification_error \<and> ve_reason event = Some internal_error)"

definition admissible_event :: "VerificationEvent \<Rightarrow> bool" where
  "admissible_event event \<longleftrightarrow>
     consistent_outcome event \<and> audit_valid_policy_id (ve_issuer_policy event) \<and>
     lower_hex_digest (ve_identity_ref_sha256 event) \<and>
     ascii_enum (ve_acquisition_profile event)
       [''oidc-native-auth-code-v1'', ''oidc-confidential-web-auth-code-v1'', ''challenge-bound-workload-v1''] \<and>
     ascii_enum (ve_binding_profile event) [''oidc-nonce-v1'', ''audience-v1'', ''credbind-claim-v1''] \<and>
     ascii_enum (ve_evidence_profile event) [''standard-jws-v1'', ''gq-rs256-v1''] \<and>
     ascii_enum (ve_caller_algorithm event) [''ES256'', ''Ed25519'']"

definition event_severity :: "VerificationEvent \<Rightarrow> Severity" where
  "event_severity event =
     (if ve_outcome event = verification_allow then severity_info
      else if ve_reason event = Some internal_error then severity_error else severity_notice)"

text \<open>The member that names the user; \<open>Inl\<close> when its digest fails.\<close>

definition add_requested_user ::
  "'k openssl \<Rightarrow> json_dump \<Rightarrow> bool \<Rightarrow> string \<Rightarrow> payload_state \<Rightarrow> payload_state expected option" where
  "add_requested_user ossl dump hash_username name st =
     (if \<not> hash_username then map_option Inr (add_member dump ''requested_user'' name st)
      else
        case sha256_hex ossl name of
          Inl e \<Rightarrow> Some (Inl e)
        | Inr digest \<Rightarrow> map_option Inr (add_member dump ''requested_user_sha256'' digest st))"

text \<open>The members before and after it.\<close>

definition add_outcome :: "json_dump \<Rightarrow> VerificationEvent \<Rightarrow> payload_state option" where
  "add_outcome dump event = do {
     st \<leftarrow> add_integer_member dump ''event_version'' 1 (''{'', True);
     st \<leftarrow> add_member dump ''event'' ''verification_completed'' st;
     st \<leftarrow> add_member dump ''result''
       (if ve_outcome event = verification_allow then ''allow''
        else if ve_outcome event = verification_deny then ''deny'' else ''error'') st;
     st \<leftarrow> add_member dump ''reason''
       (if ve_outcome event = verification_allow then ''none'' else error_name (the (ve_reason event))) st;
     add_integer_member dump ''duration_ms'' (ucast (ve_duration_ms event)) st
   }"

definition add_profiles :: "json_dump \<Rightarrow> VerificationEvent \<Rightarrow> payload_state \<Rightarrow> payload_state option" where
  "add_profiles dump event st = do {
     st \<leftarrow> add_nonempty_member dump ''acquisition_profile'' (ve_acquisition_profile event) st;
     st \<leftarrow> add_nonempty_member dump ''binding_profile'' (ve_binding_profile event) st;
     st \<leftarrow> add_nonempty_member dump ''evidence_profile'' (ve_evidence_profile event) st;
     add_nonempty_member dump ''caller_algorithm'' (ve_caller_algorithm event) st
   }"

definition finish_payload :: "Severity \<Rightarrow> payload_state \<Rightarrow> SerializedEvent expected" where
  "finish_payload severity st =
     (let payload = fst st @ ''}'' in
      if length payload > kMaximumEventBytes \<or> CHR 0x0a \<in> set payload \<or> CHR 0x00 \<in> set payload
      then Inl internal_error
      else Inr \<lparr>se_payload = payload, se_severity = severity\<rparr>)"

definition verification_payload ::
  "'k openssl \<Rightarrow> json_dump \<Rightarrow> VerificationEvent \<Rightarrow> bool \<Rightarrow> SerializedEvent expected option" where
  "verification_payload ossl dump event hash_username =
     (if \<not> admissible_event event then Some (Inl internal_error)
      else do {
        st \<leftarrow> add_outcome dump event;
        named_user \<leftarrow> add_requested_user ossl dump hash_username (ve_requested_user event) st;
        case named_user of
          Inl e \<Rightarrow> Some (Inl e)
        | Inr st \<Rightarrow> do {
            st \<leftarrow> add_nonempty_member dump ''issuer_policy'' (ve_issuer_policy event) st;
            if ve_identity_ref_sha256 event \<noteq> '''' \<and> ve_issuer_policy event = ''''
            then Some (Inl internal_error)
            else do {
              st \<leftarrow> add_nonempty_member dump ''identity_ref_sha256'' (ve_identity_ref_sha256 event) st;
              st \<leftarrow> add_profiles dump event st;
              Some (finish_payload (event_severity event) st)
            }
          }
      })"

definition serialize_verification ::
  "'k openssl \<Rightarrow> json_dump \<Rightarrow> VerificationEvent \<Rightarrow> SerializedEvent expected option" where
  "serialize_verification ossl dump event =
     (let safe = safe_username (ve_requested_user event) in do {
        result \<leftarrow> verification_payload ossl dump event (\<not> safe);
        if \<not> has_value result \<and> safe then verification_payload ossl dump event True else Some result
      })"

definition serialize_configuration :: "json_dump \<Rightarrow> ConfigurationEvent \<Rightarrow> SerializedEvent expected option" where
  "serialize_configuration dump event =
     (let valid = (ce_outcome event = configuration_valid);
          internal = (ce_reason event = Some internal_error);
          cancelled = (ce_reason event = Some operation_cancelled)
      in
      if \<not> ((valid \<and> ce_reason event = None) \<or>
            (ce_outcome event = configuration_invalid \<and> ce_reason event \<noteq> None \<and> \<not> internal \<and> \<not> cancelled) \<or>
            (ce_outcome event = configuration_error \<and> ce_reason event \<noteq> None \<and> (internal \<or> cancelled)))
      then Some (Inl internal_error)
      else do {
        st \<leftarrow> add_integer_member dump ''event_version'' 1 (''{'', True);
        st \<leftarrow> add_member dump ''event'' ''configuration_checked'' st;
        st \<leftarrow> add_member dump ''result''
          (if valid then ''valid'' else if ce_outcome event = configuration_invalid then ''invalid'' else ''error'') st;
        st \<leftarrow> add_member dump ''reason'' (if valid then ''none'' else error_name (the (ce_reason event))) st;
        st \<leftarrow> add_integer_member dump ''duration_ms'' (ucast (ce_duration_ms event)) st;
        let payload = fst st @ ''}'' in
        if length payload > kMaximumEventBytes then Some (Inl internal_error)
        else Some (Inr \<lparr>se_payload = payload,
               se_severity = (if valid then severity_info else if cancelled then severity_notice else severity_error)\<rparr>)
      })"

section \<open>References to identities\<close>

definition audit_append_u64 :: "u8 list \<Rightarrow> u64 \<Rightarrow> u8 list" where
  "audit_append_u64 out n = out @ map (\<lambda>shift. ucast (drop_bit shift n)) [56, 48, 40, 32, 24, 16, 8, 0]"

definition audit_append_value :: "u8 list \<Rightarrow> string \<Rightarrow> u8 list" where
  "audit_append_value out s = audit_append_u64 out (of_nat (length s)) @ bytes s"

definition identity_input :: "string \<Rightarrow> string \<Rightarrow> string \<Rightarrow> u8 list" where
  "identity_input issuer claim_name claim_value =
     (let input = bytes ''CredBind-Audit-Identity-v1'' @ [0];
          input = audit_append_value input issuer;
          input = audit_append_value input claim_name
      in audit_append_value input claim_value)"

definition identity_reference :: "'k openssl \<Rightarrow> string \<Rightarrow> string \<Rightarrow> string \<Rightarrow> string expected" where
  "identity_reference ossl issuer claim_name claim_value =
     (case digest_sha256 ossl (identity_input issuer claim_name claim_value) of
        Inl _ \<Rightarrow> Inl internal_error
      | Inr digest \<Rightarrow> Inr (lowercase_hex digest))"

section \<open>The check of user names\<close>

lemma utf8_loop_valid_from: "utf8_loop s offset = valid_from s offset"
proof (induction s offset rule: utf8_loop.induct)
  case (1 s offset)
  show ?case
  proof (cases "offset < length s")
    case True
    show ?thesis
    proof (cases "lead_octet (of_char (s ! offset))")
      case (Some lead)
      then obtain codepoint n where lead: "lead_octet (of_char (s ! offset)) = Some (codepoint, n)" by (cases lead) auto
      then have lead': "utf8_lead (of_char (s ! offset)) = Some (codepoint, n + 1)" by (simp add: utf8_lead_octet)
      have bound: "n + 1 > length s - offset \<longleftrightarrow> n > length s - offset - 1" using True by linarith
      have forbidden: "((n + 1 = 3 \<and> c < 0x800) \<or> (n + 1 = 4 \<and> c < 0x10000) \<or> c > 0x10ffff \<or> (c \<ge> 0xd800 \<and> c \<le> 0xdfff)) \<or>
          (c \<le> 0x1f \<or> (c \<ge> 0x7f \<and> c \<le> 0x9f)) \<longleftrightarrow> forbidden_codepoint n c" for c
        by (auto simp: forbidden_codepoint_def)
      show ?thesis
      proof (cases "n > length s - offset - 1 \<or> continuation_octets (bytes (take n (drop (offset + 1) s))) codepoint = None")
        case True
        then show ?thesis using lead lead' \<open>offset < length s\<close> bound
          by (subst utf8_loop.simps, subst valid_from.simps) (auto simp: sv_substr_def)
      next
        case False
        then obtain c where c: "continuation_octets (bytes (take n (drop (offset + 1) s))) codepoint = Some c"
            "\<not> n > length s - offset - 1" by auto
        show ?thesis
        proof (cases "forbidden_codepoint n c")
          case True
          then show ?thesis using lead lead' \<open>offset < length s\<close> bound c forbidden [of c]
            by (subst utf8_loop.simps, subst valid_from.simps) (simp add: sv_substr_def, blast)
        next
          case False
          then have "utf8_loop s (offset + (n + 1)) = valid_from s (offset + (n + 1))"
            using "1.IH" [OF True lead' refl, of c] bound c forbidden [of c] by (simp add: sv_substr_def)
          then show ?thesis using lead lead' \<open>offset < length s\<close> bound c forbidden [of c] False
            by (subst utf8_loop.simps, subst valid_from.simps) (auto simp: sv_substr_def)
        qed
      qed
    qed (use True in \<open>simp add: utf8_loop.simps valid_from.simps utf8_lead_octet\<close>)
  qed (simp add: utf8_loop.simps valid_from.simps)
qed

lemma safe_username_eq: "safe_username name = valid_requested_user name"
  by (simp add: safe_username_def valid_requested_user_def utf8_loop_valid_from kMaximumUsernameBytes_def)

section \<open>What the library documents of dumps\<close>

text \<open>
  A string of printable ASCII without quotes and backslashes is dumped between quotes, and a dump
  of a UTF-8 string does not throw.
\<close>

definition plain :: "string \<Rightarrow> bool" where
  "plain s \<longleftrightarrow> list_all (\<lambda>c. CHR '' '' \<le> c \<and> c \<le> CHR ''~'' \<and> c \<noteq> CHR 0x22 \<and> c \<noteq> CHR 0x5c) s"

definition dump_laws :: "json_dump \<Rightarrow> bool" where
  "dump_laws dump \<longleftrightarrow>
     (\<forall>s. plain s \<longrightarrow> dump (JString s) (- 1) = Some (CHR 0x22 # s @ [CHR 0x22])) \<and>
     (\<forall>cs. list_all printable cs \<longrightarrow> dump (JString (concat (map utf8 cs))) (- 1) \<noteq> None)"

lemma quoted_plain: "dump_laws dump \<Longrightarrow> plain s \<Longrightarrow> quoted dump s = Some (CHR 0x22 # s @ [CHR 0x22])"
  by (simp add: dump_laws_def quoted_def)

lemma quoted_username:
  assumes "dump_laws dump" "safe_username s"
  shows "\<exists>t. quoted dump s = Some t"
  using assms unfolding safe_username_eq valid_requested_user_eq dump_laws_def quoted_def by auto

lemma plain_simps [simp]:
  "plain []" "plain (s @ t) \<longleftrightarrow> plain s \<and> plain t"
  by (simp_all add: plain_def)

lemma plain_digit:
  assumes "n < 10"
  shows "plain [char_of (48 + n :: nat)]"
proof -
  have "\<forall>n<10. plain [char_of (48 + n :: nat)]" by code_simp
  with assms show ?thesis by blast
qed

lemma plain_to_decimal: "plain (to_decimal n)"
proof (induction n rule: to_decimal.induct)
  case (1 n)
  then show ?case using plain_digit [of n] plain_digit [of "n mod 10"] by (subst to_decimal.simps) simp
qed

lemma length_to_decimal: "n < 10 ^ k \<Longrightarrow> 0 < k \<Longrightarrow> length (to_decimal n) \<le> k"
proof (induction n arbitrary: k rule: to_decimal.induct)
  case (1 n)
  show ?case
  proof (cases "n < 10")
    case True
    then show ?thesis using 1 by (subst to_decimal.simps) simp
  next
    case False
    then obtain j where k: "k = Suc j" "0 < j" using 1 by (cases k; cases "k - 1") auto
    then have "n div 10 < 10 ^ j" using 1 by (simp add: div_less_iff_less_mult)
    then show ?thesis using 1(1) [OF False _ k(2)] False k by (subst to_decimal.simps) simp
  qed
qed

lemma error_name_plain: "plain (error_name kind) \<and> length (error_name kind) \<le> 26"
  by (cases kind) (simp_all add: plain_def)

lemma hex_digit:
  assumes "n < 16"
  shows "plain [''0123456789abcdef'' ! n]"
proof -
  have "\<forall>n<16. plain [''0123456789abcdef'' ! n]" by code_simp
  with assms show ?thesis by blast
qed

lemma lowercase_hex_plain: "plain (lowercase_hex digest) \<and> length (lowercase_hex digest) = 2 * length digest"
proof (induction digest)
  case (Cons octet digest)
  have "unat (drop_bit 4 octet) < 16"
    using u8_less [of octet]
    by (simp only: unsigned_drop_bit_eq) (simp add: take_bit_nat_eq_self drop_bit_eq_div div_less_iff_less_mult)
  moreover have "unat (octet AND 0x0f) < 16"
    unfolding and_masks(2) unat_low_bits by simp
  ultimately show ?case
    using Cons hex_digit [of "unat (drop_bit 4 octet)"] hex_digit [of "unat (octet AND 0x0f)"]
    by (simp add: lowercase_hex_def plain_def del: nth_Cons_numeral)
qed (simp add: lowercase_hex_def)

section \<open>Every admissible event is written\<close>

text \<open>A step that succeeds, writes at most \<open>n\<close> characters and neither newline nor NUL.\<close>

definition clean :: "string \<Rightarrow> bool" where
  "clean s \<longleftrightarrow> CHR 0x0a \<notin> set s \<and> CHR 0x00 \<notin> set s"

definition grows :: "nat \<Rightarrow> (payload_state \<Rightarrow> payload_state option) \<Rightarrow> bool" where
  "grows n f \<longleftrightarrow>
     (\<forall>st. \<exists>st'. f st = Some st' \<and> length (fst st') \<le> length (fst st) + n \<and> (clean (fst st) \<longrightarrow> clean (fst st')))"

lemma growsE:
  assumes "grows n f"
  obtains st' where "f st = Some st'" "length (fst st') \<le> length (fst st) + n" "clean (fst st) \<longrightarrow> clean (fst st')"
  using assms unfolding grows_def by blast

lemma grows_bind: "grows m f \<Longrightarrow> grows n g \<Longrightarrow> grows (m + n) (\<lambda>st. Option.bind (f st) g)"
  unfolding grows_def
proof
  fix st
  assume f: "\<forall>st. \<exists>st'. f st = Some st' \<and> length (fst st') \<le> length (fst st) + m \<and> (clean (fst st) \<longrightarrow> clean (fst st'))"
    and g: "\<forall>st. \<exists>st'. g st = Some st' \<and> length (fst st') \<le> length (fst st) + n \<and> (clean (fst st) \<longrightarrow> clean (fst st'))"
  obtain st1 where 1: "f st = Some st1" "length (fst st1) \<le> length (fst st) + m" "clean (fst st) \<longrightarrow> clean (fst st1)"
    using f by blast
  obtain st2 where 2: "g st1 = Some st2" "length (fst st2) \<le> length (fst st1) + n" "clean (fst st1) \<longrightarrow> clean (fst st2)"
    using g by blast
  show "\<exists>st'. Option.bind (f st) g = Some st' \<and> length (fst st') \<le> length (fst st) + (m + n) \<and>
      (clean (fst st) \<longrightarrow> clean (fst st'))"
    using 1 2 by (intro exI [of _ st2]) simp
qed

lemma grows_mono: "grows m f \<Longrightarrow> m \<le> n \<Longrightarrow> grows n f"
  unfolding grows_def by (metis (no_types, lifting) add_left_mono order_trans)

lemma plain_clean: "plain s \<Longrightarrow> clean s"
proof -
  assume "plain s"
  then have "CHR '' '' \<le> c" if "c \<in> set s" for c
    using that by (simp add: plain_def list_all_iff)
  moreover have "\<not> CHR '' '' \<le> CHR 0x0a" "\<not> CHR '' '' \<le> CHR 0x00" by simp_all
  ultimately show ?thesis unfolding clean_def by blast
qed

lemma clean_simps [simp]:
  "clean []" "clean (s @ t) \<longleftrightarrow> clean s \<and> clean t"
  "clean (c # s) \<longleftrightarrow> c \<noteq> CHR 0x0a \<and> c \<noteq> CHR 0x00 \<and> clean s"
  by (auto simp: clean_def)

lemma separated_grows: "length (separated st) \<le> length (fst st) + 1 \<and> (clean (fst st) \<longrightarrow> clean (separated st))"
  by (simp add: separated_def)

lemma grows_member:
  assumes "dump_laws dump" "plain name" "plain s" "length name + length s + 6 \<le> n"
  shows "grows n (add_member dump name s)"
  unfolding grows_def
proof
  fix st :: payload_state
  show "\<exists>st'. add_member dump name s st = Some st' \<and> length (fst st') \<le> length (fst st) + n \<and>
      (clean (fst st) \<longrightarrow> clean (fst st'))"
    using assms separated_grows [of st] by (simp add: add_member_def quoted_plain plain_clean)
qed

lemma grows_nonempty_member:
  assumes "dump_laws dump" "plain name" "plain s" "length name + length s + 6 \<le> n"
  shows "grows n (add_nonempty_member dump name s)"
  using grows_member [OF assms] by (simp add: add_nonempty_member_def grows_def)

lemma grows_integer_member:
  assumes "dump_laws dump" "plain name" "length name + 24 \<le> n"
  shows "grows n (add_integer_member dump name i)"
  unfolding grows_def
proof
  fix st :: payload_state
  have "unat i < 10 ^ 20" using unsigned_less [where 'a = nat, of i] by simp
  then have "length (to_decimal (unat i)) \<le> 20" by (rule length_to_decimal) simp
  then show "\<exists>st'. add_integer_member dump name i st = Some st' \<and> length (fst st') \<le> length (fst st) + n \<and>
      (clean (fst st) \<longrightarrow> clean (fst st'))"
    using assms separated_grows [of st] plain_to_decimal [of "unat i"]
    by (simp add: add_integer_member_def quoted_plain plain_clean)
qed

lemma plain_literals:
  "plain ''event_version''" "plain ''event''" "plain ''verification_completed''" "plain ''result''" "plain ''reason''"
  "plain ''duration_ms''" "plain ''requested_user''" "plain ''requested_user_sha256''" "plain ''issuer_policy''"
  "plain ''identity_ref_sha256''" "plain ''acquisition_profile''" "plain ''binding_profile''"
  "plain ''evidence_profile''" "plain ''caller_algorithm''" "plain ''allow''" "plain ''deny''" "plain ''error''"
  "plain ''none''"
  by (simp_all add: plain_def)

lemma ascii_enum_plain:
  assumes "ascii_enum s allowed" "list_all (\<lambda>t. plain t \<and> length t \<le> n) allowed"
  shows "plain s \<and> length s \<le> n"
  using assms by (auto simp: ascii_enum_def list_all_iff)

lemma profiles_plain:
  "list_all (\<lambda>t. plain t \<and> length t \<le> 34)
     [''oidc-native-auth-code-v1'', ''oidc-confidential-web-auth-code-v1'', ''challenge-bound-workload-v1'']"
  "list_all (\<lambda>t. plain t \<and> length t \<le> 34) [''oidc-nonce-v1'', ''audience-v1'', ''credbind-claim-v1'']"
  "list_all (\<lambda>t. plain t \<and> length t \<le> 34) [''standard-jws-v1'', ''gq-rs256-v1'']"
  "list_all (\<lambda>t. plain t \<and> length t \<le> 34) [''ES256'', ''Ed25519'']"
  by (simp_all add: plain_def)

lemma plain_char_classes:
  "is_digit c \<Longrightarrow> plain [c]" "is_letter c \<Longrightarrow> plain [c]"
  by (auto simp: plain_def is_digit_def is_letter_def less_eq_char_def)

lemma plain_Cons: "plain (c # s) \<longleftrightarrow> plain [c] \<and> plain s"
  by (simp add: plain_def)

lemma plain_policy_id_from: "policy_id_from index s \<Longrightarrow> plain s"
proof (induction index s rule: policy_id_from.induct)
  case (2 index c rest)
  then have "plain [c]"
    using plain_char_classes [of c] by (cases "is_letter c \<or> is_digit c") (auto simp: plain_def split: if_splits)
  then show ?case using 2 by (subst plain_Cons) (simp split: if_splits)
qed simp

lemma plain_policy_id: "audit_valid_policy_id s \<Longrightarrow> plain s \<and> length s \<le> 64"
  using plain_policy_id_from by (auto simp: audit_valid_policy_id_def split: if_splits)

lemma plain_hex_digest:
  assumes "lower_hex_digest s"
  shows "plain s \<and> length s \<le> 64"
proof (cases "s = ''''")
  case False
  have "plain [c]" if "is_digit c \<or> CHR ''a'' \<le> c \<and> c \<le> CHR ''f''" for c
  proof -
    have "is_digit c \<or> is_letter c"
      using that by (auto simp: is_letter_def intro: order_trans [of c "CHR ''f''" "CHR ''z''"])
    then show ?thesis using plain_char_classes by blast
  qed
  then show ?thesis
    using assms False by (auto simp: lower_hex_digest_def plain_def list_all_iff)
qed simp

lemma add_outcome_writes:
  assumes "dump_laws dump"
  shows "\<exists>st. add_outcome dump event = Some st \<and> length (fst st) \<le> 220 \<and> clean (fst st)"
proof -
  define verdict reason where
    "verdict = (if ve_outcome event = verification_allow then ''allow''
       else if ve_outcome event = verification_deny then ''deny'' else ''error'')"
    and "reason = (if ve_outcome event = verification_allow then ''none'' else error_name (the (ve_reason event)))"
  have v: "plain verdict \<and> length verdict \<le> 5" by (simp add: verdict_def plain_literals)
  have r: "plain reason \<and> length reason \<le> 26" using error_name_plain by (simp add: reason_def plain_literals)
  define steps where "steps = (\<lambda>st. do {
     st \<leftarrow> add_integer_member dump ''event_version'' 1 st;
     st \<leftarrow> add_member dump ''event'' ''verification_completed'' st;
     st \<leftarrow> add_member dump ''result'' verdict st;
     st \<leftarrow> add_member dump ''reason'' reason st;
     add_integer_member dump ''duration_ms'' (ucast (ve_duration_ms event)) st
   })"
  have "grows (37 + (33 + (17 + (38 + 35)))) steps"
    using assms v r unfolding steps_def
    by (intro grows_bind grows_member grows_integer_member) (simp_all add: plain_literals)
  then obtain st where st: "steps (''{'', True) = Some st" "length (fst st) \<le> length (fst (''{'', True)) + (37 + (33 + (17 + (38 + 35))))"
      "clean (fst (''{'', True)) \<longrightarrow> clean (fst st)"
    by (rule growsE)
  have "add_outcome dump event = steps (''{'', True)"
    by (simp only: add_outcome_def steps_def verdict_def reason_def)
  with st show ?thesis by simp
qed

lemma add_profiles_grows:
  assumes "dump_laws dump" "admissible_event event"
  shows "grows 236 (add_profiles dump event)"
proof -
  from assms(2) have "plain (ve_acquisition_profile event) \<and> length (ve_acquisition_profile event) \<le> 34"
      "plain (ve_binding_profile event) \<and> length (ve_binding_profile event) \<le> 34"
      "plain (ve_evidence_profile event) \<and> length (ve_evidence_profile event) \<le> 34"
      "plain (ve_caller_algorithm event) \<and> length (ve_caller_algorithm event) \<le> 34"
    using ascii_enum_plain profiles_plain unfolding admissible_event_def by blast+
  then have "grows (59 + (59 + (59 + 59))) (add_profiles dump event)"
    using assms(1) unfolding add_profiles_def
    by (intro grows_bind grows_nonempty_member) (simp_all add: plain_literals)
  then show ?thesis by simp
qed

lemma add_requested_user_writes:
  assumes "dump_laws dump" "hash_username \<or> safe_username name"
    and "digest_sha256 ossl (bytes name) = Inr digest" "length digest = 32"
  shows "\<exists>st'. add_requested_user ossl dump hash_username name st = Some (Inr st') \<and>
     (hash_username \<longrightarrow> length (fst st') \<le> length (fst st) + 92 \<and> (clean (fst st) \<longrightarrow> clean (fst st')))"
proof (cases hash_username)
  case True
  have "grows 92 (add_member dump ''requested_user_sha256'' (lowercase_hex digest))"
    using assms lowercase_hex_plain [of digest] by (intro grows_member) (simp_all add: plain_literals)
  then obtain st' where "add_member dump ''requested_user_sha256'' (lowercase_hex digest) st = Some st'"
      "length (fst st') \<le> length (fst st) + 92" "clean (fst st) \<longrightarrow> clean (fst st')"
    by (rule growsE)
  then show ?thesis
    using True assms(3) by (auto simp: add_requested_user_def sha256_hex_def)
next
  case False
  then have "safe_username name" using assms(2) by simp
  from quoted_username [OF assms(1) this] show ?thesis
    using False assms(1) by (auto simp: add_requested_user_def add_member_def quoted_plain plain_literals)
qed

text \<open>A reference to an identity comes with the policy it was authenticated under.\<close>

definition complete_reference :: "VerificationEvent \<Rightarrow> bool" where
  "complete_reference event \<longleftrightarrow> ve_identity_ref_sha256 event \<noteq> '''' \<longrightarrow> ve_issuer_policy event \<noteq> ''''"

lemma digest_sha256_length: "digest_sha256 ossl input = Inr digest \<Longrightarrow> length digest = 32"
  by (auto simp: digest_sha256_def split: option.splits if_splits)

lemma finish_payload_iff:
  "finish_payload severity st = Inr line \<longleftrightarrow>
     length (fst st) < 1024 \<and> clean (fst st) \<and> line = \<lparr>se_payload = fst st @ ''}'', se_severity = severity\<rparr>"
  by (auto simp: finish_payload_def clean_def Let_def kMaximumEventBytes_def)

lemma verification_payload_writes:
  assumes "dump_laws dump" "admissible_event event" "complete_reference event"
    and "hash_username \<or> safe_username (ve_requested_user event)"
    and "digest_sha256 ossl (bytes (ve_requested_user event)) = Inr digest"
  shows "\<exists>result. verification_payload ossl dump event hash_username = Some result \<and> (hash_username \<longrightarrow> has_value result)"
proof -
  obtain st1 where 1: "add_outcome dump event = Some st1" "length (fst st1) \<le> 220" "clean (fst st1)"
    using add_outcome_writes [OF assms(1)] by blast
  obtain st2 where 2: "add_requested_user ossl dump hash_username (ve_requested_user event) st1 = Some (Inr st2)"
      "hash_username \<Longrightarrow> length (fst st2) \<le> length (fst st1) + 92 \<and> clean (fst st2)"
    using add_requested_user_writes [OF assms(1,4,5) digest_sha256_length [OF assms(5)]] 1 by blast
  have "plain (ve_issuer_policy event) \<and> length (ve_issuer_policy event) \<le> 64"
      "plain (ve_identity_ref_sha256 event) \<and> length (ve_identity_ref_sha256 event) \<le> 64"
    using assms(2) plain_policy_id plain_hex_digest by (auto simp: admissible_event_def)
  then have g: "grows 83 (add_nonempty_member dump ''issuer_policy'' (ve_issuer_policy event))"
      "grows 89 (add_nonempty_member dump ''identity_ref_sha256'' (ve_identity_ref_sha256 event))"
    using assms(1) by (auto intro!: grows_nonempty_member simp: plain_literals)
  obtain st3 where 3: "add_nonempty_member dump ''issuer_policy'' (ve_issuer_policy event) st2 = Some st3"
      "length (fst st3) \<le> length (fst st2) + 83" "clean (fst st2) \<longrightarrow> clean (fst st3)"
    using g(1) by (rule growsE)
  obtain st4 where 4: "add_nonempty_member dump ''identity_ref_sha256'' (ve_identity_ref_sha256 event) st3 = Some st4"
      "length (fst st4) \<le> length (fst st3) + 89" "clean (fst st3) \<longrightarrow> clean (fst st4)"
    using g(2) by (rule growsE)
  obtain st5 where 5: "add_profiles dump event st4 = Some st5"
      "length (fst st5) \<le> length (fst st4) + 236" "clean (fst st4) \<longrightarrow> clean (fst st5)"
    using add_profiles_grows [OF assms(1,2)] by (rule growsE)
  have "verification_payload ossl dump event hash_username = Some (finish_payload (event_severity event) st5)"
    using assms(2,3) 1(1) 2(1) 3(1) 4(1) 5(1) by (auto simp: verification_payload_def complete_reference_def)
  moreover have "has_value (finish_payload (event_severity event) st5)" if hash_username
    using 1 2(2) [OF that] 3 4 5 by (simp add: has_value_iff finish_payload_iff)
  ultimately show ?thesis by blast
qed

lemma verification_payload_bounds:
  assumes "verification_payload ossl dump event hash_username = Some (Inr line)"
  shows "admissible_event event \<and> complete_reference event \<and> length (se_payload line) \<le> 1024 \<and>
     clean (se_payload line) \<and> se_severity line = event_severity event"
proof -
  have "admissible_event event" using assms by (auto simp: verification_payload_def split: if_splits)
  with assms obtain st named_user where "add_outcome dump event = Some st"
      "add_requested_user ossl dump hash_username (ve_requested_user event) st = Some named_user"
    and rest: "(case named_user of Inl e \<Rightarrow> Some (Inl e) | Inr st \<Rightarrow> do {
            st \<leftarrow> add_nonempty_member dump ''issuer_policy'' (ve_issuer_policy event) st;
            if ve_identity_ref_sha256 event \<noteq> '''' \<and> ve_issuer_policy event = '''' then Some (Inl internal_error)
            else do {
              st \<leftarrow> add_nonempty_member dump ''identity_ref_sha256'' (ve_identity_ref_sha256 event) st;
              st \<leftarrow> add_profiles dump event st;
              Some (finish_payload (event_severity event) st)
            }
          }) = Some (Inr line)"
    unfolding verification_payload_def by (auto simp: bind_eq_Some_conv)
  from rest show ?thesis
    using \<open>admissible_event event\<close>
    by (cases named_user) (auto simp: finish_payload_iff complete_reference_def bind_eq_Some_conv split: if_splits)
qed

lemma serialize_verification_payload:
  "serialize_verification ossl dump event = Some (Inr line) \<Longrightarrow>
     \<exists>hash_username. verification_payload ossl dump event hash_username = Some (Inr line) \<and>
       (hash_username \<or> safe_username (ve_requested_user event))"
  by (auto simp: serialize_verification_def Let_def bind_eq_Some_conv split: if_splits)

lemma serialize_verification_eq:
  assumes "dump_laws dump" "digest_sha256 ossl (bytes (ve_requested_user event)) = Inr digest"
  shows "(\<exists>line. serialize_verification ossl dump event = Some (Inr line)) \<longleftrightarrow>
     admissible_event event \<and> complete_reference event" (is "?written \<longleftrightarrow> ?admitted")
proof
  assume ?written
  then show ?admitted
    using serialize_verification_payload verification_payload_bounds by blast
next
  assume ?admitted
  note writes = verification_payload_writes [OF assms(1) conjunct1 conjunct2, OF this this _ assms(2)]
  obtain result where result: "verification_payload ossl dump event True = Some result" "has_value result"
    using writes [of True] by auto
  show ?written
  proof (cases "safe_username (ve_requested_user event)")
    case True
    then obtain first where "verification_payload ossl dump event False = Some first" using writes [of False] by auto
    then show ?thesis using True result by (cases first) (auto simp: serialize_verification_def has_value_iff)
  next
    case False
    then show ?thesis using result by (auto simp: serialize_verification_def has_value_iff)
  qed
qed

section \<open>Facilities\<close>

lemma parse_facility_name: "parse_facility (facility_name facility) = Inr facility"
  by (cases facility) (simp_all add: parse_facility_def facility_values_def)

lemma facility_values_names: "item \<in> set facility_values \<Longrightarrow> fst item = facility_name (snd item)"
  by (auto simp: facility_values_def)

lemma parse_facility_eq: "parse_facility name = Inr facility \<longleftrightarrow> name = facility_name facility"
proof
  assume "parse_facility name = Inr facility"
  then obtain item where "find (\<lambda>item. fst item = name) facility_values = Some item" "snd item = facility"
    by (auto simp: parse_facility_def split: option.splits)
  then have "item \<in> set facility_values" "fst item = name" "snd item = facility"
    by (auto simp: find_Some_iff)
  then show "name = facility_name facility" using facility_values_names by auto
qed (simp add: parse_facility_name)

section \<open>References\<close>

lemma audit_append_value_field: "audit_append_value out s = append_value out (bytes s)"
  by (simp add: audit_append_value_def audit_append_u64_def append_value_def u64_bytes_def)

section \<open>Properties\<close>

text \<open>
  C28. When the digest of the user name can be computed, the record of a verification is written
  exactly when its fields are admissible and a reference to an identity comes with its policy,
  whatever the user name holds; a written record has at most 1024 bytes, no newline and no NUL,
  and the severity of its outcome.
\<close>

theorem audit_record_written:
  assumes "dump_laws dump" "digest_sha256 ossl (bytes (ve_requested_user event)) = Inr digest"
  shows "((\<exists>line. serialize_verification ossl dump event = Some (Inr line)) \<longleftrightarrow>
        admissible_event event \<and> complete_reference event) \<and>
     (\<forall>line. serialize_verification ossl dump event = Some (Inr line) \<longrightarrow>
        length (se_payload line) \<le> 1024 \<and> CHR 0x0a \<notin> set (se_payload line) \<and> CHR 0x00 \<notin> set (se_payload line) \<and>
        se_severity line = event_severity event)"
  using serialize_verification_eq [OF assms] serialize_verification_payload [of ossl dump event]
    verification_payload_bounds [of ossl dump event] unfolding clean_def by blast

text \<open>
  C29. A record shows a user name in the clear exactly when the verifier would accept it: the
  audit check and the verifier's check are the same predicate.
\<close>

theorem safe_username_iff: "safe_username name \<longleftrightarrow> valid_requested_user name"
  by (rule safe_username_eq)

text \<open>
  A facility is read back from its name, and no other name is a facility.
\<close>

theorem parse_facility_iff: "parse_facility name = Inr facility \<longleftrightarrow> name = facility_name facility"
  by (rule parse_facility_eq)

section \<open>Instances\<close>

definition demo_escape :: "char \<Rightarrow> string" where
  "demo_escape c = (if c = CHR 0x22 \<or> c = CHR 0x5c then [CHR 0x5c, c] else [c])"

definition demo_dump :: json_dump where
  "demo_dump v indent =
     (case v of JString s \<Rightarrow> Some (CHR 0x22 # concat (map demo_escape s) @ [CHR 0x22]) | _ \<Rightarrow> None)"

lemma demo_escape_plain: "plain s \<Longrightarrow> concat (map demo_escape s) = s"
  by (induction s) (auto simp: plain_def demo_escape_def)

lemma demo_dump_laws: "dump_laws demo_dump"
  by (simp add: dump_laws_def demo_dump_def demo_escape_plain)

definition demo_event :: VerificationEvent where
  "demo_event = new_verification_event\<lparr>ve_requested_user := ''al'' @ [CHR 0x0a], ve_issuer_policy := ''corp-1''\<rparr>"

theorem audit_record_written_witness:
  "\<exists>line. serialize_verification demo_openssl demo_dump demo_event = Some (Inr line) \<and> length (se_payload line) \<le> 1024"
proof -
  obtain digest where digest: "digest_sha256 demo_openssl (bytes (ve_requested_user demo_event)) = Inr digest"
    by (simp add: digest_sha256_def demo_openssl_def)
  have "admissible_event demo_event \<and> complete_reference demo_event"
    by (simp add: admissible_event_def complete_reference_def consistent_outcome_def demo_event_def
        new_verification_event_def ascii_enum_def lower_hex_digest_def audit_valid_policy_id_def is_letter_def is_digit_def)
  then show ?thesis using audit_record_written [OF demo_dump_laws digest] by blast
qed

end
