(* ===== verification/Cb_Config_Json.thy ===== *)
theory Cb_Config_Json
  imports Cb_Header Cb_Audit
begin

text \<open>
  The JSON layer of \<^verbatim>\<open>src/config.cpp\<close>: the handler \<^verbatim>\<open>ConfigSax\<close> (the operations of
  \<open>Cb_Dom\<close> with its own bounds), the schema helpers, and the durations and integers that a
  configuration writes as text.
\<close>

definition kMaximumConfigurationBytes :: nat where "kMaximumConfigurationBytes = 1048576"
definition kMaximumDepth :: nat where "kMaximumDepth = 32"
definition kMaximumMembers :: nat where "kMaximumMembers = 4096"
definition kMaximumValues :: nat where "kMaximumValues = 8192"
definition kMaximumKeyBytes :: nat where "kMaximumKeyBytes = 256"
definition kMaximumPolicies :: nat where "kMaximumPolicies = 64"
definition kMaximumAccountRules :: nat where "kMaximumAccountRules = 256"
definition kNanosecondsPerSecond :: u64 where "kNanosecondsPerSecond = 1000000000"

section \<open>The class ConfigSax\<close>

definition config_start_object :: "dom_state \<Rightarrow> dom_state \<times> bool" where
  "config_start_object s =
     (case dom_count_value kMaximumValues s of (s, proceed) \<Rightarrow>
        if \<not> proceed then (s, False)
        else if ds_stack s = [] then (push_context (new_context ctx_object True) s, True)
        else
          case dom_parent_ready s of (s, is_ready) \<Rightarrow>
            if \<not> is_ready then (s, False)
            else if length (ds_stack s) + 1 > kMaximumDepth then dom_fail s resource_limit
            else (push_context (new_context ctx_object False) s, True))"

definition config_start_array :: "dom_state \<Rightarrow> dom_state \<times> bool" where
  "config_start_array s =
     (if ds_stack s = [] then (s, False)
      else
        case dom_count_value kMaximumValues s of (s, proceed) \<Rightarrow>
          if \<not> proceed then (s, False)
          else
            case dom_parent_ready s of (s, is_ready) \<Rightarrow>
              if \<not> is_ready then (s, False)
              else if length (ds_stack s) + 1 > kMaximumDepth then dom_fail s resource_limit
              else (push_context (new_context ctx_array False) s, True))"

definition config_step :: "dom_state \<Rightarrow> sax_event \<Rightarrow> dom_state \<times> bool" where
  "config_step s e =
     (case e of
        Ev_null \<Rightarrow> dom_scalar kMaximumValues s JNull
      | Ev_boolean b \<Rightarrow> dom_scalar kMaximumValues s (JBool b)
      | Ev_number_integer i \<Rightarrow> dom_scalar kMaximumValues s (JInteger i)
      | Ev_number_unsigned n \<Rightarrow> dom_scalar kMaximumValues s (JUnsigned n)
      | Ev_number_float d \<Rightarrow> dom_scalar kMaximumValues s (JFloat d)
      | Ev_string v \<Rightarrow> dom_scalar kMaximumValues s (JString v)
      | Ev_binary \<Rightarrow> dom_fail s malformed_input
      | Ev_start_object \<Rightarrow> config_start_object s
      | Ev_key name \<Rightarrow> dom_key kMaximumMembers kMaximumKeyBytes s name
      | Ev_end_object \<Rightarrow> dom_end_object s
      | Ev_start_array \<Rightarrow> config_start_array s
      | Ev_end_array \<Rightarrow> dom_end_array s
      | Ev_parse_error \<Rightarrow> dom_fail s malformed_input)"

definition config_parse_json :: "json_lexer \<Rightarrow> string \<Rightarrow> json expected" where
  "config_parse_json lexer input =
     (if length input > kMaximumConfigurationBytes then Inl resource_limit
      else
        case sax_run config_step dom_init (lexer input) of (handler, parsed) \<Rightarrow>
          if \<not> parsed \<or> ds_failed handler \<or> \<not> dom_done handler then Inl (ds_error handler)
          else Inr (ds_root handler))"

section \<open>Schemas\<close>

definition exact_members :: "json \<Rightarrow> string list \<Rightarrow> string list \<Rightarrow> bool" where
  "exact_members object required optional =
     (case object of
        JObject members \<Rightarrow>
          list_all (\<lambda>name. json_find object name \<noteq> None) required \<and>
          list_all (\<lambda>(key, _). key \<in> set required \<or> key \<in> set optional) members
      | _ \<Rightarrow> False)"

definition string_value :: "json \<Rightarrow> string \<Rightarrow> string option" where
  "string_value object name =
     (case json_find object name of
        None \<Rightarrow> None
      | Some v \<Rightarrow> if \<not> is_string v then None else Some (get_string v))"

definition utf8_without_controls :: "string \<Rightarrow> nat \<Rightarrow> bool" where
  "utf8_without_controls s maximum =
     (if s = '''' \<or> length s > maximum then False else utf8_loop s 0)"

text \<open>\<^verbatim>\<open>object.at(name)\<close>, where the name has been found.\<close>

definition json_at :: "json \<Rightarrow> string \<Rightarrow> json" where
  "json_at object name = (case json_find object name of None \<Rightarrow> JNull | Some v \<Rightarrow> v)"

section \<open>Durations\<close>

text \<open>The digits from the offset on: their number and what follows them.\<close>

fun scan_number :: "string \<Rightarrow> u64 \<Rightarrow> (u64 \<times> string) expected" where
  "scan_number [] number = Inr (number, [])"
| "scan_number (c # rest) number =
     (if is_digit c then
        let digit = (of_nat (of_char c - 48) :: u64) in
        if number > (- 1 - digit) div 10 then Inl resource_limit
        else scan_number rest (number * 10 + digit)
      else Inr (number, c # rest))"

lemma scan_number_rest: "scan_number s number = Inr (n, rest) \<Longrightarrow> length rest \<le> length s"
  by (induction s number rule: scan_number.induct) (auto simp: Let_def split: if_splits)

definition duration_unit :: "string \<Rightarrow> (u64 \<times> string) option" where
  "duration_unit rest =
     (if take 2 rest = ''ns'' then Some (1, drop 2 rest)
      else if take 2 rest = ''us'' then Some (1000, drop 2 rest)
      else if take 2 rest = ''ms'' then Some (1000000, drop 2 rest)
      else if rest \<noteq> [] \<and> hd rest = CHR ''s'' then Some (kNanosecondsPerSecond, tl rest)
      else if rest \<noteq> [] \<and> hd rest = CHR ''m'' then Some (60 * kNanosecondsPerSecond, tl rest)
      else if rest \<noteq> [] \<and> hd rest = CHR ''h'' then Some (3600 * kNanosecondsPerSecond, tl rest)
      else None)"

lemma duration_unit_rest: "duration_unit s = Some (u, rest) \<Longrightarrow> length rest < length s"
  by (cases s) (auto simp: duration_unit_def split: if_splits)

function duration_loop :: "string \<Rightarrow> u64 \<Rightarrow> u64 expected" where
  "duration_loop rest elapsed =
     (if rest \<noteq> [] then
        if \<not> is_digit (hd rest) then Inl malformed_input
        else
          ebind (scan_number rest 0) (\<lambda>(number, rest).
            case duration_unit rest of
              None \<Rightarrow> Inl malformed_input
            | Some (unit, rest) \<Rightarrow>
                if number > - 1 div unit \<or> elapsed > - 1 - number * unit then Inl resource_limit
                else duration_loop rest (elapsed + number * unit))
      else Inr elapsed)"
  by auto
termination
  by (relation "measure (\<lambda>(rest, elapsed). length rest)") (auto dest!: scan_number_rest duration_unit_rest)

declare duration_loop.simps [simp del]

definition duration_nanoseconds :: "string \<Rightarrow> u64 expected" where
  "duration_nanoseconds s = (if length s < 2 then Inl malformed_input else duration_loop s 0)"

text \<open>Nanoseconds and seconds of a unit, one of them zero.\<close>

definition seconds_unit :: "string \<Rightarrow> (u64 \<times> u64 \<times> string) option" where
  "seconds_unit rest =
     (if take 2 rest = ''ns'' then Some (1, 0, drop 2 rest)
      else if take 2 rest = ''us'' then Some (1000, 0, drop 2 rest)
      else if take 2 rest = ''ms'' then Some (1000000, 0, drop 2 rest)
      else if rest \<noteq> [] \<and> hd rest = CHR ''s'' then Some (0, 1, tl rest)
      else if rest \<noteq> [] \<and> hd rest = CHR ''m'' then Some (0, 60, tl rest)
      else if rest \<noteq> [] \<and> hd rest = CHR ''h'' then Some (0, 3600, tl rest)
      else None)"

lemma seconds_unit_rest: "seconds_unit s = Some (ns, u, rest) \<Longrightarrow> length rest < length s"
  by (cases s) (auto simp: seconds_unit_def split: if_splits)

text \<open>What a number of units adds, as seconds and nanoseconds below a second.\<close>

definition added_time :: "u64 \<Rightarrow> u64 \<Rightarrow> u64 \<Rightarrow> (u64 \<times> u64) expected" where
  "added_time number unit_nanoseconds unit_seconds =
     (if unit_seconds \<noteq> 0 then
        if number > - 1 div unit_seconds then Inl resource_limit
        else Inr (number * unit_seconds, 0)
      else
        let units_per_second = kNanosecondsPerSecond div unit_nanoseconds in
        Inr (number div units_per_second, number mod units_per_second * unit_nanoseconds))"

function seconds_loop :: "string \<Rightarrow> u64 \<Rightarrow> u64 \<Rightarrow> (u64 \<times> u64) expected" where
  "seconds_loop rest seconds nanoseconds =
     (if rest \<noteq> [] then
        if \<not> is_digit (hd rest) then Inl malformed_input
        else
          ebind (scan_number rest 0) (\<lambda>(number, rest).
            case seconds_unit rest of
              None \<Rightarrow> Inl malformed_input
            | Some (unit_nanoseconds, unit_seconds, rest) \<Rightarrow>
                ebind (added_time number unit_nanoseconds unit_seconds) (\<lambda>(added_seconds, added_nanoseconds).
                  if seconds > - 1 - added_seconds then Inl resource_limit
                  else
                    let seconds = seconds + added_seconds; nanoseconds = nanoseconds + added_nanoseconds in
                    if nanoseconds \<ge> kNanosecondsPerSecond then
                      if seconds = - 1 then Inl resource_limit
                      else seconds_loop rest (seconds + 1) (nanoseconds - kNanosecondsPerSecond)
                    else seconds_loop rest seconds nanoseconds))
      else Inr (seconds, nanoseconds))"
  by auto
termination
  by (relation "measure (\<lambda>(rest, seconds, nanoseconds). length rest)")
    (auto dest!: scan_number_rest seconds_unit_rest)

declare seconds_loop.simps [simp del]

definition whole_seconds :: "json \<Rightarrow> string \<Rightarrow> bool \<Rightarrow> int expected" where
  "whole_seconds object name positive =
     (case string_value object name of
        None \<Rightarrow> Inl malformed_input
      | Some s \<Rightarrow>
          if length s < 2 then Inl malformed_input
          else
            ebind (seconds_loop s 0 0) (\<lambda>(seconds, nanoseconds).
              if nanoseconds \<noteq> 0 \<or> (positive \<and> seconds = 0) \<or> seconds > 0x7fffffffffffffff
              then Inl malformed_input
              else Inr (uint seconds)))"

section \<open>Which documents are parsed\<close>

definition config_bounds :: dom_bounds where
  "config_bounds =
     \<lparr>db_depth = kMaximumDepth, db_members = kMaximumMembers, db_values = kMaximumValues,
      db_key_bytes = kMaximumKeyBytes, db_finite = False\<rparr>"

lemma config_bounds_simps [simp]:
  "db_depth config_bounds = kMaximumDepth" "db_members config_bounds = kMaximumMembers"
  "db_values config_bounds = kMaximumValues" "db_key_bytes config_bounds = kMaximumKeyBytes"
  "\<not> db_finite config_bounds"
  by (simp_all add: config_bounds_def)

lemma config_start_iffs:
  "config_start_object s = (s', True) \<longleftrightarrow> Option.bind (counted config_bounds s) (opened config_bounds ctx_object) = Some s'"
  "config_start_array s = (s', True) \<longleftrightarrow> Option.bind (counted config_bounds s) (opened config_bounds ctx_array) = Some s'"
proof -
  have "(config_start_object s = (s', True) \<longleftrightarrow> Option.bind (counted config_bounds s) (opened config_bounds ctx_object) = Some s') \<and>
     (config_start_array s = (s', True) \<longleftrightarrow> Option.bind (counted config_bounds s) (opened config_bounds ctx_array) = Some s')"
  proof (cases config_bounds s rule: count_cases)
    case (1 s1)
    then show ?thesis
      by (cases s1 rule: ready_cases)
        (auto simp: config_start_object_def config_start_array_def opened_def neq_Nil_conv split: list.splits)
  qed (simp add: config_start_object_def config_start_array_def)
  then show "config_start_object s = (s', True) \<longleftrightarrow> Option.bind (counted config_bounds s) (opened config_bounds ctx_object) = Some s'"
    "config_start_array s = (s', True) \<longleftrightarrow> Option.bind (counted config_bounds s) (opened config_bounds ctx_array) = Some s'"
    by blast+
qed

lemma config_step_iff:
  assumes wf: "dom_wf s"
  shows "config_step s e = (s', True) \<longleftrightarrow> dom_next config_bounds s e = Some s'"
  using dom_key_iff [of config_bounds] dom_end_object_iff [OF wf] dom_end_array_iff [OF wf]
    dom_scalar_iff [of config_bounds]
  by (cases e)
    (simp_all add: config_step_def dom_next_def scalar_of_def scalar_ok_def config_start_iffs)

interpretation config_sax: dom_handler config_step config_bounds
proof unfold_locales
  show "\<not> ds_failed s'" if "config_step s e = (s', True)" "\<not> ds_failed s" for s e s'
    using that
    by (cases e)
      (auto simp: config_step_def config_start_object_def config_start_array_def dom_scalar_def dom_attach_def
        dom_key_def dom_end_object_def dom_end_array_def dom_count_value_def dom_parent_ready_def dom_fail_def
        Let_def push_context_def split: prod.splits if_splits)
qed (simp_all add: config_step_iff kMaximumDepth_def kMaximumValues_def)

lemma config_parse_json_eq:
  assumes lex: "lexer input = events_of t"
  shows "config_parse_json lexer input = Inr j \<longleftrightarrow>
     length input \<le> kMaximumConfigurationBytes \<and> document_ok config_bounds t \<and> j = json_value t"
proof -
  obtain h parsed where run: "sax_run config_step dom_init (events_of t) = (h, parsed)" by fastforce
  have accepts: "(parsed \<and> \<not> ds_failed h \<and> dom_done h \<and> ds_root h = v) \<longleftrightarrow> document_ok config_bounds t \<and> v = json_value t" for v
    using config_sax.accepts_iff [of t v] run by simp
  then show ?thesis
    using accepts [of "ds_root h"] accepts [of j] by (auto simp: config_parse_json_def lex run not_less)
qed

section \<open>Bounds of the arithmetic\<close>

lemma unat_max: "unat (- 1 :: u64) = 2 ^ 64 - 1"
  by (simp add: unsigned_minus_1_eq_mask mask_eq_exp_minus_1)

lemma exceeds_iffs:
  fixes a b u d :: u64
  shows "u \<noteq> 0 \<Longrightarrow> a > - 1 div u \<longleftrightarrow> 2 ^ 64 \<le> unat a * unat u"
    and "a > - 1 - b \<longleftrightarrow> 2 ^ 64 \<le> unat a + unat b"
    and "a > (- 1 - d) div 10 \<longleftrightarrow> 2 ^ 64 \<le> unat a * 10 + unat d"
proof -
  have max: "unat (- 1 - x) = 2 ^ 64 - 1 - unat x" for x :: u64
    using unat_sub [of x "- 1"] by (simp add: unat_max)
  have lt: "unat x < 2 ^ 64" for x :: u64
    using unsigned_less [where 'a = nat, of x] by simp
  show "u \<noteq> 0 \<Longrightarrow> a > - 1 div u \<longleftrightarrow> 2 ^ 64 \<le> unat a * unat u"
  proof -
    assume "u \<noteq> 0"
    then have "0 < unat u" by (simp add: unat_gt_0)
    then have "(2 ^ 64 - 1) div unat u < unat a \<longleftrightarrow> 2 ^ 64 - 1 < unat a * unat u"
      by (rule div_less_iff_less_mult)
    then show ?thesis by (simp only: word_less_nat_alt unat_div_distrib unat_max) auto
  qed
  show "a > - 1 - b \<longleftrightarrow> 2 ^ 64 \<le> unat a + unat b"
    unfolding word_less_nat_alt max using lt [of b] by auto
  have "(2 ^ 64 - 1 - unat d) div 10 < unat a \<longleftrightarrow> 2 ^ 64 - 1 - unat d < unat a * 10"
    by (rule div_less_iff_less_mult) simp
  then show "a > (- 1 - d) div 10 \<longleftrightarrow> 2 ^ 64 \<le> unat a * 10 + unat d"
    using lt [of d] by (simp only: word_less_nat_alt unat_div_distrib max) auto
qed

lemma unat_sums:
  fixes a b :: u64
  shows "unat a + unat b < 2 ^ 64 \<Longrightarrow> unat (a + b) = unat a + unat b"
    and "unat a * unat b < 2 ^ 64 \<Longrightarrow> unat (a * b) = unat a * unat b"
  using unat_add_lem [of a b] unat_mult_lem [of a b] by simp_all

section \<open>What a duration says\<close>

definition digit_value :: "char \<Rightarrow> nat" where
  "digit_value c = of_char c - 48"

definition decimal_from :: "nat \<Rightarrow> string \<Rightarrow> nat" where
  "decimal_from n digits = foldl (\<lambda>n c. n * 10 + digit_value c) n digits"

lemma decimal_from_simps [simp]:
  "decimal_from n [] = n"
  "decimal_from n (c # digits) = decimal_from (n * 10 + digit_value c) digits"
  by (simp_all add: decimal_from_def)

lemma decimal_from_ge: "n \<le> decimal_from n digits"
proof (induction digits arbitrary: n)
  case (Cons c digits)
  have "n \<le> n * 10 + digit_value c" by simp
  also have "\<dots> \<le> decimal_from (n * 10 + digit_value c) digits" by (rule Cons)
  finally show ?case by simp
qed simp

definition duration_units :: "(string \<times> nat) list" where
  "duration_units =
     [(''ns'', 1), (''us'', 1000), (''ms'', 1000000), (''s'', 1000000000), (''m'', 60000000000), (''h'', 3600000000000)]"

text \<open>A duration is a sequence of terms, each a number and a unit.\<close>

type_synonym duration_term = "string \<times> string"

definition duration_term :: "duration_term \<Rightarrow> bool" where
  "duration_term t \<longleftrightarrow> fst t \<noteq> [] \<and> list_all is_digit (fst t) \<and> snd t \<in> fst ` set duration_units"

definition term_number :: "duration_term \<Rightarrow> nat" where
  "term_number t = decimal_from 0 (fst t)"

definition term_value :: "duration_term \<Rightarrow> nat" where
  "term_value t = term_number t * the (map_of duration_units (snd t))"

definition terms_text :: "duration_term list \<Rightarrow> string" where
  "terms_text ts = concat (map (\<lambda>t. fst t @ snd t) ts)"

lemma digit_word:
  assumes "is_digit c"
  shows "unat (of_nat (of_char c - 48) :: u64) = digit_value c" "digit_value c < 10"
proof -
  have "48 \<le> (of_char c :: nat)" "(of_char c :: nat) \<le> 57"
    using assms by (auto simp: is_digit_def less_eq_char_def)
  then show "digit_value c < 10" by (simp add: digit_value_def)
  then show "unat (of_nat (of_char c - 48) :: u64) = digit_value c"
    by (simp add: digit_value_def unat_of_nat)
qed

lemma scan_number_digits:
  assumes "list_all is_digit digits" "rest = [] \<or> \<not> is_digit (hd rest)"
  shows "scan_number (digits @ rest) n =
     (if decimal_from (unat n) digits < 2 ^ 64 then Inr (of_nat (decimal_from (unat n) digits), rest)
      else Inl resource_limit)"
  using assms
proof (induction digits arbitrary: n)
  case Nil
  then show ?case using unsigned_less [where 'a = nat, of n] by (cases rest) auto
next
  case (Cons c digits)
  let ?d = "of_nat (of_char c - 48) :: u64"
  have d: "unat ?d = digit_value c" using digit_word Cons.prems by simp
  show ?case
  proof (cases "n > (- 1 - ?d) div 10")
    case True
    then have "2 ^ 64 \<le> unat n * 10 + digit_value c" by (simp only: exceeds_iffs(3) d)
    then have "\<not> decimal_from (unat n) (c # digits) < 2 ^ 64"
      using decimal_from_ge [of "unat n * 10 + digit_value c" digits] by simp
    then show ?thesis using True Cons.prems by (simp add: Let_def)
  next
    case False
    then have "unat n * 10 + digit_value c < 2 ^ 64" by (simp only: exceeds_iffs(3) d not_le)
    then have "unat (n * 10 + ?d) = unat n * 10 + digit_value c"
      using unat_sums(2) [of n 10] unat_sums(1) [of "n * 10" ?d] d by simp
    then show ?thesis using False Cons by (simp add: Let_def)
  qed
qed

lemma scan_number_iff:
  "scan_number s 0 = Inr (n, rest) \<longleftrightarrow>
     (\<exists>digits. s = digits @ rest \<and> list_all is_digit digits \<and> (rest = [] \<or> \<not> is_digit (hd rest)) \<and>
        unat n = decimal_from 0 digits)" (is "_ \<longleftrightarrow> ?rhs")
proof -
  let ?digits = "takeWhile is_digit s" and ?rest = "dropWhile is_digit s"
  have split: "list_all is_digit ?digits" "?rest = [] \<or> \<not> is_digit (hd ?rest)"
    using hd_dropWhile [of is_digit s] by (auto simp: list_all_iff dest: set_takeWhileD)
  note scan = scan_number_digits [OF split, of 0, unfolded takeWhile_dropWhile_id]
  have n: "unat n = k \<longleftrightarrow> k < 2 ^ 64 \<and> n = of_nat k" for k
    using unsigned_less [where 'a = nat, of n] by (auto simp: unat_of_nat)
  have "?rhs \<longleftrightarrow> rest = ?rest \<and> unat n = decimal_from 0 ?digits" (is "_ \<longleftrightarrow> ?unique")
  proof
    assume ?rhs
    then obtain digits where d: "s = digits @ rest" "list_all is_digit digits" "rest = [] \<or> \<not> is_digit (hd rest)"
        "unat n = decimal_from 0 digits" by blast
    then have "takeWhile is_digit rest = []" "dropWhile is_digit rest = rest" by (cases rest; simp)+
    with d have "?digits = digits" "?rest = rest" by (auto simp: list_all_iff)
    then show ?unique using d by simp
  next
    assume ?unique
    then show ?rhs using split by (intro exI [of _ ?digits]) simp
  qed
  then show ?thesis unfolding scan n by auto
qed

lemma duration_units_simps:
  "map_of duration_units ''ns'' = Some 1" "map_of duration_units ''us'' = Some 1000"
  "map_of duration_units ''ms'' = Some 1000000" "map_of duration_units ''s'' = Some 1000000000"
  "map_of duration_units ''m'' = Some 60000000000" "map_of duration_units ''h'' = Some 3600000000000"
  by (simp_all add: duration_units_def)

lemma unit_names: "u \<in> fst ` set duration_units \<longleftrightarrow>
    u = ''ns'' \<or> u = ''us'' \<or> u = ''ms'' \<or> u = ''s'' \<or> u = ''m'' \<or> u = ''h''"
  by (simp add: duration_units_def)

lemma take_2: "take 2 s = [a, b] \<longleftrightarrow> (\<exists>rest. s = a # b # rest)"
  by (cases s; cases "tl s") (auto simp: numeral_2_eq_2)

lemma duration_unit_sound:
  "duration_unit s = Some (u, rest) \<Longrightarrow>
     \<exists>name. s = name @ rest \<and> name \<in> fst ` set duration_units \<and> unat u = the (map_of duration_units name)"
  unfolding duration_unit_def take_2 unit_names
  by (auto simp: duration_units_simps kNanosecondsPerSecond_def neq_Nil_conv split: if_splits)

lemma not_digits: "\<not> is_digit CHR ''s''" "\<not> is_digit CHR ''m''" "\<not> is_digit CHR ''n''" "\<not> is_digit CHR ''u''" "\<not> is_digit CHR ''h''"
  by (simp_all add: is_digit_def)

lemma duration_unit_complete:
  assumes "name \<in> fst ` set duration_units" "rest = [] \<or> is_digit (hd rest)"
  shows "\<exists>u. duration_unit (name @ rest) = Some (u, rest) \<and> unat u = the (map_of duration_units name)"
proof -
  have "\<not> (\<exists>t. rest = CHR ''s'' # t)" using assms(2) not_digits by auto
  then show ?thesis
    using assms(1) unfolding unit_names duration_unit_def take_2
    by (elim disjE) (simp_all add: duration_units_simps kNanosecondsPerSecond_def)
qed

lemma seconds_unit_iff:
  "seconds_unit s = Some (ns, u, rest) \<longleftrightarrow>
     (\<exists>d. duration_unit s = Some (d, rest) \<and>
        (if d < kNanosecondsPerSecond then ns = d \<and> u = 0 else ns = 0 \<and> u = d div kNanosecondsPerSecond))"
  by (auto simp: seconds_unit_def duration_unit_def kNanosecondsPerSecond_def)

lemma unit_values:
  "duration_unit s = Some (u, rest) \<Longrightarrow>
     u \<in> {1, 1000, 1000000, kNanosecondsPerSecond, 60 * kNanosecondsPerSecond, 3600 * kNanosecondsPerSecond}"
  by (auto simp: duration_unit_def split: if_splits)

lemma terms_text_simps [simp]:
  "terms_text [] = []"
  "terms_text (t # ts) = fst t @ snd t @ terms_text ts"
  by (simp_all add: terms_text_def)

lemma terms_text_start: "list_all duration_term ts \<Longrightarrow> terms_text ts = [] \<or> is_digit (hd (terms_text ts))"
  by (cases ts) (auto simp: duration_term_def neq_Nil_conv)

lemma unit_not_digit: "u \<in> fst ` set duration_units \<Longrightarrow> u \<noteq> [] \<and> \<not> is_digit (hd u)"
  unfolding unit_names by (elim disjE) (simp_all add: not_digits)

text \<open>One term at the front of a text, as both loops read it.\<close>

lemma front_term:
  assumes "duration_term t" "rest = [] \<or> is_digit (hd rest)" "term_number t < 2 ^ 64"
  shows "\<exists>u. scan_number (fst t @ snd t @ rest) 0 = Inr (of_nat (term_number t), snd t @ rest) \<and>
     unat (of_nat (term_number t) :: u64) = term_number t \<and>
     duration_unit (snd t @ rest) = Some (u, rest) \<and> term_value t = term_number t * unat u"
proof -
  from assms(1) have t: "list_all is_digit (fst t)" "snd t \<in> fst ` set duration_units"
    by (auto simp: duration_term_def)
  then obtain u where "duration_unit (snd t @ rest) = Some (u, rest)" "unat u = the (map_of duration_units (snd t))"
    using duration_unit_complete [OF t(2) assms(2)] by blast
  moreover have "scan_number (fst t @ snd t @ rest) 0 = Inr (of_nat (term_number t), snd t @ rest)"
    using scan_number_digits [OF t(1), of "snd t @ rest" 0] unit_not_digit [OF t(2)] assms(3)
    by (simp add: term_number_def hd_append)
  ultimately show ?thesis using assms(3) by (simp add: term_value_def unat_of_nat)
qed

lemma term_read:
  assumes "s \<noteq> []" "is_digit (hd s)" "scan_number s 0 = Inr (n, rest)" "duration_unit rest = Some (u, rest')"
  shows "\<exists>t. duration_term t \<and> s = fst t @ snd t @ rest' \<and> unat n = term_number t \<and> term_value t = unat n * unat u"
proof -
  from assms(3) obtain digits where d: "s = digits @ rest" "list_all is_digit digits" "rest = [] \<or> \<not> is_digit (hd rest)"
      "unat n = decimal_from 0 digits"
    by (auto simp: scan_number_iff)
  from assms(4) obtain name where name: "rest = name @ rest'" "name \<in> fst ` set duration_units"
      "unat u = the (map_of duration_units name)"
    using duration_unit_sound by blast
  have "digits \<noteq> []" using assms(1,2) d by auto
  then show ?thesis
    using d name by (intro exI [of _ "(digits, name)"]) (simp add: duration_term_def term_number_def term_value_def)
qed

definition terms_value :: "duration_term list \<Rightarrow> nat" where
  "terms_value ts = sum_list (map term_value ts)"

lemma terms_value_simps [simp]:
  "terms_value [] = 0"
  "terms_value (t # ts) = term_value t + terms_value ts"
  by (simp_all add: terms_value_def)

lemma unit_positive: "duration_unit s = Some (u, rest) \<Longrightarrow> u \<noteq> 0 \<and> 0 < unat u"
  by (auto dest!: unit_values simp: kNanosecondsPerSecond_def)

lemma duration_loop_Cons:
  assumes "s \<noteq> []"
  shows "duration_loop s e = Inr v \<longleftrightarrow>
     (\<exists>n rest u rest'. is_digit (hd s) \<and> scan_number s 0 = Inr (n, rest) \<and> duration_unit rest = Some (u, rest') \<and>
        unat n * unat u < 2 ^ 64 \<and> unat e + unat n * unat u < 2 ^ 64 \<and> duration_loop rest' (e + n * u) = Inr v)"
    (is "_ \<longleftrightarrow> ?rhs")
proof (cases "is_digit (hd s)")
  case True
  show ?thesis
  proof (cases "scan_number s 0")
    case (Inr scanned)
    then obtain n rest where scan: "scan_number s 0 = Inr (n, rest)" by (cases scanned) auto
    show ?thesis
    proof (cases "duration_unit rest")
      case (Some read)
      then obtain u rest' where u: "duration_unit rest = Some (u, rest')" by (cases read) auto
      then have u0: "u \<noteq> 0" using unit_positive by blast
      have "n > - 1 div u \<or> e > - 1 - n * u \<longleftrightarrow> \<not> (unat n * unat u < 2 ^ 64 \<and> unat e + unat n * unat u < 2 ^ 64)"
        unfolding exceeds_iffs(1) [OF u0] exceeds_iffs(2)
        using unat_sums(2) [of n u] by (cases "unat n * unat u < 2 ^ 64") (simp_all add: not_less)
      then have "duration_loop s e = (if unat n * unat u < 2 ^ 64 \<and> unat e + unat n * unat u < 2 ^ 64
          then duration_loop rest' (e + n * u) else Inl resource_limit)"
        using assms True scan u by (subst duration_loop.simps) (auto simp del: not_less)
      then show ?thesis using True scan u by auto
    qed (use assms True scan in \<open>subst duration_loop.simps, simp\<close>)
  qed (use assms True in \<open>subst duration_loop.simps, simp\<close>)
qed (use assms in \<open>subst duration_loop.simps, simp\<close>)

lemma duration_loop_sound:
  "duration_loop s e = Inr v \<Longrightarrow>
     \<exists>ts. list_all duration_term ts \<and> s = terms_text ts \<and> unat v = unat e + terms_value ts"
proof (induction "length s" arbitrary: s e rule: less_induct)
  case less
  show ?case
  proof (cases "s = []")
    case True
    then show ?thesis using less.prems by (intro exI [of _ "[]"]) (simp add: duration_loop.simps)
  next
    case False
    then obtain n rest u rest' where r: "is_digit (hd s)" "scan_number s 0 = Inr (n, rest)"
        "duration_unit rest = Some (u, rest')" "unat n * unat u < 2 ^ 64" "unat e + unat n * unat u < 2 ^ 64"
        "duration_loop rest' (e + n * u) = Inr v"
      using less.prems duration_loop_Cons by blast
    have "length rest' < length s" using scan_number_rest [OF r(2)] duration_unit_rest [OF r(3)] by simp
    from less.hyps [OF this r(6)] obtain ts where ts: "list_all duration_term ts" "rest' = terms_text ts"
        "unat v = unat (e + n * u) + terms_value ts" by blast
    obtain t where "duration_term t" "s = fst t @ snd t @ rest'" "term_value t = unat n * unat u"
      using term_read [OF False r(1,2,3)] by blast
    then show ?thesis
      using ts r(4,5) unat_sums(2) [of n u] unat_sums(1) [of e "n * u"] by (intro exI [of _ "t # ts"]) simp
  qed
qed

lemma term_number_le: "duration_term t \<Longrightarrow> term_number t \<le> term_value t"
  by (auto simp: duration_term_def term_value_def unit_names duration_units_simps simp del: map_of.simps)

lemma duration_loop_complete:
  "list_all duration_term ts \<Longrightarrow> unat e + terms_value ts < 2 ^ 64 \<Longrightarrow>
     \<exists>v. duration_loop (terms_text ts) e = Inr v \<and> unat v = unat e + terms_value ts"
proof (induction ts arbitrary: e)
  case (Cons t ts)
  have t: "duration_term t" "terms_text ts = [] \<or> is_digit (hd (terms_text ts))" "term_number t < 2 ^ 64"
    using Cons.prems terms_text_start [of ts] term_number_le [of t] by auto
  obtain u where u: "scan_number (fst t @ snd t @ terms_text ts) 0 = Inr (of_nat (term_number t), snd t @ terms_text ts)"
      "unat (of_nat (term_number t) :: u64) = term_number t" "duration_unit (snd t @ terms_text ts) = Some (u, terms_text ts)"
      "term_value t = term_number t * unat u"
    using front_term [OF t] by blast
  let ?e = "e + of_nat (term_number t) * u"
  have b: "term_number t * unat u < 2 ^ 64" "unat e + term_number t * unat u < 2 ^ 64"
    using Cons.prems u(4) by auto
  have e: "unat ?e = unat e + term_value t"
    using b unat_sums(2) [of "of_nat (term_number t)" u] unat_sums(1) [of e "of_nat (term_number t) * u"] u(2,4) by simp
  from Cons.IH [of ?e] obtain v where v: "duration_loop (terms_text ts) ?e = Inr v" "unat v = unat ?e + terms_value ts"
    using Cons.prems e by auto
  have ne: "fst t @ snd t @ terms_text ts \<noteq> []" "is_digit (hd (fst t @ snd t @ terms_text ts))"
    using t(1) by (auto simp: duration_term_def neq_Nil_conv)
  then have "duration_loop (fst t @ snd t @ terms_text ts) e = Inr v"
    using u(1-3) b v(1) unfolding duration_loop_Cons [OF ne(1)] by metis
  then show ?case using v(2) e by simp
qed (simp add: duration_loop.simps)

lemma duration_nanoseconds_eq:
  "duration_nanoseconds s = Inr v \<longleftrightarrow>
     2 \<le> length s \<and> (\<exists>ts. list_all duration_term ts \<and> s = terms_text ts \<and> unat v = terms_value ts)"
proof -
  have "duration_loop s 0 = Inr v \<longleftrightarrow> (\<exists>ts. list_all duration_term ts \<and> s = terms_text ts \<and> unat v = terms_value ts)"
    (is "?L \<longleftrightarrow> ?R")
  proof
    assume ?R
    then obtain ts where ts: "list_all duration_term ts" "s = terms_text ts" "unat v = terms_value ts" by blast
    then have "unat (0 :: u64) + terms_value ts < 2 ^ 64" using unsigned_less [where 'a = nat, of v] by simp
    from duration_loop_complete [OF ts(1) this] ts show ?L by (metis add_0 unat_0 word_unat_eq_iff)
  qed (use duration_loop_sound [of s 0 v] in auto)
  then show ?thesis by (auto simp: duration_nanoseconds_def)
qed

section \<open>Whole seconds\<close>

text \<open>The time both counters hold, and when they can hold one.\<close>

definition clock_ns :: "u64 \<Rightarrow> u64 \<Rightarrow> nat" where
  "clock_ns seconds nanoseconds = unat seconds * 1000000000 + unat nanoseconds"

lemma added_time_value:
  assumes "seconds_unit s = Some (ns, us, rest)" "duration_unit s = Some (d, rest)"
  shows "if unat n * unat us < 2 ^ 64
     then \<exists>a b. added_time n ns us = Inr (a, b) \<and> clock_ns a b = unat n * unat d \<and> unat b < 1000000000
     else added_time n ns us = Inl resource_limit \<and> 2 ^ 64 * 1000000000 \<le> unat n * unat d"
proof -
  from assms consider (sub) "us = 0" "ns = d" "d \<in> {1, 1000, 1000000}"
    | (whole) "us \<noteq> 0" "unat d = unat us * 1000000000"
    using unit_values [OF assms(2)] by (auto simp: seconds_unit_iff kNanosecondsPerSecond_def split: if_splits)
  then show ?thesis
  proof cases
    case whole
    have "added_time n ns us = (if unat n * unat us < 2 ^ 64 then Inr (n * us, 0) else Inl resource_limit)"
      unfolding added_time_def exceeds_iffs(1) [OF whole(1)] by (auto simp: whole)
    moreover have "unat n * unat d = unat n * unat us * 1000000000" by (simp add: whole)
    ultimately show ?thesis using unat_sums(2) [of n us] by (auto simp: clock_ns_def)
  next
    case sub
    have lt: "unat n < 2 ^ 64" using unsigned_less [where 'a = nat, of n] by simp
    obtain k where k: "kNanosecondsPerSecond div d = k" "0 < unat k" "unat k * unat d = 1000000000" "unat k \<le> 1000000000"
      using sub(3) by (auto simp: kNanosecondsPerSecond_def)
    let ?b = "n mod k * d"
    have less: "unat n mod unat k * unat d < 1000000000"
      using k(2,3) by (metis mod_less_divisor mult_less_cancel2 nat_0_less_mult_iff zero_less_numeral)
    then have b: "unat ?b = unat n mod unat k * unat d"
      using unat_sums(2) [of "n mod k" d] by (simp add: unat_mod_distrib)
    have "unat n div unat k * 1000000000 + unat n mod unat k * unat d = (unat n div unat k * unat k + unat n mod unat k) * unat d"
      by (simp only: k(3) [symmetric] distrib_right mult.assoc)
    then have "clock_ns (n div k) ?b = unat n * unat d"
      by (simp add: clock_ns_def b unat_div_distrib)
    moreover have "added_time n ns us = Inr (n div k, ?b)"
      using sub k(1) by (simp add: added_time_def Let_def)
    ultimately show ?thesis using less b sub(1) by simp
  qed
qed

lemma seconds_unit_of: "duration_unit s = Some (d, rest) \<Longrightarrow> \<exists>ns us. seconds_unit s = Some (ns, us, rest)"
  by (auto simp: seconds_unit_iff)

lemma seconds_loop_step:
  assumes "s \<noteq> []" "is_digit (hd s)" "scan_number s 0 = Inr (n, rest)" "duration_unit rest = Some (d, rest')"
    and ns: "unat ns < 1000000000"
  shows "if clock_ns sec ns + unat n * unat d < 2 ^ 64 * 1000000000
     then \<exists>sec' ns'. clock_ns sec' ns' = clock_ns sec ns + unat n * unat d \<and> unat ns' < 1000000000 \<and>
       seconds_loop s sec ns = seconds_loop rest' sec' ns'
     else seconds_loop s sec ns = Inl resource_limit"
proof -
  obtain un us where u: "seconds_unit rest = Some (un, us, rest')" using seconds_unit_of [OF assms(4)] by blast
  note at = added_time_value [OF u assms(4), of n]
  show ?thesis
  proof (cases "unat n * unat us < 2 ^ 64")
    case False
    then show ?thesis using at assms(1-3) u by (auto simp: seconds_loop.simps [of s])
  next
    case True
    then obtain a b where ab: "added_time n un us = Inr (a, b)" "clock_ns a b = unat n * unat d" "unat b < 1000000000"
      using at by auto
    define later where "later = (\<lambda>sec' ns'. if ns' \<ge> kNanosecondsPerSecond then
        if sec' = - 1 then Inl resource_limit else seconds_loop rest' (sec' + 1) (ns' - kNanosecondsPerSecond)
      else seconds_loop rest' sec' ns')"
    have loop: "seconds_loop s sec ns = (if sec > - 1 - a then Inl resource_limit else later (sec + a) (ns + b))"
      using assms(1-3) u ab(1) by (simp add: seconds_loop.simps [of s] Let_def later_def)
    have nb: "unat (ns + b) = unat ns + unat b" using unat_sums(1) [of ns b] ns ab(3) by simp
    have big: "kNanosecondsPerSecond \<le> ns + b \<longleftrightarrow> 1000000000 \<le> unat ns + unat b"
      by (simp add: word_le_nat_alt nb kNanosecondsPerSecond_def)
    show ?thesis
    proof (cases "2 ^ 64 \<le> unat sec + unat a")
      case True
      then have "2 ^ 64 * 1000000000 \<le> (unat sec + unat a) * 1000000000" by (rule mult_le_mono1)
      then have "\<not> clock_ns sec ns + unat n * unat d < 2 ^ 64 * 1000000000"
        by (simp add: ab(2) [symmetric] clock_ns_def)
      with True show ?thesis unfolding loop exceeds_iffs(2) by simp
    next
      case False
      then have sa: "unat (sec + a) = unat sec + unat a" by (intro unat_sums(1)) simp
      have sum: "clock_ns sec ns + unat n * unat d = (unat sec + unat a) * 1000000000 + (unat ns + unat b)"
        by (simp add: ab(2) [symmetric] clock_ns_def)
      have loop': "seconds_loop s sec ns = later (sec + a) (ns + b)"
        unfolding loop exceeds_iffs(2) using False by simp
      have top: "sec + a = - 1 \<longleftrightarrow> unat sec + unat a = 2 ^ 64 - 1"
        unfolding word_unat_eq_iff sa unat_max by simp
      show ?thesis
      proof (cases "1000000000 \<le> unat ns + unat b")
        case carry: True
        show ?thesis
        proof (cases "sec + a = - 1")
          case True
          then have "unat sec + unat a = 2 ^ 64 - 1" using top by blast
          then have "\<not> clock_ns sec ns + unat n * unat d < 2 ^ 64 * 1000000000"
            unfolding sum using carry by simp
          then show ?thesis using True carry big by (simp add: loop' later_def)
        next
          case no_top: False
          have s1: "unat (sec + a + 1) = unat sec + unat a + 1"
            using unat_sums(1) [of "sec + a" 1] sa False no_top top by simp
          have n1: "unat (ns + b - kNanosecondsPerSecond) = unat ns + unat b - 1000000000"
            using unat_sub [of kNanosecondsPerSecond "ns + b"] big carry nb by (simp add: kNanosecondsPerSecond_def)
          have "clock_ns (sec + a + 1) (ns + b - kNanosecondsPerSecond) = clock_ns sec ns + unat n * unat d"
            unfolding clock_ns_def s1 n1 using carry ab(2) [unfolded clock_ns_def] by simp
          moreover have "unat (ns + b - kNanosecondsPerSecond) < 1000000000" unfolding n1 using ns ab(3) by simp
          moreover have "clock_ns sec ns + unat n * unat d < 2 ^ 64 * 1000000000"
            unfolding sum using False no_top top ns ab(3) by simp
          ultimately show ?thesis using carry big no_top by (auto simp: loop' later_def)
        qed
      next
        case small: False
        have "clock_ns (sec + a) (ns + b) = clock_ns sec ns + unat n * unat d"
          unfolding clock_ns_def sa nb using ab(2) [unfolded clock_ns_def] by simp
        moreover have "unat (ns + b) < 1000000000" using small nb by simp
        moreover have "clock_ns sec ns + unat n * unat d < 2 ^ 64 * 1000000000"
          unfolding sum using False small by simp
        ultimately show ?thesis using small big by (auto simp: loop' later_def)
      qed
    qed
  qed
qed

lemma seconds_loop_reads:
  assumes "seconds_loop s sec ns = Inr r" "s \<noteq> []"
  shows "\<exists>n rest d rest'. is_digit (hd s) \<and> scan_number s 0 = Inr (n, rest) \<and> duration_unit rest = Some (d, rest')"
proof (cases "is_digit (hd s)")
  case True
  show ?thesis
  proof (cases "scan_number s 0")
    case (Inr scanned)
    then obtain n rest where scan: "scan_number s 0 = Inr (n, rest)" by (cases scanned) auto
    then have "seconds_unit rest \<noteq> None"
      using assms True by (cases "seconds_unit rest") (simp_all add: seconds_loop.simps [of s])
    then show ?thesis using True scan by (auto simp: seconds_unit_iff)
  qed (use assms True in \<open>simp add: seconds_loop.simps [of s]\<close>)
qed (use assms in \<open>simp add: seconds_loop.simps [of s]\<close>)

lemma seconds_loop_sound:
  assumes "seconds_loop s sec ns = Inr (sec', ns')" "unat ns < 1000000000"
  shows "unat ns' < 1000000000 \<and>
     (\<exists>ts. list_all duration_term ts \<and> list_all (\<lambda>t. term_number t < 2 ^ 64) ts \<and> s = terms_text ts \<and>
        clock_ns sec' ns' = clock_ns sec ns + terms_value ts)"
  using assms
proof (induction "length s" arbitrary: s sec ns rule: less_induct)
  case less
  show ?case
  proof (cases "s = []")
    case True
    then show ?thesis using less.prems by (auto simp: seconds_loop.simps intro: exI [of _ "[]"])
  next
    case False
    obtain n rest d rest' where r: "is_digit (hd s)" "scan_number s 0 = Inr (n, rest)" "duration_unit rest = Some (d, rest')"
      using seconds_loop_reads [OF less.prems(1) False] by blast
    from seconds_loop_step [OF False r less.prems(2), of sec] less.prems(1)
    obtain sec1 ns1 where step: "clock_ns sec1 ns1 = clock_ns sec ns + unat n * unat d" "unat ns1 < 1000000000"
        "seconds_loop rest' sec1 ns1 = Inr (sec', ns')"
      by (auto split: if_splits)
    have "length rest' < length s" using scan_number_rest [OF r(2)] duration_unit_rest [OF r(3)] by simp
    from less.hyps [OF this step(3,2)] obtain ts where ts: "unat ns' < 1000000000" "list_all duration_term ts"
        "list_all (\<lambda>t. term_number t < 2 ^ 64) ts" "rest' = terms_text ts"
        "clock_ns sec' ns' = clock_ns sec1 ns1 + terms_value ts" by blast
    obtain t where "duration_term t" "s = fst t @ snd t @ rest'" "term_value t = unat n * unat d" "unat n = term_number t"
      using term_read [OF False r] by auto
    moreover have "term_number t < 2 ^ 64" using unsigned_less [where 'a = nat, of n] \<open>unat n = term_number t\<close> by simp
    ultimately show ?thesis using ts step(1) by (auto intro: exI [of _ "t # ts"])
  qed
qed

lemma seconds_loop_complete:
  "list_all duration_term ts \<Longrightarrow> list_all (\<lambda>t. term_number t < 2 ^ 64) ts \<Longrightarrow> unat ns < 1000000000 \<Longrightarrow>
     clock_ns sec ns + terms_value ts < 2 ^ 64 * 1000000000 \<Longrightarrow>
     \<exists>sec' ns'. seconds_loop (terms_text ts) sec ns = Inr (sec', ns') \<and> unat ns' < 1000000000 \<and>
       clock_ns sec' ns' = clock_ns sec ns + terms_value ts"
proof (induction ts arbitrary: sec ns)
  case (Cons t ts)
  have t: "duration_term t" "terms_text ts = [] \<or> is_digit (hd (terms_text ts))" "term_number t < 2 ^ 64"
    using Cons.prems terms_text_start [of ts] by auto
  obtain u where u: "scan_number (fst t @ snd t @ terms_text ts) 0 = Inr (of_nat (term_number t), snd t @ terms_text ts)"
      "unat (of_nat (term_number t) :: u64) = term_number t" "duration_unit (snd t @ terms_text ts) = Some (u, terms_text ts)"
      "term_value t = term_number t * unat u"
    using front_term [OF t] by blast
  have ne: "fst t @ snd t @ terms_text ts \<noteq> []" "is_digit (hd (fst t @ snd t @ terms_text ts))"
    using t(1) by (auto simp: duration_term_def neq_Nil_conv)
  from seconds_loop_step [OF ne u(1,3) Cons.prems(3), of sec] u(2,4) Cons.prems(4)
  obtain sec1 ns1 where step: "clock_ns sec1 ns1 = clock_ns sec ns + term_value t" "unat ns1 < 1000000000"
      "seconds_loop (fst t @ snd t @ terms_text ts) sec ns = seconds_loop (terms_text ts) sec1 ns1"
    by (auto split: if_splits)
  from Cons.IH [of ns1 sec1] step Cons.prems show ?case by (simp add: add.assoc)
qed (simp add: seconds_loop.simps)

lemma carry_free:
  fixes a b k n :: int
  assumes "a * n + b = k * n" "0 \<le> b" "b < n"
  shows "b = 0 \<and> a = k"
proof -
  have b: "b = (k - a) * n" using assms(1) by (simp add: left_diff_distrib)
  have n: "0 < n" using assms by simp
  have "k - a < 1"
    using mult_less_cancel_right_pos [OF n, of "k - a" 1] assms(3) by (simp add: b)
  moreover have "0 \<le> k - a"
    using mult_less_0_iff [of "k - a" n] assms(2) n by (simp add: b not_less [symmetric])
  ultimately have "k = a" by simp
  then show ?thesis using b by simp
qed

lemma whole_seconds_eq:
  "whole_seconds object name positive = Inr k \<longleftrightarrow>
     (\<exists>s ts. string_value object name = Some s \<and> 2 \<le> length s \<and> list_all duration_term ts \<and> s = terms_text ts \<and>
        list_all (\<lambda>t. term_number t < 2 ^ 64) ts \<and> int (terms_value ts) = k * 1000000000 \<and>
        (positive \<longrightarrow> 0 < k) \<and> int64 k)" (is "_ \<longleftrightarrow> (\<exists>s ts. ?R s ts)")
proof
  assume "whole_seconds object name positive = Inr k"
  then obtain s sec where s: "string_value object name = Some s" "2 \<le> length s" "seconds_loop s 0 0 = Inr (sec, 0)"
      "positive \<longrightarrow> sec \<noteq> 0" "sec \<le> 0x7fffffffffffffff" "k = uint sec"
    by (auto simp: whole_seconds_def ebind_Inr_iff not_less split: option.splits if_splits)
  obtain ts where ts: "list_all duration_term ts" "list_all (\<lambda>t. term_number t < 2 ^ 64) ts" "s = terms_text ts"
      "clock_ns sec 0 = terms_value ts"
    using seconds_loop_sound [OF s(3)] by (auto simp: clock_ns_def)
  have "int (terms_value ts) = k * 1000000000" by (simp add: ts(4) [symmetric] clock_ns_def s(6))
  moreover have "0 \<le> k" "k \<le> int64_max" using s(5,6) by (simp_all add: word_le_def int64_max_def)
  moreover have "positive \<longrightarrow> k \<noteq> 0" using s(4,6) by (simp add: uint_0_iff)
  ultimately have "?R s ts" using s(1,2) ts by (auto simp: int64_def int64_min_def)
  then show "\<exists>s ts. ?R s ts" by blast
next
  assume "\<exists>s ts. ?R s ts"
  then obtain s ts where r: "?R s ts" by blast
  then have k: "0 \<le> k" "k \<le> 9223372036854775807" "int (terms_value ts) = k * 1000000000"
    by (auto simp: int64_def int64_max_def)
  then have "int (terms_value ts) < 18446744073709551616 * 1000000000" by simp
  then have bound: "terms_value ts < 2 ^ 64 * 1000000000" by simp
  obtain sec ns where loop: "seconds_loop s 0 0 = Inr (sec, ns)" "unat ns < 1000000000" "clock_ns sec ns = terms_value ts"
    using seconds_loop_complete [of ts 0 0] r bound by (auto simp: clock_ns_def)
  have "uint sec * 1000000000 + uint ns = k * 1000000000"
    unfolding k(3) [symmetric] loop(3) [symmetric] by (simp add: clock_ns_def)
  moreover have "int (unat ns) < 1000000000" using loop(2) by linarith
  then have "uint ns < 1000000000" by simp
  ultimately have "uint ns = 0 \<and> uint sec = k" 
    by (intro carry_free [of _ 1000000000]) simp_all
  then have "ns = 0" "uint sec = k" by (simp_all add: uint_0_iff)
  moreover have "sec \<le> 0x7fffffffffffffff" using \<open>uint sec = k\<close> k(2) by (simp add: word_le_def)
  moreover have "positive \<Longrightarrow> sec \<noteq> 0" using r \<open>uint sec = k\<close> by auto
  ultimately show "whole_seconds object name positive = Inr k"
    using r loop(1) by (auto simp: whole_seconds_def)
qed

section \<open>Properties\<close>

text \<open>
  C30. The configuration parser, on a well-formed JSON text \<open>t\<close>, accepts exactly the objects of at
  most 1048576 bytes, 4096 members, 8192 values and 32 levels whose names are of at most 256 bytes
  and distinct in every nested object.
\<close>

theorem config_parse_json_iff:
  assumes "lexer input = events_of t"
  shows "config_parse_json lexer input = Inr j \<longleftrightarrow>
     length input \<le> 1048576 \<and> (\<exists>members. t = JObject members) \<and> json_ok config_bounds t \<and>
     json_members t \<le> 4096 \<and> json_values t \<le> 8192 \<and> json_depth t \<le> 32 \<and> j = json_value t"
  unfolding config_parse_json_eq [of lexer input t, OF assms]
  by (auto simp: document_ok_def kMaximumConfigurationBytes_def kMaximumMembers_def kMaximumValues_def
      kMaximumDepth_def)

theorem config_parse_json_iff_witness:
  "config_parse_json (\<lambda>_. events_of (JObject [(''b'', JNull), (''a'', JArray [])])) ''text'' =
     Inr (JObject [(''a'', JArray []), (''b'', JNull)])"
  using config_parse_json_iff [of "\<lambda>_. events_of (JObject [(''b'', JNull), (''a'', JArray [])])" "''text''"
      "JObject [(''b'', JNull), (''a'', JArray [])]"]
  by (simp add: kMaximumKeyBytes_def scalar_ok_def)

text \<open>
  C31. A duration is accepted with exactly the value of its terms (numbers with a unit): in
  nanoseconds when that fits 64 bits; as whole seconds when every number fits 64 bits, the terms
  add up to a whole number of seconds that fits a signed 64-bit integer and, where it must be, is
  positive. No overflow is wrapped.
\<close>

theorem durations_iff:
  "(duration_nanoseconds s = Inr v \<longleftrightarrow>
      2 \<le> length s \<and> (\<exists>ts. list_all duration_term ts \<and> s = terms_text ts \<and> unat v = terms_value ts)) \<and>
   (whole_seconds object name positive = Inr k \<longleftrightarrow>
      (\<exists>s ts. string_value object name = Some s \<and> 2 \<le> length s \<and> list_all duration_term ts \<and> s = terms_text ts \<and>
         list_all (\<lambda>t. term_number t < 2 ^ 64) ts \<and> int (terms_value ts) = k * 1000000000 \<and>
         (positive \<longrightarrow> 0 < k) \<and> int64 k))"
  using duration_nanoseconds_eq whole_seconds_eq by blast

theorem durations_iff_witness:
  "duration_nanoseconds ''1m30s'' = Inr 90000000000 \<and>
   whole_seconds (JObject [(''d'', JString ''500ms1500ms'')]) ''d'' True = Inr 2"
proof -
  let ?ts = "[(''1'', ''m''), (''30'', ''s'')]" and ?us = "[(''500'', ''ms''), (''1500'', ''ms'')]"
  have a: "list_all duration_term [(''1'', ''m''), (''30'', ''s'')] \<and> ''1m30s'' = terms_text [(''1'', ''m''), (''30'', ''s'')] \<and>
      unat (90000000000 :: u64) = terms_value [(''1'', ''m''), (''30'', ''s'')]"
    by (simp add: duration_term_def unit_names is_digit_def terms_text_def terms_value_def term_value_def term_number_def
        duration_units_simps digit_value_def del: map_of.simps)
  have b: "list_all duration_term [(''500'', ''ms''), (''1500'', ''ms'')] \<and>
      ''500ms1500ms'' = terms_text [(''500'', ''ms''), (''1500'', ''ms'')] \<and>
      list_all (\<lambda>t. term_number t < 2 ^ 64) [(''500'', ''ms''), (''1500'', ''ms'')] \<and>
      int (terms_value [(''500'', ''ms''), (''1500'', ''ms'')]) = 2 * 1000000000 \<and> int64 2"
    by (simp add: duration_term_def unit_names is_digit_def terms_text_def terms_value_def term_value_def term_number_def
        duration_units_simps digit_value_def int64_def int64_max_def int64_min_def del: map_of.simps)
  have c: "string_value (JObject [(''d'', JString ''500ms1500ms'')]) ''d'' = Some ''500ms1500ms''"
    by (simp add: string_value_def json_find_def is_string_def get_string_def)
  have l: "2 \<le> length ''1m30s''" "2 \<le> length ''500ms1500ms''" by simp_all
  note i = durations_iff [of "''1m30s''" 90000000000 "JObject [(''d'', JString ''500ms1500ms'')]" "''d''" True 2]
  have "\<exists>s ts. string_value (JObject [(''d'', JString ''500ms1500ms'')]) ''d'' = Some s \<and> 2 \<le> length s \<and>
      list_all duration_term ts \<and> s = terms_text ts \<and> list_all (\<lambda>t. term_number t < 2 ^ 64) ts \<and>
      int (terms_value ts) = 2 * 1000000000 \<and> (True \<longrightarrow> 0 < (2 :: int)) \<and> int64 2"
    by (rule exI [of _ "''500ms1500ms''"], rule exI [of _ ?us]) (use b c l(2) in simp)
  note second = conjunct2 [OF i, THEN iffD2, OF this]
  have "\<exists>ts. list_all duration_term ts \<and> ''1m30s'' = terms_text ts \<and> unat (90000000000 :: u64) = terms_value ts"
    by (rule exI [of _ ?ts]) (rule a)
  note first = conjunct1 [OF i, THEN iffD2, OF conjI, OF l(1) this]
  from first second show ?thesis by (rule conjI)
qed

end
