(* ===== verification/Cb_Effects.thy ===== *)
theory Cb_Effects
  imports Cb_Prelude
begin

text \<open>
  Code with effects: a program maps the state of the world to the outcome of the call and the
  state after it. It is \<open>None\<close> when the call does not return, \<open>Thrown\<close> when it ends with
  an exception. A triple \<open>runs P m Q E\<close> says of \<open>m\<close> that it returns from every state with \<open>P\<close>,
  with \<open>Q\<close> of its result, or with \<open>E\<close> after an exception.
\<close>

datatype 'a outcome = Returned 'a | Thrown

type_synonym ('w, 'a) prog = "'w \<Rightarrow> ('a outcome \<times> 'w) option"

definition ret :: "'a \<Rightarrow> ('w, 'a) prog" where
  "ret x = (\<lambda>w. Some (Returned x, w))"

definition throw :: "('w, 'a) prog" where
  "throw = (\<lambda>w. Some (Thrown, w))"

definition pbind :: "('w, 'a) prog \<Rightarrow> ('a \<Rightarrow> ('w, 'b) prog) \<Rightarrow> ('w, 'b) prog" where
  "pbind m f = (\<lambda>w.
     case m w of
       None \<Rightarrow> None
     | Some (Returned x, w) \<Rightarrow> f x w
     | Some (Thrown, w) \<Rightarrow> Some (Thrown, w))"

text \<open>\<^verbatim>\<open>try { m } catch (...) { h }\<close>.\<close>

definition catching :: "('w, 'a) prog \<Rightarrow> ('w, 'a) prog \<Rightarrow> ('w, 'a) prog" where
  "catching m h = (\<lambda>w.
     case m w of
       None \<Rightarrow> None
     | Some (Returned x, w) \<Rightarrow> Some (Returned x, w)
     | Some (Thrown, w) \<Rightarrow> h w)"

text \<open>A call of the environment, one that may not return, and a value whose computation may throw.\<close>

definition call :: "('w \<Rightarrow> 'a \<times> 'w) \<Rightarrow> ('w, 'a) prog" where
  "call f = (\<lambda>w. case f w of (x, w) \<Rightarrow> Some (Returned x, w))"

definition call_partial :: "('w \<Rightarrow> ('a \<times> 'w) option) \<Rightarrow> ('w, 'a) prog" where
  "call_partial f = (\<lambda>w. case f w of None \<Rightarrow> None | Some (x, w) \<Rightarrow> Some (Returned x, w))"

definition throwing :: "'a option \<Rightarrow> ('w, 'a) prog" where
  "throwing v = (case v of None \<Rightarrow> throw | Some x \<Rightarrow> ret x)"

text \<open>The early return \<^verbatim>\<open>if (!r) return make_unexpected(r.error())\<close>.\<close>

definition on_value :: "'a expected \<Rightarrow> ('a \<Rightarrow> ('w, 'b expected) prog) \<Rightarrow> ('w, 'b expected) prog" where
  "on_value r f = (case r of Inl e \<Rightarrow> ret (Inl e) | Inr x \<Rightarrow> f x)"

definition pbind_value :: "('w, 'a expected) prog \<Rightarrow> ('a \<Rightarrow> ('w, 'b expected) prog) \<Rightarrow> ('w, 'b expected) prog" where
  "pbind_value m f = pbind m (\<lambda>r. on_value r f)"

lemma on_value_simps [simp]:
  "on_value (Inl e) f = ret (Inl e)"
  "on_value (Inr x) f = f x"
  by (simp_all add: on_value_def)

section \<open>Results of single runs\<close>

named_theorems prog_iffs \<open>when a composed program returns a result\<close>

lemma ret_iff [prog_iffs]: "ret x w = Some (Returned y, w') \<longleftrightarrow> y = x \<and> w' = w"
  by (auto simp: ret_def)

lemma throw_iff [prog_iffs]: "throw w \<noteq> Some (Returned y, w')"
  by (simp add: throw_def)

lemma pbind_iff [prog_iffs]:
  "pbind m f w = Some (Returned y, w') \<longleftrightarrow> (\<exists>x w1. m w = Some (Returned x, w1) \<and> f x w1 = Some (Returned y, w'))"
  by (auto simp: pbind_def split: option.splits outcome.splits)

lemma call_iff [prog_iffs]: "call f w = Some (Returned y, w') \<longleftrightarrow> f w = (y, w')"
  by (auto simp: call_def split: prod.splits)

lemma call_partial_iff [prog_iffs]: "call_partial f w = Some (Returned y, w') \<longleftrightarrow> f w = Some (y, w')"
  by (auto simp: call_partial_def split: option.splits)

lemma throwing_iff [prog_iffs]: "throwing v w = Some (Returned y, w') \<longleftrightarrow> v = Some y \<and> w' = w"
  by (auto simp: throwing_def prog_iffs split: option.splits)

lemma on_value_iff [prog_iffs]:
  "on_value r f w = Some (Returned (Inr y), w') \<longleftrightarrow> (\<exists>x. r = Inr x \<and> f x w = Some (Returned (Inr y), w'))"
  by (cases r) (auto simp: prog_iffs)

lemma pbind_value_iff [prog_iffs]:
  "pbind_value m f w = Some (Returned (Inr y), w') \<longleftrightarrow>
     (\<exists>x w1. m w = Some (Returned (Inr x), w1) \<and> f x w1 = Some (Returned (Inr y), w'))"
  by (auto simp: pbind_value_def prog_iffs)

lemma pbind_ret [simp]: "pbind (ret x) f = f x"
  by (simp add: pbind_def ret_def)

section \<open>Triples\<close>

definition runs ::
  "('w \<Rightarrow> bool) \<Rightarrow> ('w, 'a) prog \<Rightarrow> ('a \<Rightarrow> 'w \<Rightarrow> bool) \<Rightarrow> ('w \<Rightarrow> bool) \<Rightarrow> bool" where
  "runs P m Q E \<longleftrightarrow>
     (\<forall>w. P w \<longrightarrow> (\<exists>r w'. m w = Some (r, w') \<and> (case r of Returned x \<Rightarrow> Q x w' | Thrown \<Rightarrow> E w')))"

lemma runsD:
  assumes "runs P m Q E" "P w"
  obtains (returned) x w' where "m w = Some (Returned x, w')" "Q x w'"
  | (thrown) w' where "m w = Some (Thrown, w')" "E w'"
  using assms unfolding runs_def by (metis outcome.exhaust outcome.simps(4) outcome.simps(5))

lemma runs_ret: "(\<And>w. P w \<Longrightarrow> Q x w) \<Longrightarrow> runs P (ret x) Q E"
  by (simp add: runs_def ret_def)

lemma runs_throw: "(\<And>w. P w \<Longrightarrow> E w) \<Longrightarrow> runs P throw Q E"
  by (simp add: runs_def throw_def)

lemma runs_pbind:
  assumes m: "runs P m R E" and f: "\<And>x. runs (R x) (f x) Q E"
  shows "runs P (pbind m f) Q E"
  unfolding runs_def
proof (intro allI impI)
  fix w
  assume "P w"
  with m show "\<exists>r w'. pbind m f w = Some (r, w') \<and> (case r of Returned x \<Rightarrow> Q x w' | Thrown \<Rightarrow> E w')"
  proof (cases rule: runsD)
    case (returned x w1)
    then show ?thesis using f [of x] by (auto simp: runs_def pbind_def)
  qed (simp add: pbind_def)
qed

lemma runs_catching:
  assumes "runs P m Q X" "runs X h Q E"
  shows "runs P (catching m h) Q E"
  unfolding runs_def
proof (intro allI impI)
  fix w
  assume "P w"
  with assms(1) show "\<exists>r w'. catching m h w = Some (r, w') \<and> (case r of Returned x \<Rightarrow> Q x w' | Thrown \<Rightarrow> E w')"
  proof (cases rule: runsD)
    case (thrown w1)
    then show ?thesis using assms(2) by (auto simp: runs_def catching_def)
  qed (simp add: catching_def)
qed

lemma runs_call: "(\<And>w x w'. P w \<Longrightarrow> f w = (x, w') \<Longrightarrow> Q x w') \<Longrightarrow> runs P (call f) Q E"
  by (auto simp: runs_def call_def split: prod.splits)

lemma runs_call_partial:
  "(\<And>w. P w \<Longrightarrow> \<exists>x w'. f w = Some (x, w') \<and> Q x w') \<Longrightarrow> runs P (call_partial f) Q E"
  by (fastforce simp: runs_def call_partial_def)

lemma runs_throwing:
  "(\<And>w x. P w \<Longrightarrow> v = Some x \<Longrightarrow> Q x w) \<Longrightarrow> (\<And>w. P w \<Longrightarrow> v = None \<Longrightarrow> E w) \<Longrightarrow> runs P (throwing v) Q E"
  by (cases v) (auto simp: throwing_def intro: runs_ret runs_throw)

lemma runs_if: "(c \<Longrightarrow> runs P m Q E) \<Longrightarrow> (\<not> c \<Longrightarrow> runs P n Q E) \<Longrightarrow> runs P (if c then m else n) Q E"
  by simp

lemma runs_consequence:
  assumes "runs P m Q E" "\<And>w. P' w \<Longrightarrow> P w" "\<And>x w. Q x w \<Longrightarrow> Q' x w" "\<And>w. E w \<Longrightarrow> E' w"
  shows "runs P' m Q' E'"
  unfolding runs_def
proof (intro allI impI)
  fix w
  assume "P' w"
  then have "P w" by (rule assms(2))
  with assms(1) show "\<exists>r w'. m w = Some (r, w') \<and> (case r of Returned x \<Rightarrow> Q' x w' | Thrown \<Rightarrow> E' w')"
    by (cases rule: runsD) (use assms(3,4) in auto)
qed

lemma runs_on_value:
  "(\<And>e w. r = Inl e \<Longrightarrow> P w \<Longrightarrow> Q (Inl e) w) \<Longrightarrow> (\<And>x. r = Inr x \<Longrightarrow> runs P (f x) Q E) \<Longrightarrow> runs P (on_value r f) Q E"
  by (cases r) (auto intro: runs_ret)

text \<open>A condition that no call changes is carried through.\<close>

lemma runs_pure: "(C \<Longrightarrow> runs P m Q E) \<Longrightarrow> runs (\<lambda>w. C \<and> P w) m Q E"
  by (auto simp: runs_def)

end
