(* ===== verification/Cb_Config.thy ===== *)
theory Cb_Config
  imports Cb_Config_Json Cb_Effects Cb_Direct
begin

text \<open>
  The validation of a configuration: \<^verbatim>\<open>parse_and_validate\<close> of
  \<^verbatim>\<open>src/config.cpp\<close> with everything it calls, and the records of
  \<^verbatim>\<open>src/config.hpp\<close>. What it takes from outside is in \<open>config_env\<close>: the lexer of the JSON
  library, the system calls, \<^verbatim>\<open>inet_pton(AF_INET6, ...)\<close> and the order in which an
  \<^verbatim>\<open>std::unordered_set\<close> is iterated, which the standard leaves open.
\<close>

record 'w config_env =
  env_lexer :: json_lexer
  env_dump :: json_dump
  env_posix :: "'w posix"
  env_inet_pton6 :: "string \<Rightarrow> bool"
  env_set_order :: "string set \<Rightarrow> string list"

section \<open>The records\<close>

record ResourceLimits =
  rl_max_token_bytes :: nat
  rl_max_evidence_bytes :: nat
  rl_max_ssh_certificate_bytes :: nat
  rl_max_offered_key_chars :: nat
  rl_max_authorized_keys_output_chars :: nat

record IssuerConfiguration =
  ic_policy_id :: string
  ic_core_policy :: CorePolicy
  ic_carrier_policy :: CarrierPolicy
  ic_acquisition_profiles :: "string list"
  ic_audit_identity_claim :: string
  ic_keys :: StaticJwks

record Configuration =
  cfg_clock_skew_seconds :: int
  cfg_total_verification_deadline_nanoseconds :: u64
  cfg_resource_limits :: ResourceLimits
  cfg_trusted_issuers :: "IssuerConfiguration list"
  cfg_accounts :: AccountPolicies
  cfg_facility :: Facility

section \<open>Sets, predicates, limits\<close>

fun string_set_items :: "json list \<Rightarrow> string set \<Rightarrow> string set expected" where
  "string_set_items [] result = Inr result"
| "string_set_items (v # items) result =
     (if \<not> is_string v \<or> get_string v = '''' \<or> get_string v \<in> result then Inl malformed_input
      else string_set_items items (insert (get_string v) result))"

definition string_set :: "json \<Rightarrow> string \<Rightarrow> bool \<Rightarrow> string set expected" where
  "string_set object name nonempty =
     (case json_find object name of
        Some (JArray items) \<Rightarrow>
          if nonempty \<and> items = [] then Inl malformed_input else string_set_items items {}
      | _ \<Rightarrow> Inl malformed_input)"

definition subset_of :: "string set \<Rightarrow> string list \<Rightarrow> bool" where
  "subset_of S allowed \<longleftrightarrow> (\<forall>v\<in>S. v \<in> set allowed)"

definition parse_predicate :: "'w config_env \<Rightarrow> json \<Rightarrow> Predicate expected" where
  "parse_predicate env v =
     (case (string_value v ''claim'', string_value v ''type'', string_value v ''op'') of
        (Some claim, Some type, Some operation) \<Rightarrow>
          if claim = '''' then Inl malformed_input
          else if type = ''string'' \<and> operation = ''equals'' \<and>
             exact_members v [''claim'', ''type'', ''op'', ''value''] [] \<and> string_value v ''value'' \<noteq> None
          then Inr \<lparr>pr_claim = claim, pr_operation = string_equals,
                  pr_value = the (string_value v ''value''), pr_values = []\<rparr>
          else if type = ''string'' \<and> operation = ''one-of'' \<and>
             exact_members v [''claim'', ''type'', ''op'', ''values''] [] \<and> has_value (string_set v ''values'' True)
          then Inr \<lparr>pr_claim = claim, pr_operation = string_one_of, pr_value = '''',
                  pr_values = (case string_set v ''values'' True of Inl _ \<Rightarrow> [] | Inr S \<Rightarrow> env_set_order env S)\<rparr>
          else if type = ''string-array'' \<and> operation = ''contains'' \<and>
             exact_members v [''claim'', ''type'', ''op'', ''value''] [] \<and> string_value v ''value'' \<noteq> None
          then Inr \<lparr>pr_claim = claim, pr_operation = string_array_contains,
                  pr_value = the (string_value v ''value''), pr_values = []\<rparr>
          else Inl malformed_input
      | _ \<Rightarrow> Inl malformed_input)"

fun predicate_items :: "'w config_env \<Rightarrow> json list \<Rightarrow> Predicate list \<Rightarrow> Predicate list expected" where
  "predicate_items env [] result = Inr result"
| "predicate_items env (item # items) result =
     ebind (parse_predicate env item) (\<lambda>parsed. predicate_items env items (result @ [parsed]))"

definition parse_predicates :: "'w config_env \<Rightarrow> json \<Rightarrow> string \<Rightarrow> bool \<Rightarrow> Predicate list expected" where
  "parse_predicates env object name required =
     (case json_find object name of
        None \<Rightarrow> if \<not> required then Inr [] else Inl malformed_input
      | Some (JArray items) \<Rightarrow> predicate_items env items []
      | Some _ \<Rightarrow> Inl malformed_input)"

definition size_member :: "json \<Rightarrow> string \<Rightarrow> nat \<Rightarrow> nat expected" where
  "size_member object name maximum =
     (case json_find object name of
        Some (JUnsigned n) \<Rightarrow> if n = 0 \<or> unat n > maximum then Inl resource_limit else Inr (unat n)
      | _ \<Rightarrow> Inl malformed_input)"

definition parse_resource_limits :: "json \<Rightarrow> ResourceLimits expected" where
  "parse_resource_limits v =
     (if \<not> exact_members v [''max_token_bytes'', ''max_evidence_bytes'', ''max_ssh_certificate_bytes'',
            ''max_offered_key_chars'', ''max_authorized_keys_output_chars''] []
      then Inl malformed_input
      else
        ebind (size_member v ''max_token_bytes'' 32768) (\<lambda>token.
        ebind (size_member v ''max_evidence_bytes'' 16384) (\<lambda>evidence.
        ebind (size_member v ''max_ssh_certificate_bytes'' 49152) (\<lambda>certificate.
        ebind (size_member v ''max_offered_key_chars'' 65536) (\<lambda>offered.
        ebind (size_member v ''max_authorized_keys_output_chars'' 4096) (\<lambda>result.
          Inr \<lparr>rl_max_token_bytes = token, rl_max_evidence_bytes = evidence,
               rl_max_ssh_certificate_bytes = certificate, rl_max_offered_key_chars = offered,
               rl_max_authorized_keys_output_chars = result\<rparr>))))))"

definition config_valid_policy_id :: "string \<Rightarrow> bool" where
  "config_valid_policy_id s = (if s = '''' \<or> length s > 64 then False else policy_id_from 0 s)"

section \<open>Issuer URIs\<close>

definition uri_prefix :: string where "uri_prefix = ''https://''"

definition find_first_of :: "string \<Rightarrow> string \<Rightarrow> nat \<Rightarrow> nat option" where
  "find_first_of chars s pos =
     (let rest = drop pos s; n = length (takeWhile (\<lambda>c. c \<notin> set chars) rest)
      in if n < length rest then Some (pos + n) else None)"

definition is_hexadecimal :: "char \<Rightarrow> bool" where
  "is_hexadecimal c \<longleftrightarrow>
     is_digit c \<or> (CHR ''A'' \<le> c \<and> c \<le> CHR ''F'') \<or> (CHR ''a'' \<le> c \<and> c \<le> CHR ''f'')"

definition unreserved :: "char \<Rightarrow> bool" where
  "unreserved c \<longleftrightarrow> is_letter c \<or> is_digit c \<or> c \<in> set ''-._~''"

definition subdelimiter :: "char \<Rightarrow> bool" where
  "subdelimiter c \<longleftrightarrow> c \<in> set (''!$&()*+,;='' @ [CHR 0x27])"

fun escaped_component :: "bool \<Rightarrow> string \<Rightarrow> bool" where
  "escaped_component query [] \<longleftrightarrow> True"
| "escaped_component query (c # rest) \<longleftrightarrow>
     (if c = CHR ''%'' then
        (case rest of
           a # b # rest \<Rightarrow> is_hexadecimal a \<and> is_hexadecimal b \<and> escaped_component query rest
         | _ \<Rightarrow> False)
      else
        (unreserved c \<or> subdelimiter c \<or> c = CHR '':'' \<or> c = CHR ''@'' \<or> c = CHR ''/'' \<or> (query \<and> c = CHR ''?'')) \<and>
        escaped_component query rest)"

text \<open>\<^verbatim>\<open>rfind(c)\<close>.\<close>

definition sv_rfind :: "char \<Rightarrow> string \<Rightarrow> nat option" where
  "sv_rfind c s =
     (let n = length (takeWhile (\<lambda>x. x \<noteq> c) (rev s)) in if n < length s then Some (length s - 1 - n) else None)"

text \<open>Host and port of an authority.\<close>

definition split_authority :: "'w config_env \<Rightarrow> string \<Rightarrow> (string \<times> string) option" where
  "split_authority env authority =
     (if hd authority = CHR ''['' then
        case sv_find CHR '']'' authority 0 of
          None \<Rightarrow> None
        | Some close \<Rightarrow>
            if close = 1 \<or> \<not> env_inet_pton6 env (sv_substr authority 1 (close - 1)) then None
            else if close + 1 < length authority then
              if authority ! (close + 1) \<noteq> CHR '':'' then None
              else Some (take (close + 1) authority, drop (close + 2) authority)
            else Some (take (close + 1) authority, '''')
      else
        case (case sv_rfind CHR '':'' authority of
                None \<Rightarrow> Some (authority, '''')
              | Some colon \<Rightarrow>
                  if sv_find CHR '':'' authority 0 \<noteq> Some colon then None
                  else Some (take colon authority, drop (colon + 1) authority)) of
          None \<Rightarrow> None
        | Some (host, port) \<Rightarrow>
            if host = '''' \<or> \<not> escaped_component False host \<or>
               CHR ''/'' \<in> set host \<or> CHR '':'' \<in> set host \<or> CHR ''@'' \<in> set host
            then None else Some (host, port))"

definition port_number :: "string \<Rightarrow> u32" where
  "port_number port = foldl (\<lambda>numeric c. numeric * 10 + of_nat (of_char c - 48)) 0 port"

definition valid_port :: "string \<Rightarrow> bool" where
  "valid_port port \<longleftrightarrow>
     port \<noteq> '''' \<and> length port \<le> 5 \<and> list_all is_digit port \<and> port_number port \<noteq> 0 \<and> port_number port \<le> 65535"

text \<open>Path and query, from the end of the authority on.\<close>

definition valid_suffix :: "string \<Rightarrow> bool" where
  "valid_suffix suffix =
     (case sv_find CHR ''?'' suffix 0 of
        None \<Rightarrow> escaped_component False suffix \<and> escaped_component True ''''
      | Some question \<Rightarrow>
          escaped_component False (take question suffix) \<and> escaped_component True (drop (question + 1) suffix))"

definition valid_https_uri :: "'w config_env \<Rightarrow> string \<Rightarrow> bool" where
  "valid_https_uri env s =
     (if length s \<le> length uri_prefix \<or> take (length uri_prefix) s \<noteq> uri_prefix then False
      else
        let authority_end = find_first_of ''/?#'' s (length uri_prefix);
            authority = (case authority_end of
                None \<Rightarrow> sv_substr s (length uri_prefix) (length s - length uri_prefix)
              | Some e \<Rightarrow> sv_substr s (length uri_prefix) (e - length uri_prefix))
        in
        if authority = '''' \<or> CHR ''@'' \<in> set authority \<or> CHR ''#'' \<in> set s then False
        else if list_ex (\<lambda>c. c \<le> CHR 0x20 \<or> c \<ge> CHR 0x7f \<or> c = CHR 0x5c) s then False
        else
          case split_authority env authority of
            None \<Rightarrow> False
          | Some (host, port) \<Rightarrow>
              if host = '''' then False
              else if (last authority = CHR '':'' \<or> port \<noteq> '''') \<and> \<not> valid_port port then False
              else (case authority_end of None \<Rightarrow> True | Some e \<Rightarrow> valid_suffix (drop e s)))"

definition compatible_acquisition_binding :: "string set \<Rightarrow> string set \<Rightarrow> bool" where
  "compatible_acquisition_binding acquisitions bindings =
     (let interactive = (''oidc-native-auth-code-v1'' \<in> acquisitions \<or>
                         ''oidc-confidential-web-auth-code-v1'' \<in> acquisitions);
          workload = (''challenge-bound-workload-v1'' \<in> acquisitions);
          nonce = (''oidc-nonce-v1'' \<in> bindings);
          workload_binding = (''audience-v1'' \<in> bindings \<or> ''credbind-claim-v1'' \<in> bindings)
      in interactive = nonce \<and> workload = workload_binding)"

section \<open>One issuer policy\<close>

text \<open>The local variables of an iteration of the loop, once every check before the key file passed.\<close>

record issuer_fields =
  fld_policy_id :: string
  fld_issuer_name :: string
  fld_principal_claim :: string
  fld_audiences :: "string set"
  fld_issuer_algorithms :: "string set"
  fld_caller_algorithms :: "string set"
  fld_evidence_profiles :: "string set"
  fld_binding_profiles :: "string set"
  fld_acquisition_profiles :: "string set"
  fld_authorized_parties :: "string set"
  fld_required_claims :: "Predicate list"
  fld_maximum_age :: int
  fld_maximum_identity :: int
  fld_reconstructible :: bool
  fld_audit_claim :: string
  fld_source_path :: string

text \<open>Policy id, issuer and principal claim.\<close>

definition issuer_identity :: "'w config_env \<Rightarrow> string set \<Rightarrow> json \<Rightarrow> (string \<times> string \<times> string) expected" where
  "issuer_identity env policy_ids v =
     (if \<not> exact_members v
         [''policy_id'', ''issuer'', ''key_source'', ''audiences'', ''issuer_algorithms'', ''caller_algorithms'',
          ''evidence_profiles'', ''binding_profiles'', ''acquisition_profiles'',
          ''require_non_reconstructible_evidence'', ''certificate_principal_claim'']
         [''authorized_parties'', ''maximum_credential_age'', ''maximum_identity_lifetime'', ''audit_identity_claim'',
          ''required_claims'', ''environment_discriminator'']
      then Inl malformed_input
      else
        case (string_value v ''policy_id'', string_value v ''issuer'', string_value v ''certificate_principal_claim'') of
          (Some policy_id, Some issuer_name, Some principal_claim) \<Rightarrow>
            if \<not> config_valid_policy_id policy_id \<or> policy_id \<in> policy_ids \<or> \<not> valid_https_uri env issuer_name \<or>
               principal_claim = ''''
            then Inl issuer_untrusted
            else Inr (policy_id, issuer_name, principal_claim)
        | _ \<Rightarrow> Inl issuer_untrusted)"

text \<open>Audiences, algorithms and profiles, in the order of their errors.\<close>

record issuer_sets =
  set_audiences :: "string set"
  set_issuer_algorithms :: "string set"
  set_caller_algorithms :: "string set"
  set_evidence_profiles :: "string set"
  set_binding_profiles :: "string set"
  set_acquisition_profiles :: "string set"

definition issuer_string_sets :: "json \<Rightarrow> issuer_sets expected" where
  "issuer_string_sets v =
     ebind (string_set v ''audiences'' True) (\<lambda>audiences.
     ebind (string_set v ''issuer_algorithms'' True) (\<lambda>issuer_algorithms.
     ebind (string_set v ''caller_algorithms'' True) (\<lambda>caller_algorithms.
     ebind (string_set v ''evidence_profiles'' True) (\<lambda>evidence_profiles.
     ebind (string_set v ''binding_profiles'' True) (\<lambda>binding_profiles.
     ebind (string_set v ''acquisition_profiles'' True) (\<lambda>acquisition_profiles.
       Inr \<lparr>set_audiences = audiences, set_issuer_algorithms = issuer_algorithms,
            set_caller_algorithms = caller_algorithms, set_evidence_profiles = evidence_profiles,
            set_binding_profiles = binding_profiles, set_acquisition_profiles = acquisition_profiles\<rparr>))))))"

definition supported_capabilities :: "issuer_sets \<Rightarrow> bool" where
  "supported_capabilities s \<longleftrightarrow>
     set_issuer_algorithms s = {''RS256''} \<and> ''ES256'' \<in> set_caller_algorithms s \<and>
     subset_of (set_caller_algorithms s) [''ES256'', ''Ed25519''] \<and>
     subset_of (set_evidence_profiles s) [kStandardEvidence, kGqEvidence] \<and>
     subset_of (set_binding_profiles s) [kOidcNonceBinding, kAudienceBinding, kCredBindClaimBinding] \<and>
     subset_of (set_acquisition_profiles s)
       [''oidc-native-auth-code-v1'', ''oidc-confidential-web-auth-code-v1'', ''challenge-bound-workload-v1''] \<and>
     compatible_acquisition_binding (set_acquisition_profiles s) (set_binding_profiles s)"

definition authorized_parties :: "json \<Rightarrow> string set expected" where
  "authorized_parties v =
     (case json_find v ''authorized_parties'' of
        None \<Rightarrow> Inr {}
      | Some _ \<Rightarrow> string_set v ''authorized_parties'' True)"

definition required_claims :: "'w config_env \<Rightarrow> json \<Rightarrow> Predicate list expected" where
  "required_claims env v =
     ebind (parse_predicates env v ''required_claims'' False) (\<lambda>claims.
       case json_find v ''environment_discriminator'' of
         None \<Rightarrow> Inr claims
       | Some discriminator \<Rightarrow>
           ebind (parse_predicate env discriminator) (\<lambda>discriminator. Inr (claims @ [discriminator])))"

definition optional_seconds :: "json \<Rightarrow> string \<Rightarrow> int expected" where
  "optional_seconds v name =
     (case json_find v name of None \<Rightarrow> Inr 0 | Some _ \<Rightarrow> whole_seconds v name True)"

definition reconstructibility :: "json \<Rightarrow> bool expected" where
  "reconstructibility v =
     (case json_find v ''require_non_reconstructible_evidence'' of
        Some (JBool b) \<Rightarrow> Inr b
      | _ \<Rightarrow> Inl malformed_input)"

definition audit_claim :: "json \<Rightarrow> string expected" where
  "audit_claim v =
     (case json_find v ''audit_identity_claim'' of
        None \<Rightarrow> Inr ''''
      | Some _ \<Rightarrow>
          (case string_value v ''audit_identity_claim'' of
             None \<Rightarrow> Inl malformed_input
           | Some selected \<Rightarrow> if \<not> utf8_without_controls selected 256 then Inl malformed_input else Inr selected))"

definition key_source_path :: "json \<Rightarrow> string expected" where
  "key_source_path v =
     (case json_find v ''key_source'' of
        Some (JObject members) \<Rightarrow>
          let source = JObject members in
          (case string_value source ''type'' of
             None \<Rightarrow> Inl malformed_input
           | Some type \<Rightarrow>
               if type = ''oidc-discovery'' then
                 if \<not> exact_members source [''type''] [] then Inl malformed_input else Inl unsupported_profile
               else if type \<noteq> ''static-jwks-file'' \<or> \<not> exact_members source [''type'', ''path''] []
               then Inl unsupported_profile
               else
                 case string_value source ''path'' of
                   None \<Rightarrow> Inl issuer_untrusted
                 | Some path \<Rightarrow>
                     if length path < 2 \<or> hd path \<noteq> CHR ''/'' then Inl issuer_untrusted else Inr path)
      | _ \<Rightarrow> Inl malformed_input)"

definition parse_issuer_fields :: "'w config_env \<Rightarrow> string set \<Rightarrow> json \<Rightarrow> issuer_fields expected" where
  "parse_issuer_fields env policy_ids v =
     ebind (issuer_identity env policy_ids v) (\<lambda>(policy_id, issuer_name, principal_claim).
     ebind (issuer_string_sets v) (\<lambda>sets.
     if \<not> supported_capabilities sets then Inl unsupported_profile else
     ebind (authorized_parties v) (\<lambda>parties.
     ebind (required_claims env v) (\<lambda>claims.
     ebind (optional_seconds v ''maximum_credential_age'') (\<lambda>maximum_age.
     ebind (optional_seconds v ''maximum_identity_lifetime'') (\<lambda>maximum_identity.
     ebind (reconstructibility v) (\<lambda>reconstructible.
     ebind (audit_claim v) (\<lambda>audit.
     ebind (key_source_path v) (\<lambda>path.
       Inr \<lparr>fld_policy_id = policy_id, fld_issuer_name = issuer_name, fld_principal_claim = principal_claim,
            fld_audiences = set_audiences sets, fld_issuer_algorithms = set_issuer_algorithms sets,
            fld_caller_algorithms = set_caller_algorithms sets, fld_evidence_profiles = set_evidence_profiles sets,
            fld_binding_profiles = set_binding_profiles sets, fld_acquisition_profiles = set_acquisition_profiles sets,
            fld_authorized_parties = parties, fld_required_claims = claims, fld_maximum_age = maximum_age,
            fld_maximum_identity = maximum_identity, fld_reconstructible = reconstructible,
            fld_audit_claim = audit, fld_source_path = path\<rparr>)))))))))"

definition issuer_configuration :: "int \<Rightarrow> ResourceLimits \<Rightarrow> issuer_fields \<Rightarrow> StaticJwks \<Rightarrow> IssuerConfiguration" where
  "issuer_configuration skew resources f keys =
     (let admitted = {fld_principal_claim f} \<union> (if fld_audit_claim f \<noteq> '''' then {fld_audit_claim f} else {}) \<union>
            pr_claim ` set (fld_required_claims f);
          policy = \<lparr>po_issuer = fld_issuer_name f, po_audiences = fld_audiences f,
            po_authorized_parties = fld_authorized_parties f, po_issuer_algorithms = fld_issuer_algorithms f,
            po_evidence_profiles = fld_evidence_profiles f, po_binding_profiles = fld_binding_profiles f,
            po_require_non_reconstructible_evidence = fld_reconstructible f,
            po_maximum_credential_age_seconds = fld_maximum_age f, po_clock_skew_seconds = skew,
            po_required_claims = fld_required_claims f, po_admitted_claims = admitted\<rparr>
      in \<lparr>ic_policy_id = fld_policy_id f,
          ic_core_policy = \<lparr>cp_caller_algorithms = fld_caller_algorithms f, cp_issuer_policy = policy,
            cp_limits = \<lparr>core_max_token_bytes = rl_max_token_bytes resources,
                         core_max_evidence_bytes = rl_max_evidence_bytes resources\<rparr>\<rparr>,
          ic_carrier_policy = \<lparr>car_certificate_principal_claim = fld_principal_claim f,
            car_maximum_identity_lifetime_seconds = fld_maximum_identity f, car_clock_skew_seconds = skew\<rparr>,
          ic_acquisition_profiles = sorted_list_of_set (fld_acquisition_profiles f),
          ic_audit_identity_claim = fld_audit_claim f,
          ic_keys = keys\<rparr>)"

text \<open>The loop over \<^verbatim>\<open>trusted_issuers\<close>.\<close>

fun parse_trusted_issuers ::
  "'w config_env \<Rightarrow> u32 \<Rightarrow> int \<Rightarrow> ResourceLimits \<Rightarrow> json list \<Rightarrow> string set \<Rightarrow> string set \<Rightarrow>
   IssuerConfiguration list \<Rightarrow> ('w, (string set \<times> IssuerConfiguration list) expected) prog" where
  "parse_trusted_issuers env owner skew resources [] policy_ids issuer_ids trusted = ret (Inr (issuer_ids, trusted))"
| "parse_trusted_issuers env owner skew resources (v # values) policy_ids issuer_ids trusted =
     on_value (parse_issuer_fields env policy_ids v) (\<lambda>f.
     pbind_value (call_partial (load_static_file (env_lexer env) (env_posix env) (fld_source_path f)
         \<lparr>fp_required_owner = owner, fp_allow_root_owner = True, fp_limits = default_jwks_limits\<rparr>)) (\<lambda>keys.
       parse_trusted_issuers env owner skew resources values
         (insert (fld_policy_id f) policy_ids) (insert (fld_issuer_name f) issuer_ids)
         (trusted @ [issuer_configuration skew resources f keys])))"

section \<open>Accounts\<close>

text \<open>The state of the two loops: rules counted, account policies, issuers.\<close>

record account_state =
  as_rule_count :: nat
  as_accounts :: AccountPolicies
  as_trusted :: "IssuerConfiguration list"

definition admit_claims :: "string \<Rightarrow> string set \<Rightarrow> IssuerConfiguration \<Rightarrow> IssuerConfiguration" where
  "admit_claims issuer_name claims configured =
     (let core = ic_core_policy configured; policy = cp_issuer_policy core in
      if po_issuer policy = issuer_name
      then configured\<lparr>ic_core_policy := core\<lparr>cp_issuer_policy :=
             policy\<lparr>po_admitted_claims := po_admitted_claims policy \<union> claims\<rparr>\<rparr>\<rparr>
      else configured)"

definition account_rule_step ::
  "'w config_env \<Rightarrow> string set \<Rightarrow> string \<Rightarrow> json \<Rightarrow> account_state \<Rightarrow> account_state expected" where
  "account_rule_step env issuer_ids account rule s =
     (let s = s\<lparr>as_rule_count := as_rule_count s + 1\<rparr> in
      if as_rule_count s > kMaximumAccountRules \<or>
         \<not> exact_members rule [''issuer'', ''all'', ''allowed_certificate_extensions''] []
      then Inl (if as_rule_count s > kMaximumAccountRules then resource_limit else malformed_input)
      else
        case (string_value rule ''issuer'', parse_predicates env rule ''all'' True,
              string_set rule ''allowed_certificate_extensions'' False) of
          (Some issuer_name, Inr all, Inr extensions) \<Rightarrow>
            if issuer_name \<notin> issuer_ids \<or>
               \<not> subset_of extensions [''permit-agent-forwarding'', ''permit-port-forwarding'', ''permit-pty'',
                    ''permit-user-rc'', ''permit-X11-forwarding'']
            then Inl issuer_untrusted
            else
              let new_rule = \<lparr>ar_issuer = issuer_name, ar_all = all, ar_allowed_certificate_extensions = extensions\<rparr>;
                  rules = (case as_accounts s account of None \<Rightarrow> [] | Some rules \<Rightarrow> rules)
              in Inr (s\<lparr>as_accounts := (as_accounts s)(account \<mapsto> rules @ [new_rule]),
                       as_trusted := map (admit_claims issuer_name (pr_claim ` set all)) (as_trusted s)\<rparr>)
        | _ \<Rightarrow> Inl issuer_untrusted)"

fun account_rules ::
  "'w config_env \<Rightarrow> string set \<Rightarrow> string \<Rightarrow> json list \<Rightarrow> account_state \<Rightarrow> account_state expected" where
  "account_rules env issuer_ids account [] s = Inr s"
| "account_rules env issuer_ids account (rule # rules) s =
     ebind (account_rule_step env issuer_ids account rule s) (\<lambda>s. account_rules env issuer_ids account rules s)"

fun parse_accounts ::
  "'w config_env \<Rightarrow> string set \<Rightarrow> (string \<times> json) list \<Rightarrow> account_state \<Rightarrow> account_state expected" where
  "parse_accounts env issuer_ids [] s = Inr s"
| "parse_accounts env issuer_ids ((account, v) # members) s =
     (if \<not> utf8_without_controls account 256 \<or> \<not> exact_members v [''allow''] [] then Inl malformed_input
      else
        case json_at v ''allow'' of
          JArray rules \<Rightarrow>
            if rules = [] then Inl malformed_input
            else ebind (account_rules env issuer_ids account rules s) (\<lambda>s. parse_accounts env issuer_ids members s)
        | _ \<Rightarrow> Inl malformed_input)"

section \<open>The whole document\<close>

definition check_version :: "json \<Rightarrow> unit expected" where
  "check_version document =
     (case json_find document ''version'' of
        Some (JUnsigned n) \<Rightarrow> if n \<noteq> 1 then Inl unsupported_version else Inr ()
      | _ \<Rightarrow> Inl unsupported_version)"

text \<open>A duration member, and the bounds of a cache freshness.\<close>

definition duration_member :: "json \<Rightarrow> string \<Rightarrow> u64 expected" where
  "duration_member object name =
     (case string_value object name of None \<Rightarrow> Inl malformed_input | Some s \<Rightarrow> duration_nanoseconds s)"

definition check_cache :: "json \<Rightarrow> unit expected" where
  "check_cache document =
     (case json_find document ''issuer_key_cache'' of
        None \<Rightarrow> Inr ()
      | Some cache \<Rightarrow>
          if \<not> exact_members cache [''directory'', ''maximum_freshness''] [] then Inl malformed_input
          else
            case (string_value cache ''directory'', duration_member cache ''maximum_freshness'') of
              (_, Inl e) \<Rightarrow> Inl e
            | (None, Inr _) \<Rightarrow> Inl malformed_input
            | (Some directory, Inr freshness) \<Rightarrow>
                if length directory < 2 \<or> hd directory \<noteq> CHR ''/'' then Inl malformed_input
                else if freshness \<noteq> 0 \<and>
                  (freshness < 60 * kNanosecondsPerSecond \<or> freshness > 720 * 3600 * kNanosecondsPerSecond)
                then Inl resource_limit
                else Inr ())"

definition configured_facility :: "json \<Rightarrow> Facility expected" where
  "configured_facility logging =
     (case json_find logging ''facility'' of
        None \<Rightarrow> Inr facility_authpriv
      | Some _ \<Rightarrow>
          (case string_value logging ''facility'' of
             None \<Rightarrow> Inl malformed_input
           | Some selected \<Rightarrow> parse_facility selected))"

text \<open>Trusted issuers, accounts and logging, once the scalar members have been checked.\<close>

definition parse_sections ::
  "'w config_env \<Rightarrow> u32 \<Rightarrow> json \<Rightarrow> int \<Rightarrow> u64 \<Rightarrow> ResourceLimits \<Rightarrow> ('w, Configuration expected) prog" where
  "parse_sections env owner document skew deadline resources =
     (case (json_find document ''trusted_issuers'', json_find document ''accounts'', json_find document ''logging'') of
       (Some (JArray trusted), Some (JObject accounts), Some logging) \<Rightarrow>
         if length trusted > kMaximumPolicies \<or> \<not> exact_members logging [] [''facility'']
         then ret (Inl malformed_input)
         else
           on_value (configured_facility logging) (\<lambda>facility.
           pbind_value (parse_trusted_issuers env owner skew resources trusted {} {} []) (\<lambda>(issuer_ids, issuers).
           on_value (parse_accounts env issuer_ids accounts
               \<lparr>as_rule_count = 0, as_accounts = Map.empty, as_trusted = issuers\<rparr>) (\<lambda>s.
             ret (Inr \<lparr>cfg_clock_skew_seconds = skew, cfg_total_verification_deadline_nanoseconds = deadline,
                      cfg_resource_limits = resources, cfg_trusted_issuers = as_trusted s,
                      cfg_accounts = as_accounts s, cfg_facility = facility\<rparr>))))
     | _ \<Rightarrow> ret (Inl malformed_input))"

definition parse_and_validate :: "'w config_env \<Rightarrow> string \<Rightarrow> u32 \<Rightarrow> ('w, Configuration expected) prog" where
  "parse_and_validate env input owner =
     on_value (config_parse_json (env_lexer env) input) (\<lambda>document.
     if \<not> exact_members document
         [''version'', ''clock_skew'', ''total_verification_deadline'', ''resource_limits'', ''trusted_issuers'',
          ''accounts'', ''logging''] [''issuer_key_cache'']
     then ret (Inl malformed_input) else
     on_value (check_version document) (\<lambda>_.
     on_value (whole_seconds document ''clock_skew'' False) (\<lambda>skew.
     on_value (duration_member document ''total_verification_deadline'') (\<lambda>deadline.
     on_value (parse_resource_limits (json_at document ''resource_limits'')) (\<lambda>resources.
     if deadline = 0 \<or> deadline > 10 * kNanosecondsPerSecond then ret (Inl resource_limit) else
     on_value (check_cache document) (\<lambda>_.
       parse_sections env owner document skew deadline resources))))))"

section \<open>What a validated configuration satisfies\<close>

text \<open>The one thing the standard says of the iteration of a set: every element once.\<close>

definition set_order_law :: "'w config_env \<Rightarrow> bool" where
  "set_order_law env \<longleftrightarrow> (\<forall>S. finite S \<longrightarrow> set (env_set_order env S) = S \<and> distinct (env_set_order env S))"

definition issuer_valid :: "int \<Rightarrow> ResourceLimits \<Rightarrow> IssuerConfiguration \<Rightarrow> bool" where
  "issuer_valid skew resources ic \<longleftrightarrow>
     (let core = ic_core_policy ic; policy = cp_issuer_policy core; carrier = ic_carrier_policy ic in
      config_valid_policy_id (ic_policy_id ic) \<and>
      take 8 (po_issuer policy) = ''https://'' \<and> 8 < length (po_issuer policy) \<and>
      po_audiences policy \<noteq> {} \<and> po_issuer_algorithms policy = {''RS256''} \<and>
      ''ES256'' \<in> cp_caller_algorithms core \<and> cp_caller_algorithms core \<subseteq> {''ES256'', ''Ed25519''} \<and>
      po_evidence_profiles policy \<noteq> {} \<and> po_evidence_profiles policy \<subseteq> {kStandardEvidence, kGqEvidence} \<and>
      po_binding_profiles policy \<noteq> {} \<and>
      po_binding_profiles policy \<subseteq> {kOidcNonceBinding, kAudienceBinding, kCredBindClaimBinding} \<and>
      ic_acquisition_profiles ic \<noteq> [] \<and> sorted (ic_acquisition_profiles ic) \<and> distinct (ic_acquisition_profiles ic) \<and>
      compatible_acquisition_binding (set (ic_acquisition_profiles ic)) (po_binding_profiles policy) \<and>
      po_clock_skew_seconds policy = skew \<and> car_clock_skew_seconds carrier = skew \<and>
      0 \<le> po_maximum_credential_age_seconds policy \<and> int64 (po_maximum_credential_age_seconds policy) \<and>
      0 \<le> car_maximum_identity_lifetime_seconds carrier \<and> int64 (car_maximum_identity_lifetime_seconds carrier) \<and>
      list_all valid_required_claim (po_required_claims policy) \<and>
      cp_limits core = \<lparr>core_max_token_bytes = rl_max_token_bytes resources,
        core_max_evidence_bytes = rl_max_evidence_bytes resources\<rparr> \<and>
      car_certificate_principal_claim carrier \<noteq> '''' \<and>
      car_certificate_principal_claim carrier \<in> po_admitted_claims policy \<and>
      (ic_audit_identity_claim ic \<noteq> '''' \<longrightarrow> ic_audit_identity_claim ic \<in> po_admitted_claims policy) \<and>
      pr_claim ` set (po_required_claims policy) \<subseteq> po_admitted_claims policy)"

definition issuer_name :: "IssuerConfiguration \<Rightarrow> string" where
  "issuer_name ic = po_issuer (cp_issuer_policy (ic_core_policy ic))"

definition admitted_claims :: "IssuerConfiguration \<Rightarrow> string set" where
  "admitted_claims ic = po_admitted_claims (cp_issuer_policy (ic_core_policy ic))"

definition account_rule_valid :: "IssuerConfiguration list \<Rightarrow> AccountRule \<Rightarrow> bool" where
  "account_rule_valid trusted rule \<longleftrightarrow>
     ar_issuer rule \<in> issuer_name ` set trusted \<and> list_all valid_required_claim (ar_all rule) \<and>
     ar_allowed_certificate_extensions rule \<subseteq>
       {''permit-agent-forwarding'', ''permit-port-forwarding'', ''permit-pty'', ''permit-user-rc'', ''permit-X11-forwarding''} \<and>
     (\<forall>ic\<in>set trusted. issuer_name ic = ar_issuer rule \<longrightarrow> pr_claim ` set (ar_all rule) \<subseteq> admitted_claims ic)"

definition rule_total :: "AccountPolicies \<Rightarrow> nat" where
  "rule_total accounts = (\<Sum>account\<in>dom accounts. length (the (accounts account)))"

definition accounts_valid :: "IssuerConfiguration list \<Rightarrow> AccountPolicies \<Rightarrow> bool" where
  "accounts_valid trusted accounts \<longleftrightarrow>
     finite (dom accounts) \<and> rule_total accounts \<le> 256 \<and>
     (\<forall>account rules. accounts account = Some rules \<longrightarrow>
        valid_requested_user account \<and> rules \<noteq> [] \<and> list_all (account_rule_valid trusted) rules)"

definition limits_valid :: "ResourceLimits \<Rightarrow> bool" where
  "limits_valid r \<longleftrightarrow>
     0 < rl_max_token_bytes r \<and> rl_max_token_bytes r \<le> 32768 \<and>
     0 < rl_max_evidence_bytes r \<and> rl_max_evidence_bytes r \<le> 16384 \<and>
     0 < rl_max_ssh_certificate_bytes r \<and> rl_max_ssh_certificate_bytes r \<le> 49152 \<and>
     0 < rl_max_offered_key_chars r \<and> rl_max_offered_key_chars r \<le> 65536 \<and>
     0 < rl_max_authorized_keys_output_chars r \<and> rl_max_authorized_keys_output_chars r \<le> 4096"

definition configuration_wf :: "Configuration \<Rightarrow> bool" where
  "configuration_wf cfg \<longleftrightarrow>
     0 \<le> cfg_clock_skew_seconds cfg \<and> int64 (cfg_clock_skew_seconds cfg) \<and>
     0 < cfg_total_verification_deadline_nanoseconds cfg \<and>
     unat (cfg_total_verification_deadline_nanoseconds cfg) \<le> 10000000000 \<and>
     limits_valid (cfg_resource_limits cfg) \<and>
     length (cfg_trusted_issuers cfg) \<le> 64 \<and> distinct (map ic_policy_id (cfg_trusted_issuers cfg)) \<and>
     list_all (issuer_valid (cfg_clock_skew_seconds cfg) (cfg_resource_limits cfg)) (cfg_trusted_issuers cfg) \<and>
     accounts_valid (cfg_trusted_issuers cfg) (cfg_accounts cfg)"

section \<open>Soundness of the parts\<close>

lemma string_set_items_sound:
  "string_set_items items S = Inr T \<Longrightarrow> finite S \<Longrightarrow> '''' \<notin> S \<Longrightarrow>
     finite T \<and> '''' \<notin> T \<and> S \<subseteq> T \<and> (items \<noteq> [] \<longrightarrow> T \<noteq> {})"
  by (induction items S rule: string_set_items.induct) (auto split: if_splits)

lemma string_set_sound:
  "string_set object name nonempty = Inr T \<Longrightarrow> finite T \<and> '''' \<notin> T \<and> (nonempty \<longrightarrow> T \<noteq> {})"
  using string_set_items_sound [of _ "{}" T]
  by (auto simp: string_set_def split: option.splits json.splits if_splits)

lemma parse_predicate_sound:
  assumes "set_order_law env" "parse_predicate env v = Inr p"
  shows "valid_required_claim p"
proof -
  have order: "string_set v name True = Inr S \<Longrightarrow>
      env_set_order env S \<noteq> [] \<and> distinct (env_set_order env S) \<and> '''' \<notin> set (env_set_order env S)" for name S
    using assms(1) string_set_sound [of v name True S] unfolding set_order_law_def
    by (metis empty_set)
  from assms(2) show ?thesis
    by (auto simp: parse_predicate_def valid_required_claim_def valid_one_of_iff has_value_iff
        split: option.splits if_splits dest!: order)
qed

lemma predicate_items_sound:
  "predicate_items env items result = Inr ps \<Longrightarrow> set_order_law env \<Longrightarrow> list_all valid_required_claim result \<Longrightarrow>
     list_all valid_required_claim ps"
  by (induction env items result rule: predicate_items.induct)
    (auto simp: ebind_Inr_iff dest: parse_predicate_sound)

lemma parse_predicates_sound:
  "parse_predicates env object name required = Inr ps \<Longrightarrow> set_order_law env \<Longrightarrow> list_all valid_required_claim ps"
  using predicate_items_sound [of env _ "[]" ps]
  by (auto simp: parse_predicates_def split: option.splits json.splits if_splits)

lemma size_member_sound: "size_member object name maximum = Inr n \<Longrightarrow> 0 < n \<and> n \<le> maximum"
  by (auto simp: size_member_def not_less unat_gt_0 split: option.splits json.splits if_splits)

lemma parse_resource_limits_sound: "parse_resource_limits v = Inr r \<Longrightarrow> limits_valid r"
  by (auto simp: parse_resource_limits_def limits_valid_def ebind_Inr_iff dest!: size_member_sound split: if_splits)

lemma optional_seconds_sound: "optional_seconds v name = Inr k \<Longrightarrow> 0 \<le> k \<and> int64 k"
  by (auto simp: optional_seconds_def whole_seconds_eq int64_def int64_min_def int64_max_def split: option.splits)

lemma utf8_without_controls_user: "utf8_without_controls s 256 \<longleftrightarrow> valid_requested_user s"
  by (simp add: utf8_without_controls_def valid_requested_user_def utf8_loop_valid_from)

lemma valid_https_uri_prefix: "valid_https_uri env s \<Longrightarrow> take 8 s = ''https://'' \<and> 8 < length s"
proof -
  assume "valid_https_uri env s"
  then have "length uri_prefix < length s \<and> take (length uri_prefix) s = uri_prefix"
    unfolding valid_https_uri_def by (metis not_le)
  moreover have "length uri_prefix = 8" by (simp add: uri_prefix_def)
  ultimately show ?thesis unfolding uri_prefix_def by metis
qed

definition fields_valid :: "issuer_fields \<Rightarrow> bool" where
  "fields_valid f \<longleftrightarrow>
     config_valid_policy_id (fld_policy_id f) \<and> take 8 (fld_issuer_name f) = ''https://'' \<and> 8 < length (fld_issuer_name f) \<and>
     fld_principal_claim f \<noteq> '''' \<and> fld_audiences f \<noteq> {} \<and> fld_evidence_profiles f \<noteq> {} \<and>
     fld_binding_profiles f \<noteq> {} \<and> fld_acquisition_profiles f \<noteq> {} \<and> finite (fld_acquisition_profiles f) \<and>
     fld_issuer_algorithms f = {''RS256''} \<and> ''ES256'' \<in> fld_caller_algorithms f \<and>
     fld_caller_algorithms f \<subseteq> {''ES256'', ''Ed25519''} \<and>
     fld_evidence_profiles f \<subseteq> {kStandardEvidence, kGqEvidence} \<and>
     fld_binding_profiles f \<subseteq> {kOidcNonceBinding, kAudienceBinding, kCredBindClaimBinding} \<and>
     compatible_acquisition_binding (fld_acquisition_profiles f) (fld_binding_profiles f) \<and>
     list_all valid_required_claim (fld_required_claims f) \<and>
     0 \<le> fld_maximum_age f \<and> int64 (fld_maximum_age f) \<and> 0 \<le> fld_maximum_identity f \<and> int64 (fld_maximum_identity f)"

lemma issuer_identity_sound:
  "issuer_identity env ids v = Inr (policy_id, name, principal_claim) \<Longrightarrow>
     config_valid_policy_id policy_id \<and> policy_id \<notin> ids \<and> take 8 name = ''https://'' \<and> 8 < length name \<and> principal_claim \<noteq> ''''"
  by (auto simp: issuer_identity_def dest: valid_https_uri_prefix split: if_splits option.splits)

lemma issuer_string_sets_sound:
  "issuer_string_sets v = Inr s \<Longrightarrow>
     set_audiences s \<noteq> {} \<and> set_evidence_profiles s \<noteq> {} \<and> set_binding_profiles s \<noteq> {} \<and>
     set_acquisition_profiles s \<noteq> {} \<and> finite (set_acquisition_profiles s)"
  by (auto simp: issuer_string_sets_def ebind_Inr_iff dest!: string_set_sound)

lemma required_claims_sound:
  assumes "required_claims env v = Inr claims" "set_order_law env"
  shows "list_all valid_required_claim claims"
proof -
  from assms(1) obtain some where some: "parse_predicates env v ''required_claims'' False = Inr some"
    and rest: "(case json_find v ''environment_discriminator'' of None \<Rightarrow> Inr some
       | Some discriminator \<Rightarrow> ebind (parse_predicate env discriminator) (\<lambda>discriminator. Inr (some @ [discriminator]))) =
       Inr claims"
    by (auto simp: required_claims_def ebind_Inr_iff)
  have "list_all valid_required_claim some" by (rule parse_predicates_sound [OF some assms(2)])
  with rest show ?thesis
    using parse_predicate_sound [OF assms(2)] by (auto simp: ebind_Inr_iff split: option.splits)
qed

lemma subset_of_iff: "subset_of S allowed \<longleftrightarrow> S \<subseteq> set allowed"
  by (auto simp: subset_of_def)

lemma parse_issuer_fieldsE:
  assumes "parse_issuer_fields env ids v = Inr f"
  obtains who sets parties claims age identity recon audit path where
    "issuer_identity env ids v = Inr who" "issuer_string_sets v = Inr sets"
    "supported_capabilities sets" "authorized_parties v = Inr parties" "required_claims env v = Inr claims"
    "optional_seconds v ''maximum_credential_age'' = Inr age"
    "optional_seconds v ''maximum_identity_lifetime'' = Inr identity"
    "reconstructibility v = Inr recon" "audit_claim v = Inr audit" "key_source_path v = Inr path"
    "f = \<lparr>fld_policy_id = fst who, fld_issuer_name = fst (snd who), fld_principal_claim = snd (snd who),
            fld_audiences = set_audiences sets, fld_issuer_algorithms = set_issuer_algorithms sets,
            fld_caller_algorithms = set_caller_algorithms sets, fld_evidence_profiles = set_evidence_profiles sets,
            fld_binding_profiles = set_binding_profiles sets, fld_acquisition_profiles = set_acquisition_profiles sets,
            fld_authorized_parties = parties, fld_required_claims = claims, fld_maximum_age = age,
            fld_maximum_identity = identity, fld_reconstructible = recon, fld_audit_claim = audit, fld_source_path = path\<rparr>"
  using assms unfolding parse_issuer_fields_def ebind_Inr_iff split_beta if_Inl_Inr_iff not_not Inr_inject
  by (elim exE conjE) (rule that, (assumption | rule sym, erule Inr_inject)+)

lemma parse_issuer_fields_sound:
  assumes "parse_issuer_fields env ids v = Inr f" "set_order_law env"
  shows "fields_valid f \<and> fld_policy_id f \<notin> ids"
  using assms(1)
proof (cases rule: parse_issuer_fieldsE)
  case f: (1 who sets parties claims age identity recon audit path)
  show ?thesis
    using issuer_identity_sound [of env ids v "fst who" "fst (snd who)" "snd (snd who)"] f(1) issuer_string_sets_sound [OF f(2)] f(3)
      required_claims_sound [OF f(5) assms(2)] optional_seconds_sound [OF f(6)] optional_seconds_sound [OF f(7)]
    by (simp add: f(11) fields_valid_def supported_capabilities_def subset_of_iff)
qed

lemma issuer_configuration_valid: "fields_valid f \<Longrightarrow> issuer_valid skew resources (issuer_configuration skew resources f keys)"
  unfolding issuer_valid_def issuer_configuration_def fields_valid_def Let_def
  by (elim conjE, intro conjI) (simp_all add: subset_iff)

lemma issuer_configuration_simps [simp]:
  "ic_policy_id (issuer_configuration skew resources f keys) = fld_policy_id f"
  "issuer_name (issuer_configuration skew resources f keys) = fld_issuer_name f"
  by (simp_all add: issuer_configuration_def issuer_name_def Let_def)

lemma parse_trusted_issuers_sound:
  assumes "set_order_law env"
    and "parse_trusted_issuers env owner skew resources values ids names trusted w = Some (Returned (Inr (names', trusted')), w')"
    and "ids = set (map ic_policy_id trusted)" "names = issuer_name ` set trusted"
    and "distinct (map ic_policy_id trusted)" "list_all (issuer_valid skew resources) trusted"
  shows "names' = issuer_name ` set trusted' \<and> distinct (map ic_policy_id trusted') \<and>
     list_all (issuer_valid skew resources) trusted' \<and> length trusted' = length trusted + length values"
  using assms(2-)
proof (induction "values" arbitrary: ids names trusted w)
  case (Cons v "values")
  then obtain f keys w1 where f: "parse_issuer_fields env ids v = Inr f"
    and rest: "parse_trusted_issuers env owner skew resources values
         (insert (fld_policy_id f) ids) (insert (fld_issuer_name f) names)
         (trusted @ [issuer_configuration skew resources f keys]) w1 = Some (Returned (Inr (names', trusted')), w')"
    by (auto simp: prog_iffs)
  from parse_issuer_fields_sound [OF f assms(1)] have "fields_valid f" "fld_policy_id f \<notin> ids" by auto
  with Cons.IH [OF rest] Cons.prems show ?case
    by (auto simp: issuer_configuration_valid)
qed (auto simp: prog_iffs)

section \<open>Soundness of the account policies\<close>

lemma admit_claims_simps [simp]:
  "ic_policy_id (admit_claims name C ic) = ic_policy_id ic"
  "issuer_name (admit_claims name C ic) = issuer_name ic"
  "admitted_claims (admit_claims name C ic) = (if issuer_name ic = name then admitted_claims ic \<union> C else admitted_claims ic)"
  by (auto simp: admit_claims_def issuer_name_def admitted_claims_def Let_def)

lemma admit_claims_valid: "issuer_valid skew resources ic \<Longrightarrow> issuer_valid skew resources (admit_claims name C ic)"
proof (cases "po_issuer (cp_issuer_policy (ic_core_policy ic)) = name")
  case True
  assume "issuer_valid skew resources ic"
  then show ?thesis
    unfolding issuer_valid_def Let_def admit_claims_def if_P [OF True]
    by (elim conjE, intro conjI) (simp_all, blast+)
qed (simp add: admit_claims_def)

lemma account_rule_valid_admit:
  assumes "account_rule_valid trusted rule"
  shows "account_rule_valid (map (admit_claims name C) trusted) rule"
proof -
  have "issuer_name ` set (map (admit_claims name C) trusted) = issuer_name ` set trusted"
    by (simp add: image_image)
  moreover have "pr_claim ` set (ar_all rule) \<subseteq> admitted_claims (admit_claims name C ic)"
    if "ic \<in> set trusted" "issuer_name ic = ar_issuer rule" for ic
  proof -
    have "pr_claim ` set (ar_all rule) \<subseteq> admitted_claims ic"
      using assms that unfolding account_rule_valid_def by blast
    then show ?thesis by auto
  qed
  ultimately show ?thesis using assms unfolding account_rule_valid_def by auto
qed

lemma rule_total_update:
  assumes "finite (dom accounts)"
  shows "rule_total (accounts(account \<mapsto> (case accounts account of None \<Rightarrow> [] | Some rules \<Rightarrow> rules) @ [rule])) =
     Suc (rule_total accounts)"
proof -
  let ?rules = "case accounts account of None \<Rightarrow> [] | Some rules \<Rightarrow> rules"
  let ?new = "accounts(account \<mapsto> ?rules @ [rule])"
  let ?others = "dom accounts - {account}"
  have "rule_total ?new = length (?rules @ [rule]) + (\<Sum>a\<in>?others. length (the (?new a)))"
    using assms by (simp add: rule_total_def sum.insert_remove)
  also have "(\<Sum>a\<in>?others. length (the (?new a))) = (\<Sum>a\<in>?others. length (the (accounts a)))"
    by (intro sum.cong) auto
  also have "length (?rules @ [rule]) + \<dots> = Suc (length ?rules + (\<Sum>a\<in>?others. length (the (accounts a))))"
    by simp
  also have "length ?rules + (\<Sum>a\<in>?others. length (the (accounts a))) = rule_total accounts"
    using assms by (cases "accounts account")
      (auto simp: rule_total_def domIff sum.remove [of "dom accounts" account])
  finally show ?thesis .
qed

definition account_inv :: "int \<Rightarrow> ResourceLimits \<Rightarrow> string set \<Rightarrow> string list \<Rightarrow> account_state \<Rightarrow> bool" where
  "account_inv skew resources names ids s \<longleftrightarrow>
     names = issuer_name ` set (as_trusted s) \<and> ids = map ic_policy_id (as_trusted s) \<and>
     list_all (issuer_valid skew resources) (as_trusted s) \<and>
     accounts_valid (as_trusted s) (as_accounts s) \<and> rule_total (as_accounts s) = as_rule_count s"

lemma account_rule_stepE:
  assumes "account_rule_step env names account rule s = Inr s'"
  obtains name all extensions where
    "as_rule_count s < 256" "parse_predicates env rule ''all'' True = Inr all" "name \<in> names"
    "subset_of extensions [''permit-agent-forwarding'', ''permit-port-forwarding'', ''permit-pty'',
                    ''permit-user-rc'', ''permit-X11-forwarding'']"
    "as_rule_count s' = as_rule_count s + 1"
    "as_accounts s' = (as_accounts s)(account \<mapsto>
       (case as_accounts s account of None \<Rightarrow> [] | Some rules \<Rightarrow> rules) @
       [\<lparr>ar_issuer = name, ar_all = all, ar_allowed_certificate_extensions = extensions\<rparr>])"
    "as_trusted s' = map (admit_claims name (pr_claim ` set all)) (as_trusted s)"
proof -
  have ok: "as_rule_count s < 256"
    using assms by (auto simp: account_rule_step_def kMaximumAccountRules_def Let_def split: if_splits)
  obtain name where name: "string_value rule ''issuer'' = Some name"
    using assms by (cases "string_value rule ''issuer''") (auto simp: account_rule_step_def Let_def split: if_splits)
  obtain all where all: "parse_predicates env rule ''all'' True = Inr all"
    using assms name
    by (cases "parse_predicates env rule ''all'' True") (auto simp: account_rule_step_def Let_def split: if_splits)
  obtain ex where ex: "string_set rule ''allowed_certificate_extensions'' False = Inr ex"
    using assms name all
    by (cases "string_set rule ''allowed_certificate_extensions'' False")
      (auto simp: account_rule_step_def Let_def split: if_splits)
  show ?thesis
    using assms ok by (intro that [OF ok all, of name ex])
      (auto simp: account_rule_step_def name all ex Let_def split: if_splits)
qed

lemma account_rule_step_inv:
  assumes "account_rule_step env names account rule s = Inr s'" "account_inv skew resources names ids s"
    and "set_order_law env" "valid_requested_user account"
  shows "account_inv skew resources names ids s'"
  using assms(1)
proof (cases rule: account_rule_stepE)
  case step: (1 name all ex)
  let ?rule = "\<lparr>ar_issuer = name, ar_all = all, ar_allowed_certificate_extensions = ex\<rparr>"
  let ?admit = "map (admit_claims name (pr_claim ` set all))"
  from assms(2) have inv: "names = issuer_name ` set (as_trusted s)" "ids = map ic_policy_id (as_trusted s)"
      "list_all (issuer_valid skew resources) (as_trusted s)" "accounts_valid (as_trusted s) (as_accounts s)"
      "rule_total (as_accounts s) = as_rule_count s"
    by (auto simp: account_inv_def)
  have names: "issuer_name ` set (?admit (as_trusted s)) = names" by (simp add: inv(1) image_image)
  have "account_rule_valid (?admit (as_trusted s)) ?rule"
    using step(3,4) names parse_predicates_sound [OF step(2) assms(3)]
    unfolding account_rule_valid_def subset_of_iff by auto
  moreover have "list_all (account_rule_valid (?admit (as_trusted s))) rules"
    if "as_accounts s a = Some rules" for a rules
    using inv(4) that account_rule_valid_admit unfolding accounts_valid_def list_all_iff by blast
  moreover have "rule_total (as_accounts s') = Suc (as_rule_count s)" "finite (dom (as_accounts s'))"
    using inv(4,5) rule_total_update [of "as_accounts s" account] by (simp_all add: step(6) accounts_valid_def)
  ultimately have "accounts_valid (as_trusted s') (as_accounts s')"
    using inv(4) assms(4) step(1) unfolding accounts_valid_def step(6,7)
    by (auto split: option.splits if_splits)
  moreover have "list_all (issuer_valid skew resources) (as_trusted s')"
    using inv(3) by (auto simp: step(7) list_all_iff admit_claims_valid)
  ultimately show ?thesis
    using names inv(2) step(5,7) \<open>rule_total (as_accounts s') = _\<close> by (auto simp: account_inv_def)
qed

lemma account_rules_inv:
  "account_rules env names account rules s = Inr s' \<Longrightarrow> account_inv skew resources names ids s \<Longrightarrow>
     set_order_law env \<Longrightarrow> valid_requested_user account \<Longrightarrow> account_inv skew resources names ids s'"
  by (induction rules arbitrary: s) (auto simp: ebind_Inr_iff dest: account_rule_step_inv)

lemma parse_accounts_inv:
  "parse_accounts env names members s = Inr s' \<Longrightarrow> account_inv skew resources names ids s \<Longrightarrow> set_order_law env \<Longrightarrow>
     account_inv skew resources names ids s'"
proof (induction members arbitrary: s)
  case (Cons m members)
  obtain account v where m: "m = (account, v)" by (cases m)
  from Cons.prems(1) obtain rules s1 where "valid_requested_user account"
      "account_rules env names account rules s = Inr s1" "parse_accounts env names members s1 = Inr s'"
    by (auto simp: m utf8_without_controls_user ebind_Inr_iff split: if_splits json.splits)
  then show ?case using Cons account_rules_inv by blast
qed simp

section \<open>The whole document\<close>

lemma whole_seconds_sound: "whole_seconds object name positive = Inr k \<Longrightarrow> 0 \<le> k \<and> int64 k"
  by (auto simp: whole_seconds_eq int64_def int64_max_def)

lemma reject_if_iff:
  "(if c then ret (Inl e) else m) w = Some (Returned (Inr y), w') \<longleftrightarrow> \<not> c \<and> m w = Some (Returned (Inr y), w')"
  by (simp add: ret_iff)

lemma case_sections_iff:
  "(case (a, b, c) of (Some (JArray x), Some (JObject y), Some l) \<Rightarrow> f x y l | _ \<Rightarrow> ret (Inl e)) w =
       Some (Returned (Inr r), w') \<longleftrightarrow>
     (\<exists>x y l. a = Some (JArray x) \<and> b = Some (JObject y) \<and> c = Some l \<and> f x y l w = Some (Returned (Inr r), w'))"
  by (auto simp: ret_iff split: option.splits json.splits)

lemma parse_sectionsE:
  assumes "parse_sections env owner document skew deadline resources w = Some (Returned (Inr cfg), w')"
  obtains trusted accounts logging facility issuers s where
    "json_find document ''trusted_issuers'' = Some (JArray trusted)"
    "json_find document ''accounts'' = Some (JObject accounts)"
    "json_find document ''logging'' = Some logging"
    "\<not> (length trusted > kMaximumPolicies \<or> \<not> exact_members logging [] [''facility''])"
    "configured_facility logging = Inr facility"
    "parse_trusted_issuers env owner skew resources trusted {} {} [] w = Some (Returned (Inr issuers), w')"
    "parse_accounts env (fst issuers) accounts
       \<lparr>as_rule_count = 0, as_accounts = Map.empty, as_trusted = snd issuers\<rparr> = Inr s"
    "cfg = \<lparr>cfg_clock_skew_seconds = skew, cfg_total_verification_deadline_nanoseconds = deadline,
       cfg_resource_limits = resources, cfg_trusted_issuers = as_trusted s, cfg_accounts = as_accounts s,
       cfg_facility = facility\<rparr>"
  using assms
  unfolding parse_sections_def case_sections_iff
  unfolding on_value_iff pbind_value_iff split_beta reject_if_iff ret_iff
  by (elim exE conjE, hypsubst) (rule that, (assumption | erule Inr_inject)+)

lemma parse_and_validateE:
  assumes "parse_and_validate env input owner w = Some (Returned (Inr cfg), w')"
  obtains document u skew deadline resources u' where
    "config_parse_json (env_lexer env) input = Inr document"
    "check_version document = Inr u"
    "whole_seconds document ''clock_skew'' False = Inr skew"
    "duration_member document ''total_verification_deadline'' = Inr deadline"
    "parse_resource_limits (json_at document ''resource_limits'') = Inr resources"
    "\<not> (deadline = 0 \<or> deadline > 10 * kNanosecondsPerSecond)"
    "check_cache document = Inr u'"
    "parse_sections env owner document skew deadline resources w = Some (Returned (Inr cfg), w')"
  using assms
  unfolding parse_and_validate_def on_value_iff reject_if_iff
  by (elim exE conjE) (rule that)

lemma parse_sections_wf:
  assumes "set_order_law env" "parse_sections env owner document skew deadline resources w = Some (Returned (Inr cfg), w')"
    and "0 \<le> skew" "int64 skew" "0 < deadline" "unat deadline \<le> 10000000000" "limits_valid resources"
  shows "configuration_wf cfg"
  using assms(2)
proof (cases rule: parse_sectionsE)
  case p: (1 trusted accounts logging facility issuers s)
  have issuers: "fst issuers = issuer_name ` set (snd issuers)" "distinct (map ic_policy_id (snd issuers))"
      "list_all (issuer_valid skew resources) (snd issuers)" "length (snd issuers) = length trusted"
    using parse_trusted_issuers_sound [OF assms(1), of owner skew resources trusted "{}" "{}" "[]" w
        "fst issuers" "snd issuers"] p(6) by simp_all
  have "account_inv skew resources (fst issuers) (map ic_policy_id (snd issuers))
      \<lparr>as_rule_count = 0, as_accounts = Map.empty, as_trusted = snd issuers\<rparr>"
    using issuers by (simp add: account_inv_def accounts_valid_def rule_total_def)
  from parse_accounts_inv [OF p(7) this assms(1)]
  have s: "map ic_policy_id (as_trusted s) = map ic_policy_id (snd issuers)"
      "list_all (issuer_valid skew resources) (as_trusted s)" "accounts_valid (as_trusted s) (as_accounts s)"
    by (auto simp: account_inv_def)
  have "length (as_trusted s) = length (snd issuers)" using arg_cong [OF s(1), of length] by simp
  then show ?thesis
    using s issuers(2,4) p(4) assms(3-) by (simp add: configuration_wf_def p(8) kMaximumPolicies_def)
qed

lemma parse_and_validate_sound:
  assumes "set_order_law env" "parse_and_validate env input owner w = Some (Returned (Inr cfg), w')"
  shows "configuration_wf cfg"
  using assms(2)
proof (cases rule: parse_and_validateE)
  case p: (1 document u skew deadline resources u')
  have "deadline \<le> 10000000000" using p(6) by (simp add: kNanosecondsPerSecond_def not_less)
  then have "unat deadline \<le> 10000000000" by (simp add: word_le_nat_alt)
  then show ?thesis
    using parse_sections_wf [OF assms(1) p(8)] whole_seconds_sound [OF p(3)] parse_resource_limits_sound [OF p(5)] p(6)
    by (simp add: word_neq_0_conv)
qed

section \<open>Reading the file\<close>

definition unsafe_status :: "u32 \<Rightarrow> file_stat option \<Rightarrow> bool" where
  "unsafe_status owner status =
     (case status of
        None \<Rightarrow> True
      | Some status \<Rightarrow>
          \<not> S_ISREG (st_mode status) \<or> (st_uid status \<noteq> owner \<and> st_uid status \<noteq> 0) \<or>
          writable_by_others (st_mode status) \<or> st_size status < 0 \<or>
          nat (st_size status) > kMaximumConfigurationBytes)"

definition read_file :: "'w config_env \<Rightarrow> string \<Rightarrow> u32 \<Rightarrow> ('w, string expected) prog" where
  "read_file env path owner =
     (let os = env_posix env in
      if path = '''' \<or> hd path \<noteq> CHR ''/'' \<or> CHR 0x00 \<in> set path then ret (Inl state_invalid)
      else
        pbind (call (sys_open os path [O_RDONLY, O_CLOEXEC, O_NOFOLLOW])) (\<lambda>descriptor.
        if descriptor < 0 then ret (Inl state_invalid)
        else
          pbind (call (sys_fstat os descriptor)) (\<lambda>status.
          if unsafe_status owner status then
            pbind (call (sys_close os descriptor)) (\<lambda>_. ret (Inl state_invalid))
          else
            pbind (call_partial (read_loop os descriptor (nat (st_size (the status))) [])) (\<lambda>contents.
            case contents of
              None \<Rightarrow> pbind (call (sys_close os descriptor)) (\<lambda>_. ret (Inl state_invalid))
            | Some contents \<Rightarrow>
                pbind (call (sys_close os descriptor)) (\<lambda>closed_ok.
                ret (if \<not> closed_ok then Inl state_invalid else Inr contents))))))"

definition load_and_validate :: "'w config_env \<Rightarrow> string \<Rightarrow> u32 \<Rightarrow> ('w, Configuration expected) prog" where
  "load_and_validate env path owner =
     pbind_value (read_file env path owner) (\<lambda>contents. parse_and_validate env contents owner)"

section \<open>Loading returns\<close>

lemma runs_read_file:
  assumes "interrupts_finite (env_posix env) rank"
  shows "runs (\<lambda>_. True) (read_file env path owner) (\<lambda>_ _. True) E"
proof -
  have close: "runs (\<lambda>_. True) (pbind (call (sys_close os fd)) (\<lambda>ok. ret (f ok))) (\<lambda>_ _. True) E" for os fd f
    by (intro runs_pbind [where R = "\<lambda>_ _. True"] runs_call runs_ret) simp_all
  have loop: "runs (\<lambda>_. True) (call_partial (read_loop (env_posix env) fd n [])) (\<lambda>_ _. True) E" for fd n
    using read_loop_returns [OF assms] by (intro runs_call_partial) blast
  show ?thesis
    unfolding read_file_def Let_def
    by (intro runs_if runs_pbind [where R = "\<lambda>_ _. True"] runs_ret runs_call loop)
      (auto split: option.splits intro!: close)
qed

lemma load_static_file_total:
  assumes "interrupts_finite os rank"
  shows "\<exists>r w'. load_static_file lexer os path policy w = Some (r, w')"
proof -
  obtain fd w0 where "sys_open os path [O_RDONLY, O_CLOEXEC, O_NOFOLLOW, O_NONBLOCK] w = (fd, w0)" by fastforce
  then show ?thesis
    using load_open_file_returns [OF assms, of lexer policy fd w0]
    by (auto simp: load_static_file_def split: prod.splits)
qed

lemma runs_pbind_value:
  assumes "runs P m (\<lambda>_. R) E" "\<And>x. runs R (f x) Q E" "\<And>e w. R w \<Longrightarrow> Q (Inl e) w"
  shows "runs P (pbind_value m f) Q E"
  unfolding pbind_value_def
  by (rule runs_pbind [OF assms(1)]) (auto intro: runs_on_value assms(2,3))

lemma runs_parse_trusted_issuers:
  assumes "interrupts_finite (env_posix env) rank"
  shows "runs (\<lambda>_. True) (parse_trusted_issuers env owner skew resources vs ids names trusted) (\<lambda>_ _. True) E"
proof (induction vs arbitrary: ids names trusted)
  case (Cons v vs)
  then show ?case
    using load_static_file_total [OF assms]
    by (auto intro!: runs_on_value runs_pbind_value [where R = "\<lambda>_. True"] runs_call_partial)
qed (simp add: runs_ret)

lemma runs_parse_and_validate:
  assumes "interrupts_finite (env_posix env) rank"
  shows "runs (\<lambda>_. True) (parse_and_validate env input owner) (\<lambda>_ _. True) E"
proof -
  have "runs (\<lambda>_. True) (parse_sections env owner document skew deadline resources) (\<lambda>_ _. True) E"
    for document skew deadline resources
    unfolding parse_sections_def
    by (auto split: option.splits json.splits intro!: runs_ret runs_on_value runs_if
        runs_pbind_value [where R = "\<lambda>_. True"] runs_parse_trusted_issuers [OF assms])
  then show ?thesis
    unfolding parse_and_validate_def
    by (auto intro!: runs_ret runs_on_value)
qed

lemma runs_load_and_validate:
  assumes "interrupts_finite (env_posix env) rank"
  shows "runs (\<lambda>_. True) (load_and_validate env path owner) (\<lambda>_ _. True) E"
  unfolding load_and_validate_def
  by (rule runs_pbind_value [OF runs_read_file [OF assms] runs_parse_and_validate [OF assms]]) simp

lemma load_and_validate_sound:
  assumes "set_order_law env" "load_and_validate env path owner w = Some (Returned (Inr cfg), w')"
  shows "configuration_wf cfg"
proof -
  from assms(2) obtain contents w1 where "parse_and_validate env contents owner w1 = Some (Returned (Inr cfg), w')"
    by (auto simp: load_and_validate_def prog_iffs)
  from parse_and_validate_sound [OF assms(1) this] show ?thesis .
qed

end
