(* ===== verification/Cb_Config_Instance.thy ===== *)
theory Cb_Config_Instance
  imports Cb_Config
begin

text \<open>
  What a loaded configuration guarantees to the verifier that runs under it, and a concrete
  configuration: the one under which the carrier of \<open>Cb_Direct\<close> is authorized.
\<close>

section \<open>An instance\<close>

text \<open>The configuration under which the carrier of \<open>Cb_Direct\<close> is authorized.\<close>

definition demo_predicate_json :: json where
  "demo_predicate_json =
     JObject [(''claim'', JString ''sub''), (''op'', JString ''one-of''), (''type'', JString ''string''),
       (''values'', JArray [JString ''v'', JString ''u''])]"

definition demo_issuer_json :: json where
  "demo_issuer_json = JObject
     [(''acquisition_profiles'', JArray [JString ''oidc-native-auth-code-v1'']),
      (''audiences'', JArray [JString ''a'']),
      (''binding_profiles'', JArray [JString ''oidc-nonce-v1'']),
      (''caller_algorithms'', JArray [JString ''ES256'', JString ''Ed25519'']),
      (''certificate_principal_claim'', JString ''sub''),
      (''evidence_profiles'', JArray [JString ''standard-jws-v1'']),
      (''issuer'', JString ''https://i''),
      (''issuer_algorithms'', JArray [JString ''RS256'']),
      (''key_source'', JObject [(''path'', JString ''/k''), (''type'', JString ''static-jwks-file'')]),
      (''maximum_credential_age'', JString ''60s''),
      (''maximum_identity_lifetime'', JString ''1m''),
      (''policy_id'', JString ''p-1''),
      (''require_non_reconstructible_evidence'', JBool False),
      (''required_claims'', JArray [demo_predicate_json])]"

definition demo_accounts_json :: json where
  "demo_accounts_json = JObject [(''user'', JObject [(''allow'', JArray [JObject
     [(''all'', JArray [demo_predicate_json]),
      (''allowed_certificate_extensions'', JArray [JString ''permit-pty'', JString ''permit-agent-forwarding'']),
      (''issuer'', JString ''https://i'')]])])]"

definition demo_limits_json :: json where
  "demo_limits_json = JObject
     [(''max_authorized_keys_output_chars'', JUnsigned 4096), (''max_evidence_bytes'', JUnsigned 16384),
      (''max_offered_key_chars'', JUnsigned 65536), (''max_ssh_certificate_bytes'', JUnsigned 49152),
      (''max_token_bytes'', JUnsigned 32768)]"

definition demo_config_json :: json where
  "demo_config_json = JObject
     [(''accounts'', demo_accounts_json),
      (''clock_skew'', JString ''5s''),
      (''logging'', JObject [(''facility'', JString ''auth'')]),
      (''resource_limits'', demo_limits_json),
      (''total_verification_deadline'', JString ''5s''),
      (''trusted_issuers'', JArray [demo_issuer_json]),
      (''version'', JUnsigned 1)]"

definition demo_order :: "string set \<Rightarrow> string list" where
  "demo_order S = rev (sorted_list_of_set S)"

definition config_lexer :: json_lexer where
  "config_lexer input =
     (if input = ''c'' then events_of demo_config_json else if input = ''doc'' then events_of demo_jwks
      else token_lexer input)"

definition demo_limits :: ResourceLimits where
  "demo_limits = \<lparr>rl_max_token_bytes = 32768, rl_max_evidence_bytes = 16384, rl_max_ssh_certificate_bytes = 49152,
     rl_max_offered_key_chars = 65536, rl_max_authorized_keys_output_chars = 4096\<rparr>"

definition demo_fields :: issuer_fields where
  "demo_fields =
     \<lparr>fld_policy_id = ''p-1'', fld_issuer_name = ''https://i'', fld_principal_claim = ''sub'', fld_audiences = {''a''},
      fld_issuer_algorithms = {''RS256''}, fld_caller_algorithms = {''ES256'', ''Ed25519''},
      fld_evidence_profiles = {''standard-jws-v1''}, fld_binding_profiles = {''oidc-nonce-v1''},
      fld_acquisition_profiles = {''oidc-native-auth-code-v1''}, fld_authorized_parties = {},
      fld_required_claims = [\<lparr>pr_claim = ''sub'', pr_operation = string_one_of, pr_value = '''', pr_values = [''v'', ''u'']\<rparr>],
      fld_maximum_age = 60, fld_maximum_identity = 60, fld_reconstructible = False, fld_audit_claim = '''',
      fld_source_path = ''/k''\<rparr>"

definition demo_config_env :: "'w posix \<Rightarrow> 'w config_env" where
  "demo_config_env os = \<lparr>env_lexer = config_lexer, env_dump = demo_dump, env_posix = os,
     env_inet_pton6 = (\<lambda>_. False), env_set_order = demo_order\<rparr>"

lemma demo_order_law: "set_order_law (demo_config_env os)"
  by (simp add: set_order_law_def demo_config_env_def demo_order_def)

lemma demo_fields_check: "parse_issuer_fields (demo_config_env os) {} demo_issuer_json = Inr demo_fields"
  by code_simp

definition demo_issuer_configuration :: IssuerConfiguration where
  "demo_issuer_configuration =
     \<lparr>ic_policy_id = ''p-1'', ic_core_policy = demo_core_policy, ic_carrier_policy = demo_carrier_policy,
      ic_acquisition_profiles = [''oidc-native-auth-code-v1''], ic_audit_identity_claim = '''',
      ic_keys = [''k'' \<mapsto> demo_key]\<rparr>"

lemma demo_issuer_configured:
  "issuer_configuration 5 demo_limits demo_fields [''k'' \<mapsto> demo_key] = demo_issuer_configuration"
  by (simp add: issuer_configuration_def demo_fields_def demo_limits_def demo_issuer_configuration_def
      demo_core_policy_def demo_issuer_policy_def demo_carrier_policy_def kStandardEvidence_def kOidcNonceBinding_def)

lemma demo_config_parsed: "config_parse_json config_lexer ''c'' = Inr demo_config_json"
proof -
  note demo = demo_config_json_def demo_accounts_json_def demo_limits_json_def demo_issuer_json_def demo_predicate_json_def
  have "json_ok config_bounds demo_config_json"
    by (simp add: demo kMaximumKeyBytes_def scalar_ok_def)
  moreover have "json_values demo_config_json \<le> 8192" "json_members demo_config_json \<le> 4096" "json_depth demo_config_json \<le> 32"
    by (simp_all add: demo)
  moreover have "json_value demo_config_json = demo_config_json"
    by (simp add: demo)
  ultimately have "json_ok config_bounds demo_config_json \<and> json_values demo_config_json \<le> 8192 \<and>
      json_members demo_config_json \<le> 4096 \<and> json_depth demo_config_json \<le> 32 \<and>
      json_value demo_config_json = demo_config_json" by blast
  then show ?thesis
    by (subst config_parse_json_eq [of config_lexer "''c''" demo_config_json])
      (auto simp: config_lexer_def document_ok_def kMaximumConfigurationBytes_def kMaximumValues_def kMaximumMembers_def
        kMaximumDepth_def demo_config_json_def)
qed

lemma demo_terms:
  "duration_term (''5'', ''s'')" "term_value (''5'', ''s'') = 5000000000"
  "term_number (''5'', ''s'') = 5"
  by (simp_all add: duration_term_def unit_names is_digit_def terms_text_def terms_value_def term_value_def term_number_def
      duration_units_simps digit_value_def del: map_of.simps)

lemma demo_scalars:
  "check_version demo_config_json = Inr ()"
  "whole_seconds demo_config_json ''clock_skew'' False = Inr 5"
  "duration_member demo_config_json ''total_verification_deadline'' = Inr 5000000000"
  "parse_resource_limits (json_at demo_config_json ''resource_limits'') = Inr demo_limits"
  "check_cache demo_config_json = Inr ()"
proof -
  have found: "json_find demo_config_json ''clock_skew'' = Some (JString ''5s'')"
      "json_find demo_config_json ''total_verification_deadline'' = Some (JString ''5s'')"
      "json_find demo_config_json ''version'' = Some (JUnsigned 1)"
      "json_find demo_config_json ''issuer_key_cache'' = None"
      "json_at demo_config_json ''resource_limits'' = demo_limits_json"
    by (simp_all add: demo_config_json_def json_find_def json_at_def)
  show "check_version demo_config_json = Inr ()" "check_cache demo_config_json = Inr ()"
    by (simp_all add: check_version_def check_cache_def found)
  have s: "string_value demo_config_json ''clock_skew'' = Some ''5s''"
      "string_value demo_config_json ''total_verification_deadline'' = Some ''5s''"
    by (simp_all add: string_value_def found is_string_def get_string_def)
  show "whole_seconds demo_config_json ''clock_skew'' False = Inr 5"
    unfolding whole_seconds_eq
    by (rule exI [of _ "''5s''"], rule exI [of _ "[(''5'', ''s'')]"])
      (simp add: s demo_terms int64_def int64_min_def int64_max_def)
  have "duration_nanoseconds ''5s'' = Inr 5000000000"
    unfolding duration_nanoseconds_eq
    by (intro conjI exI [of _ "[(''5'', ''s'')]"]) (simp_all add: demo_terms)
  then show "duration_member demo_config_json ''total_verification_deadline'' = Inr 5000000000"
    by (simp add: duration_member_def s)
  show "parse_resource_limits (json_at demo_config_json ''resource_limits'') = Inr demo_limits"
    unfolding found(5)
    by (simp add: parse_resource_limits_def exact_members_def size_member_def demo_limits_json_def json_find_def
        demo_limits_def)
qed

lemma demo_sections:
  "json_find demo_config_json ''trusted_issuers'' = Some (JArray [demo_issuer_json])"
  "json_find demo_config_json ''accounts'' = Some demo_accounts_json"
  "json_find demo_config_json ''logging'' = Some (JObject [(''facility'', JString ''auth'')])"
  by (simp_all add: demo_config_json_def json_find_def)

definition demo_rule_json :: json where
  "demo_rule_json = JObject
     [(''all'', JArray [demo_predicate_json]),
      (''allowed_certificate_extensions'', JArray [JString ''permit-pty'', JString ''permit-agent-forwarding'']),
      (''issuer'', JString ''https://i'')]"

lemma demo_rule_parsed:
  "exact_members demo_rule_json [''issuer'', ''all'', ''allowed_certificate_extensions''] []"
  "string_value demo_rule_json ''issuer'' = Some ''https://i''"
  "parse_predicates (demo_config_env os) demo_rule_json ''all'' True = Inr (ar_all demo_rule)"
  "string_set demo_rule_json ''allowed_certificate_extensions'' False = Inr (ar_allowed_certificate_extensions demo_rule)"
  by code_simp+

lemma demo_user_name: "utf8_without_controls ''user'' 256"
  by (simp add: utf8_without_controls_user demo_user)

lemma demo_accounts_parsed:
  "parse_accounts (demo_config_env os) {''https://i''} [(''user'', JObject [(''allow'', JArray [demo_rule_json])])]
     \<lparr>as_rule_count = 0, as_accounts = Map.empty, as_trusted = [demo_issuer_configuration]\<rparr> =
   Inr \<lparr>as_rule_count = 1, as_accounts = [''user'' \<mapsto> [demo_rule]], as_trusted = [demo_issuer_configuration]\<rparr>"
proof -
  have members: "exact_members (JObject [(''allow'', JArray [demo_rule_json])]) [''allow''] []"
      "json_at (JObject [(''allow'', JArray [demo_rule_json])]) ''allow'' = JArray [demo_rule_json]"
    by (simp_all add: exact_members_def json_find_def json_at_def)
  have "admit_claims ''https://i'' (pr_claim ` set (ar_all demo_rule)) demo_issuer_configuration = demo_issuer_configuration"
    by (simp add: admit_claims_def demo_issuer_configuration_def demo_core_policy_def demo_issuer_policy_def demo_rule_def)
  moreover have "subset_of (ar_allowed_certificate_extensions demo_rule) [''permit-agent-forwarding'',
      ''permit-port-forwarding'', ''permit-pty'', ''permit-user-rc'', ''permit-X11-forwarding'']"
    by (simp add: subset_of_def demo_rule_def)
  moreover have "\<lparr>ar_issuer = ''https://i'', ar_all = ar_all demo_rule,
      ar_allowed_certificate_extensions = ar_allowed_certificate_extensions demo_rule\<rparr> = demo_rule"
    by (simp add: demo_rule_def)
  ultimately have "account_rule_step (demo_config_env os) {''https://i''} ''user'' demo_rule_json
     \<lparr>as_rule_count = 0, as_accounts = Map.empty, as_trusted = [demo_issuer_configuration]\<rparr> =
     Inr \<lparr>as_rule_count = 1, as_accounts = [''user'' \<mapsto> [demo_rule]], as_trusted = [demo_issuer_configuration]\<rparr>"
    by (simp add: account_rule_step_def Let_def demo_rule_parsed kMaximumAccountRules_def)
  then show ?thesis by (simp add: members demo_user_name)
qed

definition key_policy :: "u32 \<Rightarrow> FilePolicy" where
  "key_policy owner = \<lparr>fp_required_owner = owner, fp_allow_root_owner = True, fp_limits = default_jwks_limits\<rparr>"

text \<open>Any operating system that serves the key file gives the configuration.\<close>

lemma demo_configuration_parsed:
  assumes "load_static_file config_lexer os ''/k'' (key_policy owner) w = Some (Inr [''k'' \<mapsto> demo_key], w')"
  shows "parse_and_validate (demo_config_env os) ''c'' owner w =
     Some (Returned (Inr \<lparr>cfg_clock_skew_seconds = 5, cfg_total_verification_deadline_nanoseconds = 5000000000,
        cfg_resource_limits = demo_limits, cfg_trusted_issuers = [demo_issuer_configuration],
        cfg_accounts = [''user'' \<mapsto> [demo_rule]], cfg_facility = facility_auth\<rparr>), w')"
proof -
  have trusted: "parse_trusted_issuers (demo_config_env os) owner 5 demo_limits [demo_issuer_json] {} {} [] w =
      Some (Returned (Inr ({''https://i''}, [demo_issuer_configuration])), w')"
  proof -
    have "fld_source_path demo_fields = ''/k''" "fld_issuer_name demo_fields = ''https://i''"
      by (simp_all add: demo_fields_def)
    then show ?thesis
      using assms unfolding key_policy_def
      by (simp add: demo_fields_check pbind_value_def pbind_def call_partial_def ret_def demo_issuer_configured)
        (simp add: demo_config_env_def demo_issuer_configured)
  qed
  have accounts: "demo_accounts_json = JObject [(''user'', JObject [(''allow'', JArray [demo_rule_json])])]"
    by (simp add: demo_accounts_json_def demo_rule_json_def)
  have logging: "exact_members (JObject [(''facility'', JString ''auth'')]) [] [''facility'']"
      "configured_facility (JObject [(''facility'', JString ''auth'')]) = Inr facility_auth"
    using parse_facility_name [of facility_auth]
    by (simp_all add: exact_members_def configured_facility_def json_find_def string_value_def is_string_def get_string_def)
  have sections: "parse_sections (demo_config_env os) owner demo_config_json 5 5000000000 demo_limits w =
      Some (Returned (Inr \<lparr>cfg_clock_skew_seconds = 5, cfg_total_verification_deadline_nanoseconds = 5000000000,
        cfg_resource_limits = demo_limits, cfg_trusted_issuers = [demo_issuer_configuration],
        cfg_accounts = [''user'' \<mapsto> [demo_rule]], cfg_facility = facility_auth\<rparr>), w')"
    unfolding parse_sections_def demo_sections accounts
    by (simp add: logging kMaximumPolicies_def pbind_value_def pbind_def trusted demo_accounts_parsed ret_def
        del: parse_trusted_issuers.simps parse_accounts.simps)
  have "exact_members demo_config_json
         [''version'', ''clock_skew'', ''total_verification_deadline'', ''resource_limits'', ''trusted_issuers'',
          ''accounts'', ''logging''] [''issuer_key_cache'']"
    by (simp add: exact_members_def demo_config_json_def json_find_def)
  then show ?thesis
    using demo_config_parsed
    by (simp add: parse_and_validate_def demo_config_env_def demo_scalars kNanosecondsPerSecond_def)
      (use sections in \<open>simp add: demo_config_env_def\<close>)
qed

text \<open>An operating system with two files, whose first read is interrupted.\<close>

definition demo_fs :: "(nat \<times> string) posix" where
  "demo_fs =
     \<lparr>sys_open = \<lambda>path flags w. if path = ''/c'' then (3, (fst w, ''c'')) else (4, (fst w, ''doc'')),
      sys_fstat = \<lambda>fd w. (Some \<lparr>st_mode = 0x81A4, st_uid = 0, st_size = (if fd = 3 then 1 else 3),
         st_dev = 1, st_ino = 7\<rparr>, w),
      sys_read = \<lambda>fd n w. (case w of (k, rest) \<Rightarrow>
         if 0 < k then (Read_interrupted, (k - 1, rest)) else (Read_bytes (take n rest), (0, drop n rest))),
      sys_close = \<lambda>fd w. (True, w)\<rparr>"

lemma demo_fs_calls:
  "sys_open demo_fs path flags w = (if path = ''/c'' then (3, (fst w, ''c'')) else (4, (fst w, ''doc'')))"
  "sys_fstat demo_fs fd w =
     (Some \<lparr>st_mode = 0x81A4, st_uid = 0, st_size = (if fd = 3 then 1 else 3), st_dev = 1, st_ino = 7\<rparr>, w)"
  "sys_read demo_fs fd n w =
     (if 0 < fst w then (Read_interrupted, (fst w - 1, snd w))
      else (Read_bytes (take n (snd w)), (0, drop n (snd w))))"
  "sys_close demo_fs fd w = (True, w)"
  by (simp_all add: demo_fs_def split: prod.split)

lemma demo_fs_finite: "interrupts_finite demo_fs fst"
  by (auto simp: interrupts_finite_def demo_fs_def split: prod.splits if_splits)

lemma demo_safe_mode: "S_ISREG 0x81A4" "\<not> writable_by_others 0x81A4"
  by (simp_all add: S_ISREG_def writable_by_others_def)

lemma demo_key_loaded:
  "load_static_file config_lexer demo_fs ''/k'' (key_policy 0) (0, []) = Some (Inr [''k'' \<mapsto> demo_key], (0, []))"
proof -
  have "read_loop demo_fs 4 3 [] (0, ''doc'') = Some (Some ''doc'', (0, []))"
    by (simp add: read_loop_more read_loop_done demo_fs_calls)
  moreover have "\<not> unsafe_metadata (key_policy 0) \<lparr>st_mode = 0x81A4, st_uid = 0, st_size = 3, st_dev = 1, st_ino = 7\<rparr>"
    by (simp add: unsafe_metadata_def key_policy_def demo_safe_mode)
  moreover have "fp_limits (key_policy 0) = default_jwks_limits" "jl_max_bytes default_jwks_limits = 1048576"
    by (simp_all add: key_policy_def default_jwks_limits_def)
  moreover have "jwks_parse config_lexer ''doc'' default_jwks_limits = Inr [''k'' \<mapsto> demo_key]"
  proof -
    have "jwks_parse config_lexer ''doc'' default_jwks_limits = jwks_parse (\<lambda>_. events_of demo_jwks) ''doc'' default_jwks_limits"
      by (simp add: jwks_parse_def config_lexer_def)
    then show ?thesis using demo_jwks_parse by simp
  qed
  ultimately show ?thesis
    by (simp add: load_static_file_def load_open_file_def close_descriptor_def demo_fs_calls)
qed

definition demo_configuration :: Configuration where
  "demo_configuration =
     \<lparr>cfg_clock_skew_seconds = 5, cfg_total_verification_deadline_nanoseconds = 5000000000,
      cfg_resource_limits = demo_limits, cfg_trusted_issuers = [demo_issuer_configuration],
      cfg_accounts = [''user'' \<mapsto> [demo_rule]], cfg_facility = facility_auth\<rparr>"

lemma demo_configuration_loaded:
  "load_and_validate (demo_config_env demo_fs) ''/c'' 0 (Suc k, rest) =
     Some (Returned (Inr demo_configuration), (0, []))"
proof -
  have loop: "read_loop demo_fs 3 1 [] (n, ''c'') = Some (Some ''c'', (0, []))" for n
    by (induction n) (simp_all add: read_loop_more read_loop_done demo_fs_calls)
  have "read_file (demo_config_env demo_fs) ''/c'' 0 (Suc k, rest) = Some (Returned (Inr ''c''), (0, []))"
    using loop [of "Suc k"] demo_safe_mode
    by (simp add: read_file_def Let_def pbind_def call_def call_partial_def ret_def demo_config_env_def demo_fs_calls
        unsafe_status_def kMaximumConfigurationBytes_def)
  moreover note demo_configuration_parsed [OF demo_key_loaded]
  ultimately show ?thesis
    by (simp add: load_and_validate_def pbind_value_def pbind_def demo_configuration_def)
qed

section \<open>Properties\<close>

lemma configured_policy_admits:
  assumes "issuer_valid skew resources ic"
    and "vi_evidence_profile input \<in> po_evidence_profiles (cp_issuer_policy (ic_core_policy ic))"
    and "vi_binding_profile input \<in> po_binding_profiles (cp_issuer_policy (ic_core_policy ic))"
    and "po_require_non_reconstructible_evidence (cp_issuer_policy (ic_core_policy ic)) \<longrightarrow>
       vi_evidence_profile input \<noteq> kStandardEvidence"
    and "0 \<le> skew"
  shows "validate_policy input (cp_issuer_policy (ic_core_policy ic)) = Inr ()"
  using assms unfolding issuer_valid_def Let_def validate_policy_def by (elim conjE) auto

text \<open>
  C32. A configuration that loads is well formed: at most 64 issuers with distinct policy ids,
  each with supported algorithms and profiles whose acquisition and binding fit together; limits
  and deadline within the protocol's bounds; at most 256 account rules, for well-formed user
  names, that name configured issuers and whose claims those issuers admit. No policy of it is
  refused by the issuer verifier for a profile it lists.
\<close>

theorem loaded_configuration_wf:
  assumes "set_order_law env" "load_and_validate env path owner w = Some (Returned (Inr cfg), w')"
  shows "configuration_wf cfg \<and>
     (\<forall>ic\<in>set (cfg_trusted_issuers cfg). \<forall>input.
        let policy = cp_issuer_policy (ic_core_policy ic) in
        vi_evidence_profile input \<in> po_evidence_profiles policy \<and> vi_binding_profile input \<in> po_binding_profiles policy \<and>
        (po_require_non_reconstructible_evidence policy \<longrightarrow> vi_evidence_profile input \<noteq> kStandardEvidence) \<longrightarrow>
        validate_policy input policy = Inr ())"
proof -
  have wf: "configuration_wf cfg" by (rule load_and_validate_sound [OF assms])
  then show ?thesis
    using configured_policy_admits unfolding configuration_wf_def list_all_iff Let_def by blast
qed

theorem loaded_configuration_wf_witness: "configuration_wf demo_configuration"
  using loaded_configuration_wf [OF demo_order_law demo_configuration_loaded] by blast

end
