(* ===== verification/Cb_Initialize.thy ===== *)
theory Cb_Initialize
  imports Cb_Config "HOL-Library.Monad_Syntax"
begin

text \<open>
  The initializer of \<^verbatim>\<open>src/config.cpp\<close>: \<^verbatim>\<open>initialize\<close> with its canonical
  writer, and the checks of the \<^verbatim>\<open>sshd-config render\<close> command, \<^verbatim>\<open>validate_render_path\<close> and
  \<^verbatim>\<open>valid_command_user\<close>. An \<^verbatim>\<open>ordered_json\<close> object keeps its members in the order of
  their insertion. The outer \<open>None\<close> of an ordered value is an exception of \<^verbatim>\<open>at\<close>.
\<close>

section \<open>Numbers and durations\<close>

fun canonical_digits :: "u64 \<Rightarrow> string \<Rightarrow> u64 \<Rightarrow> u64 expected" where
  "canonical_digits maximum [] result = Inr result"
| "canonical_digits maximum (c # rest) result =
     (if \<not> is_digit c then Inl malformed_input
      else
        let digit = of_nat (of_char c - 48) in
        if result > (maximum - digit) div 10 then Inl resource_limit
        else canonical_digits maximum rest (result * 10 + digit))"

definition canonical_unsigned :: "string \<Rightarrow> u64 \<Rightarrow> u64 expected" where
  "canonical_unsigned s maximum =
     (if s = '''' \<or> (length s > 1 \<and> hd s = CHR ''0'') then Inl malformed_input
      else
        ebind (canonical_digits maximum s 0) (\<lambda>result.
          if result > maximum then Inl resource_limit else Inr result))"

text \<open>The length of the unit at the end of the text, 0 when there is none.\<close>

definition unit_length :: "string \<Rightarrow> nat" where
  "unit_length s =
     (if 2 \<le> length s \<and> drop (length s - 2) s \<in> {''ns'', ''us'', ''ms''} then 2
      else if s \<noteq> '''' \<and> last s \<in> {CHR ''s'', CHR ''m'', CHR ''h''} then 1
      else 0)"

definition canonical_duration :: "string \<Rightarrow> u64 expected" where
  "canonical_duration s =
     (if unit_length s = 0 \<or> length s = unit_length s then Inl malformed_input
      else
        ebind (canonical_unsigned (take (length s - unit_length s) s) (- 1)) (\<lambda>_. duration_nanoseconds s))"

section \<open>The canonical document\<close>

text \<open>\<^verbatim>\<open>object.at(name)\<close>, which throws for a missing member, and \<^verbatim>\<open>object[name] = v\<close>.\<close>

definition member_at :: "json \<Rightarrow> string \<Rightarrow> json option" where
  "member_at object name = json_find object name"

definition ordered_assign :: "string \<Rightarrow> json \<Rightarrow> (string \<times> json) list \<Rightarrow> (string \<times> json) list" where
  "ordered_assign name v members =
     (if name \<in> fst ` set members then map (\<lambda>(n, old). (n, if n = name then v else old)) members
      else members @ [(name, v)])"

text \<open>\<^verbatim>\<open>output[name] = value.at(name)\<close>, and the same where the member is optional.\<close>

definition copy_member :: "json \<Rightarrow> string \<Rightarrow> (string \<times> json) list \<Rightarrow> (string \<times> json) list option" where
  "copy_member object name members = map_option (\<lambda>v. ordered_assign name v members) (member_at object name)"

definition copy_optional :: "json \<Rightarrow> string \<Rightarrow> (string \<times> json) list \<Rightarrow> (string \<times> json) list" where
  "copy_optional object name members =
     (case json_find object name of None \<Rightarrow> members | Some v \<Rightarrow> ordered_assign name v members)"

text \<open>The elements a range loop visits.\<close>

fun json_elements :: "json \<Rightarrow> json list" where
  "json_elements (JArray items) = items"
| "json_elements (JObject members) = map snd members"
| "json_elements JNull = []"
| "json_elements v = [v]"

fun option_list :: "('a \<Rightarrow> 'b option) \<Rightarrow> 'a list \<Rightarrow> 'b list option" where
  "option_list f [] = Some []"
| "option_list f (x # xs) = do { y \<leftarrow> f x; ys \<leftarrow> option_list f xs; Some (y # ys) }"

definition ordered_predicate :: "json \<Rightarrow> json option" where
  "ordered_predicate v =
     do {
       members \<leftarrow> copy_member v ''claim'' [];
       members \<leftarrow> copy_member v ''type'' members;
       members \<leftarrow> copy_member v ''op'' members;
       Some (JObject (copy_optional v ''values'' (copy_optional v ''value'' members)))
     }"

definition ordered_predicates :: "json \<Rightarrow> json option" where
  "ordered_predicates v = map_option JArray (option_list ordered_predicate (json_elements v))"

definition ordered_source :: "json \<Rightarrow> json option" where
  "ordered_source v =
     do {
       source \<leftarrow> member_at v ''key_source'';
       members \<leftarrow> copy_member source ''type'' [];
       Some (JObject (copy_optional source ''path'' members))
     }"

definition ordered_optional ::
  "(json \<Rightarrow> json option) \<Rightarrow> json \<Rightarrow> string \<Rightarrow> (string \<times> json) list \<Rightarrow> (string \<times> json) list option" where
  "ordered_optional f object name members =
     (case json_find object name of
        None \<Rightarrow> Some members
      | Some v \<Rightarrow> map_option (\<lambda>ordered. ordered_assign name ordered members) (f v))"

definition ordered_issuer :: "json \<Rightarrow> json option" where
  "ordered_issuer v =
     do {
       members \<leftarrow> copy_member v ''policy_id'' [];
       members \<leftarrow> copy_member v ''issuer'' members;
       source \<leftarrow> ordered_source v;
       members \<leftarrow> copy_member v ''audiences'' (ordered_assign ''key_source'' source members);
       members \<leftarrow> copy_member v ''issuer_algorithms'' (copy_optional v ''authorized_parties'' members);
       members \<leftarrow> copy_member v ''caller_algorithms'' members;
       members \<leftarrow> copy_member v ''evidence_profiles'' members;
       members \<leftarrow> copy_member v ''binding_profiles'' members;
       members \<leftarrow> copy_member v ''acquisition_profiles'' members;
       members \<leftarrow> copy_member v ''require_non_reconstructible_evidence'' members;
       members \<leftarrow> copy_member v ''certificate_principal_claim''
         (copy_optional v ''maximum_identity_lifetime'' (copy_optional v ''maximum_credential_age'' members));
       members \<leftarrow> ordered_optional ordered_predicates v ''required_claims''
         (copy_optional v ''audit_identity_claim'' members);
       members \<leftarrow> ordered_optional ordered_predicate v ''environment_discriminator'' members;
       Some (JObject members)
     }"

definition ordered_trusted_issuers :: "json \<Rightarrow> json option" where
  "ordered_trusted_issuers values' = map_option JArray (option_list ordered_issuer (json_elements values'))"

definition ordered_rule :: "json \<Rightarrow> json option" where
  "ordered_rule v =
     do {
       members \<leftarrow> copy_member v ''issuer'' [];
       all \<leftarrow> member_at v ''all'';
       all \<leftarrow> ordered_predicates all;
       members \<leftarrow> copy_member v ''allowed_certificate_extensions'' (ordered_assign ''all'' all members);
       Some (JObject members)
     }"

fun ordered_account_members :: "(string \<times> json) list \<Rightarrow> (string \<times> json) list \<Rightarrow> (string \<times> json) list option" where
  "ordered_account_members [] members = Some members"
| "ordered_account_members ((account, v) # rest) members =
     do {
       allow \<leftarrow> member_at v ''allow'';
       rules \<leftarrow> option_list ordered_rule (json_elements allow);
       ordered_account_members rest (ordered_assign account (JObject [(''allow'', JArray rules)]) members)
     }"

definition ordered_accounts :: "json \<Rightarrow> json option" where
  "ordered_accounts v =
     map_option JObject (ordered_account_members (case v of JObject members \<Rightarrow> members | _ \<Rightarrow> []) [])"

record InitializationOptions =
  opt_deny_all :: bool
  opt_policy_input_path :: string
  opt_clock_skew :: string
  opt_total_verification_deadline :: string
  opt_max_token_bytes :: string
  opt_max_evidence_bytes :: string
  opt_max_ssh_certificate_bytes :: string
  opt_max_offered_key_chars :: string
  opt_max_authorized_keys_output_chars :: string
  opt_issuer_key_cache_directory :: string
  opt_issuer_key_cache_maximum_freshness :: string
  opt_logging_facility :: string

definition default_initialization_options :: InitializationOptions where
  "default_initialization_options =
     \<lparr>opt_deny_all = False, opt_policy_input_path = '''', opt_clock_skew = ''30s'',
      opt_total_verification_deadline = ''5s'', opt_max_token_bytes = ''32768'', opt_max_evidence_bytes = ''16384'',
      opt_max_ssh_certificate_bytes = ''49152'', opt_max_offered_key_chars = ''65536'',
      opt_max_authorized_keys_output_chars = ''4096'',
      opt_issuer_key_cache_directory = ''/var/cache/credbind/ssh-verifier/v1'',
      opt_issuer_key_cache_maximum_freshness = ''336h'', opt_logging_facility = ''authpriv''\<rparr>"

text \<open>The five limits once they are numbers.\<close>

record initialization_limits =
  il_max_token :: u64
  il_max_evidence :: u64
  il_max_certificate :: u64
  il_max_offered :: u64
  il_max_output :: u64

text \<open>
  Both documents have these members, in this order; they differ in the order of the members inside
  \<open>trusted\<close> and \<open>accounts\<close>.
\<close>

definition configuration_document ::
  "InitializationOptions \<Rightarrow> initialization_limits \<Rightarrow> json \<Rightarrow> json \<Rightarrow> json" where
  "configuration_document options limits trusted accounts =
     JObject
       [(''version'', JUnsigned 1),
        (''clock_skew'', JString (opt_clock_skew options)),
        (''total_verification_deadline'', JString (opt_total_verification_deadline options)),
        (''resource_limits'', JObject
           [(''max_token_bytes'', JUnsigned (il_max_token limits)),
            (''max_evidence_bytes'', JUnsigned (il_max_evidence limits)),
            (''max_ssh_certificate_bytes'', JUnsigned (il_max_certificate limits)),
            (''max_offered_key_chars'', JUnsigned (il_max_offered limits)),
            (''max_authorized_keys_output_chars'', JUnsigned (il_max_output limits))]),
        (''issuer_key_cache'', JObject
           [(''directory'', JString (opt_issuer_key_cache_directory options)),
            (''maximum_freshness'', JString (opt_issuer_key_cache_maximum_freshness options))]),
        (''trusted_issuers'', trusted),
        (''accounts'', accounts),
        (''logging'', JObject [(''facility'', JString (opt_logging_facility options))])]"

definition initialization_json ::
  "InitializationOptions \<Rightarrow> json \<Rightarrow> json \<Rightarrow> initialization_limits \<Rightarrow> json option" where
  "initialization_json options trusted accounts limits =
     do {
       trusted \<leftarrow> ordered_trusted_issuers trusted;
       accounts \<leftarrow> ordered_accounts accounts;
       Some (configuration_document options limits trusted accounts)
     }"

section \<open>The initializer\<close>

definition initialization_durations :: "InitializationOptions \<Rightarrow> unit expected" where
  "initialization_durations options =
     ebind (canonical_duration (opt_clock_skew options)) (\<lambda>skew.
     ebind (canonical_duration (opt_total_verification_deadline options)) (\<lambda>deadline.
     ebind (canonical_duration (opt_issuer_key_cache_maximum_freshness options)) (\<lambda>freshness.
       if skew mod kNanosecondsPerSecond \<noteq> 0 \<or> skew > 30 * kNanosecondsPerSecond \<or> deadline = 0 \<or>
          deadline > 10 * kNanosecondsPerSecond \<or>
          (freshness \<noteq> 0 \<and> (freshness < 60 * kNanosecondsPerSecond \<or> freshness > 720 * 3600 * kNanosecondsPerSecond))
       then Inl resource_limit else Inr ())))"

definition initialization_numbers :: "InitializationOptions \<Rightarrow> initialization_limits expected" where
  "initialization_numbers options =
     ebind (canonical_unsigned (opt_max_token_bytes options) 32768) (\<lambda>max_token.
     ebind (canonical_unsigned (opt_max_evidence_bytes options) 16384) (\<lambda>max_evidence.
     ebind (canonical_unsigned (opt_max_ssh_certificate_bytes options) 49152) (\<lambda>max_certificate.
     ebind (canonical_unsigned (opt_max_offered_key_chars options) 65536) (\<lambda>max_offered.
     ebind (canonical_unsigned (opt_max_authorized_keys_output_chars options) 4096) (\<lambda>max_output.
       if max_token = 0 \<or> max_evidence = 0 \<or> max_certificate = 0 \<or> max_offered = 0 \<or> max_output = 0
       then Inl resource_limit
       else Inr \<lparr>il_max_token = max_token, il_max_evidence = max_evidence, il_max_certificate = max_certificate,
                il_max_offered = max_offered, il_max_output = max_output\<rparr>)))))"

definition initialization_paths :: "InitializationOptions \<Rightarrow> unit expected" where
  "initialization_paths options =
     (if length (opt_issuer_key_cache_directory options) < 2 \<or>
         hd (opt_issuer_key_cache_directory options) \<noteq> CHR ''/'' \<or>
         CHR 0x00 \<in> set (opt_issuer_key_cache_directory options)
      then Inl malformed_input
      else if \<not> has_value (parse_facility (opt_logging_facility options)) then Inl unsupported_profile
      else Inr ())"

text \<open>The policy file; the empty policy with \<^verbatim>\<open>deny_all\<close>.\<close>

definition initialization_policy :: "json \<Rightarrow> (json \<times> json) expected" where
  "initialization_policy policy =
     (if \<not> exact_members policy [''trusted_issuers'', ''accounts''] [] then Inl malformed_input
      else
        case (json_at policy ''trusted_issuers'', json_at policy ''accounts'') of
          (JArray trusted, JObject accounts) \<Rightarrow>
            if trusted = [] \<or> accounts = [] then Inl malformed_input
            else Inr (JArray trusted, JObject accounts)
        | _ \<Rightarrow> Inl malformed_input)"

definition read_policy ::
  "'w config_env \<Rightarrow> InitializationOptions \<Rightarrow> u32 \<Rightarrow> ('w, (json \<times> json) expected) prog" where
  "read_policy env options owner =
     (if opt_deny_all options then ret (Inr (JArray [], JObject []))
      else
        pbind_value (read_file env (opt_policy_input_path options) owner) (\<lambda>contents.
        on_value (config_parse_json (env_lexer env) contents) (\<lambda>policy.
          ret (initialization_policy policy))))"

definition initialize ::
  "'w config_env \<Rightarrow> InitializationOptions \<Rightarrow> u32 \<Rightarrow> ('w, string expected) prog" where
  "initialize env options owner =
     (if opt_deny_all options = (opt_policy_input_path options \<noteq> '''') then ret (Inl malformed_input)
      else
        on_value (initialization_durations options) (\<lambda>_.
        on_value (initialization_numbers options) (\<lambda>limits.
        on_value (initialization_paths options) (\<lambda>_.
        pbind_value (read_policy env options owner) (\<lambda>(trusted, accounts).
        pbind (throwing (env_dump env (configuration_document options limits trusted accounts) (- 1))) (\<lambda>preliminary.
        pbind_value (parse_and_validate env preliminary owner) (\<lambda>_.
          ret (case Option.bind (initialization_json options trusted accounts limits) (\<lambda>canonical. env_dump env canonical 2) of
                 None \<Rightarrow> Inl internal_error
               | Some contents \<Rightarrow> Inr (contents @ [CHR 0x0a])))))))))"

section \<open>Rendering\<close>

definition S_ISLNK :: "u32 \<Rightarrow> bool" where
  "S_ISLNK mode \<longleftrightarrow> mode AND 0xF000 = 0xA000"

definition render_character :: "char \<Rightarrow> bool" where
  "render_character c \<longleftrightarrow> is_letter c \<or> is_digit c \<or> c = CHR ''/'' \<or> c = CHR ''.'' \<or> c = CHR ''_'' \<or> c = CHR ''-''"

text \<open>\<open>lstat\<close> gives the mode of the file, \<open>None\<close> when the call fails.\<close>

definition validate_render_path ::
  "(string \<Rightarrow> 'w \<Rightarrow> u32 option \<times> 'w) \<Rightarrow> string \<Rightarrow> bool \<Rightarrow> ('w, unit expected) prog" where
  "validate_render_path lstat path require_regular_file =
     (if path = '''' \<or> hd path \<noteq> CHR ''/'' then ret (Inl malformed_input)
      else if \<not> list_all render_character path then ret (Inl malformed_input)
      else if require_regular_file then
        pbind (call (lstat path)) (\<lambda>status.
          ret (case status of
                 None \<Rightarrow> Inl state_invalid
               | Some mode \<Rightarrow> if S_ISLNK mode \<or> \<not> S_ISREG mode then Inl state_invalid else Inr ()))
      else ret (Inr ()))"

definition valid_command_user :: "string \<Rightarrow> bool" where
  "valid_command_user user =
     (if user = '''' \<or> length user > 256 then False
      else
        (is_letter (hd user) \<or> hd user = CHR ''_'') \<and>
        list_all (\<lambda>c. is_letter c \<or> c = CHR ''_'' \<or> is_digit c \<or> c = CHR ''.'' \<or> c = CHR ''-'') (tl user))"

section \<open>Canonical numbers\<close>

lemma canonical_exceeds:
  fixes n d maximum :: u64
  assumes "unat d \<le> unat maximum"
  shows "n > (maximum - d) div 10 \<longleftrightarrow> unat maximum < unat n * 10 + unat d"
proof -
  have "unat (maximum - d) = unat maximum - unat d"
    using assms by (simp add: unat_sub word_le_nat_alt)
  then have "n > (maximum - d) div 10 \<longleftrightarrow> (unat maximum - unat d) div 10 < unat n"
    by (simp add: word_less_nat_alt unat_div)
  also have "\<dots> \<longleftrightarrow> unat maximum - unat d < unat n * 10"
    by (simp add: div_less_iff_less_mult)
  finally show ?thesis using assms by linarith
qed

lemma canonical_digits_iff:
  assumes "9 \<le> unat maximum" "unat n \<le> unat maximum"
  shows "canonical_digits maximum s n = Inr v \<longleftrightarrow>
     list_all is_digit s \<and> unat v = decimal_from (unat n) s \<and> unat v \<le> unat maximum"
  using assms(2)
proof (induction s arbitrary: n)
  case Nil
  then show ?case by (auto simp: word_unat_eq_iff)
next
  case (Cons c s)
  let ?d = "of_nat (of_char c - 48) :: u64"
  show ?case
  proof (cases "is_digit c")
    case True
    note d = digit_word [OF True]
    have exceeds: "n > (maximum - ?d) div 10 \<longleftrightarrow> unat maximum < unat n * 10 + digit_value c"
      using canonical_exceeds [of ?d maximum n] d assms(1) by simp
    show ?thesis
    proof (cases "unat maximum < unat n * 10 + digit_value c")
      case over: True
      then have "unat maximum < decimal_from (unat n) (c # s)"
        using decimal_from_ge [of "unat n * 10 + digit_value c" s] by simp
      then show ?thesis using True over exceeds by (auto simp: Let_def)
    next
      case False
      then have "unat n * 10 + digit_value c < 2 ^ 64"
        using unsigned_less [where 'a = nat, of maximum] by simp
      then have "unat (n * 10 + ?d) = unat n * 10 + digit_value c"
        using unat_sums(2) [of n 10] unat_sums(1) [of "n * 10" ?d] d by simp
      then show ?thesis using False True exceeds Cons.IH [of "n * 10 + ?d"] by (simp add: Let_def)
    qed
  qed simp
qed

lemma decimal_from_snoc: "decimal_from n (s @ [c]) = decimal_from n s * 10 + digit_value c"
  by (simp add: decimal_from_def)

lemma digit_char: "is_digit c \<Longrightarrow> char_of (48 + digit_value c) = c"
  by (auto simp: is_digit_def digit_value_def less_eq_char_def)

lemma char_digit:
  assumes "n < 10"
  shows "is_digit (char_of (48 + n)) \<and> digit_value (char_of (48 + n)) = n \<and> (n \<noteq> 0 \<longrightarrow> char_of (48 + n) \<noteq> CHR ''0'')"
proof -
  have "\<forall>n<10. is_digit (char_of (48 + n :: nat)) \<and> digit_value (char_of (48 + n)) = n \<and>
      (n \<noteq> 0 \<longrightarrow> char_of (48 + n) \<noteq> CHR ''0'')" by code_simp
  with assms show ?thesis by blast
qed

definition canonical_text :: "string \<Rightarrow> bool" where
  "canonical_text s \<longleftrightarrow> s \<noteq> '''' \<and> list_all is_digit s \<and> (1 < length s \<longrightarrow> hd s \<noteq> CHR ''0'')"

lemma to_decimal_canonical:
  "canonical_text (to_decimal n) \<and> decimal_from 0 (to_decimal n) = n \<and> (0 < n \<longrightarrow> hd (to_decimal n) \<noteq> CHR ''0'')"
proof (induction n rule: to_decimal.induct)
  case (1 n)
  show ?case
  proof (cases "n < 10")
    case True
    then show ?thesis using char_digit [of n] by (subst (1 2 3) to_decimal.simps) (simp add: canonical_text_def)
  next
    case False
    then show ?thesis
      using 1 [OF False] char_digit [of "n mod 10"]
      by (subst (1 2 3) to_decimal.simps) (auto simp: canonical_text_def decimal_from_snoc hd_append)
  qed
qed

lemma decimal_positive: "s \<noteq> [] \<Longrightarrow> list_all is_digit s \<Longrightarrow> hd s \<noteq> CHR ''0'' \<Longrightarrow> 0 < decimal_from 0 s"
proof (cases s)
  case (Cons c t)
  assume a: "list_all is_digit s" "hd s \<noteq> CHR ''0''"
  have "char_of (48 :: nat) = CHR ''0''" by code_simp
  then have "digit_value c \<noteq> 0"
    using digit_char [of c] a Cons by (metis add.right_neutral list.pred_inject(2) list.sel(1))
  then show ?thesis using decimal_from_ge [of "digit_value c" t] Cons by simp
qed simp

lemma canonical_text_unique: "canonical_text s \<Longrightarrow> s = to_decimal (decimal_from 0 s)"
proof (induction s rule: rev_induct)
  case (snoc c t)
  then have c: "is_digit c" by (simp add: canonical_text_def)
  note d = digit_char [OF c] digit_word(2) [OF c]
  show ?case
  proof (cases "t = []")
    case True
    then show ?thesis using d by (subst to_decimal.simps) simp
  next
    case False
    then have t: "canonical_text t" "hd t \<noteq> CHR ''0''"
      using snoc.prems by (auto simp: canonical_text_def hd_append)
    then have "0 < decimal_from 0 t" using decimal_positive by (simp add: canonical_text_def)
    then have "10 \<le> decimal_from 0 t * 10 + digit_value c" by simp
    then show ?thesis
      using snoc.IH [OF t(1)] d by (subst to_decimal.simps) (simp add: decimal_from_snoc)
  qed
qed (simp add: canonical_text_def)

lemma canonical_unsigned_eq:
  assumes "9 \<le> unat maximum"
  shows "canonical_unsigned s maximum = Inr v \<longleftrightarrow> s = to_decimal (unat v) \<and> v \<le> maximum"
proof -
  have "canonical_unsigned s maximum = Inr v \<longleftrightarrow>
      canonical_text s \<and> unat v = decimal_from 0 s \<and> unat v \<le> unat maximum"
  proof -
    have "canonical_unsigned s maximum = Inr v \<longleftrightarrow> s \<noteq> '''' \<and> (1 < length s \<longrightarrow> hd s \<noteq> CHR ''0'') \<and>
        canonical_digits maximum s 0 = Inr v \<and> \<not> maximum < v"
      unfolding canonical_unsigned_def by (cases "canonical_digits maximum s 0") auto
    then show ?thesis
      using canonical_digits_iff [OF assms, of 0 s v] by (auto simp: canonical_text_def word_less_nat_alt)
  qed
  then show ?thesis
    using to_decimal_canonical [of "unat v"] canonical_text_unique [of s] by (auto simp: word_le_nat_alt)
qed

section \<open>Initialization returns\<close>

lemma runs_initialize:
  assumes "interrupts_finite (env_posix env) rank"
  shows "runs (\<lambda>_. True) (initialize env options owner) (\<lambda>_ _. True) (\<lambda>_. True)"
proof -
  have policy: "runs (\<lambda>_. True) (read_policy env options owner) (\<lambda>_ _. True) (\<lambda>_. True)"
    unfolding read_policy_def
    by (intro runs_if runs_ret runs_pbind_value [where R = "\<lambda>_. True", OF runs_read_file [OF assms]] runs_on_value) simp_all
  show ?thesis
    unfolding initialize_def
    by (intro runs_if runs_ret runs_on_value runs_pbind_value [where R = "\<lambda>_. True", OF policy])
      (auto intro!: runs_pbind [where R = "\<lambda>_ _. True"] runs_throwing
        runs_pbind_value [where R = "\<lambda>_. True", OF runs_parse_and_validate [OF assms]] runs_ret)
qed

lemma validate_render_path_sound:
  "validate_render_path lstat path regular w = Some (Returned (Inr ()), w') \<Longrightarrow>
     path \<noteq> '''' \<and> hd path = CHR ''/'' \<and> list_all render_character path"
  by (auto simp: validate_render_path_def prog_iffs split: if_splits)

lemma runs_validate_render_path: "runs (\<lambda>_. True) (validate_render_path lstat path regular) (\<lambda>_ _. True) E"
  unfolding validate_render_path_def
  by (intro runs_if runs_ret runs_pbind [where R = "\<lambda>_ _. True"] runs_call) simp_all

end
