(* ===== verification/Cb_Publish.thy ===== *)
theory Cb_Publish
  imports Cb_Posix Cb_Effects Cb_Audit "HOL-Library.AList"
begin

text \<open>
  The atomic publication of a file: \<^verbatim>\<open>publish\<close> of \<^verbatim>\<open>src/config.cpp\<close>. The system
  calls it makes are a parameter, \<open>file_calls\<close>; \<open>fs_laws\<close> states what POSIX documents of them on a
  tree of directories and on the descriptors that are open.
\<close>

section \<open>System calls\<close>

datatype stat_result = Stat_found file_stat | Stat_missing | Stat_failed
datatype open_result = Open_descriptor int | Open_exists | Open_failed
datatype write_result = Write_interrupted | Write_failed | Written nat

record 'w file_calls =
  sys_open_directory :: "string \<Rightarrow> open_flag list \<Rightarrow> 'w \<Rightarrow> int \<times> 'w"
  sys_close_file :: "int \<Rightarrow> 'w \<Rightarrow> bool \<times> 'w"
  sys_fstatat :: "int \<Rightarrow> string \<Rightarrow> 'w \<Rightarrow> stat_result \<times> 'w"
  sys_openat :: "int \<Rightarrow> string \<Rightarrow> open_flag list \<Rightarrow> u32 \<Rightarrow> 'w \<Rightarrow> open_result \<times> 'w"
  sys_write :: "int \<Rightarrow> string \<Rightarrow> 'w \<Rightarrow> write_result \<times> 'w"
  sys_fsync :: "int \<Rightarrow> 'w \<Rightarrow> bool \<times> 'w"
  sys_renameat :: "int \<Rightarrow> string \<Rightarrow> string \<Rightarrow> 'w \<Rightarrow> bool \<times> 'w"
  sys_linkat :: "int \<Rightarrow> string \<Rightarrow> string \<Rightarrow> 'w \<Rightarrow> bool \<times> 'w"
  sys_unlinkat :: "int \<Rightarrow> string \<Rightarrow> 'w \<Rightarrow> bool \<times> 'w"
  sys_getpid :: "'w \<Rightarrow> nat \<times> 'w"

section \<open>Names\<close>

text \<open>\<^verbatim>\<open>rfind('/')\<close> of an absolute path, the directory before it and the name after it.\<close>

definition last_slash :: "string \<Rightarrow> nat" where
  "last_slash path = length path - 1 - length (takeWhile (\<lambda>c. c \<noteq> CHR ''/'') (rev path))"

definition publish_directory :: "string \<Rightarrow> string" where
  "publish_directory path = (if last_slash path = 0 then ''/'' else take (last_slash path) path)"

definition publish_name :: "string \<Rightarrow> string" where
  "publish_name path = drop (last_slash path + 1) path"

definition kTemporaryPrefix :: string where "kTemporaryPrefix = ''.credbind-config-init.''"

definition temporary_name :: "nat \<Rightarrow> u64 \<Rightarrow> string" where
  "temporary_name pid sequence = kTemporaryPrefix @ to_decimal pid @ ''.'' @ to_decimal (unat sequence)"

section \<open>The temporary file\<close>

text \<open>The permissions of the new file: its owner may read and write it.\<close>

definition S_IRUSR :: u32 where "S_IRUSR = 0x100"
definition S_IWUSR :: u32 where "S_IWUSR = 0x80"

text \<open>At most 64 attempts; the counter is the static \<^verbatim>\<open>sequence\<close> of the function.\<close>

fun open_temporary ::
  "'w file_calls \<Rightarrow> int \<Rightarrow> nat \<Rightarrow> u64 \<Rightarrow> ('w, (int \<times> string) option) prog" where
  "open_temporary fs directory 0 sequence = ret None"
| "open_temporary fs directory (Suc attempts) sequence =
     pbind (call (sys_getpid fs)) (\<lambda>pid.
     let temporary = temporary_name pid sequence in
     pbind (call (sys_openat fs directory temporary [O_WRONLY, O_CREAT, O_EXCL, O_CLOEXEC, O_NOFOLLOW]
       (S_IRUSR OR S_IWUSR))) (\<lambda>opened.
     case opened of
       Open_descriptor descriptor \<Rightarrow> ret (Some (descriptor, temporary))
     | Open_exists \<Rightarrow> open_temporary fs directory attempts (sequence + 1)
     | Open_failed \<Rightarrow> ret None))"

partial_function (option) write_loop :: "'w file_calls \<Rightarrow> int \<Rightarrow> string \<Rightarrow> 'w \<Rightarrow> (bool \<times> 'w) option" where
  "write_loop fs fd rest w =
     (if rest \<noteq> [] then
        case sys_write fs fd rest w of (result, w) \<Rightarrow>
          (case result of
             Write_interrupted \<Rightarrow> write_loop fs fd rest w
           | Write_failed \<Rightarrow> Some (False, w)
           | Written n \<Rightarrow> if n = 0 then Some (False, w) else write_loop fs fd (drop n rest) w)
      else Some (True, w))"

section \<open>Publication\<close>

text \<open>The clean-up with the descriptor open, and without.\<close>

definition discard :: "'w file_calls \<Rightarrow> int \<Rightarrow> int option \<Rightarrow> string \<Rightarrow> ('w, unit expected) prog" where
  "discard fs directory descriptor temporary =
     pbind (case descriptor of None \<Rightarrow> ret True | Some fd \<Rightarrow> call (sys_close_file fs fd)) (\<lambda>_.
     pbind (call (sys_unlinkat fs directory temporary)) (\<lambda>_.
     pbind (call (sys_close_file fs directory)) (\<lambda>_.
       ret (Inl state_invalid))))"

definition synchronize :: "'w file_calls \<Rightarrow> int \<Rightarrow> ('w, bool) prog" where
  "synchronize fs descriptor =
     pbind (call (sys_fsync fs descriptor)) (\<lambda>synced.
     if \<not> synced then ret False else call (sys_close_file fs descriptor))"

text \<open>Moving the complete temporary file to its name.\<close>

definition replace_target :: "'w file_calls \<Rightarrow> int \<Rightarrow> string \<Rightarrow> string \<Rightarrow> bool \<Rightarrow> ('w, bool) prog" where
  "replace_target fs directory temporary name force =
     (if force then call (sys_renameat fs directory temporary name)
      else
        pbind (call (sys_linkat fs directory temporary name)) (\<lambda>linked.
        if \<not> linked then ret False else call (sys_unlinkat fs directory temporary)))"

definition publish_temporary ::
  "'w file_calls \<Rightarrow> int \<Rightarrow> string \<Rightarrow> string \<Rightarrow> bool \<Rightarrow> int \<Rightarrow> string \<Rightarrow> ('w, unit expected) prog" where
  "publish_temporary fs directory name contents force descriptor temporary =
     pbind (call_partial (write_loop fs descriptor contents)) (\<lambda>complete.
     if \<not> complete then discard fs directory (Some descriptor) temporary
     else
       pbind (synchronize fs descriptor) (\<lambda>synced.
       if \<not> synced then discard fs directory None temporary
       else
         pbind (replace_target fs directory temporary name force) (\<lambda>replaced.
         if \<not> replaced then discard fs directory None temporary
         else
           pbind (call (sys_fsync fs directory)) (\<lambda>synced.
           pbind (call (sys_close_file fs directory)) (\<lambda>_.
             ret (if \<not> synced then Inl state_invalid else Inr ()))))))"

text \<open>Whether the target may be written.\<close>

definition target_refused :: "stat_result \<Rightarrow> bool \<Rightarrow> bool" where
  "target_refused existing force =
     (case existing of
        Stat_found status \<Rightarrow> \<not> force \<or> \<not> S_ISREG (st_mode status)
      | Stat_missing \<Rightarrow> False
      | Stat_failed \<Rightarrow> True)"

definition publish :: "'w file_calls \<Rightarrow> u64 \<Rightarrow> string \<Rightarrow> string \<Rightarrow> bool \<Rightarrow> ('w, unit expected) prog" where
  "publish fs sequence path contents force =
     (if path = '''' \<or> hd path \<noteq> CHR ''/'' \<or> CHR 0x00 \<in> set path then ret (Inl state_invalid)
      else
        let name = publish_name path in
        if name = '''' \<or> name = ''.'' \<or> name = ''..'' then ret (Inl state_invalid)
        else
          pbind (call (sys_open_directory fs (publish_directory path) [O_RDONLY, O_CLOEXEC, O_DIRECTORY])) (\<lambda>directory.
          if directory < 0 then ret (Inl state_invalid)
          else
            pbind (call (sys_fstatat fs directory name)) (\<lambda>existing.
            if target_refused existing force
            then pbind (call (sys_close_file fs directory)) (\<lambda>_. ret (Inl state_invalid))
            else
              pbind (open_temporary fs directory 64 sequence) (\<lambda>opened.
              case opened of
                None \<Rightarrow> pbind (call (sys_close_file fs directory)) (\<lambda>_. ret (Inl state_invalid))
              | Some (descriptor, temporary) \<Rightarrow>
                  publish_temporary fs directory name contents force descriptor temporary))))"

section \<open>What POSIX documents\<close>

text \<open>
  A view of the world: the directory that a path leads to, the entries of all directories (by the
  directory and the name), the contents of a file with its permission bits, the directory behind a
  descriptor, and the file at whose end a descriptor writes. Directories and files are numbers. The
  process is the only one that changes the tree meanwhile.
\<close>

record 'w fs_view =
  directory_at :: "'w \<Rightarrow> string \<Rightarrow> nat option"
  entry :: "'w \<Rightarrow> nat \<times> string \<Rightarrow> nat option"
  file_at :: "'w \<Rightarrow> nat \<Rightarrow> string \<times> u32"
  opened_directory :: "'w \<Rightarrow> int \<Rightarrow> nat option"
  opened_file :: "'w \<Rightarrow> int \<Rightarrow> nat option"

text \<open>A name of one component, and the files that an entry leads to.\<close>

definition plain_name :: "string \<Rightarrow> bool" where
  "plain_name name \<longleftrightarrow>
     name \<noteq> '''' \<and> name \<noteq> ''.'' \<and> name \<noteq> ''..'' \<and> CHR ''/'' \<notin> set name \<and> CHR 0x00 \<notin> set name"

definition linked_files :: "'w fs_view \<Rightarrow> 'w \<Rightarrow> nat set" where
  "linked_files v w = ran (entry v w)"

text \<open>The tree is as it was; so are the open directories.\<close>

definition unchanged :: "'w fs_view \<Rightarrow> 'w \<Rightarrow> 'w \<Rightarrow> bool" where
  "unchanged v w w' \<longleftrightarrow>
     directory_at v w' = directory_at v w \<and> entry v w' = entry v w \<and>
     (\<forall>i\<in>linked_files v w. file_at v w' i = file_at v w i)"

definition quiet :: "'w fs_view \<Rightarrow> 'w \<Rightarrow> 'w \<Rightarrow> bool" where
  "quiet v w w' \<longleftrightarrow> unchanged v w w' \<and> opened_directory v w' = opened_directory v w"

definition open_directory_law :: "'w file_calls \<Rightarrow> 'w fs_view \<Rightarrow> bool" where
  "open_directory_law fs v \<longleftrightarrow>
     (\<forall>path flags w fd w'. sys_open_directory fs path flags w = (fd, w') \<longrightarrow>
        O_DIRECTORY \<in> set flags \<longrightarrow> CHR 0x00 \<notin> set path \<longrightarrow>
        unchanged v w w' \<and>
        (0 \<le> fd \<longrightarrow> (\<exists>d. directory_at v w path = Some d \<and> opened_directory v w' fd = Some d)))"

text \<open>
  A file that is created exclusively is a new one, empty, with no other permissions than those asked
  for, behind a descriptor that was not in use.
\<close>

definition openat_law :: "'w file_calls \<Rightarrow> 'w fs_view \<Rightarrow> bool" where
  "openat_law fs v \<longleftrightarrow>
     (\<forall>directory d name flags mode w r w'. sys_openat fs directory name flags mode w = (r, w') \<longrightarrow>
        opened_directory v w directory = Some d \<longrightarrow> plain_name name \<longrightarrow> O_CREAT \<in> set flags \<longrightarrow> O_EXCL \<in> set flags \<longrightarrow>
        (case r of
           Open_descriptor fd \<Rightarrow> \<exists>i permissions.
             entry v w (d, name) = None \<and> i \<notin> linked_files v w \<and>
             entry v w' = (entry v w)((d, name) \<mapsto> i) \<and>
             file_at v w' i = ('''', permissions) \<and> permissions AND NOT mode = 0 \<and>
             (\<forall>j\<in>linked_files v w. file_at v w' j = file_at v w j) \<and>
             opened_directory v w fd = None \<and> opened_directory v w' = opened_directory v w \<and>
             opened_file v w' fd = Some i
         | _ \<Rightarrow> quiet v w w'))"

definition write_law :: "'w file_calls \<Rightarrow> 'w fs_view \<Rightarrow> bool" where
  "write_law fs v \<longleftrightarrow>
     (\<forall>fd text w r w' i. sys_write fs fd text w = (r, w') \<longrightarrow> opened_file v w fd = Some i \<longrightarrow>
        entry v w' = entry v w \<and> (\<forall>j\<in>linked_files v w. j \<noteq> i \<longrightarrow> file_at v w' j = file_at v w j) \<and>
        opened_directory v w' = opened_directory v w \<and> opened_file v w' fd = Some i \<and>
        snd (file_at v w' i) = snd (file_at v w i) \<and>
        (case r of
           Written n \<Rightarrow> fst (file_at v w' i) = fst (file_at v w i) @ take n text
         | Write_interrupted \<Rightarrow> fst (file_at v w' i) = fst (file_at v w i)
         | Write_failed \<Rightarrow> True))"

text \<open>
  The calls that move entries: no file changes, and a call that fails changes nothing. Renaming a
  name to another name of the same file is a success without effect.
\<close>

definition moved :: "'w fs_view \<Rightarrow> 'w \<Rightarrow> 'w \<Rightarrow> (nat \<times> string \<Rightarrow> nat option) \<Rightarrow> bool" where
  "moved v w w' entries \<longleftrightarrow>
     entry v w' = entries \<and> (\<forall>i\<in>linked_files v w'. file_at v w' i = file_at v w i) \<and>
     opened_directory v w' = opened_directory v w"

definition rename_law :: "'w file_calls \<Rightarrow> 'w fs_view \<Rightarrow> bool" where
  "rename_law fs v \<longleftrightarrow>
     (\<forall>directory d old new w ok w'. sys_renameat fs directory old new w = (ok, w') \<longrightarrow>
        opened_directory v w directory = Some d \<longrightarrow> plain_name old \<longrightarrow> plain_name new \<longrightarrow>
        moved v w w'
          (if ok \<and> entry v w (d, old) \<noteq> entry v w (d, new)
           then (entry v w)((d, new) := entry v w (d, old), (d, old) := None) else entry v w))"

definition link_law :: "'w file_calls \<Rightarrow> 'w fs_view \<Rightarrow> bool" where
  "link_law fs v \<longleftrightarrow>
     (\<forall>directory d old new w ok w'. sys_linkat fs directory old new w = (ok, w') \<longrightarrow>
        opened_directory v w directory = Some d \<longrightarrow> plain_name old \<longrightarrow> plain_name new \<longrightarrow>
        (ok \<longrightarrow> entry v w (d, new) = None) \<and>
        moved v w w' (if ok then (entry v w)((d, new) := entry v w (d, old)) else entry v w))"

definition unlink_law :: "'w file_calls \<Rightarrow> 'w fs_view \<Rightarrow> bool" where
  "unlink_law fs v \<longleftrightarrow>
     (\<forall>directory d name w ok w'. sys_unlinkat fs directory name w = (ok, w') \<longrightarrow>
        opened_directory v w directory = Some d \<longrightarrow> plain_name name \<longrightarrow>
        moved v w w' (if ok then (entry v w)((d, name) := None) else entry v w))"

definition quiet_laws :: "'w file_calls \<Rightarrow> 'w fs_view \<Rightarrow> bool" where
  "quiet_laws fs v \<longleftrightarrow>
     (\<forall>fd w r w'. sys_close_file fs fd w = (r, w') \<longrightarrow> unchanged v w w' \<and>
        (\<forall>other. other \<noteq> fd \<longrightarrow> opened_directory v w' other = opened_directory v w other)) \<and>
     (\<forall>fd name w r w'. sys_fstatat fs fd name w = (r, w') \<longrightarrow> quiet v w w') \<and>
     (\<forall>fd w r w'. sys_fsync fs fd w = (r, w') \<longrightarrow> quiet v w w') \<and>
     (\<forall>w r w'. sys_getpid fs w = (r, w') \<longrightarrow> quiet v w w')"

definition fs_laws :: "'w file_calls \<Rightarrow> 'w fs_view \<Rightarrow> bool" where
  "fs_laws fs v \<longleftrightarrow>
     open_directory_law fs v \<and> openat_law fs v \<and> write_law fs v \<and> rename_law fs v \<and> link_law fs v \<and>
     unlink_law fs v \<and> quiet_laws fs v"

definition writes_finite :: "'w file_calls \<Rightarrow> ('w \<Rightarrow> nat) \<Rightarrow> bool" where
  "writes_finite fs rank \<longleftrightarrow>
     (\<forall>fd text w w'. sys_write fs fd text w = (Write_interrupted, w') \<longrightarrow> rank w' < rank w)"

text \<open>
  What a name shows: nothing, or the contents and the permissions of a file. What a published name
  shows: the data, in a file that is closed to the group and to others.
\<close>

definition shown :: "'w fs_view \<Rightarrow> 'w \<Rightarrow> nat \<times> string \<Rightarrow> (string \<times> u32) option" where
  "shown v w k = map_option (file_at v w) (entry v w k)"

definition owner_only :: "u32 \<Rightarrow> bool" where
  "owner_only permissions \<longleftrightarrow> permissions AND 0x3F = 0"

definition holds :: "'w fs_view \<Rightarrow> 'w \<Rightarrow> nat \<times> string \<Rightarrow> string \<Rightarrow> bool" where
  "holds v w k data \<longleftrightarrow> (\<exists>permissions. shown v w k = Some (data, permissions) \<and> owner_only permissions)"

section \<open>Names of the publication\<close>

text \<open>The directory of a path whose last component follows \<open>parent\<close> and a slash.\<close>

definition directory_path :: "string \<Rightarrow> string" where
  "directory_path parent = (if parent = '''' then ''/'' else parent)"

lemma last_slash_append: "CHR ''/'' \<notin> set name \<Longrightarrow> last_slash (parent @ CHR ''/'' # name) = length parent"
proof -
  assume "CHR ''/'' \<notin> set name"
  then have "takeWhile (\<lambda>c. c \<noteq> CHR ''/'') (rev (parent @ CHR ''/'' # name)) = rev name"
    by (subst rev_append, simp, subst takeWhile_append2) auto
  then show ?thesis by (simp add: last_slash_def)
qed

lemma path_parts:
  assumes "CHR ''/'' \<notin> set name"
  shows "publish_directory (parent @ CHR ''/'' # name) = directory_path parent"
    and "publish_name (parent @ CHR ''/'' # name) = name"
  by (simp_all add: publish_directory_def publish_name_def directory_path_def last_slash_append [OF assms])

definition has_temporary_prefix :: "string \<Rightarrow> bool" where
  "has_temporary_prefix name \<longleftrightarrow> take (length kTemporaryPrefix) name = kTemporaryPrefix"

lemma temporary_name_prefix: "has_temporary_prefix (temporary_name pid sequence)"
  by (simp add: has_temporary_prefix_def temporary_name_def)

lemma to_decimal_digits: "c \<in> set (to_decimal n) \<Longrightarrow> c \<noteq> CHR ''/'' \<and> c \<noteq> CHR 0x00"
proof (induction n rule: to_decimal.induct)
  case (1 n)
  have digit: "char_of (48 + k) \<noteq> CHR ''/'' \<and> char_of (48 + k) \<noteq> (CHR 0x00 :: char)" if "k < 10" for k :: nat
  proof -
    have "of_char (char_of (48 + k) :: char) = 48 + k" using that by simp
    moreover have "of_char (CHR ''/'') = (47::nat)" "of_char (CHR 0x00 :: char) = (0::nat)" by simp_all
    moreover have "48 + k \<noteq> 47" "48 + k \<noteq> 0" by simp_all
    ultimately show ?thesis by metis
  qed
  show ?case
  proof (cases "n < 10")
    case True
    then show ?thesis using 1(2) digit [of n] by (subst (asm) to_decimal.simps) simp
  next
    case False
    then show ?thesis using 1(1) [OF False] 1(2) digit [of "n mod 10"] by (subst (asm) to_decimal.simps) auto
  qed
qed

lemma temporary_name_plain: "plain_name (temporary_name pid sequence)"
  by (auto simp: plain_name_def temporary_name_def kTemporaryPrefix_def dest: to_decimal_digits)

section \<open>The stages\<close>

text \<open>A key, a directory with a name, is not taken apart.\<close>

declare split_paired_All [simp del] split_paired_Ex [simp del]

text \<open>Every key outside \<open>S\<close> has the file, the contents and the permissions it had in \<open>w0\<close>.\<close>

definition kept :: "'w fs_view \<Rightarrow> 'w \<Rightarrow> (nat \<times> string) set \<Rightarrow> 'w \<Rightarrow> bool" where
  "kept v w0 S w \<longleftrightarrow> (\<forall>k. k \<notin> S \<longrightarrow> entry v w k = entry v w0 k \<and> shown v w k = shown v w0 k)"

text \<open>A fresh file under a temporary name holds \<open>data\<close>; nothing else has changed.\<close>

definition staged :: "'w fs_view \<Rightarrow> 'w \<Rightarrow> nat \<times> string \<Rightarrow> nat \<Rightarrow> string \<Rightarrow> 'w \<Rightarrow> bool" where
  "staged v w0 t i data w \<longleftrightarrow>
     kept v w0 {t} w \<and> entry v w0 t = None \<and> i \<notin> linked_files v w0 \<and> entry v w t = Some i \<and>
     fst (file_at v w i) = data \<and> owner_only (snd (file_at v w i))"

text \<open>
  What holds whenever \<^verbatim>\<open>publish\<close> returns: the target is as before or complete, and without
  \<open>force\<close> only a missing target has changed; all other names are as before, up to left-over
  temporary files of the directory. After success no temporary file is left over either.
\<close>

definition settled :: "'w fs_view \<Rightarrow> 'w \<Rightarrow> nat \<Rightarrow> string \<Rightarrow> string \<Rightarrow> bool \<Rightarrow> 'w \<Rightarrow> bool" where
  "settled v w0 d name data force w \<longleftrightarrow>
     (\<forall>k. shown v w k = shown v w0 k \<or>
        fst k = d \<and> (has_temporary_prefix (snd k) \<or>
          snd k = name \<and> holds v w k data \<and> (force \<or> shown v w0 k = None)))"

definition published :: "'w fs_view \<Rightarrow> 'w \<Rightarrow> nat \<Rightarrow> string \<Rightarrow> string \<Rightarrow> bool \<Rightarrow> 'w \<Rightarrow> bool" where
  "published v w0 d name data force w \<longleftrightarrow>
     holds v w (d, name) data \<and> (force \<or> shown v w0 (d, name) = None) \<and>
     (\<forall>k. k \<noteq> (d, name) \<longrightarrow> shown v w k = shown v w0 k)"

lemma published_settled: "published v w0 d name data force w \<Longrightarrow> settled v w0 d name data force w"
proof -
  assume p: "published v w0 d name data force w"
  have "shown v w k = shown v w0 k \<or>
      fst k = d \<and> (has_temporary_prefix (snd k) \<or> snd k = name \<and> holds v w k data \<and> (force \<or> shown v w0 k = None))" for k
    using p by (cases "k = (d, name)") (simp_all add: published_def)
  then show ?thesis by (simp add: settled_def)
qed

lemma shown_None: "shown v w k = None \<longleftrightarrow> entry v w k = None"
  by (simp add: shown_def)

lemma linked_filesI: "entry v w k = Some i \<Longrightarrow> i \<in> linked_files v w"
  by (auto simp: linked_files_def ran_def)

lemma shown_same_files:
  "entry v w' k = entry v w k \<Longrightarrow> \<forall>i. entry v w k = Some i \<longrightarrow> file_at v w' i = file_at v w i \<Longrightarrow> shown v w' k = shown v w k"
  by (cases "entry v w k") (simp_all add: shown_def)

lemma shown_unchanged: "unchanged v w w' \<Longrightarrow> shown v w' k = shown v w k"
  by (rule shown_same_files) (auto simp: unchanged_def dest: linked_filesI)

lemma unchanged_refl: "unchanged v w w"
  by (simp add: unchanged_def)

lemma unchanged_trans: "unchanged v w w' \<Longrightarrow> unchanged v w' w'' \<Longrightarrow> unchanged v w w''"
  by (simp add: unchanged_def linked_files_def)

lemma unchanged_kept: "unchanged v w0 w \<Longrightarrow> kept v w0 {} w"
  using shown_unchanged by (fastforce simp: kept_def unchanged_def)

lemma kept_unchanged: "kept v w0 S w \<Longrightarrow> unchanged v w w' \<Longrightarrow> kept v w0 S w'"
  by (simp add: kept_def shown_unchanged) (simp add: unchanged_def)

lemma staged_unchanged: "staged v w0 t i data w \<Longrightarrow> unchanged v w w' \<Longrightarrow> staged v w0 t i data w'"
  using kept_unchanged [of v w0 "{t}" w w'] linked_filesI [of v w t i] by (simp add: staged_def unchanged_def)

lemma settled_unchanged:
  "settled v w0 d name data force w \<Longrightarrow> unchanged v w w' \<Longrightarrow> settled v w0 d name data force w'"
  by (simp add: settled_def holds_def shown_unchanged)

lemma published_unchanged:
  "published v w0 d name data force w \<Longrightarrow> unchanged v w w' \<Longrightarrow> published v w0 d name data force w'"
  by (simp add: published_def holds_def shown_unchanged)

text \<open>A condition that lasts while the tree does not change.\<close>

definition stable :: "'w fs_view \<Rightarrow> ('w \<Rightarrow> bool) \<Rightarrow> bool" where
  "stable v P \<longleftrightarrow> (\<forall>w w'. P w \<longrightarrow> unchanged v w w' \<longrightarrow> P w')"

lemma stable_stages:
  "stable v (unchanged v w0)" "stable v (staged v w0 t i data)"
  "stable v (settled v w0 d name data force)" "stable v (published v w0 d name data force)"
  unfolding stable_def
  by (blast intro: unchanged_trans staged_unchanged settled_unchanged published_unchanged)+

lemma kept_settled: "kept v w0 S w \<Longrightarrow> S \<subseteq> {d} \<times> Collect has_temporary_prefix \<Longrightarrow> settled v w0 d name data force w"
  by (fastforce simp: settled_def kept_def)

lemma staged_settled:
  "staged v w0 (d, temporary) i t w \<Longrightarrow> has_temporary_prefix temporary \<Longrightarrow> settled v w0 d name data force w"
  by (rule kept_settled [of v w0 "{(d, temporary)}"]) (simp_all add: staged_def)

lemma private_permissions: "permissions AND NOT (S_IRUSR OR S_IWUSR) = 0 \<Longrightarrow> owner_only permissions"
proof -
  assume "permissions AND NOT (S_IRUSR OR S_IWUSR) = 0"
  moreover have "permissions = permissions AND (S_IRUSR OR S_IWUSR) OR permissions AND NOT (S_IRUSR OR S_IWUSR)"
    by (rule bit_word_eqI) (auto simp: bit_simps)
  ultimately have "permissions = permissions AND (S_IRUSR OR S_IWUSR)" by (simp only: or.right_neutral)
  then have "permissions AND 0x3F = permissions AND ((S_IRUSR OR S_IWUSR) AND 0x3F)" by (metis and.assoc)
  then show ?thesis by (simp add: owner_only_def S_IRUSR_def S_IWUSR_def)
qed

lemma opened_stages:
  assumes "openat_law fs v" "opened_directory v w directory = Some d" "plain_name temporary"
    and "sys_openat fs directory temporary flags (S_IRUSR OR S_IWUSR) w = (Open_descriptor fd, w')"
    and "O_CREAT \<in> set flags" "O_EXCL \<in> set flags" "unchanged v w0 w"
  shows "\<exists>i. staged v w0 (d, temporary) i '''' w' \<and> opened_file v w' fd = Some i \<and> fd \<noteq> directory \<and>
     opened_directory v w' directory = Some d"
proof -
  obtain i permissions where i: "entry v w (d, temporary) = None" "i \<notin> linked_files v w"
      "entry v w' = (entry v w)((d, temporary) \<mapsto> i)" "file_at v w' i = ('''', permissions)"
      "permissions AND NOT (S_IRUSR OR S_IWUSR) = 0" "\<forall>j\<in>linked_files v w. file_at v w' j = file_at v w j"
      "opened_directory v w fd = None" "opened_directory v w' = opened_directory v w" "opened_file v w' fd = Some i"
    using assms(1-6) unfolding openat_law_def by fastforce
  have same: "entry v w = entry v w0" "linked_files v w = linked_files v w0"
    using assms(7) by (simp_all add: unchanged_def linked_files_def)
  have "shown v w' k = shown v w k" if "k \<noteq> (d, temporary)" for k
    using i(3,6) that linked_filesI [of v w k] by (intro shown_same_files) auto
  then have "kept v w0 {(d, temporary)} w'"
    using i(3) same(1) shown_unchanged [OF assms(7)] by (simp add: kept_def)
  then have "staged v w0 (d, temporary) i '''' w'"
    using i(1-5) same private_permissions by (simp add: staged_def)
  moreover have "fd \<noteq> directory" using i(7) assms(2) by auto
  ultimately show ?thesis using i(8,9) assms(2) by auto
qed

lemma write_stages:
  assumes "write_law fs v" "sys_write fs fd text w = (r, w')" "opened_file v w fd = Some i"
    and "staged v w0 t i data w"
  shows "opened_file v w' fd = Some i" "opened_directory v w' = opened_directory v w"
    and "r = Written n \<Longrightarrow> staged v w0 t i (data @ take n text) w'"
    and "r = Write_interrupted \<Longrightarrow> staged v w0 t i data w'"
    and "r = Write_failed \<Longrightarrow> \<exists>s. staged v w0 t i s w'"
proof -
  have law: "entry v w' = entry v w" "\<forall>j\<in>linked_files v w. j \<noteq> i \<longrightarrow> file_at v w' j = file_at v w j"
      "opened_directory v w' = opened_directory v w" "opened_file v w' fd = Some i"
      "snd (file_at v w' i) = snd (file_at v w i)"
      "case r of
         Written n \<Rightarrow> fst (file_at v w' i) = fst (file_at v w i) @ take n text
       | Write_interrupted \<Rightarrow> fst (file_at v w' i) = fst (file_at v w i)
       | Write_failed \<Rightarrow> True"
    using assms(1-3) unfolding write_law_def by blast+
  have fresh: "entry v w k \<noteq> Some i" if "k \<noteq> t" for k
    using assms(4) that linked_filesI [of v w0 k i] unfolding staged_def kept_def by auto
  have *: "staged v w0 t i (fst (file_at v w' i)) w'"
  proof -
    have "shown v w' k = shown v w k" if "k \<noteq> t" for k
      using fresh [OF that] law(1,2) linked_filesI [of v w k] by (intro shown_same_files) auto
    then show ?thesis using assms(4) law(1,5) by (simp add: staged_def kept_def)
  qed
  have data: "fst (file_at v w i) = data" using assms(4) by (simp add: staged_def)
  show "opened_file v w' fd = Some i" "opened_directory v w' = opened_directory v w" by (rule law)+
  show "r = Written n \<Longrightarrow> staged v w0 t i (data @ take n text) w'" using law(6) * data by simp
  show "r = Write_interrupted \<Longrightarrow> staged v w0 t i data w'" using law(6) * data by simp
  show "r = Write_failed \<Longrightarrow> \<exists>s. staged v w0 t i s w'" using * by blast
qed

lemma moved_shown:
  assumes "moved v w w' entries" "entries k = entry v w k'"
  shows "shown v w' k = shown v w k'"
  using assms linked_filesI [of v w' k] by (cases "entry v w k'") (auto simp: moved_def shown_def)

lemma moved_nothing: "moved v w w' (entry v w) \<Longrightarrow> shown v w' k = shown v w k"
  by (rule moved_shown) simp_all

lemma staged_holds: "staged v w0 t i data w \<Longrightarrow> holds v w t data"
  by (auto simp: staged_def holds_def shown_def prod_eq_iff)

lemma rename_stages:
  assumes "rename_law fs v" "sys_renameat fs directory temporary name w = (ok, w')"
    and "opened_directory v w directory = Some d" "plain_name temporary" "plain_name name"
    and "staged v w0 (d, temporary) i data w" "has_temporary_prefix temporary" "\<not> has_temporary_prefix name"
  shows "(if ok then published v w0 d name data True w' else settled v w0 d name data True w') \<and>
     opened_directory v w' directory = Some d"
proof -
  let ?entries = "if ok \<and> entry v w (d, temporary) \<noteq> entry v w (d, name)
      then (entry v w)((d, name) := entry v w (d, temporary), (d, temporary) := None) else entry v w"
  have law: "moved v w w' ?entries"
    using assms(1-5) unfolding rename_law_def by blast
  have names: "(d, name) \<noteq> (d, temporary)" using assms(7,8) by blast
  have kept: "entry v w k = entry v w0 k" "shown v w k = shown v w0 k" if "k \<noteq> (d, temporary)" for k
    using assms(6) that by (simp_all add: staged_def kept_def)
  have moves: "entry v w (d, temporary) \<noteq> entry v w (d, name)"
    using kept(1) [OF names] linked_filesI [of v w0 "(d, name)"] assms(6) by (auto simp: staged_def)
  have "published v w0 d name data True w'" if ok
  proof -
    have target: "shown v w' (d, name) = shown v w (d, temporary)"
      by (rule moved_shown [OF law]) (use that moves names in auto)
    have temporary: "shown v w' (d, temporary) = shown v w0 (d, temporary)"
      using law assms(6) that moves by (simp add: moved_def shown_def staged_def)
    have "shown v w' k = shown v w0 k" if "k \<noteq> (d, name)" for k
    proof (cases "k = (d, temporary)")
      case False
      then show ?thesis using moved_shown [OF law, of k k] kept(2) [OF False] that by (simp split: if_splits)
    qed (simp add: temporary)
    then show ?thesis
      using target staged_holds [OF assms(6)] by (simp add: published_def holds_def)
  qed
  moreover have "settled v w0 d name data True w'" if "\<not> ok"
  proof -
    have "shown v w' k = shown v w k" for k using moved_nothing [of v w w' k] law that by simp
    then show ?thesis using staged_settled [OF assms(6,7), of name data True] by (simp add: settled_def holds_def)
  qed
  ultimately show ?thesis using law assms(3) by (simp add: moved_def)
qed


text \<open>After \<^verbatim>\<open>linkat\<close> the file has both names.\<close>

definition linked :: "'w fs_view \<Rightarrow> 'w \<Rightarrow> nat \<Rightarrow> string \<Rightarrow> string \<Rightarrow> string \<Rightarrow> 'w \<Rightarrow> bool" where
  "linked v w0 d name temporary data w \<longleftrightarrow>
     kept v w0 {(d, temporary), (d, name)} w \<and> holds v w (d, name) data \<and> shown v w0 (d, name) = None \<and>
     shown v w0 (d, temporary) = None"

lemma link_stages:
  assumes "link_law fs v" "sys_linkat fs directory temporary name w = (ok, w')"
    and "opened_directory v w directory = Some d" "plain_name temporary" "plain_name name"
    and "staged v w0 (d, temporary) i data w" "has_temporary_prefix temporary" "\<not> has_temporary_prefix name"
  shows "(if ok then linked v w0 d name temporary data w' else settled v w0 d name data False w') \<and>
     opened_directory v w' directory = Some d"
proof -
  have law: "moved v w w' (if ok then (entry v w)((d, name) := entry v w (d, temporary)) else entry v w)"
      "ok \<Longrightarrow> entry v w (d, name) = None"
    using assms(1-5) unfolding link_law_def by blast+
  have names: "name \<noteq> temporary" using assms(7,8) by blast
  have kept: "entry v w k = entry v w0 k" "shown v w k = shown v w0 k" if "k \<noteq> (d, temporary)" for k
    using assms(6) that by (simp_all add: staged_def kept_def)
  have "linked v w0 d name temporary data w'" if ok
  proof -
    have target: "shown v w' (d, name) = shown v w (d, temporary)"
      by (rule moved_shown [OF law(1)]) (simp add: that)
    have "shown v w' k = shown v w0 k" "entry v w' k = entry v w0 k" if "k \<noteq> (d, name)" "k \<noteq> (d, temporary)" for k
      using moved_shown [OF law(1), of k k] kept [OF that(2)] law(1) that by (auto simp: moved_def split: if_splits)
    moreover have "shown v w0 (d, name) = None" "shown v w0 (d, temporary) = None"
      using law(2) that kept(1) [of "(d, name)"] names assms(6) by (simp_all add: shown_None staged_def)
    ultimately show ?thesis
      using target staged_holds [OF assms(6)] by (simp add: linked_def holds_def kept_def)
  qed
  moreover have "settled v w0 d name data False w'" if "\<not> ok"
  proof -
    have "shown v w' k = shown v w k" for k using moved_nothing [of v w w' k] law(1) that by simp
    then show ?thesis using staged_settled [OF assms(6,7), of name data False] by (simp add: settled_def holds_def)
  qed
  ultimately show ?thesis using law(1) assms(3) by (simp add: moved_def)
qed

lemma linked_settled:
  "linked v w0 d name temporary data w \<Longrightarrow> has_temporary_prefix temporary \<Longrightarrow> settled v w0 d name data False w"
proof -
  assume a: "linked v w0 d name temporary data w" "has_temporary_prefix temporary"
  have "shown v w k = shown v w0 k \<or>
      fst k = d \<and> (has_temporary_prefix (snd k) \<or> snd k = name \<and> holds v w k data \<and> (False \<or> shown v w0 k = None))" for k
    using a by (cases "k = (d, name)"; cases "k = (d, temporary)") (simp_all add: linked_def kept_def)
  then show ?thesis by (simp add: settled_def)
qed

lemma unlink_effect:
  assumes "unlink_law fs v" "sys_unlinkat fs directory temporary w = (ok, w')"
    and "opened_directory v w directory = Some d" "plain_name temporary"
  shows "k \<noteq> (d, temporary) \<Longrightarrow> shown v w' k = shown v w k"
    and "shown v w' (d, temporary) = (if ok then None else shown v w (d, temporary))"
    and "opened_directory v w' = opened_directory v w"
proof -
  have law: "moved v w w' (if ok then (entry v w)((d, temporary) := None) else entry v w)"
    using assms unfolding unlink_law_def by blast
  show "k \<noteq> (d, temporary) \<Longrightarrow> shown v w' k = shown v w k"
    by (rule moved_shown [OF law]) simp
  show "shown v w' (d, temporary) = (if ok then None else shown v w (d, temporary))"
    using law moved_nothing [of v w w' "(d, temporary)"] by (auto simp: moved_def shown_def)
  show "opened_directory v w' = opened_directory v w" using law by (simp add: moved_def)
qed

lemma unlink_settled:
  assumes "unlink_law fs v" "sys_unlinkat fs directory temporary w = (ok, w')"
    and "opened_directory v w directory = Some d" "plain_name temporary"
    and "has_temporary_prefix temporary" "\<not> has_temporary_prefix name" "settled v w0 d name data force w"
  shows "settled v w0 d name data force w'"
proof -
  note unlinked = unlink_effect(1) [OF assms(1-4)]
  have "shown v w' k = shown v w0 k \<or>
      fst k = d \<and> (has_temporary_prefix (snd k) \<or> snd k = name \<and> holds v w' k data \<and> (force \<or> shown v w0 k = None))" for k
  proof (cases "k = (d, temporary)")
    case True
    then show ?thesis using assms(5) by simp
  next
    case False
    then show ?thesis using unlinked [OF False] assms(7) by (simp add: settled_def holds_def)
  qed
  then show ?thesis by (simp add: settled_def)
qed

lemma unlink_published:
  assumes "unlink_law fs v" "sys_unlinkat fs directory temporary w = (True, w')"
    and "opened_directory v w directory = Some d" "plain_name temporary"
    and "has_temporary_prefix temporary" "\<not> has_temporary_prefix name" "linked v w0 d name temporary data w"
  shows "published v w0 d name data False w'"
proof -
  note unlinked = unlink_effect [OF assms(1-4)]
  have names: "(d, name) \<noteq> (d, temporary)" using assms(5,6) by blast
  have l: "kept v w0 {(d, temporary), (d, name)} w" "holds v w (d, name) data" "shown v w0 (d, name) = None"
      "shown v w0 (d, temporary) = None"
    using assms(7) by (simp_all add: linked_def)
  have "shown v w' k = shown v w0 k" if "k \<noteq> (d, name)" for k
  proof (cases "k = (d, temporary)")
    case True
    then show ?thesis using unlinked(2) l(4) by simp
  next
    case False
    then show ?thesis using unlinked(1) [OF False] l(1) that by (simp add: kept_def)
  qed
  then show ?thesis using l(2,3) unlinked(1) [OF names] by (simp add: published_def holds_def)
qed

section \<open>The stages of a publication\<close>

text \<open>While the directory is open.\<close>

definition working :: "'w fs_view \<Rightarrow> int \<Rightarrow> nat \<Rightarrow> ('w \<Rightarrow> bool) \<Rightarrow> 'w \<Rightarrow> bool" where
  "working v directory d P w \<longleftrightarrow> opened_directory v w directory = Some d \<and> P w"

lemma runs_working:
  "runs (working v directory d P) m Q E" if "\<And>w. opened_directory v w directory = Some d \<Longrightarrow> P w \<Longrightarrow>
     \<exists>r w'. m w = Some (r, w') \<and> (case r of Returned x \<Rightarrow> Q x w' | Thrown \<Rightarrow> E w')"
  using that by (simp add: runs_def working_def)

lemma quiet_stages:
  assumes laws: "fs_laws fs v" and stable: "stable v P"
  shows "runs P (call (sys_close_file fs fd)) (\<lambda>_. P) E"
    and "fd \<noteq> directory \<Longrightarrow>
      runs (working v directory d P) (call (sys_close_file fs fd)) (\<lambda>_. working v directory d P) E"
    and "runs (working v directory d P) (call (sys_fstatat fs directory n)) (\<lambda>_. working v directory d P) E"
    and "runs (working v directory d P) (call (sys_fsync fs fd)) (\<lambda>_. working v directory d P) E"
    and "runs (working v directory d P) (call (sys_getpid fs)) (\<lambda>_. working v directory d P) E"
proof -
  have q: "quiet_laws fs v" using laws by (simp add: fs_laws_def)
  have close: "sys_close_file fs fd w = (r, w') \<Longrightarrow> unchanged v w w' \<and>
      (\<forall>other. other \<noteq> fd \<longrightarrow> opened_directory v w' other = opened_directory v w other)" for w r w'
    using q unfolding quiet_laws_def by blast
  have lasts: "unchanged v w w' \<Longrightarrow> P w \<Longrightarrow> P w'" for w w' using stable unfolding stable_def by blast
  show "runs P (call (sys_close_file fs fd)) (\<lambda>_. P) E"
    by (rule runs_call) (use close lasts in blast)
  show "fd \<noteq> directory \<Longrightarrow>
      runs (working v directory d P) (call (sys_close_file fs fd)) (\<lambda>_. working v directory d P) E"
    by (rule runs_call) (use close lasts in \<open>simp add: working_def, metis\<close>)
  have works: "quiet v w w' \<Longrightarrow> working v directory d P w \<Longrightarrow> working v directory d P w'" for w w'
    using lasts [of w w'] by (simp add: quiet_def working_def)
  show "runs (working v directory d P) (call (sys_fstatat fs directory n)) (\<lambda>_. working v directory d P) E"
    by (rule runs_call, rule works) (use q in \<open>unfold quiet_laws_def, blast\<close>)
  show "runs (working v directory d P) (call (sys_fsync fs fd)) (\<lambda>_. working v directory d P) E"
    by (rule runs_call, rule works) (use q in \<open>unfold quiet_laws_def, blast\<close>)
  show "runs (working v directory d P) (call (sys_getpid fs)) (\<lambda>_. working v directory d P) E"
    by (rule runs_call, rule works) (use q in \<open>unfold quiet_laws_def, blast\<close>)
qed

lemma runs_weaken: "runs P m Q E \<Longrightarrow> (\<And>w. P' w \<Longrightarrow> P w) \<Longrightarrow> runs P' m Q E"
  by (simp add: runs_def)

lemma discard_settles:
  assumes laws: "fs_laws fs v" and target: "\<not> has_temporary_prefix name"
    and temporary: "has_temporary_prefix temporary" "plain_name temporary" and descriptor: "descriptor \<noteq> Some directory"
  shows "runs (working v directory d (settled v w0 d name data force)) (discard fs directory descriptor temporary)
     (\<lambda>r w. r = Inl state_invalid \<and> settled v w0 d name data force w) (\<lambda>_. False)"
proof -
  let ?S = "settled v w0 d name data force"
  have law: "unlink_law fs v" using laws by (simp add: fs_laws_def)
  have close: "runs (working v directory d ?S) (case descriptor of None \<Rightarrow> ret True | Some fd \<Rightarrow> call (sys_close_file fs fd))
      (\<lambda>_. working v directory d ?S) (\<lambda>_. False)"
    using descriptor by (cases descriptor) (auto intro: runs_ret quiet_stages(2) [OF laws stable_stages(3)])
  have unlink: "runs (working v directory d ?S) (call (sys_unlinkat fs directory temporary)) (\<lambda>_. ?S) (\<lambda>_. False)"
    by (rule runs_call) (use unlink_settled [OF law _ _ temporary(2,1) target] in \<open>simp add: working_def\<close>)
  show ?thesis
    unfolding discard_def
    by (rule runs_pbind [OF close], rule runs_pbind [OF unlink],
        rule runs_pbind [OF quiet_stages(1) [OF laws stable_stages(3)]], rule runs_ret) simp
qed


lemma open_temporary_stages:
  assumes laws: "fs_laws fs v"
  shows "runs (working v directory d (unchanged v w0)) (open_temporary fs directory attempts sequence)
     (\<lambda>r w. case r of
        None \<Rightarrow> unchanged v w0 w
      | Some (fd, temporary) \<Rightarrow> has_temporary_prefix temporary \<and> plain_name temporary \<and> fd \<noteq> directory \<and>
          (\<exists>i. working v directory d (staged v w0 (d, temporary) i '''') w \<and> opened_file v w fd = Some i))
     (\<lambda>_. False)"
  (is "runs ?P _ ?Q _")
proof (induction attempts arbitrary: sequence)
  case 0
  show ?case by (simp add: working_def) (rule runs_ret, simp)
next
  case (Suc attempts)
  have law: "openat_law fs v" using laws by (simp add: fs_laws_def)
  let ?R = "\<lambda>temporary r w. case r of
      Open_descriptor fd \<Rightarrow> fd \<noteq> directory \<and>
        (\<exists>i. working v directory d (staged v w0 (d, temporary) i '''') w \<and> opened_file v w fd = Some i)
    | _ \<Rightarrow> ?P w"
  let ?flags = "[O_WRONLY, O_CREAT, O_EXCL, O_CLOEXEC, O_NOFOLLOW]"
  have opened: "runs ?P (call (sys_openat fs directory temporary ?flags (S_IRUSR OR S_IWUSR))) (?R temporary) (\<lambda>_. False)"
    if plain: "plain_name temporary" for temporary
  proof (rule runs_call)
    fix w r w'
    assume a: "?P w" "sys_openat fs directory temporary ?flags (S_IRUSR OR S_IWUSR) w = (r, w')"
    then have open_directory: "opened_directory v w directory = Some d" "unchanged v w0 w"
      by (simp_all add: working_def)
    have failed: "?P w'" if "\<And>fd. r \<noteq> Open_descriptor fd"
    proof -
      have "quiet v w w'"
        using law a(2) open_directory(1) plain that unfolding openat_law_def by (cases r) fastforce+
      then show ?thesis
        using open_directory unchanged_trans [of v w0 w w'] by (simp add: working_def quiet_def)
    qed
    show "?R temporary r w'"
    proof (cases r)
      case (Open_descriptor fd)
      have "\<exists>i. staged v w0 (d, temporary) i '''' w' \<and> opened_file v w' fd = Some i \<and> fd \<noteq> directory \<and>
          opened_directory v w' directory = Some d"
        by (rule opened_stages [OF law open_directory(1) plain a(2) [unfolded Open_descriptor] _ _ open_directory(2)]) simp_all
      then show ?thesis by (auto simp: Open_descriptor working_def)
    qed (use failed in simp_all)
  qed
  show ?case
    unfolding open_temporary.simps Let_def
  proof (rule runs_pbind [OF quiet_stages(5) [OF laws stable_stages(1)]], rule runs_pbind [OF opened [OF temporary_name_plain]])
    fix pid r
    show "runs (?R (temporary_name pid sequence) r)
        (case r of
           Open_descriptor descriptor \<Rightarrow> ret (Some (descriptor, temporary_name pid sequence))
         | Open_exists \<Rightarrow> open_temporary fs directory attempts (sequence + 1)
         | Open_failed \<Rightarrow> ret None) ?Q (\<lambda>_. False)"
      using Suc.IH
      by (cases r) (auto intro!: runs_ret simp: temporary_name_prefix temporary_name_plain, simp add: working_def)
  qed
qed

lemma write_loop_step:
  assumes "rest \<noteq> []" "sys_write fs fd rest w = (r, w')"
  shows "write_loop fs fd rest w =
     (case r of
        Write_interrupted \<Rightarrow> write_loop fs fd rest w'
      | Write_failed \<Rightarrow> Some (False, w')
      | Written n \<Rightarrow> if n = 0 then Some (False, w') else write_loop fs fd (drop n rest) w')"
  using assms by (subst write_loop.simps) simp

lemma write_loop_stages:
  assumes laws: "fs_laws fs v" and finite_writes: "writes_finite fs rank"
  shows "staged v w0 t i data w \<Longrightarrow> opened_file v w fd = Some i \<Longrightarrow>
     \<exists>ok w' s. write_loop fs fd rest w = Some (ok, w') \<and> staged v w0 t i s w' \<and> (ok \<longrightarrow> s = data @ rest) \<and>
       opened_directory v w' = opened_directory v w"
proof (induction "length rest" arbitrary: rest w data rule: less_induct)
  case outer: less
  from outer.prems show ?case
  proof (induction "rank w" arbitrary: w data rule: less_induct)
    case inner: less
    have law: "write_law fs v" using laws by (simp add: fs_laws_def)
    obtain r w' where call: "sys_write fs fd rest w = (r, w')" by fastforce
    note stage = write_stages [OF law call inner.prems(2,1)]
    show ?case
    proof (cases "rest = []")
      case True
      then show ?thesis using inner.prems(1) by (subst write_loop.simps) auto
    next
      case nonempty: False
      note step = write_loop_step [OF nonempty call]
      show ?thesis
      proof (cases r)
        case Write_interrupted
        then have "rank w' < rank w" using finite_writes call unfolding writes_finite_def by blast
        from inner.hyps [OF this stage(4) [OF Write_interrupted] stage(1)]
        show ?thesis using step Write_interrupted stage(2) by simp
      next
        case Write_failed
        then show ?thesis using stage(5) [OF Write_failed] stage(2) step by auto
      next
        case (Written n)
        show ?thesis
        proof (cases "n = 0")
          case True
          then show ?thesis using stage(3) [OF Written] stage(2) step Written by auto
        next
          case False
          then have "length (drop n rest) < length rest" using nonempty by simp
          from outer.hyps [OF this stage(3) [OF Written] stage(1)]
          show ?thesis using step Written False stage(2) by simp
        qed
      qed
    qed
  qed
qed

lemma synchronize_stages:
  assumes "fs_laws fs v" "fd \<noteq> directory"
  shows "runs (working v directory d (staged v w0 t i s)) (synchronize fs fd)
     (\<lambda>_. working v directory d (staged v w0 t i s)) (\<lambda>_. False)"
  unfolding synchronize_def
  by (rule runs_pbind [OF quiet_stages(4) [OF assms(1) stable_stages(2)]], rule runs_if, rule runs_ret, assumption)
    (rule quiet_stages(2) [OF assms(1) stable_stages(2) assms(2)])

lemma replace_target_stages:
  assumes laws: "fs_laws fs v" and target: "\<not> has_temporary_prefix name" "plain_name name"
    and temporary: "has_temporary_prefix temporary" "plain_name temporary"
  shows "runs (working v directory d (staged v w0 (d, temporary) i data)) (replace_target fs directory temporary name force)
     (\<lambda>ok. working v directory d (if ok then published v w0 d name data force else settled v w0 d name data force))
     (\<lambda>_. False)"
proof -
  have law: "rename_law fs v" "link_law fs v" "unlink_law fs v" using laws by (simp_all add: fs_laws_def)
  have rename: "runs (working v directory d (staged v w0 (d, temporary) i data)) (call (sys_renameat fs directory temporary name))
      (\<lambda>ok. working v directory d (if ok then published v w0 d name data True else settled v w0 d name data True)) (\<lambda>_. False)"
    by (rule runs_call)
      (use rename_stages [OF law(1) _ _ temporary(2) target(2) _ temporary(1) target(1)] in \<open>auto simp: working_def split: if_splits\<close>)
  have link: "runs (working v directory d (staged v w0 (d, temporary) i data)) (call (sys_linkat fs directory temporary name))
      (\<lambda>ok. working v directory d (if ok then linked v w0 d name temporary data else settled v w0 d name data False)) (\<lambda>_. False)"
    by (rule runs_call)
      (use link_stages [OF law(2) _ _ temporary(2) target(2) _ temporary(1) target(1)] in \<open>auto simp: working_def split: if_splits\<close>)
  have unlink: "runs (working v directory d (linked v w0 d name temporary data)) (call (sys_unlinkat fs directory temporary))
      (\<lambda>ok. working v directory d (if ok then published v w0 d name data False else settled v w0 d name data False)) (\<lambda>_. False)"
  proof (rule runs_call)
    fix w ok w'
    assume a: "working v directory d (linked v w0 d name temporary data) w" "sys_unlinkat fs directory temporary w = (ok, w')"
    then have w: "opened_directory v w directory = Some d" "linked v w0 d name temporary data w" by (simp_all add: working_def)
    show "working v directory d (if ok then published v w0 d name data False else settled v w0 d name data False) w'"
      using unlink_published [OF law(3) _ w(1) temporary(2,1) target(1) w(2)] a(2) unlink_effect(3) [OF law(3) a(2) w(1) temporary(2)]
        unlink_settled [OF law(3) a(2) w(1) temporary(2,1) target(1) linked_settled [OF w(2) temporary(1)]] w(1)
      by (cases ok) (simp_all add: working_def)
  qed
  show ?thesis
  proof (cases force)
    case True
    then show ?thesis using rename by (simp add: replace_target_def cong: if_cong)
  next
    case False
    have "runs (working v directory d (if ok then linked v w0 d name temporary data else settled v w0 d name data False))
        (if \<not> ok then ret False else call (sys_unlinkat fs directory temporary))
        (\<lambda>ok. working v directory d (if ok then published v w0 d name data False else settled v w0 d name data False))
        (\<lambda>_. False)" for ok
      using unlink by (cases ok) (auto intro: runs_ret)
    with False show ?thesis by (simp add: replace_target_def cong: if_cong) (rule runs_pbind [OF link])
  qed
qed

section \<open>The whole publication\<close>

text \<open>What the caller of \<^verbatim>\<open>publish\<close> finds, when the directory is \<open>d\<close> or could not be opened.\<close>

definition concluded ::
  "'w fs_view \<Rightarrow> 'w \<Rightarrow> nat \<Rightarrow> string \<Rightarrow> string \<Rightarrow> bool \<Rightarrow> unit expected \<Rightarrow> 'w \<Rightarrow> bool" where
  "concluded v w0 d name data force r w \<longleftrightarrow>
     settled v w0 d name data force w \<and> (r = Inr () \<longrightarrow> published v w0 d name data force w)"

lemma discard_concludes:
  assumes "fs_laws fs v" "\<not> has_temporary_prefix name" "has_temporary_prefix temporary" "plain_name temporary"
    and "descriptor \<noteq> Some directory" "\<And>w. P w \<Longrightarrow> settled v w0 d name data force w"
  shows "runs (working v directory d P) (discard fs directory descriptor temporary) (concluded v w0 d name data force) (\<lambda>_. False)"
  by (rule runs_consequence [OF discard_settles [OF assms(1-5), where data = data and force = force]])
    (auto simp: concluded_def working_def assms(6))

definition finish_publication :: "'w file_calls \<Rightarrow> int \<Rightarrow> ('w, unit expected) prog" where
  "finish_publication fs directory =
     pbind (call (sys_fsync fs directory)) (\<lambda>synced.
     pbind (call (sys_close_file fs directory)) (\<lambda>_. ret (if \<not> synced then Inl state_invalid else Inr ())))"

lemma finish_concludes:
  assumes "fs_laws fs v"
  shows "runs (working v directory d (published v w0 d name data force)) (finish_publication fs directory)
     (concluded v w0 d name data force) (\<lambda>_. False)"
proof -
  let ?P = "published v w0 d name data force"
  have "runs (working v directory d ?P) (call (sys_close_file fs directory)) (\<lambda>_. ?P) (\<lambda>_. False)"
    by (rule runs_weaken [OF quiet_stages(1) [OF assms stable_stages(4)]]) (simp add: working_def)
  then show ?thesis
    unfolding finish_publication_def
    by (rule runs_pbind [OF quiet_stages(4) [OF assms stable_stages(4)] runs_pbind], intro runs_ret)
      (simp add: concluded_def published_settled)
qed

lemma publish_temporary_concludes:
  assumes laws: "fs_laws fs v" and finite: "writes_finite fs rank"
    and name: "\<not> has_temporary_prefix name" "plain_name name"
    and temporary: "has_temporary_prefix temporary" "plain_name temporary" and fd: "fd \<noteq> directory"
  shows "runs (\<lambda>w. working v directory d (staged v w0 (d, temporary) i '''') w \<and> opened_file v w fd = Some i)
     (publish_temporary fs directory name data force fd temporary) (concluded v w0 d name data force) (\<lambda>_. False)"
proof -
  note discard = discard_concludes [OF laws name(1) temporary]
  have replace: "runs (working v directory d (staged v w0 (d, temporary) i data))
      (pbind (replace_target fs directory temporary name force) (\<lambda>replaced.
        if \<not> replaced then discard fs directory None temporary else finish_publication fs directory))
      (concluded v w0 d name data force) (\<lambda>_. False)"
  proof (rule runs_pbind [OF replace_target_stages [OF laws name temporary]])
    fix ok
    show "runs (working v directory d (if ok then published v w0 d name data force else settled v w0 d name data force))
        (if \<not> ok then discard fs directory None temporary else finish_publication fs directory)
        (concluded v w0 d name data force) (\<lambda>_. False)"
      using finish_concludes [OF laws] discard by (cases ok) auto
  qed
  have synchronize: "runs (working v directory d (staged v w0 (d, temporary) i data))
      (pbind (synchronize fs fd) (\<lambda>synced. if \<not> synced then discard fs directory None temporary
       else pbind (replace_target fs directory temporary name force) (\<lambda>replaced.
        if \<not> replaced then discard fs directory None temporary else finish_publication fs directory)))
      (concluded v w0 d name data force) (\<lambda>_. False)"
    by (rule runs_pbind [OF synchronize_stages [OF laws fd]], rule runs_if)
      (auto intro!: replace discard staged_settled [OF _ temporary(1)])
  have written: "runs (\<lambda>w. working v directory d (staged v w0 (d, temporary) i '''') w \<and> opened_file v w fd = Some i)
      (call_partial (write_loop fs fd data))
      (\<lambda>ok. working v directory d (\<lambda>w. \<exists>s. staged v w0 (d, temporary) i s w \<and> (ok \<longrightarrow> s = data))) (\<lambda>_. False)"
  proof (rule runs_call_partial)
    fix w
    assume "working v directory d (staged v w0 (d, temporary) i '''') w \<and> opened_file v w fd = Some i"
    then show "\<exists>ok w'. write_loop fs fd data w = Some (ok, w') \<and>
        working v directory d (\<lambda>w. \<exists>s. staged v w0 (d, temporary) i s w \<and> (ok \<longrightarrow> s = data)) w'"
      using write_loop_stages [OF laws finite, of w0 "(d, temporary)" i "''''" w fd data] by (fastforce simp: working_def)
  qed
  have "runs (working v directory d (\<lambda>w. \<exists>s. staged v w0 (d, temporary) i s w \<and> (ok \<longrightarrow> s = data)))
      (if \<not> ok then discard fs directory (Some fd) temporary
       else pbind (synchronize fs fd) (\<lambda>synced. if \<not> synced then discard fs directory None temporary
         else pbind (replace_target fs directory temporary name force) (\<lambda>replaced.
           if \<not> replaced then discard fs directory None temporary else finish_publication fs directory)))
      (concluded v w0 d name data force) (\<lambda>_. False)" for ok
  proof (cases ok)
    case True
    then show ?thesis using synchronize by (simp add: working_def)
  next
    case False
    have "settled v w0 d name data force w" if "\<exists>s. staged v w0 (d, temporary) i s w \<and> (ok \<longrightarrow> s = data)" for w
      using that by (elim exE conjE) (rule staged_settled [OF _ temporary(1)])
    from discard [OF _ this] fd False show ?thesis by simp
  qed
  then show ?thesis
    unfolding publish_temporary_def finish_publication_def [symmetric] by (rule runs_pbind [OF written])
qed


text \<open>What \<^verbatim>\<open>publish\<close> leaves, by where the directory part of the path leads.\<close>

definition publication ::
  "'w fs_view \<Rightarrow> 'w \<Rightarrow> string \<Rightarrow> string \<Rightarrow> string \<Rightarrow> bool \<Rightarrow> unit expected \<Rightarrow> 'w \<Rightarrow> bool" where
  "publication v w0 parent name data force r w \<longleftrightarrow>
     (case directory_at v w0 (directory_path parent) of
        None \<Rightarrow> unchanged v w0 w \<and> r \<noteq> Inr ()
      | Some d \<Rightarrow> concluded v w0 d name data force r w)"

lemma publication_refused: "unchanged v w0 w \<Longrightarrow> publication v w0 parent name data force (Inl e) w"
  by (auto simp: publication_def concluded_def intro: kept_settled [OF unchanged_kept] split: option.split)

lemma publish_in_directory:
  assumes laws: "fs_laws fs v" and finite: "writes_finite fs rank"
    and name: "\<not> has_temporary_prefix name" "plain_name name"
    and d: "directory_at v w0 (directory_path parent) = Some d"
  shows "runs (working v directory d (unchanged v w0))
     (pbind (call (sys_fstatat fs directory name)) (\<lambda>existing.
      if target_refused existing force
      then pbind (call (sys_close_file fs directory)) (\<lambda>_. ret (Inl state_invalid))
      else
        pbind (open_temporary fs directory 64 sequence) (\<lambda>opened.
        case opened of
          None \<Rightarrow> pbind (call (sys_close_file fs directory)) (\<lambda>_. ret (Inl state_invalid))
        | Some (descriptor, temporary) \<Rightarrow>
            publish_temporary fs directory name data force descriptor temporary)))
     (publication v w0 parent name data force) (\<lambda>_. False)"
proof -
  let ?Q = "publication v w0 parent name data force"
  have same: "?Q = concluded v w0 d name data force" by (simp add: publication_def d fun_eq_iff)
  have close: "runs (unchanged v w0) (pbind (call (sys_close_file fs directory)) (\<lambda>_. ret (Inl state_invalid))) ?Q (\<lambda>_. False)"
    by (rule runs_pbind [OF quiet_stages(1) [OF laws stable_stages(1)]], rule runs_ret) (rule publication_refused)
  have close': "runs (working v directory d (unchanged v w0))
      (pbind (call (sys_close_file fs directory)) (\<lambda>_. ret (Inl state_invalid))) ?Q (\<lambda>_. False)"
    by (rule runs_weaken [OF close]) (simp add: working_def)
  have temporary: "runs (working v directory d (unchanged v w0))
      (pbind (open_temporary fs directory 64 sequence) (\<lambda>opened.
         case opened of
           None \<Rightarrow> pbind (call (sys_close_file fs directory)) (\<lambda>_. ret (Inl state_invalid))
         | Some (fd, temporary) \<Rightarrow> publish_temporary fs directory name data force fd temporary))
      ?Q (\<lambda>_. False)"
  proof (rule runs_pbind [OF open_temporary_stages [OF laws]], goal_cases)
    case (1 opened)
    show ?case
    proof (cases opened)
      case None
      then show ?thesis using close by simp
    next
      case (Some p)
      obtain fd temporary where p: "p = (fd, temporary)" by fastforce
      have "runs (\<lambda>w. working v directory d (staged v w0 (d, temporary) i '''') w \<and> opened_file v w fd = Some i)
          (publish_temporary fs directory name data force fd temporary) ?Q (\<lambda>_. False)"
        if "has_temporary_prefix temporary" "plain_name temporary" "fd \<noteq> directory" for i
        unfolding same by (rule publish_temporary_concludes [OF laws finite name that])
      then show ?thesis
        unfolding Some p runs_def by (simp only: option.case prod.case) blast
    qed
  qed
  show ?thesis
    by (rule runs_pbind [OF quiet_stages(3) [OF laws stable_stages(1)]], rule runs_if, rule close', rule temporary)
qed

lemma publish_concludes:
  assumes laws: "fs_laws fs v" and finite: "writes_finite fs rank"
    and name: "\<not> has_temporary_prefix name" "CHR ''/'' \<notin> set name" and path: "path = parent @ CHR ''/'' # name"
  shows "runs (unchanged v w0) (publish fs sequence path data force) (publication v w0 parent name data force) (\<lambda>_. False)"
proof -
  let ?Q = "publication v w0 parent name data force"
  let ?R = "\<lambda>fd w. unchanged v w0 w \<and>
    (0 \<le> fd \<longrightarrow> (\<exists>d. directory_at v w0 (directory_path parent) = Some d \<and> opened_directory v w fd = Some d))"
  have opens: "runs (unchanged v w0)
      (call (sys_open_directory fs (directory_path parent) [O_RDONLY, O_CLOEXEC, O_DIRECTORY])) ?R (\<lambda>_. False)"
    if "CHR 0x00 \<notin> set path"
  proof (rule runs_call)
    fix w fd w'
    assume a: "unchanged v w0 w" "sys_open_directory fs (directory_path parent) [O_RDONLY, O_CLOEXEC, O_DIRECTORY] w = (fd, w')"
    have law: "open_directory_law fs v" using laws by (simp add: fs_laws_def)
    have "CHR 0x00 \<notin> set (directory_path parent)" using that by (auto simp: path directory_path_def)
    then have "unchanged v w w' \<and>
        (0 \<le> fd \<longrightarrow> (\<exists>d. directory_at v w (directory_path parent) = Some d \<and> opened_directory v w' fd = Some d))"
      using law a(2) unfolding open_directory_law_def by fastforce
    then show "?R fd w'"
      using a(1) unchanged_trans [OF a(1), of w'] by (simp add: unchanged_def)
  qed
  have refused: "runs (unchanged v w0) (ret (Inl state_invalid)) ?Q (\<lambda>_. False)"
    by (rule runs_ret) (rule publication_refused)
  have opened: "runs (?R directory) m ?Q (\<lambda>_. False)"
    if "\<not> directory < 0"
      "\<And>d. directory_at v w0 (directory_path parent) = Some d \<Longrightarrow> runs (working v directory d (unchanged v w0)) m ?Q (\<lambda>_. False)"
    for m directory
  proof (cases "directory_at v w0 (directory_path parent)")
    case None
    then show ?thesis using that(1) by (simp add: runs_def)
  next
    case (Some d)
    show ?thesis by (rule runs_weaken [OF that(2) [OF Some]]) (use that(1) Some in \<open>simp add: working_def\<close>)
  qed
  have parts: "publish_directory path = directory_path parent" "publish_name path = name"
    unfolding path by (rule path_parts [OF name(2)])+
  show ?thesis
    unfolding publish_def Let_def parts
  proof (intro runs_if refused, goal_cases)
    case 1
    then have plain: "plain_name name" using name(2) by (auto simp: plain_name_def path)
    show ?case
    proof (rule runs_pbind [OF opens])
      show "CHR 0x00 \<notin> set path" using 1 by simp
      fix directory
      show "runs (?R directory)
          (if directory < 0 then ret (Inl state_invalid)
           else
             pbind (call (sys_fstatat fs directory name)) (\<lambda>existing.
             if target_refused existing force
             then pbind (call (sys_close_file fs directory)) (\<lambda>_. ret (Inl state_invalid))
             else
               pbind (open_temporary fs directory 64 sequence) (\<lambda>opened.
               case opened of
                 None \<Rightarrow> pbind (call (sys_close_file fs directory)) (\<lambda>_. ret (Inl state_invalid))
               | Some (descriptor, temporary) \<Rightarrow>
                   publish_temporary fs directory name data force descriptor temporary)))
          ?Q (\<lambda>_. False)"
        by (rule runs_if, rule runs_weaken [OF refused], simp, rule opened, assumption)
          (rule publish_in_directory [OF laws finite name(1) plain])
    qed
  qed
qed

declare split_paired_All [simp] split_paired_Ex [simp]


section \<open>A file system\<close>

text \<open>
  Two directories, the root and \<^verbatim>\<open>/etc\<close>, as an association list of keys and files; the descriptor of a
  directory is its number and 3, that of a file its number and 100.
\<close>

type_synonym demo_world = "((nat \<times> string) \<times> nat) list \<times> (nat \<Rightarrow> string \<times> u32)"

definition fresh_number :: "((nat \<times> string) \<times> nat) list \<Rightarrow> nat" where
  "fresh_number entries = Suc (sum_list (map snd entries))"

definition demo_directory :: "int \<Rightarrow> nat option" where
  "demo_directory fd = (if fd = 3 then Some 0 else if fd = 4 then Some 1 else None)"

definition demo_calls :: "demo_world file_calls" where
  "demo_calls =
     \<lparr>sys_open_directory = (\<lambda>path flags w. (if path = ''/'' then 3 else if path = ''/etc'' then 4 else -1, w)),
      sys_close_file = (\<lambda>fd w. (True, w)),
      sys_fstatat = (\<lambda>fd name w. case map_of (fst w) (nat (fd - 3), name) of
          None \<Rightarrow> (Stat_missing, w)
        | Some i \<Rightarrow> (Stat_found \<lparr>st_mode = 0x8180, st_uid = 0, st_size = int (length (fst (snd w i))),
            st_dev = 1, st_ino = of_nat i\<rparr>, w)),
      sys_openat = (\<lambda>directory name flags mode w.
        if map_of (fst w) (nat (directory - 3), name) \<noteq> None then (Open_exists, w)
        else let i = fresh_number (fst w) in
          (Open_descriptor (int i + 100),
           (AList.update (nat (directory - 3), name) i (fst w), (snd w)(i := ('''', mode))))),
      sys_write = (\<lambda>fd data w.
        let i = nat (fd - 100) in
        (Written (min 2 (length data)), (fst w, (snd w)(i := (fst (snd w i) @ take 2 data, snd (snd w i)))))),
      sys_fsync = (\<lambda>fd w. (True, w)),
      sys_renameat = (\<lambda>directory old new w.
        case map_of (fst w) (nat (directory - 3), old) of
          None \<Rightarrow> (False, w)
        | Some i \<Rightarrow>
            if map_of (fst w) (nat (directory - 3), new) = Some i then (True, w)
            else (True, (AList.delete (nat (directory - 3), old) (AList.update (nat (directory - 3), new) i (fst w)), snd w))),
      sys_linkat = (\<lambda>directory old new w.
        case (map_of (fst w) (nat (directory - 3), old), map_of (fst w) (nat (directory - 3), new)) of
          (Some i, None) \<Rightarrow> (True, (AList.update (nat (directory - 3), new) i (fst w), snd w))
        | _ \<Rightarrow> (False, w)),
      sys_unlinkat = (\<lambda>directory name w. (True, (AList.delete (nat (directory - 3), name) (fst w), snd w))),
      sys_getpid = (\<lambda>w. (7, w))\<rparr>"

definition demo_view :: "demo_world fs_view" where
  "demo_view =
     \<lparr>directory_at = \<lambda>w path. if path = ''/'' then Some 0 else if path = ''/etc'' then Some 1 else None,
      entry = \<lambda>w. map_of (fst w), file_at = snd, opened_directory = \<lambda>w. demo_directory,
      opened_file = \<lambda>w fd. if 100 \<le> fd then Some (nat (fd - 100)) else None\<rparr>"

lemma fresh_file: "fresh_number entries \<notin> ran (map_of entries)"
proof
  assume "fresh_number entries \<in> ran (map_of entries)"
  then obtain k where "(k, fresh_number entries) \<in> set entries"
    by (auto simp: ran_def dest: map_of_SomeD)
  then have "fresh_number entries \<in> set (map snd entries)" by force
  from member_le_sum_list [OF this] show False by (simp add: fresh_number_def)
qed

lemma demo_directory_number: "demo_directory fd = Some d \<Longrightarrow> nat (fd - 3) = d \<and> fd < 100"
  by (auto simp: demo_directory_def split: if_splits)

lemma demo_fs_laws: "fs_laws demo_calls demo_view"
  unfolding fs_laws_def
proof (intro conjI)
  show "open_directory_law demo_calls demo_view"
    by (auto simp: open_directory_law_def demo_calls_def demo_view_def demo_directory_def unchanged_def)
  have "demo_directory (int i + 100) = None" for i by (simp add: demo_directory_def)
  then show "openat_law demo_calls demo_view"
    using fresh_file
    by (auto simp: openat_law_def demo_calls_def demo_view_def Let_def quiet_def unchanged_def update_conv'
        linked_files_def dest: demo_directory_number split: if_splits)
  show "write_law demo_calls demo_view"
    by (auto simp: write_law_def demo_calls_def demo_view_def min_def Let_def split: if_splits)
  show "rename_law demo_calls demo_view"
    by (auto simp: rename_law_def moved_def demo_calls_def demo_view_def update_conv' delete_conv' fun_eq_iff
        dest!: demo_directory_number split: option.splits if_splits)
  show "link_law demo_calls demo_view"
    by (auto simp: link_law_def moved_def demo_calls_def demo_view_def update_conv' dest!: demo_directory_number
        split: option.splits if_splits)
  show "unlink_law demo_calls demo_view"
    by (auto simp: unlink_law_def moved_def demo_calls_def demo_view_def delete_conv' dest!: demo_directory_number)
  show "quiet_laws demo_calls demo_view"
    by (auto simp: quiet_laws_def quiet_def demo_calls_def demo_view_def unchanged_def split: option.splits)
qed

lemma demo_writes_finite: "writes_finite demo_calls (\<lambda>_. 0)"
  by (simp add: writes_finite_def demo_calls_def Let_def)

section \<open>Properties\<close>

text \<open>
  C37. Publishing a file is atomic. The path names a directory and, after its last slash, the file;
  whatever system calls fail, \<^verbatim>\<open>publish\<close> returns, and every name of every directory shows what it showed
  before (contents and permissions), but for two exceptions in that directory: temporary files may be
  left over, and the target may hold exactly the new contents, in a file that is closed to the group and
  to others, and this only with \<open>force\<close> or when there was no target. When \<^verbatim>\<open>publish\<close> reports success
  the target holds the new contents and nothing else has changed.
\<close>

theorem publish_atomic:
  assumes "fs_laws fs v" "writes_finite fs rank"
    and "path = parent @ CHR ''/'' # name" "CHR ''/'' \<notin> set name" "\<not> has_temporary_prefix name"
  shows "\<exists>r w'. publish fs sequence path data force w = Some (Returned r, w') \<and>
     (\<forall>d n. shown v w' (d, n) = shown v w (d, n) \<or>
        directory_at v w (directory_path parent) = Some d \<and>
        (has_temporary_prefix n \<or>
         n = name \<and> holds v w' (d, n) data \<and> (force \<or> shown v w (d, n) = None))) \<and>
     (r = Inr () \<longrightarrow>
        (\<exists>d. directory_at v w (directory_path parent) = Some d \<and> holds v w' (d, name) data \<and>
           (\<forall>k. k \<noteq> (d, name) \<longrightarrow> shown v w' k = shown v w k)))"
proof -
  from runsD [OF publish_concludes [OF assms(1,2,5,4,3)] unchanged_refl]
  obtain r w' where "publish fs sequence path data force w = Some (Returned r, w')" "publication v w parent name data force r w'"
    by blast
  note r = this
  show ?thesis
  proof (cases "directory_at v w (directory_path parent)")
    case None
    then show ?thesis using r shown_unchanged [of v w w'] by (simp add: publication_def)
  next
    case (Some d)
    then have settled: "settled v w d name data force w'" and published: "r = Inr () \<Longrightarrow> published v w d name data force w'"
      using r(2) by (simp_all add: publication_def concluded_def)
    have "shown v w' (d', n) = shown v w (d', n) \<or>
        Some d = Some d' \<and> (has_temporary_prefix n \<or>
          n = name \<and> holds v w' (d', n) data \<and> (force \<or> shown v w (d', n) = None))" for d' n
      using settled [unfolded settled_def, THEN spec, of "(d', n)"] by simp metis
    then show ?thesis
      using r(1) published unfolding Some published_def by blast
  qed
qed

text \<open>A publication that succeeded, and the file that it leaves.\<close>

lemma published_contents:
  assumes "fs_laws fs v" "writes_finite fs rank"
    and "path = parent @ CHR ''/'' # name" "CHR ''/'' \<notin> set name" "\<not> has_temporary_prefix name"
    and "publish fs sequence path data force w = Some (Returned (Inr ()), w')"
  shows "\<exists>d. directory_at v w (directory_path parent) = Some d \<and> holds v w' (d, name) data \<and>
     (\<forall>k. k \<noteq> (d, name) \<longrightarrow> shown v w' k = shown v w k)"
proof -
  from runsD [OF publish_concludes [OF assms(1,2,5,4,3)] unchanged_refl]
  obtain r w1 where "publish fs sequence path data force w = Some (Returned r, w1)" "publication v w parent name data force r w1"
    by blast
  then show ?thesis
    using assms(6) by (auto simp: publication_def concluded_def published_def split: option.splits)
qed

lemma demo_call_results:
  "sys_open_directory demo_calls ''/etc'' open_flags w = (4, w)"
  "sys_close_file demo_calls fd w = (True, w)"
  "map_of (fst w) (1, name) = None \<Longrightarrow> sys_fstatat demo_calls 4 name w = (Stat_missing, w)"
  "map_of (fst w) (1, name) = None \<Longrightarrow> sys_openat demo_calls 4 name open_flags mode w =
     (Open_descriptor (int (fresh_number (fst w)) + 100),
      (AList.update (1, name) (fresh_number (fst w)) (fst w), (snd w)(fresh_number (fst w) := ('''', mode))))"
  "sys_write demo_calls (int i + 100) data w =
     (Written (min 2 (length data)), (fst w, (snd w)(i := (fst (snd w i) @ take 2 data, snd (snd w i)))))"
  "sys_fsync demo_calls fd w = (True, w)"
  "map_of (fst w) (1, old) = Some i \<Longrightarrow> map_of (fst w) (1, new) = None \<Longrightarrow>
     sys_linkat demo_calls 4 old new w = (True, (AList.update (1, new) i (fst w), snd w))"
  "sys_unlinkat demo_calls 4 name w = (True, (AList.delete (1, name) (fst w), snd w))"
  "sys_getpid demo_calls w = (7, w)"
  by (simp_all add: demo_calls_def Let_def)

lemma demo_written:
  "write_loop demo_calls (int i + 100) [a, b] w =
     Some (True, fst w, (snd w)(i := (fst (snd w i) @ [a, b], snd (snd w i))))"
  by (simp add: write_loop.simps [of _ _ "[a, b]"] write_loop.simps [of _ _ "[]"] demo_call_results)

text \<open>A directory with another file, and a file of the same name in the root.\<close>

definition demo_before :: demo_world where
  "demo_before = ([((1, ''other''), 1), ((0, ''c.json''), 2)], \<lambda>_. (''x'', 0x1A4))"

definition demo_after :: "string \<Rightarrow> demo_world" where
  "demo_after data =
     ([((1, ''other''), 1), ((0, ''c.json''), 2), ((1, ''c.json''), 4)], (\<lambda>_. (''x'', 0x1A4))(4 := (data, 0x180)))"

lemma demo_published:
  "publish demo_calls 0 ''/etc/c.json'' [a, b] False demo_before = Some (Returned (Inr ()), demo_after [a, b])"
proof -
  have names: "temporary_name 7 0 \<noteq> ''c.json''" "temporary_name 7 0 \<noteq> ''other''"
    by (simp_all add: temporary_name_def kTemporaryPrefix_def)
  have "64 = Suc 63" by simp
  moreover have "fresh_number [((1, ''other''), 1), ((0, ''c.json''), 2)] = 4" by (simp add: fresh_number_def)
  note fresh = this [simplified]
  ultimately have opened: "open_temporary demo_calls 4 64 0 demo_before =
      Some (Returned (Some (int 4 + 100, temporary_name 7 0)),
        [((1, ''other''), 1), ((0, ''c.json''), 2), ((1, temporary_name 7 0), 4)], (\<lambda>_. (''x'', 0x1A4))(4 := ('''', 0x180)))"
    using names
    by (simp only: open_temporary.simps)
      (simp add: Let_def pbind_def call_def ret_def demo_call_results fresh demo_before_def S_IRUSR_def S_IWUSR_def)
  have target: "publish_directory ''/etc/c.json'' = ''/etc''" "publish_name ''/etc/c.json'' = ''c.json''"
    using path_parts [of "''c.json''" "''/etc''"] by (simp_all add: directory_path_def)
  have missing: "sys_fstatat demo_calls 4 ''c.json'' demo_before = (Stat_missing, demo_before)"
    by (rule demo_call_results) (simp add: demo_before_def)
  show ?thesis
    using names
    by (simp add: Let_def publish_def target opened missing call_def call_partial_def pbind_def ret_def demo_call_results
        target_refused_def publish_temporary_def synchronize_def replace_target_def demo_written [of 4, simplified] demo_after_def)
qed

lemma demo_shown:
  "shown demo_view (demo_after data) (1, ''c.json'') = Some (data, 0x180)"
  "shown demo_view (demo_after data) (0, ''c.json'') = Some (''x'', 0x1A4)"
  by (simp_all add: shown_def demo_view_def demo_after_def)

theorem publish_atomic_witness:
  "holds demo_view (demo_after ''{}'') (1, ''c.json'') ''{}'' \<and>
   shown demo_view (demo_after ''{}'') (0, ''c.json'') = shown demo_view demo_before (0, ''c.json'') \<and>
   shown demo_view (demo_after ''{}'') (1, ''other'') = shown demo_view demo_before (1, ''other'')"
proof -
  have path: "''/etc/c.json'' = ''/etc'' @ CHR ''/'' # ''c.json''" "CHR ''/'' \<notin> set ''c.json''" by simp_all
  have plain: "\<not> has_temporary_prefix ''c.json''"
    by (simp add: has_temporary_prefix_def kTemporaryPrefix_def)
  have directory: "directory_at demo_view demo_before (directory_path ''/etc'') = Some 1"
    by (simp add: demo_view_def directory_path_def)
  from publish_atomic [OF demo_fs_laws demo_writes_finite path plain, of 0 "''{}''" False demo_before]
  show ?thesis unfolding demo_published directory by auto
qed

end
