(* ===== verification/Cb_Command.thy ===== *)
theory Cb_Command
  imports Cb_Initialize Cb_Publish
begin

text \<open>
  The command: \<^verbatim>\<open>src/command.cpp\<close> and \<^verbatim>\<open>src/command.hpp\<close>. A run changes a
  machine: the world behind the system calls, the two streams and what the logger was given. The
  clock, the effective user id and the stream buffer of the output are operations of the world.
\<close>

section \<open>The machine\<close>

record 'w machine =
  mc_world :: 'w
  mc_output :: string
  mc_diagnostics :: string
  mc_log :: "(Facility \<times> Severity \<times> string) list"

text \<open>
  \<open>monotonic_nanoseconds\<close>, \<open>wall_time_unix\<close> and \<open>cancellation_requested\<close> are the operations of the
  class \<^verbatim>\<open>Clock\<close>; \<open>cmd_sputn\<close> is the number of characters the stream buffer accepts.
\<close>

record ('w, 'k) command_env =
  cmd_config :: "'w config_env"
  cmd_openssl :: "'k openssl"
  cmd_files :: "'w file_calls"
  cmd_lstat :: "string \<Rightarrow> 'w \<Rightarrow> u32 option \<times> 'w"
  cmd_geteuid :: "'w \<Rightarrow> u32 \<times> 'w"
  monotonic_nanoseconds :: "'w \<Rightarrow> u64 \<times> 'w"
  wall_time_unix :: "'w \<Rightarrow> int \<times> 'w"
  cancellation_requested :: "'w \<Rightarrow> bool \<times> 'w"
  cmd_sputn :: "string \<Rightarrow> 'w \<Rightarrow> nat \<times> 'w"

definition on_world :: "('w, 'a) prog \<Rightarrow> ('w machine, 'a) prog" where
  "on_world p m =
     (case p (mc_world m) of
        None \<Rightarrow> None
      | Some (r, w) \<Rightarrow> Some (r, m\<lparr>mc_world := w\<rparr>))"

text \<open>\<^verbatim>\<open>output.rdbuf()->sputn(...)\<close>: whether the whole text was accepted.\<close>

definition put_output :: "('w, 'k) command_env \<Rightarrow> string \<Rightarrow> ('w machine, bool) prog" where
  "put_output env s =
     pbind (on_world (call (cmd_sputn env s))) (\<lambda>n m.
       ret (n = length s) (m\<lparr>mc_output := mc_output m @ take n s\<rparr>))"

text \<open>
  What is inserted into the diagnostics stream; the code does not look at the state of that stream.
\<close>

definition put_diagnostics :: "string \<Rightarrow> ('w machine, unit) prog" where
  "put_diagnostics s m = ret () (m\<lparr>mc_diagnostics := mc_diagnostics m @ s\<rparr>)"

definition put_log :: "Facility \<Rightarrow> Severity \<Rightarrow> string \<Rightarrow> ('w machine, unit) prog" where
  "put_log facility severity payload m = ret () (m\<lparr>mc_log := mc_log m @ [(facility, severity, payload)]\<rparr>)"

section \<open>Help\<close>

definition text_lines :: "string list \<Rightarrow> string" where
  "text_lines ls = concat (map (\<lambda>l. l @ [CHR 0x0a]) ls)"

definition kRootHelp :: string where
  "kRootHelp = text_lines
     [''Usage:'',
      ''  credbind-ssh-authorized-keys version'',
      ''  credbind-ssh-authorized-keys config init --policy-input PATH [OPTIONS]'',
      ''  credbind-ssh-authorized-keys config init --deny-all [OPTIONS]'',
      ''  credbind-ssh-authorized-keys config check --config PATH'',
      ''  credbind-ssh-authorized-keys sshd-config render --config PATH --verifier PATH --command-user USER'',
      ''  credbind-ssh-authorized-keys verify --config PATH --user USER --key KEY --key-type TYPE'',
      '''',
      ''Options:'',
      ''  -h, --help  Show help.'']"

definition kVersionHelp :: string where
  "kVersionHelp = text_lines
     [''Usage:'', ''  credbind-ssh-authorized-keys version'', '''', ''Print version metadata as JSON.'']"

definition kConfigHelp :: string where
  "kConfigHelp = text_lines
     [''Usage:'', ''  credbind-ssh-authorized-keys config init --help'',
      ''  credbind-ssh-authorized-keys config check --help'']"

definition kConfigInitHelp :: string where
  "kConfigInitHelp = text_lines
     [''Usage:'',
      ''  credbind-ssh-authorized-keys config init --policy-input PATH [OPTIONS]'',
      ''  credbind-ssh-authorized-keys config init --deny-all [OPTIONS]'',
      '''',
      ''Options:'',
      ''  --policy-input PATH                         Initialize from explicit trust and account policy.'',
      ''  --deny-all                                  Initialize an explicit deny-all policy.'',
      ''  --clock-skew DURATION                       Set verifier clock skew.'',
      ''  --total-verification-deadline DURATION      Set the total verification deadline.'',
      ''  --max-token-bytes INTEGER                   Set the token byte limit.'',
      ''  --max-evidence-bytes INTEGER                Set the evidence byte limit.'',
      ''  --max-ssh-certificate-bytes INTEGER         Set the SSH certificate byte limit.'',
      ''  --max-offered-key-chars INTEGER             Set the offered-key character limit.'',
      ''  --max-authorized-keys-output-chars INTEGER  Set the authorized-keys output limit.'',
      ''  --issuer-key-cache-directory PATH           Set the issuer-key cache directory.'',
      ''  --issuer-key-cache-maximum-freshness DURATION'',
      ''                                               Set the issuer-key cache freshness limit.'',
      ''  --logging-facility FACILITY                 Set the local syslog facility.'',
      ''  --output PATH                               Atomically write instead of using stdout.'',
      ''  --force                                     Replace an existing regular output file.'',
      ''  -h, --help                                  Show help.'']"

definition kConfigCheckHelp :: string where
  "kConfigCheckHelp = text_lines
     [''Usage:'', ''  credbind-ssh-authorized-keys config check --config PATH'', '''',
      ''Validate configuration offline without changing it.'']"

definition kSSHDConfigHelp :: string where
  "kSSHDConfigHelp = text_lines [''Usage:'', ''  credbind-ssh-authorized-keys sshd-config render --help'']"

definition kSSHDConfigRenderHelp :: string where
  "kSSHDConfigRenderHelp = text_lines
     [''Usage:'',
      ''  credbind-ssh-authorized-keys sshd-config render --config PATH --verifier PATH --command-user USER'',
      '''',
      ''Render the minimal OpenSSH AuthorizedKeysCommand fragment without installing it.'']"

definition kVerifyHelp :: string where
  "kVerifyHelp = text_lines
     [''Usage:'',
      ''  credbind-ssh-authorized-keys verify --config PATH --user USER --key KEY --key-type TYPE'',
      '''',
      ''Verify one OpenSSH certificate request. Denial produces empty stdout and exit status 0.'']"

definition help_flag :: "string \<Rightarrow> bool" where
  "help_flag s \<longleftrightarrow> s = ''-h'' \<or> s = ''--help''"

fun help_text :: "string list \<Rightarrow> string option" where
  "help_text [a] = (if help_flag a then Some kRootHelp else None)"
| "help_text [a, b] =
     (if \<not> help_flag b then None
      else if a = ''version'' then Some kVersionHelp
      else if a = ''config'' then Some kConfigHelp
      else if a = ''sshd-config'' then Some kSSHDConfigHelp
      else if a = ''verify'' then Some kVerifyHelp
      else None)"
| "help_text [a, b, c] =
     (if \<not> help_flag c then None
      else if a = ''config'' \<and> b = ''init'' then Some kConfigInitHelp
      else if a = ''config'' \<and> b = ''check'' then Some kConfigCheckHelp
      else if a = ''sshd-config'' \<and> b = ''render'' then Some kSSHDConfigRenderHelp
      else None)"
| "help_text _ = None"

section \<open>Time\<close>

definition kNanosecondsPerMillisecond :: u64 where "kNanosecondsPerMillisecond = 1000000"

definition kMaximumVerificationNanoseconds :: u64 where
  "kMaximumVerificationNanoseconds = 10 * 1000 * kNanosecondsPerMillisecond"

definition elapsed_milliseconds :: "u64 \<Rightarrow> u64 \<Rightarrow> u32" where
  "elapsed_milliseconds ended started =
     (let elapsed = (if ended \<ge> started then (ended - started) div kNanosecondsPerMillisecond else 0)
      in of_nat (unat (min elapsed 4294967295)))"

definition duration :: "('w, 'k) command_env \<Rightarrow> u64 \<Rightarrow> ('w machine, u32) prog" where
  "duration env started =
     pbind (on_world (call (monotonic_nanoseconds env))) (\<lambda>ended. ret (elapsed_milliseconds ended started))"

record Interruption =
  in_triggered :: bool
  in_reason :: ParseErrorKind

definition interrupted :: "('w, 'k) command_env \<Rightarrow> u64 \<Rightarrow> u64 \<Rightarrow> ('w machine, Interruption) prog" where
  "interrupted env started budget =
     pbind (on_world (call (monotonic_nanoseconds env))) (\<lambda>now.
     if now < started then ret \<lparr>in_triggered = True, in_reason = internal_error\<rparr>
     else if now - started \<ge> budget then ret \<lparr>in_triggered = True, in_reason = deadline_exceeded\<rparr>
     else
       pbind (on_world (call (cancellation_requested env))) (\<lambda>cancelled.
       ret (if cancelled then \<lparr>in_triggered = True, in_reason = operation_cancelled\<rparr>
            else \<lparr>in_triggered = False, in_reason = internal_error\<rparr>)))"

section \<open>Audit events\<close>

text \<open>An event that cannot be serialized, or whose serialization throws, is not logged.\<close>

definition emit_verification ::
  "('w, 'k) command_env \<Rightarrow> Facility \<Rightarrow> VerificationEvent \<Rightarrow> ('w machine, unit) prog" where
  "emit_verification env facility event =
     (case serialize_verification (cmd_openssl env) (env_dump (cmd_config env)) event of
        Some (Inr line) \<Rightarrow> put_log facility (se_severity line) (se_payload line)
      | _ \<Rightarrow> ret ())"

definition emit_configuration ::
  "('w, 'k) command_env \<Rightarrow> Facility \<Rightarrow> ConfigurationEvent \<Rightarrow> ('w machine, unit) prog" where
  "emit_configuration env facility event =
     (case serialize_configuration (env_dump (cmd_config env)) event of
        Some (Inr line) \<Rightarrow> put_log facility (se_severity line) (se_payload line)
      | _ \<Rightarrow> ret ())"

definition algorithm_name :: "CallerAlgorithm \<Rightarrow> string" where
  "algorithm_name a = (if a = es256 then ''ES256'' else ''Ed25519'')"

definition acquisition_profile :: "IssuerConfiguration \<Rightarrow> string \<Rightarrow> string" where
  "acquisition_profile policy binding =
     (let profiles = set (ic_acquisition_profiles policy) in
      if binding = kAudienceBinding \<or> binding = kCredBindClaimBinding then
        if ''challenge-bound-workload-v1'' \<in> profiles then ''challenge-bound-workload-v1'' else ''''
      else if binding \<noteq> kOidcNonceBinding then ''''
      else
        case List.filter (\<lambda>candidate. candidate \<in> profiles)
               [''oidc-native-auth-code-v1'', ''oidc-confidential-web-auth-code-v1''] of
          [candidate] \<Rightarrow> candidate
        | _ \<Rightarrow> '''')"

definition identity_claim :: "'k openssl \<Rightarrow> IssuerConfiguration \<Rightarrow> CoreResult \<Rightarrow> string option" where
  "identity_claim ossl policy core =
     (if ic_audit_identity_claim policy = '''' then None
      else
        case core_claims core (ic_audit_identity_claim policy) of
          Some (JString s) \<Rightarrow>
            if s = '''' then None
            else
              (case identity_reference ossl (core_issuer core) (ic_audit_identity_claim policy) s of
                 Inl _ \<Rightarrow> None
               | Inr reference \<Rightarrow> Some reference)
        | _ \<Rightarrow> None)"

definition add_authenticated_audit ::
  "'k openssl \<Rightarrow> VerificationEvent \<Rightarrow> IssuerConfiguration \<Rightarrow> CoreResult \<Rightarrow> VerificationEvent" where
  "add_authenticated_audit ossl event policy core =
     (let event = event\<lparr>ve_issuer_policy := ic_policy_id policy,
            ve_acquisition_profile := acquisition_profile policy (core_binding_profile core),
            ve_binding_profile := core_binding_profile core,
            ve_evidence_profile := core_evidence_profile core,
            ve_caller_algorithm := algorithm_name (ck_algorithm (core_caller_key core))\<rparr>
      in case identity_claim ossl policy core of
           None \<Rightarrow> event
         | Some reference \<Rightarrow> event\<lparr>ve_identity_ref_sha256 := reference\<rparr>)"

type_synonym audited = "(IssuerConfiguration \<times> CoreResult) option"

definition denial_event ::
  "'k openssl \<Rightarrow> string \<Rightarrow> ParseErrorKind \<Rightarrow> u32 \<Rightarrow> audited \<Rightarrow> VerificationEvent" where
  "denial_event ossl requested_user reason ms selected =
     (let event = new_verification_event\<lparr>
            ve_outcome := (if reason = internal_error then verification_error else verification_deny),
            ve_reason := Some reason, ve_duration_ms := ms, ve_requested_user := requested_user\<rparr>
      in case selected of
           None \<Rightarrow> event
         | Some (policy, core) \<Rightarrow> add_authenticated_audit ossl event policy core)"

definition deny_verify ::
  "('w, 'k) command_env \<Rightarrow> string \<Rightarrow> ParseErrorKind \<Rightarrow> Facility \<Rightarrow> u64 \<Rightarrow> audited \<Rightarrow> ('w machine, int) prog" where
  "deny_verify env requested_user reason facility started selected =
     pbind (duration env started) (\<lambda>ms.
     pbind (emit_verification env facility (denial_event (cmd_openssl env) requested_user reason ms selected)) (\<lambda>_.
       ret 0))"

section \<open>Verification\<close>

definition validate_size_bound :: "nat \<Rightarrow> nat \<Rightarrow> unit expected" where
  "validate_size_bound input_size configured_maximum =
     (if configured_maximum = 0 \<or> input_size > configured_maximum then Inl resource_limit else Inr ())"

text \<open>A check for interruption, the denial it leads to, and what follows otherwise.\<close>

definition unless_interrupted ::
  "('w, 'k) command_env \<Rightarrow> u64 \<Rightarrow> u64 \<Rightarrow> (ParseErrorKind \<Rightarrow> ('w machine, 'a) prog) \<Rightarrow> ('w machine, 'a) prog \<Rightarrow>
   ('w machine, 'a) prog" where
  "unless_interrupted env started budget deny continue =
     pbind (interrupted env started budget) (\<lambda>state.
       if in_triggered state then deny (in_reason state) else continue)"

record verify_state =
  vs_successes :: "(nat \<times> CarrierResult) list"
  vs_first_error :: ParseErrorKind
  vs_have_error :: bool
  vs_authenticated :: "(nat \<times> CoreResult) list"

definition new_verify_state :: verify_state where
  "new_verify_state =
     \<lparr>vs_successes = [], vs_first_error = issuer_untrusted, vs_have_error = False, vs_authenticated = []\<rparr>"

definition record_result :: "nat \<Rightarrow> CarrierResult expected \<Rightarrow> CarrierAuditContext \<Rightarrow> verify_state \<Rightarrow> verify_state" where
  "record_result index result context s =
     (case result of
        Inr r \<Rightarrow> s\<lparr>vs_successes := vs_successes s @ [(index, r)]\<rparr>
      | Inl e \<Rightarrow>
          let s = (if \<not> vs_have_error s then s\<lparr>vs_first_error := e, vs_have_error := True\<rparr> else s)
          in (case context of
                None \<Rightarrow> s
              | Some core \<Rightarrow> s\<lparr>vs_authenticated := vs_authenticated s @ [(index, core)]\<rparr>))"

text \<open>The core result that an interruption right after \<^verbatim>\<open>verify_carrier\<close> is audited with.\<close>

definition verified_core :: "CarrierResult expected \<Rightarrow> CarrierAuditContext \<Rightarrow> CoreResult option" where
  "verified_core result context = (case result of Inr r \<Rightarrow> Some (carr_core r) | Inl _ \<Rightarrow> context)"

definition issuer_result ::
  "('w, 'k) command_env \<Rightarrow> Configuration \<Rightarrow> IssuerConfiguration \<Rightarrow> string \<Rightarrow> string \<Rightarrow> string \<Rightarrow> int \<Rightarrow>
   CarrierResult expected \<times> CarrierAuditContext" where
  "issuer_result env cfg policy certificate key_type requested_user now =
     verify_carrier (env_lexer (cmd_config env)) (cmd_openssl env)
       \<lparr>ci_certificate_blob = certificate, ci_key_type_argument = key_type, ci_requested_user = requested_user,
        ci_verification_time_unix = now\<rparr>
       (ic_core_policy policy) (ic_carrier_policy policy) (cfg_accounts cfg) (ic_keys policy)
       \<lparr>max_certificate_bytes = rl_max_ssh_certificate_bytes (cfg_resource_limits cfg),
        max_token_bytes = rl_max_token_bytes (cfg_resource_limits cfg),
        max_principals = 16, max_extensions = 16, max_name_bytes = 256\<rparr>"

text \<open>The loop over the issuers; \<open>Inl\<close> is an exit code.\<close>

fun verify_issuers ::
  "('w, 'k) command_env \<Rightarrow> Configuration \<Rightarrow> u64 \<Rightarrow> string \<Rightarrow> string \<Rightarrow> string \<Rightarrow> nat \<Rightarrow> IssuerConfiguration list \<Rightarrow>
   verify_state \<Rightarrow> ('w machine, int + verify_state) prog" where
  "verify_issuers env cfg started certificate key_type requested_user index [] s = ret (Inr s)"
| "verify_issuers env cfg started certificate key_type requested_user index (policy # policies) s =
     (let deny = (\<lambda>selected reason. pbind (deny_verify env requested_user reason (cfg_facility cfg) started selected)
            (\<lambda>code. ret (Inl code)));
          budget = cfg_total_verification_deadline_nanoseconds cfg
      in unless_interrupted env started budget (deny None)
         (pbind (on_world (call (wall_time_unix env))) (\<lambda>now.
          case issuer_result env cfg policy certificate key_type requested_user now of
            (result, context) \<Rightarrow>
              unless_interrupted env started budget
                (deny (map_option (\<lambda>core. (policy, core)) (verified_core result context)))
                (verify_issuers env cfg started certificate key_type requested_user (index + 1) policies
                  (record_result index result context s)))))"

definition authorized_keys_line :: "CarrierResult \<Rightarrow> string" where
  "authorized_keys_line r =
     ''cert-authority,principals='' @ [CHR 0x22] @ carr_principal r @ [CHR 0x22] @ '' '' @ carr_ca_key_type r @ '' '' @
     carr_ca_public_key_base64 r @ [CHR 0x0a]"

definition allow_event :: "'k openssl \<Rightarrow> string \<Rightarrow> u32 \<Rightarrow> IssuerConfiguration \<Rightarrow> CoreResult \<Rightarrow> VerificationEvent" where
  "allow_event ossl requested_user ms policy core =
     add_authenticated_audit ossl
       (new_verification_event\<lparr>ve_outcome := verification_allow, ve_reason := None, ve_duration_ms := ms,
          ve_requested_user := requested_user\<rparr>) policy core"

definition write_authorization ::
  "('w, 'k) command_env \<Rightarrow> Configuration \<Rightarrow> u64 \<Rightarrow> string \<Rightarrow> IssuerConfiguration \<Rightarrow> CarrierResult \<Rightarrow>
   ('w machine, int) prog" where
  "write_authorization env cfg started requested_user policy r =
     (let deny = (\<lambda>reason. deny_verify env requested_user reason (cfg_facility cfg) started (Some (policy, carr_core r)));
          budget = cfg_total_verification_deadline_nanoseconds cfg; line = authorized_keys_line r
      in unless_interrupted env started budget deny
         (if \<not> has_value (validate_size_bound (length line)
               (rl_max_authorized_keys_output_chars (cfg_resource_limits cfg)))
          then deny resource_limit
          else
            unless_interrupted env started budget deny
              (pbind (put_output env line) (\<lambda>written.
               if \<not> written then deny internal_error
               else
                 pbind (duration env started) (\<lambda>ms.
                 pbind (emit_verification env (cfg_facility cfg)
                   (allow_event (cmd_openssl env) requested_user ms policy (carr_core r))) (\<lambda>_.
                   ret 0))))))"

text \<open>After the loop: exactly one issuer must have authorized the carrier.\<close>

definition conclude_verification ::
  "('w, 'k) command_env \<Rightarrow> Configuration \<Rightarrow> u64 \<Rightarrow> string \<Rightarrow> verify_state \<Rightarrow> ('w machine, int) prog" where
  "conclude_verification env cfg started requested_user s =
     (let deny = (\<lambda>reason selected. deny_verify env requested_user reason (cfg_facility cfg) started selected);
          budget = cfg_total_verification_deadline_nanoseconds cfg
      in unless_interrupted env started budget (\<lambda>reason. deny reason None)
         (case vs_successes s of
            [(index, r)] \<Rightarrow> write_authorization env cfg started requested_user (cfg_trusted_issuers cfg ! index) r
          | successes \<Rightarrow>
              let reason = (if successes \<noteq> [] then issuer_untrusted else vs_first_error s) in
              case (successes, vs_authenticated s) of
                ([], [(index, core)]) \<Rightarrow> deny reason (Some (cfg_trusted_issuers cfg ! index, core))
              | _ \<Rightarrow> deny reason None))"

definition verify_configured ::
  "('w, 'k) command_env \<Rightarrow> Configuration \<Rightarrow> u64 \<Rightarrow> string \<Rightarrow> string \<Rightarrow> string \<Rightarrow> ('w machine, int) prog" where
  "verify_configured env cfg started requested_user encoded_key key_type =
     (let deny = (\<lambda>reason. deny_verify env requested_user reason (cfg_facility cfg) started None);
          budget = cfg_total_verification_deadline_nanoseconds cfg; limits = cfg_resource_limits cfg
      in unless_interrupted env started budget deny
         (if \<not> has_value (validate_size_bound (length encoded_key) (rl_max_offered_key_chars limits))
          then deny resource_limit
          else
            case decode_base64 encoded_key (rl_max_ssh_certificate_bytes limits) of
              Inl e \<Rightarrow> deny e
            | Inr blob \<Rightarrow>
                unless_interrupted env started budget deny
                  (pbind (verify_issuers env cfg started (text_of blob) key_type requested_user 0
                     (cfg_trusted_issuers cfg) new_verify_state) (\<lambda>result.
                   case result of
                     Inl code \<Rightarrow> ret code
                   | Inr s \<Rightarrow> conclude_verification env cfg started requested_user s))))"

text \<open>Path, user, key and key type of a well-formed command line.\<close>

definition verify_arguments :: "string list \<Rightarrow> (string \<times> string \<times> string \<times> string) option" where
  "verify_arguments args =
     (case args of
        [_, a, config_path, b, requested_user, c, encoded_key, d, key_type] \<Rightarrow>
          if a = ''--config'' \<and> b = ''--user'' \<and> c = ''--key'' \<and> d = ''--key-type''
          then Some (config_path, requested_user, encoded_key, key_type) else None
      | _ \<Rightarrow> None)"

definition run_verify :: "('w, 'k) command_env \<Rightarrow> string list \<Rightarrow> ('w machine, int) prog" where
  "run_verify env args =
     pbind (on_world (call (monotonic_nanoseconds env))) (\<lambda>started.
     let deny = (\<lambda>requested_user reason. deny_verify env requested_user reason facility_authpriv started None) in
     unless_interrupted env started kMaximumVerificationNanoseconds (deny '''')
       (case verify_arguments args of
          None \<Rightarrow> deny '''' malformed_input
        | Some (config_path, requested_user, encoded_key, key_type) \<Rightarrow>
            unless_interrupted env started kMaximumVerificationNanoseconds (deny requested_user)
              (pbind (on_world (call (cmd_geteuid env))) (\<lambda>euid.
               pbind (on_world (load_and_validate (cmd_config env) config_path euid)) (\<lambda>configuration.
               case configuration of
                 Inl e \<Rightarrow> deny requested_user e
               | Inr cfg \<Rightarrow> verify_configured env cfg started requested_user encoded_key key_type)))))"

section \<open>The other commands\<close>

definition fail :: "ParseErrorKind \<Rightarrow> ('w machine, int) prog" where
  "fail kind = pbind (put_diagnostics (error_name kind @ [CHR 0x0a])) (\<lambda>_. ret 2)"

text \<open>Writing a text to the output and the exit code that follows.\<close>

definition print_text :: "('w, 'k) command_env \<Rightarrow> string \<Rightarrow> ('w machine, int) prog" where
  "print_text env s = pbind (put_output env s) (\<lambda>written. if written then ret 0 else fail internal_error)"

record init_flags =
  if_options :: InitializationOptions
  if_force :: bool
  if_have_output :: bool
  if_output_path :: string

definition set_init_option :: "string \<Rightarrow> string \<Rightarrow> init_flags \<Rightarrow> init_flags option" where
  "set_init_option flag v f =
     (let options = if_options f in
      if flag = ''--output'' then Some (f\<lparr>if_have_output := True, if_output_path := v\<rparr>)
      else if flag = ''--policy-input'' then Some (f\<lparr>if_options := options\<lparr>opt_policy_input_path := v\<rparr>\<rparr>)
      else if flag = ''--clock-skew'' then Some (f\<lparr>if_options := options\<lparr>opt_clock_skew := v\<rparr>\<rparr>)
      else if flag = ''--total-verification-deadline''
        then Some (f\<lparr>if_options := options\<lparr>opt_total_verification_deadline := v\<rparr>\<rparr>)
      else if flag = ''--max-token-bytes'' then Some (f\<lparr>if_options := options\<lparr>opt_max_token_bytes := v\<rparr>\<rparr>)
      else if flag = ''--max-evidence-bytes'' then Some (f\<lparr>if_options := options\<lparr>opt_max_evidence_bytes := v\<rparr>\<rparr>)
      else if flag = ''--max-ssh-certificate-bytes''
        then Some (f\<lparr>if_options := options\<lparr>opt_max_ssh_certificate_bytes := v\<rparr>\<rparr>)
      else if flag = ''--max-offered-key-chars''
        then Some (f\<lparr>if_options := options\<lparr>opt_max_offered_key_chars := v\<rparr>\<rparr>)
      else if flag = ''--max-authorized-keys-output-chars''
        then Some (f\<lparr>if_options := options\<lparr>opt_max_authorized_keys_output_chars := v\<rparr>\<rparr>)
      else if flag = ''--issuer-key-cache-directory''
        then Some (f\<lparr>if_options := options\<lparr>opt_issuer_key_cache_directory := v\<rparr>\<rparr>)
      else if flag = ''--issuer-key-cache-maximum-freshness''
        then Some (f\<lparr>if_options := options\<lparr>opt_issuer_key_cache_maximum_freshness := v\<rparr>\<rparr>)
      else if flag = ''--logging-facility'' then Some (f\<lparr>if_options := options\<lparr>opt_logging_facility := v\<rparr>\<rparr>)
      else None)"

text \<open>The flags of \<^verbatim>\<open>config init\<close>; \<open>None\<close> is malformed input.\<close>

fun parse_init_flags :: "string list \<Rightarrow> string set \<Rightarrow> init_flags \<Rightarrow> init_flags option" where
  "parse_init_flags [] seen f = Some f"
| "parse_init_flags (flag # rest) seen f =
     (if flag \<in> seen then None
      else if flag = ''--deny-all''
        then parse_init_flags rest (insert flag seen) (f\<lparr>if_options := (if_options f)\<lparr>opt_deny_all := True\<rparr>\<rparr>)
      else if flag = ''--force'' then parse_init_flags rest (insert flag seen) (f\<lparr>if_force := True\<rparr>)
      else
        case rest of
          [] \<Rightarrow> None
        | v # rest \<Rightarrow>
            (case set_init_option flag v f of
               None \<Rightarrow> None
             | Some f \<Rightarrow> parse_init_flags rest (insert flag seen) f))"

definition new_init_flags :: init_flags where
  "new_init_flags =
     \<lparr>if_options = default_initialization_options, if_force = False, if_have_output = False, if_output_path = ''''\<rparr>"

definition unless_cancelled :: "('w, 'k) command_env \<Rightarrow> ('w machine, int) prog \<Rightarrow> ('w machine, int) prog" where
  "unless_cancelled env continue =
     pbind (on_world (call (cancellation_requested env))) (\<lambda>cancelled.
       if cancelled then fail operation_cancelled else continue)"

text \<open>The counter of temporary names starts at 0, and a run publishes once.\<close>

definition run_config_init :: "('w, 'k) command_env \<Rightarrow> string list \<Rightarrow> ('w machine, int) prog" where
  "run_config_init env flags =
     (case parse_init_flags flags {} new_init_flags of
        None \<Rightarrow> fail malformed_input
      | Some f \<Rightarrow>
          if if_force f \<and> \<not> if_have_output f then fail malformed_input
          else
            unless_cancelled env
              (pbind (on_world (call (cmd_geteuid env))) (\<lambda>euid.
               pbind (on_world (initialize (cmd_config env) (if_options f) euid)) (\<lambda>generated.
               case generated of
                 Inl e \<Rightarrow> fail e
               | Inr contents \<Rightarrow>
                   unless_cancelled env
                     (if if_have_output f then
                        pbind (on_world (publish (cmd_files env) 0 (if_output_path f) contents (if_force f))) (\<lambda>published.
                        case published of
                          Inl e \<Rightarrow> fail e
                        | Inr _ \<Rightarrow> ret 0)
                      else print_text env contents)))))"

definition configuration_event :: "ConfigurationOutcome \<Rightarrow> ParseErrorKind option \<Rightarrow> u32 \<Rightarrow> ConfigurationEvent" where
  "configuration_event result reason ms =
     new_configuration_event\<lparr>ce_outcome := result, ce_reason := reason, ce_duration_ms := ms\<rparr>"

definition run_config_check :: "('w, 'k) command_env \<Rightarrow> string \<Rightarrow> ('w machine, int) prog" where
  "run_config_check env path =
     pbind (on_world (call (monotonic_nanoseconds env))) (\<lambda>started.
     pbind (on_world (call (cancellation_requested env))) (\<lambda>cancelled.
     if cancelled then
       pbind (duration env started) (\<lambda>ms.
       pbind (emit_configuration env facility_authpriv
         (configuration_event configuration_error (Some operation_cancelled) ms)) (\<lambda>_.
         fail operation_cancelled))
     else
       pbind (on_world (call (cmd_geteuid env))) (\<lambda>euid.
       pbind (on_world (load_and_validate (cmd_config env) path euid)) (\<lambda>checked.
       pbind (duration env started) (\<lambda>ms.
       pbind (on_world (call (cancellation_requested env))) (\<lambda>cancelled.
       let facility = (case checked of Inl _ \<Rightarrow> facility_authpriv | Inr cfg \<Rightarrow> cfg_facility cfg) in
       if cancelled then
         pbind (emit_configuration env facility
           (configuration_event configuration_error (Some operation_cancelled) ms)) (\<lambda>_.
           fail operation_cancelled)
       else
         (case checked of
            Inr cfg \<Rightarrow>
              pbind (put_output env (''configuration valid'' @ [CHR 0x0a])) (\<lambda>written.
              if written then
                pbind (emit_configuration env facility (configuration_event configuration_valid None ms)) (\<lambda>_. ret 0)
              else
                pbind (emit_configuration env facility
                  (configuration_event configuration_error (Some internal_error) ms)) (\<lambda>_. fail internal_error))
          | Inl e \<Rightarrow>
              pbind (emit_configuration env facility
                (configuration_event (if e = internal_error then configuration_error else configuration_invalid)
                  (Some e) ms)) (\<lambda>_. fail e))))))))"

definition sshd_fragment :: "string \<Rightarrow> string \<Rightarrow> string \<Rightarrow> string" where
  "sshd_fragment config_path verifier user =
     ''AuthorizedKeysCommand '' @ verifier @ '' verify --config '' @ config_path @
     '' --user %u --key %k --key-type %t'' @ [CHR 0x0a] @ ''AuthorizedKeysCommandUser '' @ user @ [CHR 0x0a]"

definition run_render :: "('w, 'k) command_env \<Rightarrow> string \<Rightarrow> string \<Rightarrow> string \<Rightarrow> ('w machine, int) prog" where
  "run_render env config_path verifier user =
     unless_cancelled env
       (pbind (on_world (call (cmd_geteuid env))) (\<lambda>euid.
        pbind (on_world (load_and_validate (cmd_config env) config_path euid)) (\<lambda>checked.
        case checked of
          Inl e \<Rightarrow> fail e
        | Inr _ \<Rightarrow>
            unless_cancelled env
              (pbind (on_world (validate_render_path (cmd_lstat env) config_path True)) (\<lambda>config_ok.
               pbind (on_world (validate_render_path (cmd_lstat env) verifier True)) (\<lambda>verifier_ok.
               case (config_ok, verifier_ok) of
                 (Inl e, _) \<Rightarrow> fail e
               | (Inr _, Inl e) \<Rightarrow> fail e
               | (Inr _, Inr _) \<Rightarrow>
                   if \<not> valid_command_user user then fail malformed_input
                   else print_text env (sshd_fragment config_path verifier user)))))))"

section \<open>Dispatch\<close>

definition run_dispatch :: "('w, 'k) command_env \<Rightarrow> string list \<Rightarrow> ('w machine, int) prog" where
  "run_dispatch env arguments =
     (case help_text arguments of
        Some help \<Rightarrow> print_text env help
      | None \<Rightarrow>
          (case arguments of
             [] \<Rightarrow> fail malformed_input
           | command # rest \<Rightarrow>
               if command = ''verify'' then run_verify env arguments
               else if command = ''config'' \<and> rest \<noteq> [] \<and> hd rest = ''init'' then run_config_init env (tl rest)
               else
                 case rest of
                   [a, b, path] \<Rightarrow>
                     if command = ''config'' \<and> a = ''check'' \<and> b = ''--config'' then run_config_check env path
                     else fail malformed_input
                 | [a, b, path, c, verifier, d, user] \<Rightarrow>
                     if command = ''sshd-config'' \<and> a = ''render'' \<and> b = ''--config'' \<and> c = ''--verifier'' \<and>
                        d = ''--command-user''
                     then run_render env path verifier user
                     else fail malformed_input
                 | _ \<Rightarrow> fail malformed_input))"

text \<open>The value that follows the first \<^verbatim>\<open>--user\<close>, and the exit after an exception.\<close>

fun user_argument :: "string list \<Rightarrow> string" where
  "user_argument (flag # v # rest) = (if flag = ''--user'' then v else user_argument (v # rest))"
| "user_argument _ = ''''"

definition exceptional_exit :: "('w, 'k) command_env \<Rightarrow> string list \<Rightarrow> ('w machine, int) prog" where
  "exceptional_exit env arguments =
     (if arguments \<noteq> [] \<and> hd arguments = ''verify'' then
        pbind (emit_verification env facility_authpriv
          (new_verification_event\<lparr>ve_outcome := verification_error, ve_reason := Some internal_error,
             ve_requested_user := user_argument (tl arguments)\<rparr>)) (\<lambda>_. ret 0)
      else fail internal_error)"

definition run_catching_exceptions :: "('w, 'k) command_env \<Rightarrow> string list \<Rightarrow> ('w machine, int) prog" where
  "run_catching_exceptions env arguments = catching (run_dispatch env arguments) (exceptional_exit env arguments)"

definition run :: "('w, 'k) command_env \<Rightarrow> string list \<Rightarrow> ('w machine, int) prog" where
  "run env arguments = run_catching_exceptions env arguments"

end
