(* ===== verification/Cb_Verify.thy ===== *)
theory Cb_Verify
  imports Cb_Command
begin

text \<open>
  What the \<^verbatim>\<open>verify\<close> command does, whatever the clock, the file system and the output stream
  answer: it exits with 0, writes at most one line, that of the only issuer that authorizes the
  carrier, and leaves one audit record that agrees with what was written.
\<close>

section \<open>Laws\<close>

text \<open>
  Interrupted reads are finite, a set is iterated once over every element, a stream accepts a part
  of what it is given, the JSON writer and SHA-256 succeed on what they are documented for.
\<close>

definition command_laws :: "('w, 'k) command_env \<Rightarrow> ('w \<Rightarrow> nat) \<Rightarrow> bool" where
  "command_laws env rank \<longleftrightarrow>
     interrupts_finite (env_posix (cmd_config env)) rank \<and> set_order_law (cmd_config env) \<and>
     (\<forall>s w n w'. cmd_sputn env s w = (n, w') \<longrightarrow> n \<le> length s)"

definition audit_laws :: "('w, 'k) command_env \<Rightarrow> bool" where
  "audit_laws env \<longleftrightarrow>
     dump_laws (env_dump (cmd_config env)) \<and> (\<forall>input. has_value (digest_sha256 (cmd_openssl env) input))"

section \<open>Records\<close>

definition records :: "('w, 'k) command_env \<Rightarrow> Facility \<Rightarrow> VerificationEvent \<Rightarrow> (Facility \<times> Severity \<times> string) list" where
  "records env facility event =
     (case serialize_verification (cmd_openssl env) (env_dump (cmd_config env)) event of
        Some (Inr line) \<Rightarrow> [(facility, se_severity line, se_payload line)]
      | _ \<Rightarrow> [])"

definition good_event :: "VerificationEvent \<Rightarrow> bool" where
  "good_event event \<longleftrightarrow> admissible_event event \<and> complete_reference event"

lemma records_written:
  assumes "audit_laws env" "good_event event"
  shows "\<exists>payload. records env facility event = [(facility, event_severity event, payload)]"
proof -
  obtain digest where digest: "digest_sha256 (cmd_openssl env) (bytes (ve_requested_user event)) = Inr digest"
    using assms(1) unfolding audit_laws_def has_value_iff by blast
  have dump: "dump_laws (env_dump (cmd_config env))" using assms(1) by (simp add: audit_laws_def)
  obtain line where line:
      "serialize_verification (cmd_openssl env) (env_dump (cmd_config env)) event = Some (Inr line)"
    using serialize_verification_eq [OF dump digest] assms(2) unfolding good_event_def by blast
  then have "se_severity line = event_severity event"
    using serialize_verification_payload verification_payload_bounds by blast
  with line show ?thesis by (simp add: records_def)
qed

lemma runs_emit_verification:
  assumes "\<And>m. P m \<Longrightarrow> Q () (m\<lparr>mc_log := mc_log m @ records env facility event\<rparr>)"
  shows "runs P (emit_verification env facility event) Q E"
  using assms
  by (auto simp: runs_def emit_verification_def records_def put_log_def ret_def split: option.splits sum.splits)

section \<open>Which events are logged\<close>

definition hex_character :: "char \<Rightarrow> bool" where
  "hex_character c \<longleftrightarrow> is_digit c \<or> (CHR ''a'' \<le> c \<and> c \<le> CHR ''f'')"

lemma hex_character:
  assumes "n < 16"
  shows "hex_character (''0123456789abcdef'' ! n)"
proof -
  have "\<forall>n<16. hex_character (''0123456789abcdef'' ! n)" by code_simp
  with assms show ?thesis by blast
qed

lemma lowercase_hex_characters: "list_all hex_character (lowercase_hex digest)"
proof (induction digest)
  case (Cons octet digest)
  have "unat (drop_bit 4 octet) < 16"
    using u8_less [of octet]
    by (simp only: unsigned_drop_bit_eq) (simp add: take_bit_nat_eq_self drop_bit_eq_div div_less_iff_less_mult)
  moreover have "unat (octet AND 0x0f) < 16"
    unfolding and_masks(2) unat_low_bits by simp
  ultimately show ?case
    using Cons hex_character by (simp add: lowercase_hex_def del: nth_Cons_numeral)
qed (simp add: lowercase_hex_def)

lemma lowercase_hex_digest: "digest_sha256 ossl input = Inr digest \<Longrightarrow> lower_hex_digest (lowercase_hex digest)"
  using lowercase_hex_characters [of digest] lowercase_hex_plain [of digest] digest_sha256_length [of ossl input digest]
  by (simp add: lower_hex_digest_def hex_character_def list_all_iff)

lemma identity_claim_digest: "identity_claim ossl policy core = Some s \<Longrightarrow> lower_hex_digest s"
  by (auto simp: identity_claim_def identity_reference_def Let_def split: if_splits option.splits json.splits sum.splits
      intro: lowercase_hex_digest)

text \<open>The profiles of a verified token are profiles the audit logger knows.\<close>

definition known_profiles :: "CoreResult \<Rightarrow> bool" where
  "known_profiles core \<longleftrightarrow>
     core_binding_profile core \<in> {kOidcNonceBinding, kAudienceBinding, kCredBindClaimBinding} \<and>
     core_evidence_profile core \<in> {kStandardEvidence, kGqEvidence}"

lemma validate_policy_profiles:
  "validate_policy input policy = Inr () \<Longrightarrow>
     vi_binding_profile input \<in> {kOidcNonceBinding, kAudienceBinding, kCredBindClaimBinding} \<and>
     vi_evidence_profile input \<in> {kStandardEvidence, kGqEvidence}"
  by (auto simp: validate_policy_def split: if_splits)

lemma issuer_verify_policy: "issuer_verify lexer ossl input policy keys = Inr r \<Longrightarrow> validate_policy input policy = Inr ()"
  by (auto simp: issuer_verify_def ebind_Inr_iff split: if_splits)

lemma verify_tokenE:
  fixes ossl :: "'k openssl"
  assumes "verify_token lexer ossl token policy keys now = Inr core"
  obtains cic :: "'k Cic" and bound payload evidence r where
    "issuer_verify lexer ossl
       \<lparr>vi_evidence_profile = cic_evidence_profile cic, vi_binding_profile = cic_binding_profile cic,
        vi_commitment = bound, vi_issuer_encoded_payload = payload, vi_evidence_representation = evidence,
        vi_verification_time_unix = now\<rparr> (cp_issuer_policy policy) keys = Inr r"
    "core = \<lparr>core_issuer = vr_issuer r, core_claims = vr_claims r, core_caller_key = cic_key cic,
       core_binding_profile = cic_binding_profile cic, core_evidence_profile = cic_evidence_profile cic,
       core_commitment = bound, core_credential_valid_until_unix = vr_credential_valid_until_unix r\<rparr>"
  using assms unfolding verify_token_def Let_def expected_iffs
  by (elim exE conjE) (rule that, assumption, rule sym, erule Inr_inject)

lemma verify_token_profiles:
  assumes "verify_token lexer ossl token policy keys now = Inr core"
  shows "known_profiles core"
proof -
  obtain cic :: "'a Cic" and input r where r: "issuer_verify lexer ossl input (cp_issuer_policy policy) keys = Inr r"
      "vi_evidence_profile input = cic_evidence_profile cic" "vi_binding_profile input = cic_binding_profile cic"
      "core_binding_profile core = cic_binding_profile cic" "core_evidence_profile core = cic_evidence_profile cic"
    by (rule verify_tokenE [OF assms]) (rule that, assumption, simp_all)
  show ?thesis
    using validate_policy_profiles [OF issuer_verify_policy [OF r(1)]] r(2-) by (simp add: known_profiles_def)
qed

lemma authorize_carrier_core:
  "authorize_carrier ossl input policy accounts certificate core = Inr r \<Longrightarrow> carr_core r = core"
  by (auto simp: authorize_carrier_def authorize_account_def Let_def expected_iffs split: option.splits if_splits)

lemma verify_carrier_token_core:
  "verify_carrier_token lexer ossl input core_policy policy keys limits = Inr (certificate, core) \<Longrightarrow>
     verify_token lexer ossl (text_of (cert_token certificate)) core_policy keys (ci_verification_time_unix input) = Inr core"
  by (auto simp: verify_carrier_token_def Let_def expected_iffs)

lemma issuer_result_profiles:
  assumes "issuer_result env cfg policy certificate key_type user now = (result, context)"
    and "verified_core result context = Some core"
  shows "known_profiles core"
proof -
  from assms obtain certificate input core' where
      token: "verify_carrier_token (env_lexer (cmd_config env)) (cmd_openssl env) input (ic_core_policy policy)
        (ic_carrier_policy policy) (ic_keys policy)
        \<lparr>max_certificate_bytes = rl_max_ssh_certificate_bytes (cfg_resource_limits cfg),
         max_token_bytes = rl_max_token_bytes (cfg_resource_limits cfg),
         max_principals = 16, max_extensions = 16, max_name_bytes = 256\<rparr> = Inr (certificate, core')"
      "context = Some core'" "\<And>r. result = Inr r \<Longrightarrow> carr_core r = core'"
    by (auto simp: issuer_result_def verify_carrier_def verified_core_def split: sum.splits dest: authorize_carrier_core)
  have "core = core'" using token(2,3) assms(2) by (cases result) (auto simp: verified_core_def)
  then show ?thesis using verify_token_profiles [OF verify_carrier_token_core [OF token(1)]] by simp
qed

lemma binding_names: "kOidcNonceBinding = ''oidc-nonce-v1''" "kAudienceBinding = ''audience-v1''"
  "kCredBindClaimBinding = ''credbind-claim-v1''" "kStandardEvidence = ''standard-jws-v1''" "kGqEvidence = ''gq-rs256-v1''"
  by (simp_all add: kOidcNonceBinding_def kAudienceBinding_def kCredBindClaimBinding_def kStandardEvidence_def kGqEvidence_def)

lemma acquisition_profile_enum:
  "acquisition_profile policy binding \<in>
     {'''', ''oidc-native-auth-code-v1'', ''oidc-confidential-web-auth-code-v1'', ''challenge-bound-workload-v1''}"
  by (simp add: acquisition_profile_def Let_def)

definition audited_ok :: "audited \<Rightarrow> bool" where
  "audited_ok selected \<longleftrightarrow>
     (\<forall>policy core. selected = Some (policy, core) \<longrightarrow> config_valid_policy_id (ic_policy_id policy) \<and> known_profiles core)"

lemma audited_event_good:
  assumes "consistent_outcome event" "config_valid_policy_id (ic_policy_id policy)" "known_profiles core"
    and "ve_identity_ref_sha256 event = ''''"
  shows "good_event (add_authenticated_audit ossl event policy core)"
proof -
  have policy: "ic_policy_id policy \<noteq> ''''" "audit_valid_policy_id (ic_policy_id policy)"
    using assms(2) by (auto simp: config_valid_policy_id_def audit_valid_policy_id_def split: if_splits)
  have empty: "lower_hex_digest ''''" by (simp add: lower_hex_digest_def)
  show ?thesis
    using assms acquisition_profile_enum [of policy "core_binding_profile core"] policy empty
    unfolding good_event_def admissible_event_def complete_reference_def add_authenticated_audit_def Let_def
      known_profiles_def binding_names consistent_outcome_def ascii_enum_def algorithm_name_def
    by (cases "identity_claim ossl policy core") (auto dest: identity_claim_digest)
qed

lemma denial_event_good:
  assumes "audited_ok selected"
  shows "good_event (denial_event ossl user reason ms selected)"
proof (cases selected)
  case None
  then show ?thesis
    by (simp add: denial_event_def new_verification_event_def good_event_def admissible_event_def complete_reference_def
        consistent_outcome_def ascii_enum_def audit_valid_policy_id_def lower_hex_digest_def)
next
  case (Some p)
  obtain policy core where p: "p = (policy, core)" by fastforce
  have "good_event (add_authenticated_audit ossl
     (new_verification_event\<lparr>ve_outcome := (if reason = internal_error then verification_error else verification_deny),
            ve_reason := Some reason, ve_duration_ms := ms, ve_requested_user := user\<rparr>) policy core)"
    using assms Some p
    by (intro audited_event_good) (auto simp: consistent_outcome_def new_verification_event_def audited_ok_def)
  then show ?thesis by (simp add: denial_event_def Some p)
qed

lemma denial_event_outcome: "ve_outcome (denial_event ossl user reason ms selected) \<noteq> verification_allow"
  by (auto simp: denial_event_def add_authenticated_audit_def Let_def new_verification_event_def split: option.splits)

lemma allow_event_good:
  "config_valid_policy_id (ic_policy_id policy) \<Longrightarrow> known_profiles core \<Longrightarrow> good_event (allow_event ossl user ms policy core)"
  unfolding allow_event_def
  by (rule audited_event_good) (auto simp: consistent_outcome_def new_verification_event_def)

lemma allow_event_outcome: "ve_outcome (allow_event ossl user ms policy core) = verification_allow"
  by (auto simp: allow_event_def add_authenticated_audit_def Let_def new_verification_event_def split: option.splits)

section \<open>The stages of a verification\<close>

definition issuer_results ::
  "('w, 'k) command_env \<Rightarrow> Configuration \<Rightarrow> string \<Rightarrow> string \<Rightarrow> string \<Rightarrow> int list \<Rightarrow>
   (CarrierResult expected \<times> CarrierAuditContext) list" where
  "issuer_results env cfg certificate key_type user nows =
     map2 (\<lambda>policy now. issuer_result env cfg policy certificate key_type user now) (cfg_trusted_issuers cfg) nows"

text \<open>Readings of the clock.\<close>

definition clock_readings :: "('w, 'k) command_env \<Rightarrow> int list \<Rightarrow> bool" where
  "clock_readings env nows \<longleftrightarrow> set nows \<subseteq> range (\<lambda>w. fst (wall_time_unix env w))"

text \<open>
  \<open>r\<close> is the decision on the carrier of the command line: a well-formed configuration was loaded
  and, each at the time the clock showed, one of its issuers decides \<open>r\<close> and every other refuses.
\<close>

definition authorized :: "('w, 'k) command_env \<Rightarrow> string list \<Rightarrow> CarrierResult \<Rightarrow> bool" where
  "authorized env args r \<longleftrightarrow>
     (\<exists>config_path user key key_type cfg euid w w' blob nows index.
        verify_arguments args = Some (config_path, user, key, key_type) \<and>
        load_and_validate (cmd_config env) config_path euid w = Some (Returned (Inr cfg), w') \<and> configuration_wf cfg \<and>
        length key \<le> rl_max_offered_key_chars (cfg_resource_limits cfg) \<and>
        decode_base64 key (rl_max_ssh_certificate_bytes (cfg_resource_limits cfg)) = Inr blob \<and>
        clock_readings env nows \<and> length nows = length (cfg_trusted_issuers cfg) \<and> index < length nows \<and>
        (let results = issuer_results env cfg (text_of blob) key_type user nows in
         fst (results ! index) = Inr r \<and>
         (\<forall>other<length nows. other \<noteq> index \<longrightarrow> \<not> has_value (fst (results ! other)))) \<and>
        length (authorized_keys_line r) \<le> rl_max_authorized_keys_output_chars (cfg_resource_limits cfg))"

definition fresh :: "'w machine \<Rightarrow> 'w machine \<Rightarrow> bool" where
  "fresh m0 m \<longleftrightarrow> mc_output m = mc_output m0 \<and> mc_diagnostics m = mc_diagnostics m0 \<and> mc_log m = mc_log m0"

text \<open>Nothing written, or a part of an authorized line that the stream did not take whole.\<close>

definition incomplete :: "('w, 'k) command_env \<Rightarrow> string list \<Rightarrow> 'w machine \<Rightarrow> 'w machine \<Rightarrow> bool" where
  "incomplete env args m0 m \<longleftrightarrow>
     mc_output m = mc_output m0 \<or>
     (\<exists>r n. authorized env args r \<and> n < length (authorized_keys_line r) \<and>
        mc_output m = mc_output m0 @ take n (authorized_keys_line r))"

definition pending :: "('w, 'k) command_env \<Rightarrow> string list \<Rightarrow> 'w machine \<Rightarrow> 'w machine \<Rightarrow> bool" where
  "pending env args m0 m \<longleftrightarrow>
     incomplete env args m0 m \<and> mc_diagnostics m = mc_diagnostics m0 \<and> mc_log m = mc_log m0"

definition verified :: "('w, 'k) command_env \<Rightarrow> string list \<Rightarrow> 'w machine \<Rightarrow> int \<Rightarrow> 'w machine \<Rightarrow> bool" where
  "verified env args m0 code m \<longleftrightarrow>
     code = 0 \<and> mc_diagnostics m = mc_diagnostics m0 \<and>
     (\<exists>facility event. mc_log m = mc_log m0 @ records env facility event \<and> good_event event \<and>
        (if ve_outcome event = verification_allow
         then \<exists>r. authorized env args r \<and> mc_output m = mc_output m0 @ authorized_keys_line r
         else incomplete env args m0 m))"

lemma fresh_pending: "fresh m0 m \<Longrightarrow> pending env args m0 m"
  by (simp add: fresh_def pending_def incomplete_def)

text \<open>Conditions on the streams and the log only.\<close>

definition streams_only :: "('w machine \<Rightarrow> bool) \<Rightarrow> bool" where
  "streams_only P \<longleftrightarrow> (\<forall>m w. P m \<longrightarrow> P (m\<lparr>mc_world := w\<rparr>))"

lemma streams_only_stages: "streams_only (fresh m0)" "streams_only (pending env args m0)"
  by (simp_all add: streams_only_def fresh_def pending_def incomplete_def)

lemma runs_on_world:
  assumes "runs (\<lambda>_. True) p (\<lambda>x _. R x) (\<lambda>_. False)" "streams_only P"
  shows "runs P (on_world p) (\<lambda>x m. P m \<and> R x) (\<lambda>_. False)"
  unfolding runs_def
proof (intro allI impI)
  fix m
  assume m: "P m"
  obtain x w where "p (mc_world m) = Some (Returned x, w)" "R x"
    by (rule runsD [OF assms(1) TrueI, of "mc_world m"]) auto
  then show "\<exists>r m'. on_world p m = Some (r, m') \<and> (case r of Returned x \<Rightarrow> P m' \<and> R x | Thrown \<Rightarrow> False)"
    using m assms(2) by (auto simp: on_world_def streams_only_def)
qed

lemma runs_world_call:
  assumes "streams_only P" "\<And>x. runs P (f x) Q (\<lambda>_. False)"
  shows "runs P (pbind (on_world (call g)) f) Q (\<lambda>_. False)"
proof (rule runs_pbind)
  show "runs P (on_world (call g)) (\<lambda>_. P) (\<lambda>_. False)"
    using runs_on_world [OF runs_call [where f = g and Q = "\<lambda>_ _. True"] assms(1)]
    by (rule runs_consequence) simp_all
qed (rule assms(2))

lemma runs_world_call_range:
  assumes "streams_only P" "\<And>x. x \<in> range (\<lambda>w. fst (g w)) \<Longrightarrow> runs P (f x) Q (\<lambda>_. False)"
  shows "runs P (pbind (on_world (call g)) f) Q (\<lambda>_. False)"
proof (rule runs_pbind)
  show "runs P (on_world (call g)) (\<lambda>x m. P m \<and> x \<in> range (\<lambda>w. fst (g w))) (\<lambda>_. False)"
    by (rule runs_on_world [OF runs_call assms(1)]) (metis fst_conv rangeI)
  show "runs (\<lambda>m. P m \<and> x \<in> range (\<lambda>w. fst (g w))) (f x) Q (\<lambda>_. False)" for x
    using assms(2) [of x] unfolding runs_def by blast
qed

lemma runs_interrupted:
  assumes "streams_only P"
  shows "runs P (interrupted env started budget) (\<lambda>_. P) (\<lambda>_. False)"
  unfolding interrupted_def by (intro runs_world_call [OF assms] runs_if runs_ret)

lemma runs_unless_interrupted:
  assumes "streams_only P" "\<And>reason. runs P (deny reason) Q (\<lambda>_. False)" "runs P continue Q (\<lambda>_. False)"
  shows "runs P (unless_interrupted env started budget deny continue) Q (\<lambda>_. False)"
  unfolding unless_interrupted_def
  by (rule runs_pbind [OF runs_interrupted [OF assms(1)]]) (auto intro: assms(2,3))

lemma runs_duration:
  assumes "streams_only P"
  shows "runs P (duration env started) (\<lambda>_. P) (\<lambda>_. False)"
  unfolding duration_def by (intro runs_world_call [OF assms] runs_ret)

lemma runs_deny:
  assumes "audited_ok selected"
  shows "runs (pending env args m0) (deny_verify env user reason facility started selected) (verified env args m0) (\<lambda>_. False)"
  unfolding deny_verify_def
proof (rule runs_pbind [OF runs_duration [OF streams_only_stages(2)]], rule runs_pbind [OF runs_emit_verification])
  fix ms m
  assume "pending env args m0 m"
  then show "verified env args m0 0 (m\<lparr>mc_log := mc_log m @
      records env facility (denial_event (cmd_openssl env) user reason ms selected)\<rparr>)"
    using denial_event_good [OF assms, of "cmd_openssl env" user reason ms]
    unfolding verified_def pending_def incomplete_def
    by (intro conjI exI [of _ facility] exI [of _ "denial_event (cmd_openssl env) user reason ms selected"])
      (auto simp: denial_event_outcome)
qed (rule runs_ret)

lemma runs_deny_fresh:
  assumes "audited_ok selected"
  shows "runs (fresh m0) (deny_verify env user reason facility started selected) (verified env args m0) (\<lambda>_. False)"
  by (rule runs_consequence [OF runs_deny [OF assms]]) (auto intro: fresh_pending)

lemma audited_ok_None [simp]: "audited_ok None"
  by (simp add: audited_ok_def)

text \<open>The end: one issuer authorized the carrier.\<close>

lemma write_authorization_verified:
  assumes laws: "command_laws env rank" and policy: "audited_ok (Some (policy, carr_core r))"
    and r: "length (authorized_keys_line r) \<le> rl_max_authorized_keys_output_chars (cfg_resource_limits cfg) \<Longrightarrow>
      authorized env args r"
  shows "runs (fresh m0) (write_authorization env cfg started user policy r) (verified env args m0) (\<lambda>_. False)"
proof -
  let ?line = "authorized_keys_line r"
  note unless = runs_unless_interrupted [OF streams_only_stages(1) runs_deny_fresh [OF policy]]
  have accepted: "runs (\<lambda>m. mc_output m = mc_output m0 @ ?line \<and> mc_diagnostics m = mc_diagnostics m0 \<and> mc_log m = mc_log m0)
      (pbind (duration env started) (\<lambda>ms.
       pbind (emit_verification env (cfg_facility cfg) (allow_event (cmd_openssl env) user ms policy (carr_core r))) (\<lambda>_.
         ret 0)))
      (verified env args m0) (\<lambda>_. False)" (is "runs ?P _ _ _") if "authorized env args r"
  proof (rule runs_pbind [OF runs_duration], goal_cases)
    case (2 ms)
    let ?event = "allow_event (cmd_openssl env) user ms policy (carr_core r)"
    have "good_event ?event"
      using policy by (simp add: audited_ok_def allow_event_good)
    then have "verified env args m0 0 (m\<lparr>mc_log := mc_log m @ records env (cfg_facility cfg) ?event\<rparr>)" if "?P m" for m
      using that \<open>authorized env args r\<close> unfolding verified_def
      by (intro conjI exI [of _ "cfg_facility cfg"] exI [of _ ?event]) (auto simp: allow_event_outcome)
    then show ?case
      by (intro runs_pbind [OF runs_emit_verification] runs_ret)
  qed (simp add: streams_only_def)
  have put: "runs (fresh m0) (put_output env ?line)
      (\<lambda>written. if written then ?P else pending env args m0) (\<lambda>_. False)" if a: "authorized env args r"
    unfolding put_output_def
  proof (rule runs_pbind)
    show "runs (fresh m0) (on_world (call (cmd_sputn env ?line))) (\<lambda>n m. fresh m0 m \<and> n \<le> length ?line) (\<lambda>_. False)"
      using laws by (intro runs_on_world [OF runs_call] streams_only_stages) (auto simp: command_laws_def)
    show "runs (\<lambda>m. fresh m0 m \<and> n \<le> length ?line) (\<lambda>m. ret (n = length ?line) (m\<lparr>mc_output := mc_output m @ take n ?line\<rparr>))
        (\<lambda>written. if written then ?P else pending env args m0) (\<lambda>_. False)" for n
    proof (cases "n < length ?line")
      case True
      then show ?thesis using a by (auto simp: runs_def ret_def fresh_def pending_def incomplete_def)
    next
      case False
      then show ?thesis by (auto simp: runs_def ret_def fresh_def)
    qed
  qed
  show ?thesis
    unfolding write_authorization_def Let_def
  proof (rule unless, rule runs_if [OF runs_deny_fresh [OF policy]], rule unless)
    assume "\<not> \<not> has_value (validate_size_bound (length ?line) (rl_max_authorized_keys_output_chars (cfg_resource_limits cfg)))"
    then have a: "authorized env args r" using r by (simp add: validate_size_bound_def split: if_splits)
    show "runs (fresh m0)
        (pbind (put_output env ?line) (\<lambda>written.
          if \<not> written then deny_verify env user internal_error (cfg_facility cfg) started (Some (policy, carr_core r))
          else pbind (duration env started) (\<lambda>ms.
            pbind (emit_verification env (cfg_facility cfg) (allow_event (cmd_openssl env) user ms policy (carr_core r))) (\<lambda>_.
              ret 0))))
        (verified env args m0) (\<lambda>_. False)"
      using accepted [OF a] runs_deny [OF policy] by (intro runs_pbind [OF put [OF a]]) auto
  qed
qed

text \<open>The loop: its state is determined by the results of the issuers.\<close>

fun collected :: "nat \<Rightarrow> (CarrierResult expected \<times> CarrierAuditContext) list \<Rightarrow> verify_state \<Rightarrow> verify_state" where
  "collected index [] s = s"
| "collected index ((result, audit) # results) s = collected (index + 1) results (record_result index result audit s)"

lemma collected_successes:
  "(i, r) \<in> set (vs_successes (collected index results s)) \<longleftrightarrow>
     (i, r) \<in> set (vs_successes s) \<or> (\<exists>k<length results. i = index + k \<and> fst (results ! k) = Inr r)"
proof (induction index results s rule: collected.induct)
  case (2 index result audit results s)
  have "(\<exists>k<Suc (length results). i = index + k \<and> fst (((result, audit) # results) ! k) = Inr r) \<longleftrightarrow>
      i = index \<and> result = Inr r \<or> (\<exists>k<length results. i = index + 1 + k \<and> fst (results ! k) = Inr r)"
    unfolding Ex_less_Suc2 by simp
  moreover have "(i, r) \<in> set (vs_successes (record_result index result audit s)) \<longleftrightarrow>
      (i, r) \<in> set (vs_successes s) \<or> i = index \<and> result = Inr r"
    by (cases result) (auto simp: record_result_def Let_def split: option.splits)
  ultimately show ?case using 2 by simp
qed simp

lemma collected_authenticated:
  "(i, core) \<in> set (vs_authenticated (collected index results s)) \<Longrightarrow>
     (i, core) \<in> set (vs_authenticated s) \<or>
     (\<exists>k<length results. i = index + k \<and> snd (results ! k) = Some core \<and> \<not> has_value (fst (results ! k)))"
proof (induction index results s rule: collected.induct)
  case (2 index result audit results s)
  have "(i, core) \<in> set (vs_authenticated (record_result index result audit s)) \<Longrightarrow>
      (i, core) \<in> set (vs_authenticated s) \<or> i = index \<and> audit = Some core \<and> \<not> has_value result"
    by (cases result) (auto simp: record_result_def Let_def split: option.splits if_splits)
  with 2 show ?case
    by (fastforce intro: exI [of _ "0 :: nat"] exI [of _ "Suc k" for k])
qed simp

lemma verify_issuers_stages:
  assumes laws: "command_laws env rank"
    and policies: "list_all (\<lambda>policy. config_valid_policy_id (ic_policy_id policy)) policies"
  shows "runs (fresh m0) (verify_issuers env cfg started certificate key_type user index policies s)
     (\<lambda>result m. case result of
        Inl code \<Rightarrow> verified env args m0 code m
      | Inr s' \<Rightarrow> fresh m0 m \<and> (\<exists>nows. clock_readings env nows \<and> length nows = length policies \<and>
          s' = collected index (map2 (\<lambda>policy now. issuer_result env cfg policy certificate key_type user now) policies nows) s))
     (\<lambda>_. False)"
  using policies
proof (induction policies arbitrary: index s)
  case (Cons policy policies)
  let ?Q = "\<lambda>result m. case result of
        Inl code \<Rightarrow> verified env args m0 code m
      | Inr s' \<Rightarrow> fresh m0 m \<and> (\<exists>nows. clock_readings env nows \<and> length nows = length (policy # policies) \<and>
          s' = collected index (map2 (\<lambda>policy now. issuer_result env cfg policy certificate key_type user now) (policy # policies) nows) s)"
  have deny: "runs (fresh m0)
      (pbind (deny_verify env user reason (cfg_facility cfg) started selected) (\<lambda>code. ret (Inl code))) ?Q (\<lambda>_. False)"
    if "audited_ok selected" for reason selected
    by (rule runs_pbind [OF runs_deny_fresh [OF that]], rule runs_ret) simp
  have issuer: "runs (fresh m0)
      (case issuer_result env cfg policy certificate key_type user now of (result, audit) \<Rightarrow>
         unless_interrupted env started (cfg_total_verification_deadline_nanoseconds cfg)
           (\<lambda>reason. pbind (deny_verify env user reason (cfg_facility cfg) started
              (map_option (\<lambda>core. (policy, core)) (verified_core result audit))) (\<lambda>code. ret (Inl code)))
           (verify_issuers env cfg started certificate key_type user (index + 1) policies (record_result index result audit s)))
      ?Q (\<lambda>_. False)" if now: "now \<in> range (\<lambda>w. fst (wall_time_unix env w))" for now
  proof -
    obtain result audit where r: "issuer_result env cfg policy certificate key_type user now = (result, audit)"
      by fastforce
    have "audited_ok (map_option (\<lambda>core. (policy, core)) (verified_core result audit))"
      using issuer_result_profiles [OF r] Cons.prems by (auto simp: audited_ok_def)
    moreover have "runs (fresh m0)
        (verify_issuers env cfg started certificate key_type user (index + 1) policies (record_result index result audit s))
        ?Q (\<lambda>_. False)"
    proof (rule runs_consequence [OF Cons.IH])
      fix x m
      assume "case x of
          Inl code \<Rightarrow> verified env args m0 code m
        | Inr s' \<Rightarrow> fresh m0 m \<and> (\<exists>nows. clock_readings env nows \<and> length nows = length policies \<and>
            s' = collected (index + 1) (map2 (\<lambda>policy now. issuer_result env cfg policy certificate key_type user now) policies nows)
              (record_result index result audit s))"
      then show "?Q x m"
      proof (cases x)
        case (Inr s')
        assume "case x of
            Inl code \<Rightarrow> verified env args m0 code m
          | Inr s' \<Rightarrow> fresh m0 m \<and> (\<exists>nows. clock_readings env nows \<and> length nows = length policies \<and>
              s' = collected (index + 1) (map2 (\<lambda>policy now. issuer_result env cfg policy certificate key_type user now) policies nows)
                (record_result index result audit s))"
        with Inr obtain nows where "fresh m0 m" "clock_readings env nows" "length nows = length policies"
            "s' = collected (index + 1) (map2 (\<lambda>policy now. issuer_result env cfg policy certificate key_type user now) policies nows)
                (record_result index result audit s)"
          by auto
        then show ?thesis using Inr r now by (auto simp: clock_readings_def intro!: exI [of _ "now # nows"])
      qed simp
    qed (use Cons.prems in auto)
    ultimately show ?thesis
      unfolding r prod.case by (intro runs_unless_interrupted [OF streams_only_stages(1)] deny)
  qed
  show ?case
    unfolding verify_issuers.simps Let_def
    by (intro runs_unless_interrupted [OF streams_only_stages(1)] runs_world_call_range [OF streams_only_stages(1)] deny issuer)
      simp_all
qed (auto simp: clock_readings_def intro: runs_ret)

text \<open>The only success of the loop is an authorization.\<close>

lemma single_success:
  assumes "vs_successes (collected 0 results new_verify_state) = [(index, r)]"
  shows "index < length results" "fst (results ! index) = Inr r"
    "\<And>other. other < length results \<Longrightarrow> other \<noteq> index \<Longrightarrow> \<not> has_value (fst (results ! other))"
proof -
  have s: "(i, r') = (index, r) \<longleftrightarrow> i < length results \<and> fst (results ! i) = Inr r'" for i r'
    using collected_successes [of i r' 0 results new_verify_state] assms by (auto simp: new_verify_state_def)
  show "index < length results" "fst (results ! index) = Inr r" using s [of index r] by simp_all
  show "\<not> has_value (fst (results ! other))" if "other < length results" "other \<noteq> index" for other
    using s [of other] that by (auto simp: has_value_iff)
qed

lemma single_authenticated:
  assumes "vs_authenticated (collected 0 results new_verify_state) = [(index, core)]"
  shows "index < length results" "verified_core (fst (results ! index)) (snd (results ! index)) = Some core"
proof -
  have "(index, core) \<in> set (vs_authenticated (collected 0 results new_verify_state))" using assms by simp
  from collected_authenticated [OF this]
  show "index < length results" "verified_core (fst (results ! index)) (snd (results ! index)) = Some core"
    by (auto simp: new_verify_state_def verified_core_def has_value_iff split: sum.splits)
qed

lemma issuer_results_nth:
  "length nows = length (cfg_trusted_issuers cfg) \<Longrightarrow> i < length nows \<Longrightarrow>
     issuer_results env cfg certificate key_type user nows ! i =
       issuer_result env cfg (cfg_trusted_issuers cfg ! i) certificate key_type user (nows ! i)"
  by (simp add: issuer_results_def)

lemma conclude_verification_verified:
  assumes laws: "command_laws env rank"
    and ids: "list_all (\<lambda>policy. config_valid_policy_id (ic_policy_id policy)) (cfg_trusted_issuers cfg)"
    and nows: "length nows = length (cfg_trusted_issuers cfg)"
    and s: "s = collected 0 (issuer_results env cfg certificate key_type user nows) new_verify_state"
    and authorized: "\<And>index r. index < length nows \<Longrightarrow>
      fst (issuer_results env cfg certificate key_type user nows ! index) = Inr r \<Longrightarrow>
      (\<And>other. other < length nows \<Longrightarrow> other \<noteq> index \<Longrightarrow>
         \<not> has_value (fst (issuer_results env cfg certificate key_type user nows ! other))) \<Longrightarrow>
      length (authorized_keys_line r) \<le> rl_max_authorized_keys_output_chars (cfg_resource_limits cfg) \<Longrightarrow>
      authorized env args r"
  shows "runs (fresh m0) (conclude_verification env cfg started user s) (verified env args m0) (\<lambda>_. False)"
proof -
  let ?results = "issuer_results env cfg certificate key_type user nows"
  have len: "length ?results = length nows" using nows by (simp add: issuer_results_def)
  have audited: "audited_ok (Some (cfg_trusted_issuers cfg ! i, core))"
    if "i < length nows" "verified_core (fst (?results ! i)) (snd (?results ! i)) = Some core" for i core
  proof -
    have "config_valid_policy_id (ic_policy_id (cfg_trusted_issuers cfg ! i))"
      using ids that(1) nows by (simp add: list_all_length)
    moreover have "known_profiles core"
      using that issuer_result_profiles [of env cfg _ certificate key_type user _ "fst (?results ! i)" "snd (?results ! i)"]
      unfolding issuer_results_nth [OF nows that(1)] by simp
    ultimately show ?thesis by (simp add: audited_ok_def)
  qed
  have deny: "runs (fresh m0) (deny_verify env user reason (cfg_facility cfg) started None) (verified env args m0) (\<lambda>_. False)"
    for reason by (rule runs_deny_fresh) simp
  have none: "runs (fresh m0)
      (case ([], vs_authenticated s) of
         ([], [(index, core)]) \<Rightarrow>
           deny_verify env user reason (cfg_facility cfg) started (Some (cfg_trusted_issuers cfg ! index, core))
       | _ \<Rightarrow> deny_verify env user reason (cfg_facility cfg) started None) (verified env args m0) (\<lambda>_. False)" for reason
  proof -
    have "audited_ok (Some (cfg_trusted_issuers cfg ! index, core))" if "vs_authenticated s = [(index, core)]" for index core
      using single_authenticated [of ?results index core] that audited len s by simp
    then show ?thesis using deny by (auto split: list.splits intro: runs_deny_fresh)
  qed
  have one: "runs (fresh m0) (write_authorization env cfg started user (cfg_trusted_issuers cfg ! index) r)
      (verified env args m0) (\<lambda>_. False)" if "vs_successes s = [(index, r)]" for index r
  proof (rule write_authorization_verified [OF laws])
    note success = single_success [of ?results index r, folded s, OF that, unfolded len]
    show "audited_ok (Some (cfg_trusted_issuers cfg ! index, carr_core r))"
      using audited [OF success(1)] success(2) by (simp add: verified_core_def)
    show "authorized env args r"
      if "length (authorized_keys_line r) \<le> rl_max_authorized_keys_output_chars (cfg_resource_limits cfg)"
      using authorized [OF success that] .
  qed
  note unless = runs_unless_interrupted [OF streams_only_stages(1) deny]
  show ?thesis
  proof (cases "vs_successes s")
    case Nil
    show ?thesis
      unfolding conclude_verification_def Let_def Nil
      using none [of "vs_first_error s"] by (intro unless) simp
  next
    case (Cons p rest)
    show ?thesis
      unfolding conclude_verification_def Let_def Cons
      using one deny Cons by (intro unless) (cases p; cases rest; auto)
  qed
qed

section \<open>The command\<close>

lemma verify_configured_verified:
  assumes laws: "command_laws env rank" and wf: "configuration_wf cfg"
    and args: "verify_arguments args = Some (config_path, user, key, key_type)"
    and loaded: "load_and_validate (cmd_config env) config_path euid w = Some (Returned (Inr cfg), w')"
  shows "runs (fresh m0) (verify_configured env cfg started user key key_type) (verified env args m0) (\<lambda>_. False)"
proof -
  let ?limits = "cfg_resource_limits cfg"
  have ids: "list_all (\<lambda>policy. config_valid_policy_id (ic_policy_id policy)) (cfg_trusted_issuers cfg)"
    using wf by (auto simp: configuration_wf_def list_all_iff issuer_valid_def Let_def)
  have deny: "runs (fresh m0) (deny_verify env user reason (cfg_facility cfg) started None) (verified env args m0) (\<lambda>_. False)"
    for reason by (rule runs_deny_fresh) simp
  note unless = runs_unless_interrupted [OF streams_only_stages(1) deny]
  have issuers: "runs (fresh m0)
      (pbind (verify_issuers env cfg started (text_of blob) key_type user 0 (cfg_trusted_issuers cfg) new_verify_state)
        (\<lambda>result. case result of Inl code \<Rightarrow> ret code | Inr s \<Rightarrow> conclude_verification env cfg started user s))
      (verified env args m0) (\<lambda>_. False)"
    if size: "length key \<le> rl_max_offered_key_chars ?limits"
      and blob: "decode_base64 key (rl_max_ssh_certificate_bytes ?limits) = Inr blob" for blob
  proof (rule runs_pbind [OF verify_issuers_stages [OF laws ids]])
    fix result :: "int + verify_state"
    let ?P = "\<lambda>m. case result of
        Inl code \<Rightarrow> verified env args m0 code m
      | Inr s' \<Rightarrow> fresh m0 m \<and> (\<exists>nows. clock_readings env nows \<and> length nows = length (cfg_trusted_issuers cfg) \<and>
          s' = collected 0 (map2 (\<lambda>policy now. issuer_result env cfg policy (text_of blob) key_type user now)
            (cfg_trusted_issuers cfg) nows) new_verify_state)"
    show "runs ?P (case result of Inl code \<Rightarrow> ret code | Inr s \<Rightarrow> conclude_verification env cfg started user s)
        (verified env args m0) (\<lambda>_. False)"
    proof (cases result)
      case (Inl code)
      then show ?thesis by (auto intro: runs_ret)
    next
      case (Inr s)
      have "runs (fresh m0) (conclude_verification env cfg started user s) (verified env args m0) (\<lambda>_. False)"
        if readings: "clock_readings env nows" and nows: "length nows = length (cfg_trusted_issuers cfg)"
          and s: "s = collected 0 (issuer_results env cfg (text_of blob) key_type user nows) new_verify_state" for nows
      proof (rule conclude_verification_verified [OF laws ids nows s])
        fix index r
        assume r: "index < length nows" "fst (issuer_results env cfg (text_of blob) key_type user nows ! index) = Inr r"
          "\<And>other. other < length nows \<Longrightarrow> other \<noteq> index \<Longrightarrow>
             \<not> has_value (fst (issuer_results env cfg (text_of blob) key_type user nows ! other))"
          "length (authorized_keys_line r) \<le> rl_max_authorized_keys_output_chars (cfg_resource_limits cfg)"
        show "authorized env args r"
          unfolding authorized_def Let_def
          by (intro exI conjI, rule args, rule loaded, rule wf, rule size, rule blob, rule readings, rule nows, rule r(1), rule r(2))
            (intro allI impI, erule (1) r(3), rule r(4))
      qed
      then show ?thesis
        using Inr unfolding issuer_results_def runs_def by (simp only: sum.case) blast
    qed
  qed
  show ?thesis
    unfolding verify_configured_def Let_def
  proof (rule unless, rule runs_if [OF deny], cases "decode_base64 key (rl_max_ssh_certificate_bytes ?limits)", goal_cases)
    case (1 e)
    then show ?case using deny by simp
  next
    case (2 blob)
    then show ?case
      using unless [OF issuers [OF _ 2(2)]] by (simp add: validate_size_bound_def split: if_splits)
  qed
qed

lemma runs_remember:
  assumes "runs P m Q E"
  shows "runs P m (\<lambda>x w'. \<exists>w. m w = Some (Returned x, w')) E"
  unfolding runs_def
proof (intro allI impI)
  fix w
  assume "P w"
  with assms show "\<exists>r w'. m w = Some (r, w') \<and>
      (case r of Returned x \<Rightarrow> \<exists>w. m w = Some (Returned x, w') | Thrown \<Rightarrow> E w')"
    by (cases rule: runsD) auto
qed

lemma run_verify_verified:
  assumes laws: "command_laws env rank"
  shows "runs (fresh m0) (run_verify env args) (verified env args m0) (\<lambda>_. False)"
proof -
  have deny: "runs (fresh m0) (deny_verify env user reason facility_authpriv started None) (verified env args m0) (\<lambda>_. False)"
    for user reason started by (rule runs_deny_fresh) simp
  note unless = runs_unless_interrupted [OF streams_only_stages(1) deny]
  have reads: "interrupts_finite (env_posix (cmd_config env)) rank" and order: "set_order_law (cmd_config env)"
    using laws by (simp_all add: command_laws_def)
  have configured: "runs (fresh m0)
      (pbind (on_world (load_and_validate (cmd_config env) config_path euid)) (\<lambda>configuration.
         case configuration of
           Inl e \<Rightarrow> deny_verify env user e facility_authpriv started None
         | Inr cfg \<Rightarrow> verify_configured env cfg started user key key_type))
      (verified env args m0) (\<lambda>_. False)"
    if args: "verify_arguments args = Some (config_path, user, key, key_type)" for config_path user key key_type euid started
  proof (rule runs_pbind)
    let ?R = "\<lambda>configuration. \<forall>cfg. configuration = Inr cfg \<longrightarrow> configuration_wf cfg \<and>
        (\<exists>w w'. load_and_validate (cmd_config env) config_path euid w = Some (Returned (Inr cfg), w'))"
    have "runs (\<lambda>_. True) (load_and_validate (cmd_config env) config_path euid) (\<lambda>x _. ?R x) (\<lambda>_. False)"
      by (rule runs_consequence [OF runs_remember [OF runs_load_and_validate [OF reads]]])
        (auto dest: load_and_validate_sound [OF order])
    then show "runs (fresh m0) (on_world (load_and_validate (cmd_config env) config_path euid))
        (\<lambda>configuration m. fresh m0 m \<and> ?R configuration) (\<lambda>_. False)"
      by (rule runs_on_world [OF _ streams_only_stages(1)])
    show "runs (\<lambda>m. fresh m0 m \<and> ?R configuration)
        (case configuration of
           Inl e \<Rightarrow> deny_verify env user e facility_authpriv started None
         | Inr cfg \<Rightarrow> verify_configured env cfg started user key key_type)
        (verified env args m0) (\<lambda>_. False)" for configuration
    proof (cases configuration)
      case (Inl e)
      then show ?thesis using deny by (auto elim: runs_consequence)
    next
      case (Inr cfg)
      then have "runs (fresh m0) (verify_configured env cfg started user key key_type) (verified env args m0) (\<lambda>_. False)"
        if "?R configuration"
        using verify_configured_verified [OF laws _ args] that by blast
      then show ?thesis using Inr unfolding runs_def by auto
    qed
  qed
  show ?thesis
    unfolding run_verify_def Let_def
  proof (rule runs_world_call [OF streams_only_stages(1)], rule unless, cases "verify_arguments args", goal_cases)
    case (1 started)
    then show ?case using deny by simp
  next
    case (2 started p)
    obtain config_path user key key_type where p: "p = (config_path, user, key, key_type)" by (cases p) auto
    show ?case
      unfolding 2 p option.case prod.case
      using 2 p by (intro unless runs_world_call [OF streams_only_stages(1)] configured) simp
  qed
qed

lemma run_verified:
  assumes "command_laws env rank" "args \<noteq> []" "hd args = ''verify''" "help_text args = None"
  shows "\<exists>m'. run env args m = Some (Returned 0, m') \<and> verified env args m 0 m'"
proof -
  have dispatch: "run_dispatch env args = run_verify env args"
    using assms(2-4) by (cases args) (simp_all add: run_dispatch_def)
  have "fresh m m" by (simp add: fresh_def)
  then obtain code m' where r: "run_verify env args m = Some (Returned code, m')" "verified env args m code m'"
    by (rule runsD [OF run_verify_verified [OF assms(1)]]) auto
  then have "code = 0" by (simp add: verified_def)
  with r show ?thesis
    by (simp add: run_def run_catching_exceptions_def dispatch catching_def)
qed

end
