(* ===== verification/Cb_Decision.thy ===== *)
theory Cb_Decision
  imports Cb_Verify Cb_Config_Instance
begin

text \<open>
  The properties of the \<^verbatim>\<open>verify\<close> command: what it may write, the audit record it leaves, and, when
  nothing interrupts it, exactly what it writes.
\<close>

section \<open>Every written line is justified\<close>

text \<open>The input that one issuer decides on and the bounds of its certificate.\<close>

definition carrier_input :: "string \<Rightarrow> string \<Rightarrow> string \<Rightarrow> int \<Rightarrow> CarrierInput" where
  "carrier_input certificate key_type user now =
     \<lparr>ci_certificate_blob = certificate, ci_key_type_argument = key_type, ci_requested_user = user,
      ci_verification_time_unix = now\<rparr>"

definition certificate_limits :: "Configuration \<Rightarrow> openssh_Limits" where
  "certificate_limits cfg =
     \<lparr>max_certificate_bytes = rl_max_ssh_certificate_bytes (cfg_resource_limits cfg),
      max_token_bytes = rl_max_token_bytes (cfg_resource_limits cfg),
      max_principals = 16, max_extensions = 16, max_name_bytes = 256\<rparr>"

text \<open>
  \<open>r\<close> is justified: the command line names a configuration that loads and is well-formed, and under
  one of its issuers, at a reading of the clock, the offered key is an authorized carrier.
\<close>

definition justified :: "('w, 'k) command_env \<Rightarrow> string list \<Rightarrow> CarrierResult \<Rightarrow> bool" where
  "justified env args r \<longleftrightarrow>
     (\<exists>config_path user blob key_type cfg euid w w' policy now.
        verify_arguments args = Some (config_path, user, encode_base64 blob, key_type) \<and>
        load_and_validate (cmd_config env) config_path euid w = Some (Returned (Inr cfg), w') \<and> configuration_wf cfg \<and>
        policy \<in> set (cfg_trusted_issuers cfg) \<and> now \<in> range (\<lambda>w. fst (wall_time_unix env w)) \<and>
        carrier_authorized (env_lexer (cmd_config env)) (cmd_openssl env)
          (carrier_input (text_of blob) key_type user now) (ic_core_policy policy) (ic_carrier_policy policy)
          (cfg_accounts cfg) (ic_keys policy) (certificate_limits cfg) r \<and>
        length (authorized_keys_line r) \<le> rl_max_authorized_keys_output_chars (cfg_resource_limits cfg))"

lemma issuer_result_iff:
  assumes "openssl_bn (cmd_openssl env)" "int64 now" "configuration_wf cfg" "policy \<in> set (cfg_trusted_issuers cfg)"
  shows "fst (issuer_result env cfg policy certificate key_type user now) = Inr r \<longleftrightarrow>
     carrier_authorized (env_lexer (cmd_config env)) (cmd_openssl env)
       (carrier_input certificate key_type user now) (ic_core_policy policy) (ic_carrier_policy policy)
       (cfg_accounts cfg) (ic_keys policy) (certificate_limits cfg) r"
proof -
  have "int64 (car_maximum_identity_lifetime_seconds (ic_carrier_policy policy))"
    using assms(3,4) by (auto simp: configuration_wf_def list_all_iff issuer_valid_def Let_def)
  then show ?thesis
    using verify_carrier_eq [OF assms(1), of "carrier_input certificate key_type user now"] assms(2)
    by (simp add: issuer_result_def carrier_input_def certificate_limits_def)
qed

definition clock_law :: "('w, 'k) command_env \<Rightarrow> bool" where
  "clock_law env \<longleftrightarrow> (\<forall>w. int64 (fst (wall_time_unix env w)))"

lemma authorized_justified:
  assumes "openssl_bn (cmd_openssl env)" "clock_law env" "authorized env args r"
  shows "justified env args r"
proof -
  from assms(3) obtain config_path user key key_type cfg euid w w' blob nows index where a:
      "verify_arguments args = Some (config_path, user, key, key_type)"
      "load_and_validate (cmd_config env) config_path euid w = Some (Returned (Inr cfg), w')" "configuration_wf cfg"
      "decode_base64 key (rl_max_ssh_certificate_bytes (cfg_resource_limits cfg)) = Inr blob"
      "clock_readings env nows" "length nows = length (cfg_trusted_issuers cfg)" "index < length nows"
      "fst (issuer_results env cfg (text_of blob) key_type user nows ! index) = Inr r"
      "length (authorized_keys_line r) \<le> rl_max_authorized_keys_output_chars (cfg_resource_limits cfg)"
    unfolding authorized_def Let_def by (elim exE conjE) (rule that)
  let ?policy = "cfg_trusted_issuers cfg ! index"
  have policy: "?policy \<in> set (cfg_trusted_issuers cfg)" using a(6,7) by simp
  have now: "nows ! index \<in> range (\<lambda>w. fst (wall_time_unix env w))"
    using a(5,7) nth_mem unfolding clock_readings_def by blast
  then have time: "int64 (nows ! index)" using assms(2) by (auto simp: clock_law_def)
  have "fst (issuer_result env cfg ?policy (text_of blob) key_type user (nows ! index)) = Inr r"
    using a(8) by (simp only: issuer_results_nth [OF a(6,7)])
  then have granted: "carrier_authorized (env_lexer (cmd_config env)) (cmd_openssl env)
       (carrier_input (text_of blob) key_type user (nows ! index)) (ic_core_policy ?policy) (ic_carrier_policy ?policy)
       (cfg_accounts cfg) (ic_keys ?policy) (certificate_limits cfg) r"
    unfolding issuer_result_iff [OF assms(1) time a(3) policy] .
  have key: "key = encode_base64 blob" using a(4) by (simp add: decode_base64_iff)
  show ?thesis
    unfolding justified_def
    by (intro exI conjI, rule a(1) [unfolded key], rule a(2), rule a(3), rule policy, rule now, rule granted, rule a(9))
qed

lemma run_justified:
  assumes "command_laws env rank" "openssl_bn (cmd_openssl env)" "clock_law env"
    and "args \<noteq> []" "hd args = ''verify''" "help_text args = None"
  shows "\<exists>m' r n. run env args m = Some (Returned 0, m') \<and> mc_diagnostics m' = mc_diagnostics m \<and>
     mc_output m' = mc_output m @ take n (authorized_keys_line r) \<and> (0 < n \<longrightarrow> justified env args r)"
proof -
  obtain m' where m': "run env args m = Some (Returned 0, m')" "verified env args m 0 m'"
    using run_verified [OF assms(1,4-6)] by blast
  have "\<exists>r n. mc_output m' = mc_output m @ take n (authorized_keys_line r) \<and> (0 < n \<longrightarrow> authorized env args r)"
  proof (cases "mc_output m' = mc_output m")
    case True
    then show ?thesis by (intro exI [of _ "0 :: nat"] exI) simp
  next
    case False
    then obtain r n where "authorized env args r" "mc_output m' = mc_output m @ take n (authorized_keys_line r)"
      using m'(2) by (auto simp: verified_def incomplete_def split: if_splits) (metis order_refl take_all)
    then show ?thesis by blast
  qed
  then show ?thesis
    using m' authorized_justified [OF assms(2,3)] unfolding verified_def by blast
qed

text \<open>
  C1. Whatever the clock, the file system and the output stream answer, \<^verbatim>\<open>verify\<close> exits with 0, says
  nothing on the diagnostics stream, and all it writes is a part of a line for a carrier that one of
  the trusted issuers of a well-formed loaded configuration authorizes: its certificate, token,
  evidence, identity window, principal and account rule are those of the specification
  \<open>carrier_authorized\<close>.
\<close>

theorem verify_output_justified:
  assumes "command_laws env rank" "openssl_bn (cmd_openssl env)" "clock_law env"
    and "args \<noteq> []" "hd args = ''verify''" "help_text args = None"
  shows "\<exists>m' r n. run env args m = Some (Returned 0, m') \<and> mc_diagnostics m' = mc_diagnostics m \<and>
     mc_output m' = mc_output m @ take n (authorized_keys_line r) \<and> (0 < n \<longrightarrow> justified env args r)"
  by (rule run_justified [OF assms])

text \<open>
  C33. A \<^verbatim>\<open>verify\<close> leaves exactly one audit record. It has the severity of an authorization exactly
  when a whole line was written for an authorized carrier; otherwise nothing was written, or a part
  of such a line that the stream did not take whole.
\<close>

theorem verify_audited:
  assumes "command_laws env rank" "audit_laws env"
    and "args \<noteq> []" "hd args = ''verify''" "help_text args = None"
  shows "\<exists>m' facility severity payload. run env args m = Some (Returned 0, m') \<and>
     mc_log m' = mc_log m @ [(facility, severity, payload)] \<and>
     (if severity = severity_info
      then \<exists>r. authorized env args r \<and> mc_output m' = mc_output m @ authorized_keys_line r
      else incomplete env args m m')"
proof -
  obtain m' where m': "run env args m = Some (Returned 0, m')" "verified env args m 0 m'"
    using run_verified [OF assms(1,3-5)] by blast
  then obtain facility event where e: "mc_log m' = mc_log m @ records env facility event" "good_event event"
      "if ve_outcome event = verification_allow
       then \<exists>r. authorized env args r \<and> mc_output m' = mc_output m @ authorized_keys_line r
       else incomplete env args m m'"
    by (auto simp: verified_def)
  obtain payload where p: "records env facility event = [(facility, event_severity event, payload)]"
    using records_written [OF assms(2) e(2)] by blast
  have "event_severity event = severity_info \<longleftrightarrow> ve_outcome event = verification_allow"
    by (simp add: event_severity_def)
  then show ?thesis
    using m'(1) e p by (intro exI [of _ m'] exI [of _ facility] exI [of _ "event_severity event"] exI [of _ payload]) simp
qed

section \<open>Without interruption\<close>

text \<open>
  The clock stands, nothing is cancelled, the stream takes all it is given, and no call but those
  that read the configuration changes the world.
\<close>

definition calm :: "('w, 'k) command_env \<Rightarrow> u64 \<Rightarrow> int \<Rightarrow> u32 \<Rightarrow> bool" where
  "calm env started now owner \<longleftrightarrow>
     (\<forall>w. monotonic_nanoseconds env w = (started, w) \<and> wall_time_unix env w = (now, w) \<and>
        cancellation_requested env w = (False, w) \<and> cmd_geteuid env w = (owner, w) \<and>
        (\<forall>s. cmd_sputn env s w = (length s, w)))"

text \<open>What a configuration decides: the carrier of the only issuer that authorizes one.\<close>

definition granted :: "CarrierResult expected \<times> CarrierAuditContext \<Rightarrow> CarrierResult list" where
  "granted result = (case fst result of Inl _ \<Rightarrow> [] | Inr r \<Rightarrow> [r])"

definition only_line :: "Configuration \<Rightarrow> CarrierResult list \<Rightarrow> string" where
  "only_line cfg carriers =
     (case carriers of
        [r] \<Rightarrow>
          if length (authorized_keys_line r) \<le> rl_max_authorized_keys_output_chars (cfg_resource_limits cfg)
          then authorized_keys_line r else ''''
      | _ \<Rightarrow> '''')"

definition decided_output ::
  "('w, 'k) command_env \<Rightarrow> Configuration \<Rightarrow> string \<Rightarrow> string \<Rightarrow> string \<Rightarrow> int \<Rightarrow> string" where
  "decided_output env cfg user key key_type now =
     (let limits = cfg_resource_limits cfg in
      if length key > rl_max_offered_key_chars limits then ''''
      else
        case decode_base64 key (rl_max_ssh_certificate_bytes limits) of
          Inl _ \<Rightarrow> ''''
        | Inr blob \<Rightarrow>
            only_line cfg (concat (map (\<lambda>policy. granted (issuer_result env cfg policy (text_of blob) key_type user now))
              (cfg_trusted_issuers cfg))))"

lemma world_call: "(\<And>w. g w = (x, w)) \<Longrightarrow> pbind (on_world (call g)) f = f x"
  by (auto simp: pbind_def on_world_def call_def fun_eq_iff)

lemma calm_calls:
  assumes "calm env started now owner"
  shows "pbind (on_world (call (monotonic_nanoseconds env))) f = f started"
    "pbind (on_world (call (wall_time_unix env))) g = g now"
    "pbind (on_world (call (cancellation_requested env))) h = h False"
    "pbind (on_world (call (cmd_geteuid env))) k = k owner"
    "pbind (on_world (call (cmd_sputn env s))) p = p (length s)"
  using assms by (auto simp: calm_def intro!: world_call)

lemma calm_unless:
  assumes "calm env started now owner" "0 < budget"
  shows "unless_interrupted env started budget deny continue = continue"
proof -
  have "budget \<noteq> 0" using assms(2) by auto
  then show ?thesis
    by (simp add: unless_interrupted_def interrupted_def calm_calls [OF assms(1)] pbind_ret)
qed

lemma calm_issuers:
  assumes "calm env started now owner" "0 < cfg_total_verification_deadline_nanoseconds cfg"
  shows "verify_issuers env cfg started certificate key_type user index policies s =
     ret (Inr (collected index (map (\<lambda>policy. issuer_result env cfg policy certificate key_type user now) policies) s))"
proof (induction policies arbitrary: index s)
  case (Cons policy policies)
  obtain result audit where r: "issuer_result env cfg policy certificate key_type user now = (result, audit)"
    by fastforce
  show ?case
    by (simp add: Let_def calm_calls [OF assms(1)] calm_unless [OF assms] Cons r)
qed simp

lemma collected_granted:
  "map snd (vs_successes (collected index results s)) = map snd (vs_successes s) @ concat (map granted results)"
proof (induction index results s rule: collected.induct)
  case (2 index result audit results s)
  have "map snd (vs_successes (record_result index result audit s)) = map snd (vs_successes s) @ granted (result, audit)"
    by (cases result) (auto simp: record_result_def granted_def Let_def split: option.splits)
  then show ?case using 2 by simp
qed simp

text \<open>A denial writes nothing.\<close>

definition writes :: "('w machine, int) prog \<Rightarrow> string \<Rightarrow> bool" where
  "writes p line \<longleftrightarrow> (\<forall>m. \<exists>m'. p m = Some (Returned 0, m') \<and> mc_output m' = mc_output m @ line)"

lemma writesD: "writes p line \<Longrightarrow> \<exists>m'. p m = Some (Returned 0, m') \<and> mc_output m' = mc_output m @ line"
  by (simp add: writes_def)

lemma emit_returns: "\<exists>m'. emit_verification env facility event m = Some (Returned (), m') \<and> mc_output m' = mc_output m"
  by (auto simp: emit_verification_def put_log_def ret_def split: option.split sum.split)

lemma writes_emit: "writes (pbind (emit_verification env facility event) (\<lambda>_. ret 0)) ''''"
  unfolding writes_def
proof
  fix m :: "'a machine"
  obtain m' where "emit_verification env facility event m = Some (Returned (), m')" "mc_output m' = mc_output m"
    using emit_returns by blast
  then show "\<exists>m'. pbind (emit_verification env facility event) (\<lambda>_. ret 0) m = Some (Returned 0, m') \<and> mc_output m' = mc_output m @ ''''"
    by (simp add: pbind_def ret_def)
qed

lemma writes_then: "writes p '''' \<Longrightarrow> writes (\<lambda>m. p (m\<lparr>mc_output := mc_output m @ line\<rparr>)) line"
  unfolding writes_def
proof
  fix m :: "'a machine"
  assume "\<forall>m. \<exists>m'. p m = Some (Returned 0, m') \<and> mc_output m' = mc_output m @ ''''"
  from spec [OF this, of "m\<lparr>mc_output := mc_output m @ line\<rparr>"]
  show "\<exists>m'. p (m\<lparr>mc_output := mc_output m @ line\<rparr>) = Some (Returned 0, m') \<and> mc_output m' = mc_output m @ line" by simp
qed

lemma calm_deny: "calm env started now owner \<Longrightarrow> writes (deny_verify env user reason facility started selected) ''''"
  by (simp add: deny_verify_def duration_def calm_calls pbind_ret writes_emit)

lemma calm_write:
  assumes "calm env started now owner" "0 < cfg_total_verification_deadline_nanoseconds cfg"
    and "0 < rl_max_authorized_keys_output_chars (cfg_resource_limits cfg)"
  shows "writes (write_authorization env cfg started user policy r) (only_line cfg [r])"
proof -
  let ?line = "authorized_keys_line r"
  have put: "pbind (put_output env ?line) f = (\<lambda>m. f True (m\<lparr>mc_output := mc_output m @ ?line\<rparr>))"
    for f :: "bool \<Rightarrow> ('a machine, int) prog"
    by (simp add: put_output_def calm_calls [OF assms(1)]) (simp add: pbind_def ret_def)
  have "writes (pbind (put_output env ?line) (\<lambda>written.
      if \<not> written then deny else pbind (emit_verification env facility event) (\<lambda>_. ret 0))) ?line" for deny facility event
    using writes_then [OF writes_emit] by (simp add: put)
  then show ?thesis
    using assms(3) calm_deny [OF assms(1)]
    by (simp add: write_authorization_def Let_def calm_unless [OF assms(1,2)] validate_size_bound_def only_line_def
        duration_def calm_calls [OF assms(1)] pbind_ret cong: if_cong)
qed

lemma verify_arguments_help:
  assumes "verify_arguments args = Some p"
  shows "help_text args = None \<and> args \<noteq> []"
proof -
  have "length args = 9"
    using assms unfolding verify_arguments_def by (auto split: list.splits)
  then obtain a b c d rest where "args = a # b # c # d # rest"
    by (auto simp: numeral_eq_Suc length_Suc_conv)
  then show ?thesis by simp
qed

lemma calm_conclude:
  assumes "calm env started now owner" "0 < cfg_total_verification_deadline_nanoseconds cfg"
    and "0 < rl_max_authorized_keys_output_chars (cfg_resource_limits cfg)"
  shows "writes (conclude_verification env cfg started user s) (only_line cfg (map snd (vs_successes s)))"
proof -
  note deny = calm_deny [OF assms(1)]
  show ?thesis
  proof (cases "vs_successes s")
    case Nil
    then show ?thesis
      using deny
      by (auto simp: conclude_verification_def Let_def calm_unless [OF assms(1,2)] only_line_def split: list.split)
  next
    case (Cons p rest)
    then show ?thesis
      using deny calm_write [OF assms]
      by (cases p; cases rest)
        (simp_all add: conclude_verification_def Let_def calm_unless [OF assms(1,2)] only_line_def)
  qed
qed

lemma calm_configured:
  assumes "calm env started now owner" "configuration_wf cfg"
  shows "writes (verify_configured env cfg started user key key_type) (decided_output env cfg user key key_type now)"
proof -
  have budget: "0 < cfg_total_verification_deadline_nanoseconds cfg"
    and bounds: "0 < rl_max_authorized_keys_output_chars (cfg_resource_limits cfg)" "0 < rl_max_offered_key_chars (cfg_resource_limits cfg)"
    using assms(2) by (simp_all add: configuration_wf_def limits_valid_def)
  note deny = calm_deny [OF assms(1)]
  show ?thesis
  proof (cases "decode_base64 key (rl_max_ssh_certificate_bytes (cfg_resource_limits cfg))")
    case (Inl e)
    then show ?thesis
      using deny
      by (simp add: verify_configured_def Let_def calm_unless [OF assms(1) budget] decided_output_def)
  next
    case (Inr blob)
    let ?results = "map (\<lambda>policy. issuer_result env cfg policy (text_of blob) key_type user now) (cfg_trusted_issuers cfg)"
    have "map snd (vs_successes (collected 0 ?results new_verify_state)) = concat (map granted ?results)"
      by (simp add: collected_granted new_verify_state_def)
    then have "writes (conclude_verification env cfg started user (collected 0 ?results new_verify_state))
        (only_line cfg (concat (map granted ?results)))"
      using calm_conclude [OF assms(1) budget bounds(1), of user "collected 0 ?results new_verify_state"] by simp
    then show ?thesis
      using deny bounds(2) Inr
      by (simp add: verify_configured_def Let_def calm_unless [OF assms(1) budget] decided_output_def
          calm_issuers [OF assms(1) budget] pbind_ret validate_size_bound_def comp_def)
  qed
qed

lemma run_decides:
  assumes "calm env started now owner" "set_order_law (cmd_config env)"
    and "verify_arguments args = Some (config_path, user, key, key_type)" "hd args = ''verify''"
    and "load_and_validate (cmd_config env) config_path owner (mc_world m) = Some (Returned (Inr cfg), w')"
  shows "\<exists>m'. run env args m = Some (Returned 0, m') \<and>
     mc_output m' = mc_output m @ decided_output env cfg user key key_type now"
proof -
  have args: "help_text args = None" "args \<noteq> []"
    using verify_arguments_help [OF assms(3)] by auto
  have wf: "configuration_wf cfg" using load_and_validate_sound [OF assms(2,5)] .
  have limit: "0 < kMaximumVerificationNanoseconds"
    by (simp add: kMaximumVerificationNanoseconds_def kNanosecondsPerMillisecond_def)
  have "run_verify env args m = verify_configured env cfg started user key key_type (m\<lparr>mc_world := w'\<rparr>)"
    by (simp add: run_verify_def Let_def calm_calls [OF assms(1)] calm_unless [OF assms(1) limit] assms(3))
      (simp add: pbind_def on_world_def assms(5))
  moreover obtain m' where "verify_configured env cfg started user key key_type (m\<lparr>mc_world := w'\<rparr>) = Some (Returned 0, m')"
      "mc_output m' = mc_output m @ decided_output env cfg user key key_type now"
    using writesD [OF calm_configured [OF assms(1) wf, of user key key_type], where m = "m\<lparr>mc_world := w'\<rparr>"]
    by auto
  moreover have "run_dispatch env args = run_verify env args"
    using assms(4) args by (cases args) (simp_all add: run_dispatch_def)
  ultimately show ?thesis
    by (simp add: run_def run_catching_exceptions_def catching_def)
qed

text \<open>
  C2. When nothing interrupts it, \<^verbatim>\<open>verify\<close> writes exactly what the loaded configuration decides at
  that time: the line of the one issuer that authorizes the offered key, and nothing when no issuer
  or more than one does, when the key is too long or not canonical Base64, or when the line is
  longer than configured.
\<close>

theorem verify_decides:
  assumes "calm env started now owner" "set_order_law (cmd_config env)"
    and "verify_arguments args = Some (config_path, user, key, key_type)" "hd args = ''verify''"
    and "load_and_validate (cmd_config env) config_path owner (mc_world m) = Some (Returned (Inr cfg), w')"
  shows "\<exists>m'. run env args m = Some (Returned 0, m') \<and>
     mc_output m' = mc_output m @ decided_output env cfg user key key_type now"
  by (rule run_decides [OF assms])

section \<open>An authorization\<close>

text \<open>The carrier of \<open>Cb_Direct\<close>, offered to the configuration of \<open>Cb_Config_Instance\<close>.\<close>

definition demo_blob :: "u8 list" where
  "demo_blob = bytes (certificate_blob ''nonce'' demo_certificate)"

definition demo_arguments :: "string list" where
  "demo_arguments = [''verify'', ''--config'', ''/c'', ''--user'', ''user'', ''--key'', encode_base64 demo_blob,
     ''--key-type'', kEd25519Certificate]"

text \<open>A file system that cannot be written; \<^verbatim>\<open>verify\<close> makes none of these calls.\<close>

definition unwritable_files :: "'w file_calls" where
  "unwritable_files =
     \<lparr>sys_open_directory = \<lambda>_ _ w. (-1, w), sys_close_file = \<lambda>_ w. (True, w), sys_fstatat = \<lambda>_ _ w. (Stat_failed, w),
      sys_openat = \<lambda>_ _ _ _ w. (Open_failed, w), sys_write = \<lambda>_ _ w. (Write_failed, w), sys_fsync = \<lambda>_ w. (False, w),
      sys_renameat = \<lambda>_ _ _ w. (False, w), sys_linkat = \<lambda>_ _ _ w. (False, w), sys_unlinkat = \<lambda>_ _ w. (False, w),
      sys_getpid = \<lambda>w. (1, w)\<rparr>"

definition demo_env :: "(nat \<times> string, unit) command_env" where
  "demo_env =
     \<lparr>cmd_config = demo_config_env demo_fs, cmd_openssl = demo_openssl, cmd_files = unwritable_files,
      cmd_lstat = \<lambda>_ w. (None, w), cmd_geteuid = \<lambda>w. (0, w), monotonic_nanoseconds = \<lambda>w. (0, w),
      wall_time_unix = \<lambda>w. (150, w), cancellation_requested = \<lambda>w. (False, w), cmd_sputn = \<lambda>s w. (length s, w)\<rparr>"

definition demo_machine :: "(nat \<times> string) machine" where
  "demo_machine = \<lparr>mc_world = (1, ''''), mc_output = '''', mc_diagnostics = '''', mc_log = []\<rparr>"

lemma demo_env_simps [simp]:
  "cmd_config demo_env = demo_config_env demo_fs" "cmd_openssl demo_env = demo_openssl"
  by (simp_all add: demo_env_def)

lemma demo_calm: "calm demo_env 0 150 0"
  by (simp add: calm_def demo_env_def)

lemma config_lexing: "demo_lexing config_lexer"
  by (simp add: demo_lexing_def config_lexer_def token_lexer_def)

lemma demo_blob_length: "length demo_blob \<le> 49152" "demo_blob \<noteq> []"
  using demo_certificate_wf
  by (auto simp: demo_blob_def certificate_wf_def default_openssh_limits_def certificate_blob_def certificate_tbs_def ssh_string_def)

lemma demo_blob_decoded: "decode_base64 (encode_base64 demo_blob) 49152 = Inr demo_blob"
  using demo_blob_length by (simp add: decode_base64_iff)

lemma demo_issuer_result:
  "fst (issuer_result demo_env demo_configuration demo_issuer_configuration (text_of demo_blob) kEd25519Certificate ''user'' 150)
     = Inr demo_carrier"
proof -
  have "carrier_input (text_of demo_blob) kEd25519Certificate ''user'' 150 = demo_carrier_input"
    by (simp add: carrier_input_def demo_carrier_input_def demo_blob_def)
  moreover have "certificate_limits demo_configuration = default_openssh_limits"
    by (simp add: certificate_limits_def demo_configuration_def demo_limits_def default_openssh_limits_def)
  moreover have "configuration_wf demo_configuration"
    using load_and_validate_sound [OF demo_order_law demo_configuration_loaded] .
  moreover have "demo_issuer_configuration \<in> set (cfg_trusted_issuers demo_configuration)"
    by (simp add: demo_configuration_def)
  moreover have "cfg_accounts demo_configuration = [''user'' \<mapsto> [demo_rule]]"
    "env_lexer (demo_config_env demo_fs) = config_lexer"
    by (simp_all add: demo_configuration_def demo_config_env_def)
  ultimately show ?thesis
    using demo_carrier_authorized [OF config_lexing] demo_carrier_typed(1)
    by (subst issuer_result_iff)
      (simp_all add: demo_openssl_bn demo_issuer_configuration_def demo_carrier_input_def)
qed

lemma demo_line_length: "length (authorized_keys_line demo_carrier) \<le> 4096"
  by (simp add: authorized_keys_line_def demo_carrier_def length_encode_base64url length_encode_base64
      demo_certificate_def Let_def kEd25519Key_def ssh_string_def)

lemma demo_output:
  "decided_output demo_env demo_configuration ''user'' (encode_base64 demo_blob) kEd25519Certificate 150 =
     authorized_keys_line demo_carrier"
proof -
  have "length (encode_base64 demo_blob) \<le> 65536"
    using demo_blob_length(1) by (simp add: length_encode_base64)
  moreover have "cfg_trusted_issuers demo_configuration = [demo_issuer_configuration]"
    "cfg_resource_limits demo_configuration = demo_limits"
    by (simp_all add: demo_configuration_def)
  ultimately show ?thesis
    using demo_line_length
    by (simp add: decided_output_def demo_blob_decoded demo_limits_def granted_def demo_issuer_result only_line_def)
qed

lemma demo_verify_arguments:
  "verify_arguments demo_arguments = Some (''/c'', ''user'', encode_base64 demo_blob, kEd25519Certificate)"
  by (simp add: verify_arguments_def demo_arguments_def)

lemma demo_arguments_verify: "demo_arguments \<noteq> []" "hd demo_arguments = ''verify''" "help_text demo_arguments = None"
  using verify_arguments_help [OF demo_verify_arguments] by (simp_all add: demo_arguments_def)

lemma demo_loaded:
  "load_and_validate (cmd_config demo_env) ''/c'' 0 (mc_world demo_machine) =
     Some (Returned (Inr demo_configuration), (0, []))"
  using demo_configuration_loaded [of 0] by (simp add: demo_machine_def)

theorem verify_decides_witness:
  "\<exists>m'. run demo_env demo_arguments demo_machine = Some (Returned 0, m') \<and>
     mc_output m' = authorized_keys_line demo_carrier"
  using verify_decides [OF demo_calm _ demo_verify_arguments demo_arguments_verify(2) demo_loaded]
  by (simp add: demo_order_law demo_output) (simp add: demo_machine_def)

lemma demo_laws:
  "command_laws demo_env fst" "audit_laws demo_env" "clock_law demo_env" "openssl_bn (cmd_openssl demo_env)"
proof -
  show "command_laws demo_env fst"
    using demo_order_law demo_fs_finite by (auto simp: command_laws_def demo_config_env_def demo_env_def)
  show "audit_laws demo_env"
    using demo_dump_laws by (simp add: audit_laws_def demo_config_env_def digest_sha256_def demo_openssl_def)
  show "clock_law demo_env"
    by (simp add: clock_law_def demo_env_def int64_def int64_min_def int64_max_def)
qed (simp add: demo_openssl_bn)

lemma demo_run:
  "\<exists>m'. run demo_env demo_arguments demo_machine = Some (Returned 0, m') \<and>
     mc_output m' = authorized_keys_line demo_carrier"
  using run_decides [OF demo_calm _ demo_verify_arguments demo_arguments_verify(2) demo_loaded]
  by (simp add: demo_order_law demo_output) (simp add: demo_machine_def)

theorem verify_output_justified_witness:
  "\<exists>m' r n. run demo_env demo_arguments demo_machine = Some (Returned 0, m') \<and> mc_diagnostics m' = '''' \<and>
     mc_output m' = take n (authorized_keys_line r) \<and> mc_output m' \<noteq> '''' \<and> justified demo_env demo_arguments r"
proof -
  obtain m' r n where m': "run demo_env demo_arguments demo_machine = Some (Returned 0, m')" "mc_diagnostics m' = ''''"
      "mc_output m' = take n (authorized_keys_line r)" "0 < n \<longrightarrow> justified demo_env demo_arguments r"
    using verify_output_justified [OF demo_laws(1,4,3) demo_arguments_verify, of demo_machine]
    by (auto simp: demo_machine_def)
  have "mc_output m' \<noteq> ''''"
    using demo_run m'(1) by (auto simp: authorized_keys_line_def)
  moreover from this have "0 < n" using m'(3) by (cases n) simp_all
  ultimately show ?thesis using m' by blast
qed

theorem verify_audited_witness:
  "\<exists>m' facility severity payload. run demo_env demo_arguments demo_machine = Some (Returned 0, m') \<and>
     mc_log m' = [(facility, severity, payload)]"
  using verify_audited [OF demo_laws(1,2) demo_arguments_verify, of demo_machine]
  by (auto simp: demo_machine_def)

end
