(* ===== verification/Cb_Exit.thy ===== *)
theory Cb_Exit
  imports Cb_Decision
begin

text \<open>
  How the commands end: every run returns, with 0 and nothing on the diagnostics stream or with 2 and
  one line that names the error. What \<^verbatim>\<open>sshd-config render\<close> prints.
\<close>

section \<open>Publication returns\<close>

lemma write_loop_returns:
  assumes "writes_finite fs rank"
  shows "\<exists>r. write_loop fs fd rest w = Some r"
proof (induction "(length rest, rank w)" arbitrary: rest w rule: wf_induct_rule [OF wf_lex_prod [OF wf_less_than wf_less_than]])
  case 1
  show ?case
  proof (cases "rest = []")
    case True
    then show ?thesis by (subst write_loop.simps) (simp add: ex_bool_eq)
  next
    case False
    obtain result w' where r: "sys_write fs fd rest w = (result, w')" by fastforce
    show ?thesis
    proof (cases result)
      case Write_interrupted
      then have "\<exists>r. write_loop fs fd rest w' = Some r"
        using 1 r assms by (auto simp: writes_finite_def)
      then show ?thesis using False r Write_interrupted by (subst write_loop.simps) simp
    next
      case Write_failed
      then show ?thesis using False r by (subst write_loop.simps) (simp, blast)
    next
      case (Written n)
      show ?thesis
      proof (cases "n = 0")
        case True
        then show ?thesis using False r Written by (subst write_loop.simps) (simp, blast)
      next
        case n: False
        then have "\<exists>r. write_loop fs fd (drop n rest) w' = Some r"
          using 1 False by simp
        then show ?thesis using n False r Written by (subst write_loop.simps) simp
      qed
    qed
  qed
qed

lemma runs_any_call: "runs (\<lambda>_. True) (call f) (\<lambda>_ _. True) E"
  by (rule runs_call) simp

lemma runs_any_pbind:
  "runs (\<lambda>_. True) m (\<lambda>_ _. True) E \<Longrightarrow> (\<And>x. runs (\<lambda>_. True) (f x) (\<lambda>_ _. True) E) \<Longrightarrow>
     runs (\<lambda>_. True) (pbind m f) (\<lambda>_ _. True) E"
  by (rule runs_pbind)

lemma runs_any_ret: "runs (\<lambda>_. True) (ret x) (\<lambda>_ _. True) E"
  by (rule runs_ret) simp

lemma runs_option:
  "runs P m Q E \<Longrightarrow> (\<And>y. runs P (f y) Q E) \<Longrightarrow> runs P (case x of None \<Rightarrow> m | Some y \<Rightarrow> f y) Q E"
  by (cases x) simp_all

lemma runs_sum:
  "(\<And>e. runs P (f e) Q E) \<Longrightarrow> (\<And>y. runs P (g y) Q E) \<Longrightarrow> runs P (case x of Inl e \<Rightarrow> f e | Inr y \<Rightarrow> g y) Q E"
  by (cases x) simp_all

lemma runs_pair: "(\<And>y z. runs P (f y z) Q E) \<Longrightarrow> runs P (case x of (y, z) \<Rightarrow> f y z) Q E"
  by (cases x) simp

lemma runs_list:
  "runs P m Q E \<Longrightarrow> (\<And>y ys. runs P (f y ys) Q E) \<Longrightarrow> runs P (case xs of [] \<Rightarrow> m | y # ys \<Rightarrow> f y ys) Q E"
  by (cases xs) simp_all

lemmas runs_cases = runs_option runs_list runs_sum runs_pair runs_if

lemmas runs_any = runs_any_pbind runs_any_call runs_any_ret runs_if

lemma runs_publish:
  assumes "writes_finite fs rank"
  shows "runs (\<lambda>_. True) (publish fs sequence path contents force) (\<lambda>_ _. True) E"
proof -
  have discard: "runs (\<lambda>_. True) (discard fs directory descriptor temporary) (\<lambda>_ _. True) E"
    for directory descriptor temporary
    unfolding discard_def by (cases descriptor) (auto intro!: runs_any)
  have open': "runs (\<lambda>_. True) (open_temporary fs directory attempts sequence) (\<lambda>_ _. True) E"
    for directory attempts and sequence
    by (induction attempts arbitrary: sequence)
      (auto simp: Let_def intro!: runs_any split: open_result.split)
  have loop: "runs (\<lambda>_. True) (call_partial (write_loop fs descriptor contents)) (\<lambda>_ _. True) E" for descriptor
    using write_loop_returns [OF assms] by (auto intro!: runs_call_partial)
  have "runs (\<lambda>_. True) (publish_temporary fs directory name contents force descriptor temporary) (\<lambda>_ _. True) E"
    for directory name descriptor temporary
    unfolding publish_temporary_def synchronize_def replace_target_def
    by (intro runs_any loop discard)
  then show ?thesis
    unfolding publish_def Let_def
    by (auto intro!: runs_any open' split: option.split)
qed

section \<open>Exit codes\<close>

definition silent :: "'w machine \<Rightarrow> 'w machine \<Rightarrow> bool" where
  "silent m0 m \<longleftrightarrow> mc_diagnostics m = mc_diagnostics m0"

definition exited :: "'w machine \<Rightarrow> int \<Rightarrow> 'w machine \<Rightarrow> bool" where
  "exited m0 code m \<longleftrightarrow>
     code = 0 \<and> mc_diagnostics m = mc_diagnostics m0 \<or>
     code = 2 \<and> (\<exists>kind. mc_diagnostics m = mc_diagnostics m0 @ error_name kind @ [CHR 0x0a])"

abbreviation exits :: "'w machine \<Rightarrow> ('w machine, int) prog \<Rightarrow> bool" where
  "exits m0 p \<equiv> runs (silent m0) p (exited m0) (silent m0)"

lemma exits_fail: "runs (silent m0) (fail kind) (exited m0) E"
  by (auto simp: runs_def fail_def put_diagnostics_def pbind_def ret_def silent_def exited_def)

lemma exits_ret: "runs (silent m0) (ret 0) (exited m0) E"
  by (rule runs_ret) (simp add: silent_def exited_def)

lemma silent_world:
  assumes "runs (\<lambda>_. True) p (\<lambda>_ _. True) (\<lambda>_. True)"
  shows "runs (silent m0) (on_world p) (\<lambda>_. silent m0) (silent m0)"
  unfolding runs_def
proof (intro allI impI)
  fix m
  assume m: "silent m0 m"
  obtain r w where "p (mc_world m) = Some (r, w)"
    by (rule runsD [OF assms TrueI, of "mc_world m"]) auto
  then show "\<exists>r m'. on_world p m = Some (r, m') \<and> (case r of Returned x \<Rightarrow> silent m0 m' | Thrown \<Rightarrow> silent m0 m')"
    using m by (auto simp: on_world_def silent_def split: outcome.split)
qed

lemma silent_put: "runs (silent m0) (put_output env s) (\<lambda>_. silent m0) (silent m0)"
  unfolding put_output_def
  by (rule runs_pbind [OF silent_world [OF runs_any_call]]) (simp add: runs_def ret_def silent_def)

lemma silent_emit_verification: "runs (silent m0) (emit_verification env facility event) (\<lambda>_. silent m0) E"
  by (auto simp: runs_def emit_verification_def put_log_def ret_def silent_def split: option.split sum.split)

lemma silent_emit: "runs (silent m0) (emit_configuration env facility event) (\<lambda>_. silent m0) (silent m0)"
  by (auto simp: runs_def emit_configuration_def put_log_def ret_def silent_def split: option.split sum.split)

lemma silent_duration: "runs (silent m0) (duration env started) (\<lambda>_. silent m0) (silent m0)"
  unfolding duration_def by (intro runs_pbind [OF silent_world [OF runs_any_call]] runs_ret) simp

lemma exits_bind:
  "runs (silent m0) p (\<lambda>_. silent m0) (silent m0) \<Longrightarrow> (\<And>x. exits m0 (f x)) \<Longrightarrow> exits m0 (pbind p f)"
  by (rule runs_pbind)

lemma exits_print: "exits m0 (print_text env s)"
  unfolding print_text_def by (intro exits_bind [OF silent_put]) (auto intro: exits_ret exits_fail)

lemma exits_unless_cancelled: "exits m0 p \<Longrightarrow> exits m0 (unless_cancelled env p)"
  unfolding unless_cancelled_def
  by (intro exits_bind [OF silent_world [OF runs_any_call]]) (auto intro: exits_fail)

lemmas exits_intros = exits_fail exits_ret exits_print exits_unless_cancelled
  exits_bind [OF silent_world] exits_bind [OF silent_put] exits_bind [OF silent_emit] exits_bind [OF silent_duration]

lemma any_consequence: "runs (\<lambda>_. True) p Q E \<Longrightarrow> runs (\<lambda>_. True) p (\<lambda>_ _. True) (\<lambda>_. True)"
  by (rule runs_consequence) auto

text \<open>The commands one by one.\<close>

lemma exits_config_init:
  assumes "interrupts_finite (env_posix (cmd_config env)) rank" "writes_finite (cmd_files env) rank'"
  shows "exits m0 (run_config_init env flags)"
  unfolding run_config_init_def
  by (intro exits_intros runs_cases runs_any_call runs_initialize [OF assms(1)] runs_publish [OF assms(2)])

lemma exits_config_check:
  assumes "interrupts_finite (env_posix (cmd_config env)) rank"
  shows "exits m0 (run_config_check env path)"
  unfolding run_config_check_def Let_def
  by (intro exits_intros runs_cases runs_any_call any_consequence [OF runs_load_and_validate [OF assms]])

lemma exits_render:
  assumes "interrupts_finite (env_posix (cmd_config env)) rank"
  shows "exits m0 (run_render env config_path verifier user)"
  unfolding run_render_def
  by (intro exits_intros runs_cases runs_any_call any_consequence [OF runs_load_and_validate [OF assms]]
      runs_validate_render_path)

lemma exits_verify:
  assumes "command_laws env rank"
  shows "exits m0 (run_verify env args)"
proof -
  have "\<exists>m'. run_verify env args m = Some (Returned 0, m') \<and> mc_diagnostics m' = mc_diagnostics m" for m
  proof -
    have "fresh m m" by (simp add: fresh_def)
    then show ?thesis
      by (rule runsD [OF run_verify_verified [OF assms]]) (auto simp: verified_def)
  qed
  then show ?thesis by (fastforce simp: runs_def silent_def exited_def)
qed

lemma exits_dispatch:
  assumes "command_laws env rank" "writes_finite (cmd_files env) rank'"
  shows "exits m0 (run_dispatch env args)"
proof -
  have posix: "interrupts_finite (env_posix (cmd_config env)) rank" using assms(1) by (simp add: command_laws_def)
  show ?thesis
    unfolding run_dispatch_def
    by (intro runs_cases exits_fail exits_print exits_verify [OF assms(1)] exits_config_init [OF posix assms(2)]
        exits_config_check [OF posix] exits_render [OF posix])
qed

lemma exits_exceptional: "runs (silent m0) (exceptional_exit env args) (exited m0) E"
  unfolding exceptional_exit_def
  by (intro runs_if runs_pbind [OF silent_emit_verification] exits_ret exits_fail)

lemma exits_run:
  assumes "command_laws env rank" "writes_finite (cmd_files env) rank'"
  shows "runs (silent m0) (run env args) (exited m0) E"
  unfolding run_def run_catching_exceptions_def
  by (rule runs_catching [OF exits_dispatch [OF assms] exits_exceptional])

text \<open>
  C35. Whatever the arguments and whatever the calls of the system answer, a run of the command
  returns if interruptions of reads and writes are finite. It exits with 0 and leaves the
  diagnostics stream alone, or it exits with 2 and writes there one line, the name of the error.
\<close>

theorem run_exits:
  assumes "command_laws env rank" "writes_finite (cmd_files env) rank'"
  shows "\<exists>code m'. run env args m = Some (Returned code, m') \<and>
     (code = 0 \<and> mc_diagnostics m' = mc_diagnostics m \<or>
      code = 2 \<and> (\<exists>kind. mc_diagnostics m' = mc_diagnostics m @ error_name kind @ [CHR 0x0a]))"
proof -
  have "silent m m" by (simp add: silent_def)
  then show ?thesis
    by (rule runsD [OF exits_run [OF assms, where E = "\<lambda>_. False"]]) (auto simp: exited_def)
qed

lemma demo_writes: "writes_finite (cmd_files demo_env) (\<lambda>_. 0)"
  by (simp add: writes_finite_def demo_env_def unwritable_files_def)

theorem run_exits_witness:
  "\<exists>code m'. run demo_env [''config''] demo_machine = Some (Returned code, m') \<and> code = 2 \<and>
     (\<exists>kind. mc_diagnostics m' = error_name kind @ [CHR 0x0a])"
proof -
  obtain code m' where r: "run demo_env [''config''] demo_machine = Some (Returned code, m')"
      "code = 0 \<and> mc_diagnostics m' = mc_diagnostics demo_machine \<or>
       code = 2 \<and> (\<exists>kind. mc_diagnostics m' = mc_diagnostics demo_machine @ error_name kind @ [CHR 0x0a])"
    using run_exits [OF demo_laws(1) demo_writes, of "[''config'']" demo_machine] by blast
  have "\<exists>m'. run demo_env [''config''] demo_machine = Some (Returned 2, m')"
    by (simp add: run_def run_catching_exceptions_def catching_def run_dispatch_def help_flag_def fail_def
        put_diagnostics_def pbind_def ret_def)
  with r show ?thesis by (auto simp: demo_machine_def)
qed

section \<open>The rendered fragment\<close>

text \<open>The lines of a text and the words of a line.\<close>

fun split_on :: "char \<Rightarrow> string \<Rightarrow> string list" where
  "split_on c [] = [[]]"
| "split_on c (x # xs) =
     (if x = c then [] # split_on c xs
      else case split_on c xs of [] \<Rightarrow> [[x]] | w # ws \<Rightarrow> (x # w) # ws)"

lemma split_on_word: "c \<notin> set w \<Longrightarrow> split_on c w = [w]"
  by (induction w) auto

lemma split_on_append: "c \<notin> set w \<Longrightarrow> split_on c (w @ c # rest) = w # split_on c rest"
  by (induction w) auto

definition render_word :: "string \<Rightarrow> bool" where
  "render_word s \<longleftrightarrow> s \<noteq> '''' \<and> list_all render_character s"

lemma render_word_plain:
  "render_word s \<Longrightarrow> CHR '' '' \<notin> set s \<and> CHR 0x0a \<notin> set s \<and> CHR 0x25 \<notin> set s \<and> CHR 0x22 \<notin> set s"
  by (auto simp: render_word_def list_all_iff render_character_def is_letter_def is_digit_def)

lemma valid_command_user_word: "valid_command_user s \<Longrightarrow> render_word s"
  by (cases s) (auto simp: valid_command_user_def render_word_def render_character_def list_all_iff split: if_splits)

definition fragment_words :: "string \<Rightarrow> string list list" where
  "fragment_words fragment = map (split_on CHR '' '') (split_on CHR 0x0a fragment)"

lemma sshd_fragment_words:
  assumes "render_word path" "render_word verifier" "render_word user"
  shows "fragment_words (sshd_fragment path verifier user) =
     [[''AuthorizedKeysCommand'', verifier, ''verify'', ''--config'', path, ''--user'', ''%u'', ''--key'', ''%k'',
       ''--key-type'', ''%t''],
      [''AuthorizedKeysCommandUser'', user], [[]]]"
proof -
  note plain = assms [THEN render_word_plain]
  let ?first = "''AuthorizedKeysCommand '' @ verifier @ '' verify --config '' @ path @ '' --user %u --key %k --key-type %t''"
  let ?second = "''AuthorizedKeysCommandUser '' @ user"
  have "split_on CHR 0x0a (?first @ CHR 0x0a # ?second @ CHR 0x0a # []) = [?first, ?second, []]"
    using plain by (subst split_on_append) (simp, subst split_on_append, simp_all)
  then have lines: "split_on CHR 0x0a (sshd_fragment path verifier user) = [?first, ?second, []]"
    by (simp add: sshd_fragment_def)
  have "split_on CHR '' '' ?second = [''AuthorizedKeysCommandUser'', user]"
    using split_on_append [of "CHR '' ''" "''AuthorizedKeysCommandUser''" user] split_on_word [of "CHR '' ''" user] plain by simp
  moreover have "split_on CHR '' '' ?first =
      [''AuthorizedKeysCommand'', verifier, ''verify'', ''--config'', path, ''--user'', ''%u'', ''--key'', ''%k'',
       ''--key-type'', ''%t'']"
  proof -
    have "split_on CHR '' '' ?first = ''AuthorizedKeysCommand'' # split_on CHR '' '' (verifier @ CHR '' '' #
        ''verify --config '' @ path @ CHR '' '' # ''--user %u --key %k --key-type %t'')"
      using split_on_append [of "CHR '' ''" "''AuthorizedKeysCommand''"
          "verifier @ CHR '' '' # ''verify --config '' @ path @ CHR '' '' # ''--user %u --key %k --key-type %t''"] by simp
    then show ?thesis using plain by (simp add: split_on_append)
  qed
  ultimately show ?thesis by (simp add: fragment_words_def lines)
qed

lemma on_world_iff [prog_iffs]:
  "on_world p m = Some (Returned y, m') \<longleftrightarrow>
     (\<exists>w. p (mc_world m) = Some (Returned y, w) \<and> m' = m\<lparr>mc_world := w\<rparr>)"
  by (auto simp: on_world_def split: option.splits)

lemma fail_not_0: "fail kind m \<noteq> Some (Returned 0, m')"
  by (simp add: fail_def put_diagnostics_def pbind_def ret_def)

lemma print_text_0: "print_text env s m = Some (Returned 0, m') \<Longrightarrow> mc_output m' = mc_output m @ s"
  by (auto simp: print_text_def put_output_def prog_iffs fail_not_0 split: if_splits)

lemma unless_cancelled_0:
  "unless_cancelled env p m = Some (Returned 0, m') \<Longrightarrow> \<exists>w. p (m\<lparr>mc_world := w\<rparr>) = Some (Returned 0, m')"
  by (auto simp: unless_cancelled_def prog_iffs fail_not_0 split: if_splits)

lemma run_render_0:
  assumes "run_render env path verifier user m = Some (Returned 0, m')"
  shows "\<exists>euid w cfg w' w1 w1' w2 w2'.
     load_and_validate (cmd_config env) path euid w = Some (Returned (Inr cfg), w') \<and>
     validate_render_path (cmd_lstat env) path True w1 = Some (Returned (Inr ()), w1') \<and>
     validate_render_path (cmd_lstat env) verifier True w2 = Some (Returned (Inr ()), w2') \<and>
     valid_command_user user \<and> mc_output m' = mc_output m @ sshd_fragment path verifier user"
proof -
  obtain euid w checked w' where load: "load_and_validate (cmd_config env) path euid w = Some (Returned checked, w')"
      "(case checked of
          Inl e \<Rightarrow> fail e
        | Inr _ \<Rightarrow>
            unless_cancelled env
              (pbind (on_world (validate_render_path (cmd_lstat env) path True)) (\<lambda>config_ok.
               pbind (on_world (validate_render_path (cmd_lstat env) verifier True)) (\<lambda>verifier_ok.
               case (config_ok, verifier_ok) of
                 (Inl e, _) \<Rightarrow> fail e
               | (Inr _, Inl e) \<Rightarrow> fail e
               | (Inr _, Inr _) \<Rightarrow>
                   if \<not> valid_command_user user then fail malformed_input
                   else print_text env (sshd_fragment path verifier user))))) (m\<lparr>mc_world := w'\<rparr>) = Some (Returned 0, m')"
    using unless_cancelled_0 [OF assms [unfolded run_render_def]] by (auto simp: prog_iffs) 
  then obtain cfg where cfg: "checked = Inr cfg" by (cases checked) (auto simp: fail_not_0)
  obtain config_ok w1 verifier_ok w2 w2' where ok:
      "validate_render_path (cmd_lstat env) path True w1 = Some (Returned config_ok, w2)"
      "validate_render_path (cmd_lstat env) verifier True w2 = Some (Returned verifier_ok, w2')"
      "(case (config_ok, verifier_ok) of
                 (Inl e, _) \<Rightarrow> fail e
               | (Inr _, Inl e) \<Rightarrow> fail e
               | (Inr _, Inr _) \<Rightarrow>
                   if \<not> valid_command_user user then fail malformed_input
                   else print_text env (sshd_fragment path verifier user)) (m\<lparr>mc_world := w2'\<rparr>) = Some (Returned 0, m')"
    using unless_cancelled_0 [OF load(2) [unfolded cfg sum.case]] by (auto simp: prog_iffs)
  then show ?thesis
    using load cfg
    by (cases config_ok; cases verifier_ok) (auto simp: fail_not_0 dest: print_text_0 split: if_splits)
qed

text \<open>
  C36. What a successful \<^verbatim>\<open>sshd-config render\<close> prints is a fragment of exactly two lines, the second
  ended by its line break. Read as words, the first is the command of the verifier with its fixed
  flags and tokens and the second names the user: no argument adds a word, a line, a quotation mark or
  a \<^verbatim>\<open>%\<close> token. The configuration it names loads.
\<close>

theorem render_fragment:
  assumes "run env [''sshd-config'', ''render'', ''--config'', path, ''--verifier'', verifier, ''--command-user'', user] m
     = Some (Returned 0, m')"
  shows "\<exists>fragment. mc_output m' = mc_output m @ fragment \<and>
     fragment_words fragment =
       [[''AuthorizedKeysCommand'', verifier, ''verify'', ''--config'', path, ''--user'', ''%u'', ''--key'', ''%k'',
         ''--key-type'', ''%t''],
        [''AuthorizedKeysCommandUser'', user], ['''']] \<and>
     hd path = CHR ''/'' \<and> hd verifier = CHR ''/'' \<and>
     CHR 0x25 \<notin> set (path @ verifier @ user) \<and> CHR 0x22 \<notin> set (path @ verifier @ user) \<and>
     (\<exists>euid w cfg w'. load_and_validate (cmd_config env) path euid w = Some (Returned (Inr cfg), w'))"
proof -
  let ?args = "[''sshd-config'', ''render'', ''--config'', path, ''--verifier'', verifier, ''--command-user'', user]"
  have "exceptional_exit env ?args m1 \<noteq> Some (Returned 0, m')" for m1
    by (simp add: exceptional_exit_def fail_not_0)
  then have "run_dispatch env ?args m = Some (Returned 0, m')"
    using assms by (auto simp: run_def run_catching_exceptions_def catching_def split: option.splits outcome.splits)
  then have "run_render env path verifier user m = Some (Returned 0, m')"
    by (simp add: run_dispatch_def)
  then obtain euid w cfg w' w1 w1' w2 w2' where r:
      "load_and_validate (cmd_config env) path euid w = Some (Returned (Inr cfg), w')"
      "validate_render_path (cmd_lstat env) path True w1 = Some (Returned (Inr ()), w1')"
      "validate_render_path (cmd_lstat env) verifier True w2 = Some (Returned (Inr ()), w2')"
      "valid_command_user user" "mc_output m' = mc_output m @ sshd_fragment path verifier user"
    by (elim run_render_0 [elim_format] exE conjE) (rule that)
  have words: "render_word path" "render_word verifier" "render_word user"
    using validate_render_path_sound [OF r(2)] validate_render_path_sound [OF r(3)] valid_command_user_word [OF r(4)]
    by (simp_all add: render_word_def)
  show ?thesis
    using words [THEN render_word_plain] validate_render_path_sound [OF r(2)] validate_render_path_sound [OF r(3)] r(1,5)
    by (intro exI [of _ "sshd_fragment path verifier user"]) (simp add: sshd_fragment_words [OF words], blast)
qed

definition render_env :: "(nat \<times> string, unit) command_env" where
  "render_env = demo_env\<lparr>cmd_lstat := \<lambda>_ w. (Some 0x81A4, w)\<rparr>"

lemma demo_rendered:
  "\<exists>m'. run render_env [''sshd-config'', ''render'', ''--config'', ''/c'', ''--verifier'', ''/v'', ''--command-user'', ''u'']
     demo_machine = Some (Returned 0, m')"
proof -
  have "calm render_env 0 150 0"
    using demo_calm by (simp add: calm_def render_env_def)
  note calls = calm_calls [OF this]
  have env: "cmd_config render_env = cmd_config demo_env" "cmd_lstat render_env = (\<lambda>_ w. (Some 0x81A4, w))"
    by (simp_all add: render_env_def)
  have path: "validate_render_path (\<lambda>_ w. (Some 0x81A4, w)) p True = ret (Inr ())"
    if "p = ''/c'' \<or> p = ''/v''" for p
    using that
    by (auto simp: validate_render_path_def render_character_def is_letter_def is_digit_def S_ISLNK_def S_ISREG_def
        pbind_def call_def ret_def fun_eq_iff)
  have user: "valid_command_user ''u''" by (simp add: valid_command_user_def is_letter_def)
  have world: "on_world (ret x) = ret x" for x :: "unit expected"
    by (simp add: on_world_def ret_def fun_eq_iff)
  have loaded: "on_world (load_and_validate (cmd_config demo_env) ''/c'' 0) demo_machine =
      Some (Returned (Inr demo_configuration), demo_machine\<lparr>mc_world := (0, [])\<rparr>)"
    by (simp only: on_world_def demo_loaded option.case prod.case)
  have "put_output render_env s = (\<lambda>m. ret True (m\<lparr>mc_output := mc_output m @ s\<rparr>))" for s
    by (simp add: put_output_def calls)
  then show ?thesis
    by (simp add: run_def run_catching_exceptions_def catching_def run_dispatch_def help_flag_def run_render_def
        unless_cancelled_def calls env path user world print_text_def)
      (simp add: pbind_def loaded [unfolded demo_env_simps] ret_def)
qed

theorem render_fragment_witness:
  "\<exists>m'. run render_env [''sshd-config'', ''render'', ''--config'', ''/c'', ''--verifier'', ''/v'', ''--command-user'', ''u'']
        demo_machine = Some (Returned 0, m') \<and> length (fragment_words (mc_output m')) = 3"
  using demo_rendered render_fragment [of render_env "''/c''" "''/v''" "''u''" demo_machine]
  by (auto simp: demo_machine_def)

end
