(* ===== verification/Cb_Members.thy ===== *)
theory Cb_Members
  imports Cb_Initialize "HOL-Library.Multiset"
begin

text \<open>
  JSON values up to the order of members and up to what the writer prints: the order of the members of
  an object does not change the value that is parsed, nor its counts and bounds, and what \<^verbatim>\<open>dump\<close> prints
  of a value is parsed by the sections of a configuration as the value itself.
\<close>

section \<open>The order of members\<close>

abbreviation assign_all :: "(string \<times> json) list \<Rightarrow> (string \<times> json) list" where
  "assign_all members \<equiv> foldl (\<lambda>ms (name, v). member_assign name v ms) [] members"

lemma assigned_sorted:
  "sorted_wrt (<) (map fst ms0) \<Longrightarrow> sorted_wrt (<) (map fst (foldl (\<lambda>ms (name, v). member_assign name v ms) ms0 ms))"
  by (induction ms arbitrary: ms0) (auto simp: sorted_member_assign)

lemma assigned_map:
  "distinct (map fst ms) \<Longrightarrow>
     map_of (foldl (\<lambda>ms (name, v). member_assign name v ms) ms0 ms) = map_of ms0 ++ map_of ms"
proof (induction ms arbitrary: ms0)
  case (Cons m ms)
  obtain name v where m: "m = (name, v)" by fastforce
  have "name \<notin> dom (map_of ms)" using Cons.prems by (simp add: m dom_map_of_conv_image_fst)
  then show ?case using Cons by (simp add: m map_add_upd_left) (simp add: fun_eq_iff map_add_def)
qed simp

lemma assign_all_map: "distinct (map fst ms) \<Longrightarrow> map_of (assign_all ms) = map_of ms"
  using assigned_map [of ms "[]"] by simp

lemma sorted_keys_unique:
  fixes ms ms' :: "(string \<times> json) list"
  assumes "sorted_wrt (<) (map fst ms)" "sorted_wrt (<) (map fst ms')" "map_of ms = map_of ms'"
  shows "ms = ms'"
proof -
  have d: "distinct (map fst ms)" "distinct (map fst ms')"
    using assms(1,2) by (simp_all add: strict_sorted_iff)
  have "set (map fst ms) = set (map fst ms')"
    using arg_cong [OF assms(3), of dom] by (simp add: dom_map_of_conv_image_fst)
  then have keys: "map fst ms = map fst ms'"
    using assms(1,2) strict_sorted_equal by blast
  have rebuilt: "map (\<lambda>k. (k, the (map_of xs k))) (map fst xs) = xs" if "distinct (map fst xs)" for xs :: "(string \<times> json) list"
    using that by (auto intro: map_idI)
  show ?thesis
    using rebuilt [OF d(1)] rebuilt [OF d(2)] keys assms(3) by simp
qed

lemma assign_all_unique:
  assumes "distinct (map fst ms)" "distinct (map fst ms')" "map_of ms = map_of ms'"
  shows "assign_all ms = assign_all ms'"
  using assms by (intro sorted_keys_unique assigned_sorted) (simp_all add: assign_all_map)

lemma assign_all_id:
  assumes "sorted_wrt (<) (map fst ms)"
  shows "assign_all ms = ms"
proof -
  have "distinct (map fst ms)" using assms by (simp add: strict_sorted_iff)
  then show ?thesis
    using assms by (intro sorted_keys_unique assigned_sorted) (simp_all add: assign_all_map)
qed

lemma assigned_subset: "set (foldl (\<lambda>ms (name, v). member_assign name v ms) ms0 ms) \<subseteq> set ms0 \<union> set ms"
proof (induction ms arbitrary: ms0)
  case (Cons m ms)
  then show ?case using set_member_assign [of "fst m" "snd m" ms0] by (cases m) fastforce
qed simp

lemma assign_all_mset:
  assumes "distinct (map fst ms)"
  shows "mset (assign_all ms) = mset ms"
proof -
  have d: "distinct (map fst (assign_all ms))"
    using assigned_sorted [of "[]" ms] by (simp add: strict_sorted_iff)
  have "set (assign_all ms) = set ms"
  proof (rule set_eqI)
    fix m :: "string \<times> json"
    show "m \<in> set (assign_all ms) \<longleftrightarrow> m \<in> set ms"
      using map_of_eq_Some_iff [OF d, of "fst m" "snd m"] map_of_eq_Some_iff [OF assms, of "fst m" "snd m"]
        assign_all_map [OF assms] by simp
  qed
  then show ?thesis
    using d assms by (metis distinct_map set_eq_iff_mset_eq_distinct)
qed

section \<open>Values\<close>

lemma members_fst [simp]: "map (fst \<circ> (\<lambda>(name, v). (name, f v))) ms = map fst ms"
  by (simp add: comp_def case_prod_unfold)

lemma object_value_eq:
  assumes "distinct (map fst ms)" "distinct (map fst ms')"
    and "\<And>k. map_option json_value (map_of ms k) = map_option json_value (map_of ms' k)"
  shows "json_value (JObject ms) = json_value (JObject ms')"
proof -
  have "map_of (map (\<lambda>(name, v). (name, json_value v)) ms) = map_of (map (\<lambda>(name, v). (name, json_value v)) ms')"
    using assms(3) by (simp add: map_of_map fun_eq_iff)
  then show ?thesis
    using assms(1,2) by (simp only: json_value.simps json.inject) (rule assign_all_unique; simp)
qed

lemma json_value_idem [simp]: "json_value (json_value t) = json_value t"
proof (induction t rule: json_value.induct)
  case (2 members)
  let ?ms = "assign_all (map (\<lambda>(name, v). (name, json_value v)) members)"
  have "json_value v = v" if "(name, v) \<in> set ?ms" for name v
    using assigned_subset [of "[]" "map (\<lambda>(name, v). (name, json_value v)) members"] that 2 by fastforce
  then have "map (\<lambda>(name, v). (name, json_value v)) ?ms = ?ms"
    by (intro map_idI) auto
  then show ?case
    using assign_all_id [OF assigned_sorted, of "[]"] by simp
qed simp_all

lemma json_find_value:
  assumes "distinct (map fst ms)"
  shows "json_find (json_value (JObject ms)) name = map_option json_value (map_of ms name)"
  using assms by (simp add: json_find_def assign_all_map map_of_map)

section \<open>Counts\<close>

lemma sum_assign_all: "distinct (map fst ms) \<Longrightarrow> sum_list (map f (assign_all ms)) = sum_list (map f ms)"
  for f :: "string \<times> json \<Rightarrow> nat"
  using arg_cong [OF assign_all_mset, of ms "\<lambda>M. sum_mset (image_mset f M)"]
  by (simp add: sum_mset_sum_list flip: mset_map)

lemma set_assign_all: "distinct (map fst ms) \<Longrightarrow> set (assign_all ms) = set ms"
  by (metis assign_all_mset set_mset_mset)

lemma json_counts_value:
  "distinct_members t \<Longrightarrow> json_values (json_value t) = json_values t \<and> json_members (json_value t) = json_members t"
proof (induction t rule: json_value.induct)
  case (1 items)
  then show ?case by (simp add: list_all_iff comp_def cong: map_cong)
next
  case (2 members)
  have "json_values (json_value v) = json_values v \<and> json_members (json_value v) = json_members v"
    if "(name, v) \<in> set members" for name v
    using 2 that by (fastforce simp: list_all_iff)
  then have "map (\<lambda>(name, v). json_values v) (map (\<lambda>(name, v). (name, json_value v)) members) = map (\<lambda>(name, v). json_values v) members"
      "map (\<lambda>(name, v). 1 + json_members v) (map (\<lambda>(name, v). (name, json_value v)) members) = map (\<lambda>(name, v). 1 + json_members v) members"
    by auto
  then show ?case
    using 2(2) by (simp only: json_value.simps json_values.simps json_members.simps sum_assign_all map_map members_fst distinct_members.simps)
qed simp_all

lemma items_depth: "foldr (\<lambda>v d. max (json_depth v) d) items 0 \<le> k \<longleftrightarrow> (\<forall>v\<in>set items. json_depth v \<le> k)"
  by (induction items) auto

lemma members_depth: "foldr (\<lambda>(name, v) d. max (json_depth v) d) ms 0 \<le> k \<longleftrightarrow> (\<forall>(name, v)\<in>set ms. json_depth v \<le> k)"
  by (induction ms) auto

lemma json_depth_value: "distinct_members t \<Longrightarrow> json_depth (json_value t) \<le> k \<longleftrightarrow> json_depth t \<le> k"
proof (induction t arbitrary: k rule: json_value.induct)
  case (1 items)
  then show ?case
    by (cases k) (auto simp: items_depth list_all_iff)
next
  case (2 members)
  then have d: "distinct (map fst (map (\<lambda>(name, v). (name, json_value v)) members))" by simp
  have "json_depth (json_value v) \<le> j \<longleftrightarrow> json_depth v \<le> j" if "(name, v) \<in> set members" for name v j
    using 2 that by (fastforce simp: list_all_iff)
  then show ?case
    by (cases k) (auto simp: members_depth set_assign_all [OF d, simplified])
qed simp_all

lemma json_ok_value: "distinct_members t \<Longrightarrow> json_ok b (json_value t) \<longleftrightarrow> json_ok b t"
proof (induction t rule: json_value.induct)
  case (1 items)
  then show ?case by (simp add: list_all_iff)
next
  case (2 members)
  then have d: "distinct (map fst (map (\<lambda>(name, v). (name, json_value v)) members))" by simp
  have "json_ok b (json_value v) \<longleftrightarrow> json_ok b v" if "(name, v) \<in> set members" for name v
    using 2 that by (fastforce simp: list_all_iff)
  moreover have "distinct (map fst (assign_all (map (\<lambda>(name, v). (name, json_value v)) members)))"
    using assigned_sorted [of "[]"] by (simp add: strict_sorted_iff)
  ultimately show ?case
    using 2(2) by (auto simp: list_all_iff set_assign_all [OF d, simplified])
qed simp_all

lemma document_ok_same:
  assumes "distinct_members s" "distinct_members t" "json_value s = json_value t"
  shows "document_ok b s \<longleftrightarrow> document_ok b t"
proof -
  have "document_ok b t \<longleftrightarrow> document_ok b (json_value t)" if "distinct_members t" for t
    using json_counts_value [OF that] json_depth_value [OF that] json_ok_value [OF that]
    by (cases t) (auto simp: document_ok_def)
  then show ?thesis using assms by metis
qed

section \<open>Trees with distinct names and parsed numbers\<close>

text \<open>
  The numbers of the library's parser: a number without a sign that fits an unsigned integer is one, a
  signed integer is not positive (and zero for \<^verbatim>\<open>-0\<close>), any other number is a finite \<^verbatim>\<open>double\<close>.
\<close>

definition binary64 :: "double \<Rightarrow> bool" where
  "binary64 d = (case d of
     Finite r \<Rightarrow> \<exists>(m :: int) (e :: nat). \<bar>m\<bar> < 2 ^ 53 \<and>
       (e \<le> 971 \<and> r = of_int m * 2 ^ e \<or> e \<le> 1074 \<and> r = of_int m / 2 ^ e)
   | _ \<Rightarrow> False)"

fun plain_numbers :: "json \<Rightarrow> bool" where
  "plain_numbers (JArray items) \<longleftrightarrow> list_all plain_numbers items"
| "plain_numbers (JObject members) \<longleftrightarrow> list_all (\<lambda>(name, v). plain_numbers v) members"
| "plain_numbers (JInteger i) \<longleftrightarrow> - (2 ^ 63) \<le> i \<and> i \<le> 0"
| "plain_numbers (JFloat d) \<longleftrightarrow> binary64 d"
| "plain_numbers j \<longleftrightarrow> True"

definition tidy :: "json \<Rightarrow> bool" where
  "tidy t \<longleftrightarrow> distinct_members t \<and> plain_numbers t"

text \<open>\<open>a\<close> is tidy and is read as \<open>b\<close>.\<close>

definition same :: "json \<Rightarrow> json \<Rightarrow> bool" where
  "same a b \<longleftrightarrow> tidy a \<and> json_value a = json_value b"

lemma tidy_simps [simp]:
  "tidy (JArray items) \<longleftrightarrow> list_all tidy items"
  "tidy (JObject members) \<longleftrightarrow> distinct (map fst members) \<and> list_all (\<lambda>(name, v). tidy v) members"
  "tidy (JString s)" "tidy (JUnsigned n)" "tidy (JBool b)" "tidy JNull"
  by (auto simp: tidy_def list_all_iff)

lemma plain_value: "plain_numbers t \<Longrightarrow> plain_numbers (json_value t)"
proof (induction t rule: json_value.induct)
  case (2 members)
  then show ?case
    using assigned_subset [of "[]" "map (\<lambda>(name, v). (name, json_value v)) members"] by (fastforce simp: list_all_iff)
qed (simp_all add: list_all_iff)

lemma tidy_value: "plain_numbers t \<Longrightarrow> tidy (json_value t)"
  by (simp add: tidy_def plain_value)

lemma json_find_tidy: "tidy v \<Longrightarrow> json_find v name = Some x \<Longrightarrow> tidy x"
  by (cases v) (auto simp: json_find_def list_all_iff dest: map_of_SomeD)

lemma same_refl: "tidy v \<Longrightarrow> same v v"
  by (simp add: same_def)

lemma same_array: "list_all2 same xs ys \<Longrightarrow> same (JArray xs) (JArray ys)"
  by (induction rule: list_all2_induct) (auto simp: same_def)

section \<open>What the writer prints\<close>

text \<open>
  The value of the text that \<^verbatim>\<open>dump\<close> writes: a signed integer that is not negative is read back as an
  unsigned one. The parser makes one such integer, the zero of \<^verbatim>\<open>-0\<close>.
\<close>

fun printed :: "json \<Rightarrow> json" where
  "printed (JArray items) = JArray (map printed items)"
| "printed (JObject members) = JObject (map (\<lambda>(name, v). (name, printed v)) members)"
| "printed (JInteger i) = (if 0 \<le> i then JUnsigned (of_int i) else JInteger i)"
| "printed j = j"

lemma printed_members: "map fst (map (\<lambda>(name, v). (name, printed v)) members) = map fst members"
  by simp

lemma member_assign_printed:
  "map (\<lambda>(name, v). (name, printed v)) (member_assign name v members) =
     member_assign name (printed v) (map (\<lambda>(name, v). (name, printed v)) members)"
  by (induction name v members rule: member_assign.induct) auto

lemma assigned_printed:
  "map (\<lambda>(name, v). (name, printed v)) (foldl (\<lambda>ms (name, v). member_assign name v ms) ms0 ms) =
     foldl (\<lambda>ms (name, v). member_assign name v ms) (map (\<lambda>(name, v). (name, printed v)) ms0)
       (map (\<lambda>(name, v). (name, printed v)) ms)"
  by (induction ms arbitrary: ms0) (auto simp: member_assign_printed)

lemma json_value_printed: "json_value (printed t) = printed (json_value t)"
proof (induction t rule: json_value.induct)
  case (2 members)
  then have "map (\<lambda>(name, v). (name, json_value v)) (map (\<lambda>(name, v). (name, printed v)) members) =
      map (\<lambda>(name, v). (name, printed v)) (map (\<lambda>(name, v). (name, json_value v)) members)"
    by auto
  then show ?case
    using assigned_printed [of "[]" "map (\<lambda>(name, v). (name, json_value v)) members"]
    by (simp only: printed.simps json_value.simps list.map)
qed auto

lemma distinct_printed: "distinct_members t \<Longrightarrow> distinct_members (printed t)"
  by (induction t rule: printed.induct) (auto simp: list_all_iff simp del: map_map simp: printed_members)

lemma printed_find [simp]: "json_find (printed v) name = map_option printed (json_find v name)"
  by (cases v) (simp_all add: json_find_def map_of_map)

lemma printed_option: "case_option e f (map_option printed x) = case_option e (\<lambda>v. f (printed v)) x"
  by (cases x) simp_all

lemma printed_strings [simp]:
  "is_string (printed v) = is_string v" "get_string (printed v) = get_string v"
  by (cases v; simp add: is_string_def get_string_def)+

lemma printed_cases [simp]:
  "case_json e (\<lambda>_. e) (\<lambda>_. e) (\<lambda>_. e) (\<lambda>_. e) (\<lambda>_. e) f (\<lambda>_. e) (printed v) =
     case_json e (\<lambda>_. e) (\<lambda>_. e) (\<lambda>_. e) (\<lambda>_. e) (\<lambda>_. e) (\<lambda>items. f (map printed items)) (\<lambda>_. e) v"
  "case_json e (\<lambda>_. e) (\<lambda>_. e) (\<lambda>_. e) (\<lambda>_. e) (\<lambda>_. e) (\<lambda>_. e) g (printed v) =
     case_json e (\<lambda>_. e) (\<lambda>_. e) (\<lambda>_. e) (\<lambda>_. e) (\<lambda>_. e) (\<lambda>_. e) (\<lambda>ms. g (map (\<lambda>(name, v). (name, printed v)) ms)) v"
  "case_json e h (\<lambda>_. e) (\<lambda>_. e) (\<lambda>_. e) (\<lambda>_. e) (\<lambda>_. e) (\<lambda>_. e) (printed v) =
     case_json e h (\<lambda>_. e) (\<lambda>_. e) (\<lambda>_. e) (\<lambda>_. e) (\<lambda>_. e) (\<lambda>_. e) v"
  by (cases v; simp)+

lemma exact_members_printed [simp]: "exact_members (printed v) required optional = exact_members v required optional"
  by (cases v) (auto simp: exact_members_def list_all_iff simp del: printed_find simp: json_find_def map_of_map)

lemma string_value_printed [simp]: "string_value (printed v) name = string_value v name"
  by (simp add: string_value_def printed_option cong: option.case_cong json.case_cong if_cong)

lemma string_set_items_printed: "string_set_items (map printed items) S = string_set_items items S"
  by (induction items arbitrary: S) simp_all

lemma string_set_printed [simp]: "string_set (printed v) name nonempty = string_set v name nonempty"
  by (simp add: string_set_def printed_option string_set_items_printed cong: option.case_cong json.case_cong if_cong)

lemma parse_predicate_printed [simp]: "parse_predicate env (printed v) = parse_predicate env v"
  by (simp add: parse_predicate_def cong: option.case_cong json.case_cong if_cong)

lemma predicate_items_printed: "predicate_items env (map printed items) ps = predicate_items env items ps"
  by (induction items arbitrary: ps) simp_all

lemma parse_predicates_printed [simp]: "parse_predicates env (printed v) name required = parse_predicates env v name required"
  by (simp add: parse_predicates_def printed_option predicate_items_printed cong: option.case_cong json.case_cong if_cong)

lemma whole_seconds_printed [simp]: "whole_seconds (printed v) name positive = whole_seconds v name positive"
  by (simp add: whole_seconds_def)

text \<open>No section of a policy reads a number, so that what is printed is parsed as what was printed.\<close>

lemma key_source_path_printed [simp]: "key_source_path (printed v) = key_source_path v"
proof -
  have "string_value (JObject (map (\<lambda>(name, v). (name, printed v)) members)) name = string_value (JObject members) name"
      "exact_members (JObject (map (\<lambda>(name, v). (name, printed v)) members)) required optional =
       exact_members (JObject members) required optional" for members name required optional
    using string_value_printed [of "JObject members"] exact_members_printed [of "JObject members"] by simp_all
  then show ?thesis by (simp add: key_source_path_def printed_option Let_def cong: option.case_cong json.case_cong if_cong)
qed

lemma parse_issuer_fields_printed [simp]: "parse_issuer_fields env ids (printed v) = parse_issuer_fields env ids v"
  by (simp add: parse_issuer_fields_def issuer_identity_def issuer_string_sets_def authorized_parties_def
      required_claims_def optional_seconds_def reconstructibility_def audit_claim_def printed_option cong: option.case_cong json.case_cong if_cong)

lemma parse_trusted_issuers_printed:
  "parse_trusted_issuers env owner skew resources (map printed vs) ids names trusted =
     parse_trusted_issuers env owner skew resources vs ids names trusted"
  by (induction vs arbitrary: ids names trusted) simp_all

lemma account_rule_step_printed [simp]: "account_rule_step env ids account (printed v) s = account_rule_step env ids account v s"
  by (simp add: account_rule_step_def Let_def)

lemma account_rules_printed: "account_rules env ids account (map printed rules) = account_rules env ids account rules"
proof (induction rules)
  case (Cons rule rules)
  then show ?case by (intro ext) simp
qed (simp add: fun_eq_iff)

lemma json_at_printed: "json_at (printed v) name = printed (json_at v name)"
  by (simp add: json_at_def split: option.split)

lemma parse_accounts_printed:
  "parse_accounts env ids (map (\<lambda>(name, v). (name, printed v)) members) = parse_accounts env ids members"
proof (induction members)
  case (Cons m members)
  then show ?case
    by (cases m, intro ext) (simp add: json_at_printed account_rules_printed cong: json.case_cong if_cong)
qed (simp add: fun_eq_iff)

end
