(* ===== verification/Cb_Canonical.thy ===== *)
theory Cb_Canonical
  imports Cb_Members
begin

text \<open>
  The document the initializer writes is the one it validated, with the members of its objects in
  another order: both are read as the same configuration, the one that the options and the policy
  ask for.
\<close>

section \<open>Copied objects\<close>

text \<open>The members copied so far: those of \<open>v\<close> with one of the names.\<close>

definition copied :: "json \<Rightarrow> string list \<Rightarrow> (string \<times> json) list \<Rightarrow> bool" where
  "copied v names ms \<longleftrightarrow>
     tidy (JObject ms) \<and>
     (\<forall>k. map_option json_value (map_of ms k) = (if k \<in> set names then map_option json_value (json_find v k) else None))"

lemma map_of_ordered_assign: "map_of (ordered_assign name x ms) = (map_of ms)(name \<mapsto> x)"
proof (cases "name \<in> fst ` set ms")
  case True
  have "map_of (map (\<lambda>(n, old). (n, if n = name then x else old)) ms) k =
      (if k = name then map_option (\<lambda>_. x) (map_of ms k) else map_of ms k)" for k
  proof (induction ms)
    case (Cons m ms)
    then show ?case by (cases m; cases "k = name") simp_all
  qed simp
  moreover obtain old where "map_of ms name = Some old"
    using True by (metis map_of_eq_None_iff not_None_eq)
  ultimately show ?thesis using True by (simp add: ordered_assign_def fun_eq_iff)
next
  case False
  then have "map_of ms name = None" by (simp add: map_of_eq_None_iff)
  then show ?thesis using False by (auto simp: ordered_assign_def fun_eq_iff map_add_def split: option.split)
qed

lemma fst_ordered_assign:
  "map fst (ordered_assign name x ms) = (if name \<in> fst ` set ms then map fst ms else map fst ms @ [name])"
  by (simp add: ordered_assign_def comp_def case_prod_unfold)

lemma tidy_ordered_assign: "tidy (JObject ms) \<Longrightarrow> tidy x \<Longrightarrow> tidy (JObject (ordered_assign name x ms))"
proof -
  assume tidy: "tidy (JObject ms)" "tidy x"
  have "set (ordered_assign name x ms) \<subseteq> insert (name, x) (set ms)"
    by (auto simp: ordered_assign_def split: if_splits)
  then have "\<forall>(n, y)\<in>set (ordered_assign name x ms). tidy y"
    using tidy by (fastforce simp: list_all_iff)
  then show ?thesis using tidy by (simp add: fst_ordered_assign list_all_iff)
qed

lemma copied_Nil: "copied v [] []"
  by (simp add: copied_def)

lemma copied_assign:
  assumes "copied v names ms" "json_find v name = Some x" "same y x"
  shows "copied v (name # names) (ordered_assign name y ms)"
  using assms tidy_ordered_assign [of ms y name]
  by (auto simp: copied_def same_def map_of_ordered_assign)

lemma copied_member:
  assumes "tidy v" "copied v names ms" "copy_member v name ms = Some ms'"
  shows "copied v (name # names) ms'"
  using assms copied_assign [OF assms(2), of name] json_find_tidy [OF assms(1), of name]
  by (auto simp: copy_member_def member_at_def same_refl)

lemma copied_absent: "copied v names ms \<Longrightarrow> json_find v name = None \<Longrightarrow> copied v (name # names) ms"
  by (auto simp: copied_def)

lemma copied_optional:
  assumes "tidy v" "copied v names ms"
  shows "copied v (name # names) (copy_optional v name ms)"
proof (cases "json_find v name")
  case None
  then show ?thesis using copied_absent [OF assms(2)] by (simp add: copy_optional_def)
next
  case (Some x)
  then show ?thesis
    using copied_assign [OF assms(2) Some same_refl] json_find_tidy [OF assms(1) Some] by (simp add: copy_optional_def)
qed

lemma copied_ordered:
  assumes "copied v names ms" "ordered_optional f v name ms = Some ms'"
    and "\<And>x y. json_find v name = Some x \<Longrightarrow> f x = Some y \<Longrightarrow> same y x"
  shows "copied v (name # names) ms'"
proof (cases "json_find v name")
  case None
  then show ?thesis using copied_absent [OF assms(1)] assms(2) by (simp add: ordered_optional_def)
next
  case (Some x)
  then show ?thesis
    using copied_assign [OF assms(1) Some] assms(2,3) by (auto simp: ordered_optional_def)
qed

lemma copied_whole:
  assumes "copied v names ms" "tidy v" "exact_members v required optional" "set required \<union> set optional \<subseteq> set names"
  shows "same (JObject ms) v"
proof -
  obtain vs where v: "v = JObject vs" using assms(3) by (cases v) (auto simp: exact_members_def)
  have "map_option json_value (map_of ms k) = map_option json_value (map_of vs k)" for k
  proof (cases "k \<in> set names")
    case True
    then show ?thesis using assms(1) by (simp add: copied_def v json_find_def)
  next
    case False
    then have "k \<notin> fst ` set vs"
      using assms(3,4) by (fastforce simp: exact_members_def v list_all_iff)
    then have "map_of vs k = None" by (simp add: map_of_eq_None_iff)
    then show ?thesis using assms(1) False by (simp add: copied_def)
  qed
  then show ?thesis
    using assms(1,2) object_value_eq [of ms vs] by (simp add: same_def copied_def v)
qed

lemma option_list_same:
  assumes "option_list f xs = Some ys" "\<And>x y. x \<in> set xs \<Longrightarrow> f x = Some y \<Longrightarrow> same y x"
  shows "same (JArray ys) (JArray xs)"
proof -
  have "list_all2 same ys xs"
    using assms by (induction xs arbitrary: ys) (auto split: bind_splits)
  then show ?thesis by (rule same_array)
qed

section \<open>The canonical parts\<close>

lemma ordered_predicate_same:
  assumes "parse_predicate env v = Inr p" "tidy v" "ordered_predicate v = Some o'"
  shows "same o' v"
proof -
  obtain ms1 ms2 ms3 where m: "copy_member v ''claim'' [] = Some ms1" "copy_member v ''type'' ms1 = Some ms2"
      "copy_member v ''op'' ms2 = Some ms3" "o' = JObject (copy_optional v ''values'' (copy_optional v ''value'' ms3))"
    using assms(3) by (auto simp: ordered_predicate_def split: bind_splits)
  have c: "copied v [''values'', ''value'', ''op'', ''type'', ''claim''] (copy_optional v ''values'' (copy_optional v ''value'' ms3))"
    by (intro copied_optional [OF assms(2)] copied_member [OF assms(2) _ m(3)] copied_member [OF assms(2) _ m(2)]
        copied_member [OF assms(2) _ m(1)] copied_Nil)
  have "exact_members v [''claim'', ''type'', ''op'', ''value''] [] \<or> exact_members v [''claim'', ''type'', ''op'', ''values''] []"
    using assms(1) by (auto simp: parse_predicate_def split: option.splits if_splits)
  then show ?thesis
    unfolding m(4) by (elim disjE) (rule copied_whole [OF c assms(2)], assumption, simp)+
qed

lemma predicate_items_each:
  "predicate_items env items acc = Inr ps \<Longrightarrow> \<forall>item\<in>set items. \<exists>p. parse_predicate env item = Inr p"
  by (induction items arbitrary: acc) (auto simp: ebind_Inr_iff)

lemma ordered_predicates_same:
  assumes "parse_predicates env v name required = Inr ps" "json_find v name = Some x" "tidy v" "ordered_predicates x = Some y"
  shows "same y x"
proof -
  obtain items where x: "x = JArray items" "predicate_items env items [] = Inr ps"
    using assms(1,2) by (auto simp: parse_predicates_def split: json.splits)
  have "tidy x" using json_find_tidy [OF assms(3,2)] .
  then have "same y item" if "item \<in> set items" "ordered_predicate item = Some y" for y item
    using predicate_items_each [OF x(2)] ordered_predicate_same [of env item _ y] that by (auto simp: x(1) list_all_iff)
  then show ?thesis
    using assms(4) unfolding ordered_predicates_def x(1) by (auto intro: option_list_same)
qed

lemma ordered_source_same:
  assumes "key_source_path v = Inr path" "tidy v" "ordered_source v = Some y"
  shows "\<exists>x. json_find v ''key_source'' = Some x \<and> same y x"
proof -
  obtain source where x: "json_find v ''key_source'' = Some source" "exact_members source [''type'', ''path''] []"
    using assms(1) by (auto simp: key_source_path_def Let_def split: option.splits json.splits if_splits)
  obtain ms where m: "copy_member source ''type'' [] = Some ms" "y = JObject (copy_optional source ''path'' ms)"
    using assms(3) x(1) by (auto simp: ordered_source_def member_at_def split: bind_splits)
  have t: "tidy source" using json_find_tidy [OF assms(2) x(1)] .
  have "copied source [''path'', ''type''] (copy_optional source ''path'' ms)"
    by (intro copied_optional [OF t] copied_member [OF t _ m(1)] copied_Nil)
  from copied_whole [OF this t x(2)] show ?thesis using x(1) m(2) by simp
qed

lemma ordered_issuer_same:
  assumes "parse_issuer_fields env ids v = Inr f" "tidy v" "ordered_issuer v = Some y"
  shows "same y v"
proof -
  obtain identity claims path where fields: "issuer_identity env ids v = Inr identity" "required_claims env v = Inr claims"
      "key_source_path v = Inr path"
    using assms(1) unfolding parse_issuer_fields_def by (auto simp: expected_iffs)
  have exact: "exact_members v
         [''policy_id'', ''issuer'', ''key_source'', ''audiences'', ''issuer_algorithms'', ''caller_algorithms'',
          ''evidence_profiles'', ''binding_profiles'', ''acquisition_profiles'',
          ''require_non_reconstructible_evidence'', ''certificate_principal_claim'']
         [''authorized_parties'', ''maximum_credential_age'', ''maximum_identity_lifetime'', ''audit_identity_claim'',
          ''required_claims'', ''environment_discriminator'']"
    using fields(1) unfolding issuer_identity_def by (simp split: if_splits)
  obtain m1 m2 source m3 m4 m5 m6 m7 m8 m9 m10 m11 m12 where m:
      "copy_member v ''policy_id'' [] = Some m1" "copy_member v ''issuer'' m1 = Some m2" "ordered_source v = Some source"
      "copy_member v ''audiences'' (ordered_assign ''key_source'' source m2) = Some m3"
      "copy_member v ''issuer_algorithms'' (copy_optional v ''authorized_parties'' m3) = Some m4"
      "copy_member v ''caller_algorithms'' m4 = Some m5" "copy_member v ''evidence_profiles'' m5 = Some m6"
      "copy_member v ''binding_profiles'' m6 = Some m7" "copy_member v ''acquisition_profiles'' m7 = Some m8"
      "copy_member v ''require_non_reconstructible_evidence'' m8 = Some m9"
      "copy_member v ''certificate_principal_claim''
         (copy_optional v ''maximum_identity_lifetime'' (copy_optional v ''maximum_credential_age'' m9)) = Some m10"
      "ordered_optional ordered_predicates v ''required_claims'' (copy_optional v ''audit_identity_claim'' m10) = Some m11"
      "ordered_optional ordered_predicate v ''environment_discriminator'' m11 = Some m12" "y = JObject m12"
    using assms(3) unfolding ordered_issuer_def bind_eq_Some_conv option.inject by (elim exE conjE) (rule that, (assumption | erule sym)+)
  obtain x where x: "json_find v ''key_source'' = Some x" "same source x"
    using ordered_source_same [OF fields(3) assms(2) m(3)] by blast
  obtain ps where ps: "parse_predicates env v ''required_claims'' False = Inr ps"
      "\<And>d. json_find v ''environment_discriminator'' = Some d \<Longrightarrow> \<exists>p. parse_predicate env d = Inr p"
    using fields(2) unfolding required_claims_def by (auto simp: ebind_Inr_iff split: option.splits)
  have c1: "copied v [''issuer'', ''policy_id''] m2"
    by (intro copied_member [OF assms(2) _ m(2)] copied_member [OF assms(2) _ m(1)] copied_Nil)
  note c2 = copied_assign [OF c1 x]
  have c3: "copied v [''certificate_principal_claim'', ''maximum_identity_lifetime'', ''maximum_credential_age'',
      ''require_non_reconstructible_evidence'', ''acquisition_profiles'', ''binding_profiles'', ''evidence_profiles'',
      ''caller_algorithms'', ''issuer_algorithms'', ''authorized_parties'', ''audiences'', ''key_source'', ''issuer'', ''policy_id''] m10"
    by (intro copied_optional [OF assms(2)] copied_member [OF assms(2) _ m(11)] copied_member [OF assms(2) _ m(10)]
        copied_member [OF assms(2) _ m(9)] copied_member [OF assms(2) _ m(8)] copied_member [OF assms(2) _ m(7)]
        copied_member [OF assms(2) _ m(6)] copied_member [OF assms(2) _ m(5)] copied_member [OF assms(2) _ m(4)] c2)
  note c4 = copied_ordered [OF copied_optional [OF assms(2) c3] m(12) ordered_predicates_same [OF ps(1) _ assms(2)]]
  have "same y x" if "json_find v ''environment_discriminator'' = Some x" "ordered_predicate x = Some y" for x y
    using ps(2) [OF that(1)] ordered_predicate_same [of env x _ y] json_find_tidy [OF assms(2) that(1)] that(2) by blast
  note c5 = copied_ordered [OF c4 m(13) this]
  show ?thesis
    unfolding m(14) by (rule copied_whole [OF c5 assms(2) exact]) simp_all
qed

lemma parse_trusted_each:
  "parse_trusted_issuers env owner skew resources values' policy_ids issuer_ids trusted w = Some (Returned (Inr r), w') \<Longrightarrow>
     \<forall>v\<in>set values'. \<exists>ids f. parse_issuer_fields env ids v = Inr f"
  by (induction values' arbitrary: policy_ids issuer_ids trusted w) (auto simp: prog_iffs)

lemma ordered_trusted_same:
  assumes "parse_trusted_issuers env owner skew resources values' {} {} [] w = Some (Returned (Inr r), w')"
    and "tidy (JArray values')" "ordered_trusted_issuers (JArray values') = Some y"
  shows "same y (JArray values')"
proof -
  have "same y v" if "v \<in> set values'" "ordered_issuer v = Some y" for y v
    using parse_trusted_each [OF assms(1)] ordered_issuer_same [of env _ v _ y] assms(2) that by (auto simp: list_all_iff)
  then show ?thesis
    using assms(3) unfolding ordered_trusted_issuers_def by (auto intro: option_list_same)
qed

lemma ordered_rule_same:
  assumes "account_rule_step env ids account v s = Inr s'" "tidy v" "ordered_rule v = Some y"
  shows "same y v"
proof -
  have exact: "exact_members v [''issuer'', ''all'', ''allowed_certificate_extensions''] []"
    using assms(1) by (auto simp: account_rule_step_def Let_def split: if_splits)
  obtain ps where ps: "parse_predicates env v ''all'' True = Inr ps"
    using assms(1) by (auto simp: account_rule_step_def Let_def split: if_splits option.splits sum.splits)
  obtain m1 all' predicates m2 where m: "copy_member v ''issuer'' [] = Some m1" "member_at v ''all'' = Some all'"
      "ordered_predicates all' = Some predicates"
      "copy_member v ''allowed_certificate_extensions'' (ordered_assign ''all'' predicates m1) = Some m2" "y = JObject m2"
    using assms(3) unfolding ordered_rule_def bind_eq_Some_conv option.inject by (elim exE conjE) (rule that, (assumption | erule sym)+)
  have all': "json_find v ''all'' = Some all'" using m(2) by (simp add: member_at_def)
  have "copied v [''allowed_certificate_extensions'', ''all'', ''issuer''] m2"
    by (intro copied_member [OF assms(2) _ m(4)] copied_assign [OF _ all' ordered_predicates_same [OF ps all' assms(2) m(3)]]
        copied_member [OF assms(2) _ m(1)] copied_Nil)
  from copied_whole [OF this assms(2) exact] show ?thesis by (simp add: m(5))
qed

lemma account_rules_each:
  "account_rules env ids account rules s = Inr s' \<Longrightarrow> \<forall>rule\<in>set rules. \<exists>s s'. account_rule_step env ids account rule s = Inr s'"
  by (induction rules arbitrary: s) (auto simp: ebind_Inr_iff)

text \<open>The value of one account.\<close>

definition account_valid :: "json \<Rightarrow> bool" where
  "account_valid v \<longleftrightarrow>
     exact_members v [''allow''] [] \<and>
     (\<exists>rules. json_find v ''allow'' = Some (JArray rules) \<and> (\<forall>rule\<in>set rules. \<forall>y. tidy rule \<longrightarrow> ordered_rule rule = Some y \<longrightarrow> same y rule))"

lemma parse_accounts_each:
  "parse_accounts env ids members s = Inr s' \<Longrightarrow> \<forall>(account, v)\<in>set members. account_valid v"
proof (induction members arbitrary: s)
  case (Cons m members)
  obtain account v where m: "m = (account, v)" by fastforce
  obtain rules s1 where r: "exact_members v [''allow''] []" "json_at v ''allow'' = JArray rules"
      "account_rules env ids account rules s = Inr s1" "parse_accounts env ids members s1 = Inr s'"
    using Cons.prems by (auto simp: m ebind_Inr_iff split: if_splits json.splits)
  have "json_find v ''allow'' = Some (JArray rules)"
    using r(2) by (auto simp: json_at_def split: option.splits)
  moreover have "\<forall>rule\<in>set rules. \<forall>y. tidy rule \<longrightarrow> ordered_rule rule = Some y \<longrightarrow> same y rule"
    using account_rules_each [OF r(3)] ordered_rule_same by blast
  ultimately have "account_valid v" using r(1) by (simp add: account_valid_def)
  then show ?case using Cons.IH [OF r(4)] by (simp add: m)
qed simp

lemma allowed_same:
  assumes "account_valid v" "tidy v" "member_at v ''allow'' = Some allow" "option_list ordered_rule (json_elements allow) = Some rules"
  shows "same (JObject [(''allow'', JArray rules)]) v"
proof -
  obtain old where old: "json_find v ''allow'' = Some (JArray old)" "allow = JArray old"
      "\<forall>rule\<in>set old. \<forall>y. tidy rule \<longrightarrow> ordered_rule rule = Some y \<longrightarrow> same y rule"
    using assms(1,3) by (auto simp: account_valid_def member_at_def)
  have "tidy (JArray old)" using json_find_tidy [OF assms(2) old(1)] .
  then have "same (JArray rules) (JArray old)"
    using assms(4) old(2,3) by (auto simp: list_all_iff intro: option_list_same)
  from copied_assign [OF copied_Nil old(1) this]
  have "copied v [''allow''] [(''allow'', JArray rules)]" by (simp add: ordered_assign_def)
  from copied_whole [OF this assms(2)] assms(1) show ?thesis by (auto simp: account_valid_def)
qed

lemma ordered_members_same:
  assumes "ordered_account_members members acc = Some result"
    and "distinct (map fst (acc @ members))" "\<forall>(account, v)\<in>set members. account_valid v \<and> tidy v"
  shows "\<exists>new. result = acc @ new \<and> list_all2 (\<lambda>(n, y) (n', x). n = n' \<and> same y x) new members"
  using assms
proof (induction members arbitrary: acc)
  case (Cons m members)
  obtain account v where m: "m = (account, v)" by fastforce
  obtain allow rules where r: "member_at v ''allow'' = Some allow" "option_list ordered_rule (json_elements allow) = Some rules"
      "ordered_account_members members (ordered_assign account (JObject [(''allow'', JArray rules)]) acc) = Some result"
    using Cons.prems(1) by (auto simp: m split: bind_splits)
  have assign: "ordered_assign account (JObject [(''allow'', JArray rules)]) acc = acc @ [(account, JObject [(''allow'', JArray rules)])]"
    using Cons.prems(2) by (auto simp: ordered_assign_def m)
  have "same (JObject [(''allow'', JArray rules)]) v"
    using allowed_same [OF _ _ r(1,2)] Cons.prems(3) by (simp add: m)
  moreover obtain new where "result = (acc @ [(account, JObject [(''allow'', JArray rules)])]) @ new"
      "list_all2 (\<lambda>(n, y) (n', x). n = n' \<and> same y x) new members"
    using Cons.IH [OF r(3) [unfolded assign]] Cons.prems(2,3) by (auto simp: m)
  ultimately show ?case
    by (intro exI [of _ "(account, JObject [(''allow'', JArray rules)]) # new"]) (simp add: m)
qed simp

lemma same_object:
  assumes "list_all2 (\<lambda>(n, y) (n', x). n = n' \<and> same y x) new members" "distinct (map fst members)"
  shows "same (JObject new) (JObject members)"
proof -
  have "map fst new = map fst members \<and> list_all (\<lambda>(n, y). tidy y) new \<and>
      map (\<lambda>(n, y). (n, json_value y)) new = map (\<lambda>(n, y). (n, json_value y)) members"
    using assms(1) by (induction rule: list_all2_induct) (auto simp: same_def)
  then show ?thesis using assms(2) by (simp add: same_def)
qed

lemma ordered_accounts_same:
  assumes "parse_accounts env ids members s = Inr s'" "tidy (JObject members)" "ordered_accounts (JObject members) = Some y"
  shows "same y (JObject members)"
proof -
  obtain result where r: "ordered_account_members members [] = Some result" "y = JObject result"
    using assms(3) by (auto simp: ordered_accounts_def)
  have "\<forall>(account, v)\<in>set members. account_valid v \<and> tidy v"
    using parse_accounts_each [OF assms(1)] assms(2) by (auto simp: list_all_iff)
  from ordered_members_same [OF r(1) _ this] assms(2)
  show ?thesis using same_object r(2) by auto
qed

section \<open>What is written is read back\<close>

text \<open>
  What the JSON library documents: its parser reports an error or makes the calls of a value with
  parsed numbers, and it parses what \<^verbatim>\<open>dump\<close> prints of a value with distinct names, with or without a
  line break after it, to the value that was printed.
\<close>

definition json_library :: "'w config_env \<Rightarrow> bool" where
  "json_library env \<longleftrightarrow>
     (\<forall>input. Ev_parse_error \<in> set (env_lexer env input) \<or>
        (\<exists>t. plain_numbers t \<and> env_lexer env input = events_of t)) \<and>
     (\<forall>t indent s. tidy t \<longrightarrow> env_dump env t indent = Some s \<longrightarrow>
        env_lexer env s = events_of (printed t) \<and> env_lexer env (s @ [CHR 0x0a]) = events_of (printed t))"

lemma config_parse_error:
  assumes "Ev_parse_error \<in> set (lexer input)"
  shows "config_parse_json lexer input \<noteq> Inr j"
proof -
  have "\<not> snd (sax_run config_step s es)" if "Ev_parse_error \<in> set es" for s es
    using that by (induction es arbitrary: s) (auto simp: config_step_def dom_fail_def split: prod.split)
  from this [OF assms, of dom_init] show ?thesis
    by (auto simp: config_parse_json_def split: prod.split)
qed

lemma config_parsed_tidy:
  assumes "json_library env" "config_parse_json (env_lexer env) input = Inr j"
  shows "tidy j \<and> json_value j = j"
proof -
  obtain t where t: "plain_numbers t" "env_lexer env input = events_of t"
    using assms config_parse_error [of "env_lexer env" input j] unfolding json_library_def by blast
  have "j = json_value t" using assms(2) config_parse_json_eq [of "env_lexer env" input t j] t(2) by simp
  then show ?thesis using tidy_value [OF t(1)] by simp
qed

lemma json_find_fixed:
  assumes "json_value v = v" "distinct_members v" "json_find v name = Some x"
  shows "json_value x = x"
proof -
  obtain ms where v: "v = JObject ms" using assms(3) by (cases v) (auto simp: json_find_def)
  have "json_find (json_value v) name = map_option json_value (json_find v name)"
    using json_find_value [of ms name] assms(2) by (simp add: v json_find_def)
  then show ?thesis using assms(1,3) by simp
qed

lemma read_policy_tidy:
  assumes "json_library env" "read_policy env options owner w = Some (Returned (Inr (trusted, accounts)), w')"
  shows "tidy trusted \<and> tidy accounts \<and> json_value trusted = trusted \<and> json_value accounts = accounts \<and>
     (opt_deny_all options \<longrightarrow> trusted = JArray [] \<and> accounts = JObject [])"
proof (cases "opt_deny_all options")
  case True
  then show ?thesis using assms(2) by (auto simp: read_policy_def prog_iffs)
next
  case False
  then obtain contents policy where p: "config_parse_json (env_lexer env) contents = Inr policy"
      "initialization_policy policy = Inr (trusted, accounts)"
    using assms(2) by (auto simp: read_policy_def prog_iffs)
  have find: "json_find policy ''trusted_issuers'' = Some trusted" "json_find policy ''accounts'' = Some accounts"
    using p(2) by (auto simp: initialization_policy_def json_at_def split: if_splits json.splits option.splits)
  have policy: "tidy policy" "json_value policy = policy"
    using config_parsed_tidy [OF assms(1) p(1)] by simp_all
  then have "distinct_members policy" by (simp add: tidy_def)
  then show ?thesis
    using False json_find_tidy [OF policy(1) find(1)] json_find_tidy [OF policy(1) find(2)]
      json_find_fixed [OF policy(2) _ find(1)] json_find_fixed [OF policy(2) _ find(2)] by simp
qed

lemma configuration_document_tidy:
  "tidy trusted \<Longrightarrow> tidy accounts \<Longrightarrow> tidy (configuration_document options limits trusted accounts)"
  by (simp add: configuration_document_def)

lemma configuration_document_value:
  "json_value trusted = json_value trusted' \<Longrightarrow> json_value accounts = json_value accounts' \<Longrightarrow>
     json_value (configuration_document options limits trusted accounts) =
     json_value (configuration_document options limits trusted' accounts')"
  by (simp add: configuration_document_def)

lemma configuration_document_find:
  "json_find (json_value (configuration_document options limits trusted accounts)) ''trusted_issuers'' = Some (json_value trusted)"
  "json_find (json_value (configuration_document options limits trusted accounts)) ''accounts'' = Some (json_value accounts)"
  "json_find (json_value (configuration_document options limits trusted accounts)) ''total_verification_deadline'' =
     Some (JString (opt_total_verification_deadline options))"
  "json_find (json_value (configuration_document options limits trusted accounts)) ''clock_skew'' =
     Some (JString (opt_clock_skew options))"
  "json_find (json_value (configuration_document options limits trusted accounts)) ''issuer_key_cache'' = Some (JObject
     [(''directory'', JString (opt_issuer_key_cache_directory options)),
      (''maximum_freshness'', JString (opt_issuer_key_cache_maximum_freshness options))])"
  "json_find (json_value (configuration_document options limits trusted accounts)) ''logging'' =
     Some (JObject [(''facility'', JString (opt_logging_facility options))])"
  unfolding configuration_document_def by (subst json_find_value; simp)+

lemma configuration_document_printed:
  "printed (configuration_document options limits trusted accounts) =
     configuration_document options limits (printed trusted) (printed accounts)"
  by (simp add: configuration_document_def)

lemma parse_canonical:
  assumes "json_library env" "env_dump env s indent = Some preliminary" "env_dump env t indent' = Some contents"
    and "same t s" "tidy s" "config_parse_json (env_lexer env) preliminary = Inr j"
    and "length contents < kMaximumConfigurationBytes"
  shows "config_parse_json (env_lexer env) (contents @ [CHR 0x0a]) = Inr j"
proof -
  have t: "tidy t" "json_value (printed t) = json_value (printed s)"
    using assms(4) by (simp_all add: same_def json_value_printed)
  have lex: "env_lexer env preliminary = events_of (printed s)" "env_lexer env (contents @ [CHR 0x0a]) = events_of (printed t)"
    using assms(1-3,5) t(1) unfolding json_library_def by blast+
  have j: "document_ok config_bounds (printed s)" "j = json_value (printed s)"
    using assms(6) config_parse_json_eq [of "env_lexer env" preliminary, OF lex(1)] by simp_all
  have "distinct_members (printed t)" "distinct_members (printed s)"
    using t(1) assms(5) distinct_printed by (simp_all add: tidy_def)
  then have "document_ok config_bounds (printed t)"
    using document_ok_same [of "printed t" "printed s"] t(2) j(1) by simp
  then show ?thesis
    using config_parse_json_eq [of "env_lexer env" "contents @ [CHR 0x0a]", OF lex(2)] assms(7) j(2) t(2) by simp
qed

lemma parse_and_validate_cong:
  "config_parse_json (env_lexer env) a = config_parse_json (env_lexer env) b \<Longrightarrow>
     parse_and_validate env a owner = parse_and_validate env b owner"
  by (simp add: parse_and_validate_def)

text \<open>The sections of the document that is validated are those of the policy.\<close>

lemma printed_sections:
  assumes "json_find (json_value (configuration_document options limits (printed trusted) (printed accounts))) ''trusted_issuers'' =
      Some (JArray issuers)"
    and "json_find (json_value (configuration_document options limits (printed trusted) (printed accounts))) ''accounts'' =
      Some (JObject members)"
    and "json_value trusted = trusted" "json_value accounts = accounts"
  obtains issuers0 members0 where "trusted = JArray issuers0" "issuers = map printed issuers0"
    "accounts = JObject members0" "members = map (\<lambda>(name, v). (name, printed v)) members0"
proof -
  have "printed trusted = JArray issuers" "printed accounts = JObject members"
    using assms by (simp_all add: configuration_document_find json_value_printed)
  then show ?thesis
    by (cases trusted; cases accounts) (auto split: if_splits intro: that)
qed

lemma initialization_json_same:
  assumes "parse_and_validate env preliminary owner w = Some (Returned (Inr cfg), w')"
    and "config_parse_json (env_lexer env) preliminary =
      Inr (json_value (configuration_document options limits (printed trusted) (printed accounts)))"
    and "tidy trusted" "tidy accounts" "json_value trusted = trusted" "json_value accounts = accounts"
    and "initialization_json options trusted accounts limits = Some canonical"
  shows "same canonical (configuration_document options limits trusted accounts)"
  using assms(1)
proof (cases rule: parse_and_validateE)
  case p: (1 document u skew deadline resources u')
  have document: "document = json_value (configuration_document options limits (printed trusted) (printed accounts))"
    using p(1) assms(2) by simp
  from p(8) show ?thesis
  proof (cases rule: parse_sectionsE)
    case s: (1 issuers members logging facility parsed st)
    obtain issuers0 members0 where t: "trusted = JArray issuers0" "issuers = map printed issuers0"
        "accounts = JObject members0" "members = map (\<lambda>(name, v). (name, printed v)) members0"
      using printed_sections [OF s(1,2) [unfolded document] assms(5,6)] by blast
    obtain trusted' accounts' where c: "ordered_trusted_issuers trusted = Some trusted'" "ordered_accounts accounts = Some accounts'"
        "canonical = configuration_document options limits trusted' accounts'"
      using assms(7) by (auto simp: initialization_json_def split: bind_splits)
    have "same trusted' trusted" "same accounts' accounts"
      using ordered_trusted_same [OF s(6) [unfolded t(2) parse_trusted_issuers_printed]]
        ordered_accounts_same [OF s(7) [unfolded t(4) parse_accounts_printed]] c(1,2) assms(3,4) by (simp_all add: t(1,3))
    then show ?thesis
      unfolding same_def c(3) using configuration_document_tidy configuration_document_value by blast
  qed
qed

text \<open>
  The trusted issuers and the accounts that the policy input holds, none for \<^verbatim>\<open>--deny-all\<close>; \<open>w1\<close> is
  the world when they have been read.
\<close>

definition policy_read ::
  "'w config_env \<Rightarrow> InitializationOptions \<Rightarrow> u32 \<Rightarrow> 'w \<Rightarrow> json list \<Rightarrow> (string \<times> json) list \<Rightarrow> 'w \<Rightarrow> bool" where
  "policy_read env options owner w issuers accounts w1 \<longleftrightarrow>
     (if opt_deny_all options then issuers = [] \<and> accounts = [] \<and> w1 = w
      else \<exists>contents policy.
        read_file env (opt_policy_input_path options) owner w = Some (Returned (Inr contents), w1) \<and>
        config_parse_json (env_lexer env) contents = Inr policy \<and>
        json_find policy ''trusted_issuers'' = Some (JArray issuers) \<and>
        json_find policy ''accounts'' = Some (JObject accounts))"

text \<open>
  The configuration that the options and the policy ask for. Every option is accounted for: the clock
  skew is the value of its text in whole seconds, the deadline in nanoseconds, the limits are those
  written, the cache section of the document \<open>text'\<close> has the directory and the freshness given; the
  issuers and the accounts are what the loader makes of the policy's, reading the key files in \<open>w1\<close>.
\<close>

definition options_installed :: "InitializationOptions \<Rightarrow> Configuration \<Rightarrow> bool" where
  "options_installed options cfg \<longleftrightarrow>
     (let limits = cfg_resource_limits cfg in
      opt_max_token_bytes options = to_decimal (rl_max_token_bytes limits) \<and>
      opt_max_evidence_bytes options = to_decimal (rl_max_evidence_bytes limits) \<and>
      opt_max_ssh_certificate_bytes options = to_decimal (rl_max_ssh_certificate_bytes limits) \<and>
      opt_max_offered_key_chars options = to_decimal (rl_max_offered_key_chars limits) \<and>
      opt_max_authorized_keys_output_chars options = to_decimal (rl_max_authorized_keys_output_chars limits) \<and>
      opt_logging_facility options = facility_name (cfg_facility cfg) \<and>
      (\<exists>ts. list_all duration_term ts \<and> opt_clock_skew options = terms_text ts \<and>
         int (terms_value ts) = cfg_clock_skew_seconds cfg * 1000000000) \<and>
      (\<exists>ts. list_all duration_term ts \<and> opt_total_verification_deadline options = terms_text ts \<and>
         terms_value ts = unat (cfg_total_verification_deadline_nanoseconds cfg)))"

definition policy_installed ::
  "'w config_env \<Rightarrow> u32 \<Rightarrow> json list \<Rightarrow> (string \<times> json) list \<Rightarrow> 'w \<Rightarrow> 'w \<Rightarrow> Configuration \<Rightarrow> bool" where
  "policy_installed env owner issuers accounts w1 w' cfg \<longleftrightarrow>
     (\<exists>ids installed s.
        parse_trusted_issuers env owner (cfg_clock_skew_seconds cfg) (cfg_resource_limits cfg) issuers {} {} [] w1 =
          Some (Returned (Inr (ids, installed)), w') \<and>
        parse_accounts env ids accounts \<lparr>as_rule_count = 0, as_accounts = Map.empty, as_trusted = installed\<rparr> = Inr s \<and>
        cfg_trusted_issuers cfg = as_trusted s \<and> cfg_accounts cfg = as_accounts s)"

definition cache_installed :: "'w config_env \<Rightarrow> InitializationOptions \<Rightarrow> string \<Rightarrow> bool" where
  "cache_installed env options text' \<longleftrightarrow>
     (\<exists>document. config_parse_json (env_lexer env) text' = Inr document \<and>
        json_find document ''issuer_key_cache'' = Some (JObject
          [(''directory'', JString (opt_issuer_key_cache_directory options)),
           (''maximum_freshness'', JString (opt_issuer_key_cache_maximum_freshness options))]))"

definition initialized ::
  "'w config_env \<Rightarrow> InitializationOptions \<Rightarrow> u32 \<Rightarrow> 'w \<Rightarrow> string \<Rightarrow> Configuration \<Rightarrow> 'w \<Rightarrow> bool" where
  "initialized env options owner w text' cfg w' \<longleftrightarrow>
     (\<exists>issuers accounts w1.
        policy_read env options owner w issuers accounts w1 \<and>
        parse_and_validate env text' owner w1 = Some (Returned (Inr cfg), w') \<and>
        options_installed options cfg \<and> cache_installed env options text' \<and>
        policy_installed env owner issuers accounts w1 w' cfg)"

definition limits_document :: "initialization_limits \<Rightarrow> json" where
  "limits_document limits = JObject
     [(''max_token_bytes'', JUnsigned (il_max_token limits)),
      (''max_evidence_bytes'', JUnsigned (il_max_evidence limits)),
      (''max_ssh_certificate_bytes'', JUnsigned (il_max_certificate limits)),
      (''max_offered_key_chars'', JUnsigned (il_max_offered limits)),
      (''max_authorized_keys_output_chars'', JUnsigned (il_max_output limits))]"

lemma limits_document_parsed:
  assumes "parse_resource_limits (json_value (limits_document limits)) = Inr r"
  shows "rl_max_token_bytes r = unat (il_max_token limits)" "rl_max_evidence_bytes r = unat (il_max_evidence limits)"
    "rl_max_ssh_certificate_bytes r = unat (il_max_certificate limits)" "rl_max_offered_key_chars r = unat (il_max_offered limits)"
    "rl_max_authorized_keys_output_chars r = unat (il_max_output limits)"
proof -
  have find: "json_find (json_value (limits_document limits)) ''max_token_bytes'' = Some (JUnsigned (il_max_token limits))"
    "json_find (json_value (limits_document limits)) ''max_evidence_bytes'' = Some (JUnsigned (il_max_evidence limits))"
    "json_find (json_value (limits_document limits)) ''max_ssh_certificate_bytes'' = Some (JUnsigned (il_max_certificate limits))"
    "json_find (json_value (limits_document limits)) ''max_offered_key_chars'' = Some (JUnsigned (il_max_offered limits))"
    "json_find (json_value (limits_document limits)) ''max_authorized_keys_output_chars'' = Some (JUnsigned (il_max_output limits))"
    unfolding limits_document_def by (subst json_find_value; simp)+
  show "rl_max_token_bytes r = unat (il_max_token limits)" "rl_max_evidence_bytes r = unat (il_max_evidence limits)"
    "rl_max_ssh_certificate_bytes r = unat (il_max_certificate limits)" "rl_max_offered_key_chars r = unat (il_max_offered limits)"
    "rl_max_authorized_keys_output_chars r = unat (il_max_output limits)"
    using assms by (auto simp: parse_resource_limits_def size_member_def find expected_iffs split: if_splits)
qed

lemma initialization_numbers_texts:
  assumes "initialization_numbers options = Inr limits"
  shows "opt_max_token_bytes options = to_decimal (unat (il_max_token limits))"
    "opt_max_evidence_bytes options = to_decimal (unat (il_max_evidence limits))"
    "opt_max_ssh_certificate_bytes options = to_decimal (unat (il_max_certificate limits))"
    "opt_max_offered_key_chars options = to_decimal (unat (il_max_offered limits))"
    "opt_max_authorized_keys_output_chars options = to_decimal (unat (il_max_output limits))"
  using assms by (auto simp: initialization_numbers_def expected_iffs canonical_unsigned_eq)

lemma initialized_configuration:
  assumes "parse_and_validate env preliminary owner w = Some (Returned (Inr cfg), w')"
    and "config_parse_json (env_lexer env) preliminary =
      Inr (json_value (configuration_document options limits (printed (JArray issuers)) (printed (JObject accounts))))"
    and "initialization_numbers options = Inr limits"
    and "json_value (JArray issuers) = JArray issuers" "json_value (JObject accounts) = JObject accounts"
  shows "options_installed options cfg" "policy_installed env owner issuers accounts w w' cfg"
    "cache_installed env options preliminary"
proof -
  from assms(1) have "options_installed options cfg \<and> policy_installed env owner issuers accounts w w' cfg"
  proof (cases rule: parse_and_validateE)
    case p: (1 document u skew deadline resources u')
    have document: "document = json_value (configuration_document options limits (printed (JArray issuers)) (printed (JObject accounts)))"
      using p(1) assms(2) by simp
    have "json_find document ''resource_limits'' = Some (json_value (limits_document limits))"
      unfolding document configuration_document_def limits_document_def by (subst json_find_value; simp)
    then have resources: "parse_resource_limits (json_value (limits_document limits)) = Inr resources"
      using p(5) by (simp add: json_at_def)
    have deadline: "duration_nanoseconds (opt_total_verification_deadline options) = Inr deadline"
      using p(4) by (simp add: duration_member_def string_value_def configuration_document_find document)
    have "string_value document ''clock_skew'' = Some (opt_clock_skew options)"
      by (simp add: string_value_def configuration_document_find document)
    then have skew: "\<exists>ts. list_all duration_term ts \<and> opt_clock_skew options = terms_text ts \<and>
        int (terms_value ts) = skew * 1000000000"
      using p(3) by (auto simp: whole_seconds_eq)
    from p(8) show ?thesis
    proof (cases rule: parse_sectionsE)
      case s: (1 issuers' members logging facility parsed st)
      have "logging = JObject [(''facility'', JString (opt_logging_facility options))]"
        using s(3) by (simp add: document configuration_document_find)
      then have facility: "opt_logging_facility options = facility_name facility"
        using s(5) by (simp add: configured_facility_def json_find_def string_value_def parse_facility_eq)
      have t: "issuers' = map printed issuers" "members = map (\<lambda>(name, v). (name, printed v)) accounts"
        using printed_sections [OF s(1,2) [unfolded document] assms(4,5)] by auto
      have "policy_installed env owner issuers accounts w w' cfg"
        using s(6,7) unfolding policy_installed_def t parse_trusted_issuers_printed parse_accounts_printed
        by (intro exI [of _ "fst parsed"] exI [of _ "snd parsed"] exI [of _ st]) (simp add: s(8))
      moreover have "options_installed options cfg"
        using deadline skew facility initialization_numbers_texts [OF assms(3)] limits_document_parsed [OF resources]
        by (auto simp: options_installed_def Let_def s(8) duration_nanoseconds_eq)
      ultimately show ?thesis by simp
    qed
  qed
  then show "options_installed options cfg" "policy_installed env owner issuers accounts w w' cfg" by simp_all
  show "cache_installed env options preliminary"
    by (simp add: cache_installed_def assms(2) configuration_document_find)
qed

lemma read_policy_read:
  assumes "json_library env" "read_policy env options owner w = Some (Returned (Inr (trusted, accounts)), w1)"
    and "trusted = JArray issuers" "accounts = JObject members"
  shows "policy_read env options owner w issuers members w1"
proof (cases "opt_deny_all options")
  case True
  then show ?thesis using assms(2-4) by (auto simp: read_policy_def policy_read_def prog_iffs)
next
  case False
  then obtain contents policy where p: "read_file env (opt_policy_input_path options) owner w = Some (Returned (Inr contents), w1)"
      "config_parse_json (env_lexer env) contents = Inr policy" "initialization_policy policy = Inr (trusted, accounts)"
    using assms(2) by (auto simp: read_policy_def prog_iffs)
  have "json_find policy ''trusted_issuers'' = Some trusted" "json_find policy ''accounts'' = Some accounts"
    using p(3) by (auto simp: initialization_policy_def json_at_def split: if_splits json.splits option.splits)
  then show ?thesis using False p(1,2) assms(3,4) by (auto simp: policy_read_def)
qed

lemma initialized_text_loads:
  assumes "json_library env" "initialize env options owner w = Some (Returned (Inr text'), w')"
    and "length text' \<le> kMaximumConfigurationBytes"
  shows "\<exists>cfg. initialized env options owner w text' cfg w'"
proof -
  obtain limits trusted accounts w1 preliminary cfg canonical contents where i:
      "initialization_numbers options = Inr limits"
      "read_policy env options owner w = Some (Returned (Inr (trusted, accounts)), w1)"
      "env_dump env (configuration_document options limits trusted accounts) (- 1) = Some preliminary"
      "parse_and_validate env preliminary owner w1 = Some (Returned (Inr cfg), w')"
      "initialization_json options trusted accounts limits = Some canonical"
      "env_dump env canonical 2 = Some contents" "text' = contents @ [CHR 0x0a]"
    using assms(2) unfolding initialize_def
    by (auto simp: prog_iffs split: if_splits option.splits prod.splits bind_splits)
  let ?document = "configuration_document options limits trusted accounts"
  note policy = read_policy_tidy [OF assms(1) i(2)]
  then have tidy: "tidy ?document" by (simp add: configuration_document_tidy)
  then have lex: "env_lexer env preliminary = events_of (printed ?document)"
    using assms(1) i(3) by (auto simp: json_library_def)
  obtain j where "config_parse_json (env_lexer env) preliminary = Inr j"
    using i(4) by (cases rule: parse_and_validateE) auto
  then have parsed: "config_parse_json (env_lexer env) preliminary = Inr (json_value (printed ?document))"
    using config_parse_json_eq [of "env_lexer env" preliminary, OF lex] by simp
  note parsed' = parsed [unfolded configuration_document_printed]
  obtain issuers members where sections: "trusted = JArray issuers" "accounts = JObject members"
    using i(4)
  proof (cases rule: parse_and_validateE)
    case p: (1 document u skew deadline resources u')
    from p(8) show ?thesis
    proof (cases rule: parse_sectionsE)
      case s: (1 issuers' members' logging facility parsed st)
      have "document = json_value (configuration_document options limits (printed trusted) (printed accounts))"
        using p(1) parsed' by simp
      from printed_sections [OF s(1,2) [unfolded this]] policy that show ?thesis by blast
    qed
  qed
  have "same canonical ?document"
    using initialization_json_same [OF i(4) parsed' _ _ _ _ i(5)] policy by blast
  then have same: "config_parse_json (env_lexer env) text' = Inr (json_value (printed ?document))"
    using parse_canonical [OF assms(1) i(3,6) _ tidy parsed] assms(3) i(7) by simp
  then have loads: "parse_and_validate env text' owner w1 = Some (Returned (Inr cfg), w')"
    using i(4) parsed parse_and_validate_cong [of env text' preliminary owner] by simp
  have fixed: "json_value (JArray issuers) = JArray issuers" "json_value (JObject members) = JObject members"
    using policy unfolding sections by blast+
  note installed = initialized_configuration [OF loads _ i(1) fixed]
  have document: "config_parse_json (env_lexer env) text' =
      Inr (json_value (configuration_document options limits (printed (JArray issuers)) (printed (JObject members))))"
    using same unfolding configuration_document_printed sections .
  show ?thesis
    unfolding initialized_def
    using read_policy_read [OF assms(1) i(2) sections] loads installed [OF document] by blast
qed

text \<open>
  C38. What \<^verbatim>\<open>config init\<close> generates is accepted by the loader: if the initializer returns a text
  that is not longer than the loader reads, parsing and validating that text succeeds, reading the key
  files as the initializer did, and gives the configuration that every option and the policy input ask
  for: the canonical writer loses and adds nothing, whatever the order of the members of the policy.
  The length is a condition because the initializer checks it for the compact text only.
\<close>

theorem initialize_reads_back:
  assumes "json_library env" "initialize env options owner w = Some (Returned (Inr text'), w')"
    and "length text' \<le> kMaximumConfigurationBytes"
  shows "\<exists>cfg issuers accounts w1.
     policy_read env options owner w issuers accounts w1 \<and>
     parse_and_validate env text' owner w1 = Some (Returned (Inr cfg), w') \<and>
     options_installed options cfg \<and> cache_installed env options text' \<and>
     policy_installed env owner issuers accounts w1 w' cfg"
  using initialized_text_loads [OF assms] unfolding initialized_def by blast

section \<open>The configuration that denies everyone\<close>

definition denying_options :: InitializationOptions where
  "denying_options = default_initialization_options\<lparr>opt_deny_all := True\<rparr>"

definition denying_document :: json where
  "denying_document = configuration_document denying_options
     \<lparr>il_max_token = 32768, il_max_evidence = 16384, il_max_certificate = 49152, il_max_offered = 65536, il_max_output = 4096\<rparr>
     (JArray []) (JObject [])"

text \<open>A library that knows this document only.\<close>

definition denying_lexer :: json_lexer where
  "denying_lexer input =
     (if input \<in> {''x'', ''x'' @ [CHR 0x0a], ''y'', ''y'' @ [CHR 0x0a]} then events_of denying_document else [Ev_parse_error])"

definition denying_dump :: json_dump where
  "denying_dump t indent = (if t = denying_document then Some (if indent = 2 then ''y'' else ''x'') else None)"

definition denying_env :: "'w config_env" where
  "denying_env =
     \<lparr>env_lexer = denying_lexer, env_dump = denying_dump,
      env_posix = \<lparr>sys_open = \<lambda>_ _ w. (-1, w), sys_fstat = \<lambda>_ w. (None, w), sys_read = \<lambda>_ _ w. (Read_failed, w),
        sys_close = \<lambda>_ w. (True, w)\<rparr>,
      env_inet_pton6 = \<lambda>_. False, env_set_order = \<lambda>S. sorted_list_of_set S\<rparr>"

lemma denying_library: "json_library denying_env"
proof -
  have "printed denying_document = denying_document" "plain_numbers denying_document"
    by (simp_all add: denying_document_def configuration_document_def)
  then show ?thesis
    by (auto simp: json_library_def denying_env_def denying_lexer_def denying_dump_def)
qed

definition denying_value :: json where
  "denying_value = JObject
     [(''accounts'', JObject []), (''clock_skew'', JString ''30s''),
      (''issuer_key_cache'', JObject [(''directory'', JString ''/var/cache/credbind/ssh-verifier/v1''),
         (''maximum_freshness'', JString ''336h'')]),
      (''logging'', JObject [(''facility'', JString ''authpriv'')]),
      (''resource_limits'', JObject
        [(''max_authorized_keys_output_chars'', JUnsigned 4096), (''max_evidence_bytes'', JUnsigned 16384),
         (''max_offered_key_chars'', JUnsigned 65536), (''max_ssh_certificate_bytes'', JUnsigned 49152),
         (''max_token_bytes'', JUnsigned 32768)]),
      (''total_verification_deadline'', JString ''5s''), (''trusted_issuers'', JArray []), (''version'', JUnsigned 1)]"

lemma denying_document_value: "json_value denying_document = denying_value"
  by (simp add: denying_document_def configuration_document_def denying_value_def denying_options_def
      default_initialization_options_def)

lemma denying_parsed: "config_parse_json denying_lexer ''x'' = Inr denying_value"
proof -
  have "document_ok config_bounds denying_document"
    by (simp add: denying_document_def configuration_document_def document_ok_def kMaximumKeyBytes_def kMaximumValues_def
        kMaximumMembers_def kMaximumDepth_def scalar_ok_def)
  then show ?thesis
    using config_parse_json_eq [of denying_lexer "''x''" denying_document]
    by (simp add: denying_lexer_def kMaximumConfigurationBytes_def denying_document_value)
qed

lemma denying_checks:
  "initialization_durations denying_options = Inr ()"
  "initialization_numbers denying_options = Inr
     \<lparr>il_max_token = 32768, il_max_evidence = 16384, il_max_certificate = 49152, il_max_offered = 65536, il_max_output = 4096\<rparr>"
  "initialization_paths denying_options = Inr ()"
  "check_version denying_value = Inr ()"
  "whole_seconds denying_value ''clock_skew'' False = Inr 30"
  "duration_member denying_value ''total_verification_deadline'' = Inr 5000000000"
  "\<exists>r. parse_resource_limits (json_at denying_value ''resource_limits'') = Inr r"
  "check_cache denying_value = Inr ()"
proof -
  show "\<exists>r. parse_resource_limits (json_at denying_value ''resource_limits'') = Inr r"
    by (simp add: parse_resource_limits_def exact_members_def size_member_def denying_value_def json_find_def json_at_def)
qed (code_simp)+

lemma denying_validated: "\<exists>cfg. parse_and_validate denying_env ''x'' 0 w = Some (Returned (Inr cfg), w)"
proof -
  obtain r where r: "parse_resource_limits (json_at denying_value ''resource_limits'') = Inr r"
    using denying_checks(7) by blast
  have members: "exact_members denying_value
     [''version'', ''clock_skew'', ''total_verification_deadline'', ''resource_limits'', ''trusted_issuers'',
      ''accounts'', ''logging''] [''issuer_key_cache'']"
    by (simp add: exact_members_def denying_value_def json_find_def)
  have facility: "configured_facility (JObject [(''facility'', JString ''authpriv'')]) = Inr facility_authpriv"
    by code_simp
  have "\<exists>cfg. parse_sections denying_env 0 denying_value 30 5000000000 r w = Some (Returned (Inr cfg), w)"
    by (simp add: parse_sections_def denying_value_def json_find_def exact_members_def kMaximumPolicies_def
        facility [unfolded json_find_def] pbind_value_def) (simp add: ret_def)
  then show ?thesis
    by (simp add: parse_and_validate_def denying_env_def denying_parsed members denying_checks r kNanosecondsPerSecond_def)
qed

lemma denying_initialized:
  fixes w :: 'w
  shows "initialize denying_env denying_options 0 w = Some (Returned (Inr (''y'' @ [CHR 0x0a])), w)"
proof -
  obtain cfg where cfg: "parse_and_validate denying_env ''x'' 0 w = Some (Returned (Inr cfg), w)"
    using denying_validated [of w] by (elim exE)
  have options: "opt_deny_all denying_options" "opt_policy_input_path denying_options = ''''"
    by (simp_all add: denying_options_def default_initialization_options_def)
  have canonical: "initialization_json denying_options (JArray []) (JObject [])
     \<lparr>il_max_token = 32768, il_max_evidence = 16384, il_max_certificate = 49152, il_max_offered = 65536, il_max_output = 4096\<rparr>
     = Some denying_document"
    by (simp add: initialization_json_def ordered_trusted_issuers_def ordered_accounts_def denying_document_def)
  have dump: "env_dump (denying_env :: 'w config_env) denying_document (- 1) = Some ''x''"
      "env_dump (denying_env :: 'w config_env) denying_document 2 = Some ''y''"
    by (simp_all add: denying_env_def denying_dump_def)
  show ?thesis
    unfolding initialize_def read_policy_def denying_checks(1-3) on_value_simps
    by (simp add: options pbind_value_def)
      (simp add: canonical denying_document_def [symmetric] dump throwing_def, simp add: pbind_def cfg ret_def)
qed

theorem initialize_reads_back_witness:
  "\<exists>cfg issuers accounts w1.
     policy_read denying_env denying_options 0 () issuers accounts w1 \<and>
     parse_and_validate denying_env (''y'' @ [CHR 0x0a]) 0 w1 = Some (Returned (Inr cfg), ()) \<and>
     options_installed denying_options cfg \<and> cache_installed (denying_env :: unit config_env) denying_options (''y'' @ [CHR 0x0a]) \<and>
     policy_installed denying_env 0 issuers accounts w1 () cfg"
  by (rule initialize_reads_back [OF denying_library denying_initialized]) (simp add: kMaximumConfigurationBytes_def)

end
