(* ===== verification/Cb_Reading.thy ===== *)
theory Cb_Reading
  imports Cb_Initialize
begin

text \<open>
  What the parts that only read leave alone: a condition on the world that the system calls of a reader
  keep is kept by every program made of them, up to the initializer of a configuration.
\<close>

section \<open>Conditions that a program keeps\<close>

definition keeps :: "('w \<Rightarrow> bool) \<Rightarrow> ('w, 'a) prog \<Rightarrow> bool" where
  "keeps I p \<longleftrightarrow> (\<forall>w r w'. I w \<longrightarrow> p w = Some (r, w') \<longrightarrow> I w')"

lemma keepsD: "keeps I p \<Longrightarrow> I w \<Longrightarrow> p w = Some (r, w') \<Longrightarrow> I w'"
  unfolding keeps_def by blast

named_theorems keeps_intros \<open>composed programs keep what their parts keep\<close>

lemma keeps_ret [keeps_intros]: "keeps I (ret x)"
  by (simp add: keeps_def ret_def)

lemma keeps_throw: "keeps I throw"
  by (simp add: keeps_def throw_def)

lemma keeps_throwing [keeps_intros]: "keeps I (throwing x)"
  by (auto simp: throwing_def keeps_throw keeps_ret split: option.split)

lemma keeps_call: "(\<And>w x w'. f w = (x, w') \<Longrightarrow> I w \<Longrightarrow> I w') \<Longrightarrow> keeps I (call f)"
  by (auto simp: keeps_def call_def split: prod.splits)

lemma keeps_call_partial: "(\<And>w x w'. f w = Some (x, w') \<Longrightarrow> I w \<Longrightarrow> I w') \<Longrightarrow> keeps I (call_partial f)"
  by (auto simp: keeps_def call_partial_def split: option.splits)

lemma keeps_pbind [keeps_intros]:
  assumes "keeps I p" "\<And>x. keeps I (f x)"
  shows "keeps I (pbind p f)"
  unfolding keeps_def
proof (intro allI impI)
  fix w r w'
  assume a: "I w" "pbind p f w = Some (r, w')"
  then obtain r1 w1 where p: "p w = Some (r1, w1)" by (auto simp: pbind_def split: option.splits)
  then have "I w1" using keepsD [OF assms(1) a(1)] by simp
  then show "I w'"
    using a(2) p keepsD [OF assms(2)] by (cases r1) (auto simp: pbind_def)
qed

lemma keeps_on_value [keeps_intros]: "(\<And>x. keeps I (f x)) \<Longrightarrow> keeps I (on_value r f)"
  by (cases r) (simp_all add: keeps_ret)

lemma keeps_pbind_value [keeps_intros]: "keeps I p \<Longrightarrow> (\<And>x. keeps I (f x)) \<Longrightarrow> keeps I (pbind_value p f)"
  by (simp add: pbind_value_def keeps_pbind keeps_on_value)

lemma keeps_if [keeps_intros]: "keeps I p \<Longrightarrow> keeps I q \<Longrightarrow> keeps I (if c then p else q)"
  by simp

lemma keeps_pair [keeps_intros]: "(\<And>a b. keeps I (f a b)) \<Longrightarrow> keeps I (case x of (a, b) \<Rightarrow> f a b)"
  by (cases x) simp

lemma keeps_option [keeps_intros]: "keeps I p \<Longrightarrow> (\<And>x. keeps I (f x)) \<Longrightarrow> keeps I (case o' of None \<Rightarrow> p | Some x \<Rightarrow> f x)"
  by (cases o') simp_all

section \<open>Reading files\<close>

text \<open>The system calls of a reader; it creates no file.\<close>

definition reads_keep :: "'w posix \<Rightarrow> ('w \<Rightarrow> bool) \<Rightarrow> bool" where
  "reads_keep os I \<longleftrightarrow>
     (\<forall>path flags w r w'. sys_open os path flags w = (r, w') \<longrightarrow> O_CREAT \<notin> set flags \<longrightarrow> I w \<longrightarrow> I w') \<and>
     (\<forall>fd w r w'. sys_fstat os fd w = (r, w') \<longrightarrow> I w \<longrightarrow> I w') \<and>
     (\<forall>fd n w r w'. sys_read os fd n w = (r, w') \<longrightarrow> I w \<longrightarrow> I w') \<and>
     (\<forall>fd w r w'. sys_close os fd w = (r, w') \<longrightarrow> I w \<longrightarrow> I w')"

lemma reads_keepD:
  assumes "reads_keep os I" "I w"
  shows "sys_open os path flags w = (fd', w') \<Longrightarrow> O_CREAT \<notin> set flags \<Longrightarrow> I w'"
    and "sys_fstat os fd w = (s, w') \<Longrightarrow> I w'"
    and "sys_read os fd n w = (r, w') \<Longrightarrow> I w'"
    and "sys_close os fd w = (c, w') \<Longrightarrow> I w'"
  using assms unfolding reads_keep_def by blast+

lemma read_loop_keeps:
  assumes "reads_keep os I" "I w" "read_loop os fd wanted acc w = Some (r, w')"
  shows "I w'"
proof -
  define Q :: "'a posix \<Rightarrow> int \<Rightarrow> nat \<Rightarrow> string \<Rightarrow> 'a \<Rightarrow> string option \<times> 'a \<Rightarrow> bool" where
    "Q = (\<lambda>os fd wanted acc w r. reads_keep os I \<longrightarrow> I w \<longrightarrow> I (snd r))"
  have "Q os fd wanted acc w (r, w')"
  proof (rule read_loop.raw_induct [OF _ assms(3), of Q])
    fix read_loop and os :: "'a posix" and fd wanted acc w r
    assume IH: "\<And>os fd wanted acc w r. read_loop os fd wanted acc w = Some r \<Longrightarrow> Q os fd wanted acc w r"
      and eq: "(if length acc < wanted
         then case sys_read os fd (wanted - length acc) w of (result, w) \<Rightarrow>
           (case result of Read_interrupted \<Rightarrow> read_loop os fd wanted acc w
            | Read_failed \<Rightarrow> Some (None, w)
            | Read_bytes chunk \<Rightarrow> if chunk = [] then Some (None, w) else read_loop os fd wanted (acc @ chunk) w)
         else Some (Some acc, w)) = Some r"
    obtain result w1 where call: "sys_read os fd (wanted - length acc) w = (result, w1)" by fastforce
    have "I w1" if "reads_keep os I" "I w" using reads_keepD(3) [OF that call] .
    then show "Q os fd wanted acc w r"
      using eq call IH unfolding Q_def by (auto split: if_splits read_result.splits)
  qed
  with assms show ?thesis by (simp add: Q_def)
qed

lemma load_open_file_keeps:
  assumes "reads_keep os I" "I w" "load_open_file lexer os policy fd w = Some (r, w')"
  shows "I w'"
proof -
  obtain before w1 where f: "sys_fstat os fd w = (before, w1)" by fastforce
  note w1 = reads_keepD(2) [OF assms(1,2) f]
  show ?thesis
  proof (cases before)
    case None
    then show ?thesis using assms(3) f w1 by (simp add: load_open_file_def)
  next
    case (Some metadata)
    show ?thesis
    proof (cases "read_loop os fd (nat (st_size metadata)) [] w1")
      case None
      then show ?thesis using assms(3) f w1 Some by (auto simp: load_open_file_def split: if_splits)
    next
      case loop: (Some p)
      obtain snapshot w2 where p: "p = (snapshot, w2)" by fastforce
      note w2 = read_loop_keeps [OF assms(1) w1 loop [unfolded p]]
      obtain again w3 where g: "sys_fstat os fd w2 = (again, w3)" by fastforce
      note w3 = reads_keepD(2) [OF assms(1) w2 g]
      show ?thesis
        using assms(3) f w1 Some loop p w2 g w3
        by (auto simp: load_open_file_def split: if_splits option.splits)
    qed
  qed
qed

lemma close_descriptor_keeps: "reads_keep os I \<Longrightarrow> I w \<Longrightarrow> I (close_descriptor os fd w)"
  using reads_keepD(4) [of os I w fd "fst (sys_close os fd w)" "snd (sys_close os fd w)"]
  by (simp add: close_descriptor_def)

lemma load_static_file_keeps:
  assumes "reads_keep os I" "I w" "load_static_file lexer os path policy w = Some (r, w')"
  shows "I w'"
proof -
  obtain fd w1 where f: "sys_open os path [O_RDONLY, O_CLOEXEC, O_NOFOLLOW, O_NONBLOCK] w = (fd, w1)" by fastforce
  have w1: "I w1" by (rule reads_keepD(1) [OF assms(1,2) f]) simp
  show ?thesis
    using assms(2,3) f close_descriptor_keeps [OF assms(1) w1]
      close_descriptor_keeps [OF assms(1) load_open_file_keeps [OF assms(1) w1]]
    by (auto simp: load_static_file_def split: if_splits bind_splits)
qed

lemma read_file_keeps: "reads_keep (env_posix env) I \<Longrightarrow> keeps I (read_file env path owner)"
proof -
  assume r: "reads_keep (env_posix env) I"
  have "keeps I (call (sys_open (env_posix env) path [O_RDONLY, O_CLOEXEC, O_NOFOLLOW]))"
    by (rule keeps_call) (rule reads_keepD(1) [OF r], assumption+, simp)
  moreover have "keeps I (call (sys_fstat (env_posix env) fd))" for fd
    by (rule keeps_call) (rule reads_keepD(2) [OF r])
  moreover have "keeps I (call (sys_close (env_posix env) fd))" for fd
    by (rule keeps_call) (rule reads_keepD(4) [OF r])
  moreover have "keeps I (call_partial (read_loop (env_posix env) fd n []))" for fd n
    by (rule keeps_call_partial) (rule read_loop_keeps [OF r])
  ultimately show ?thesis
    unfolding read_file_def Let_def by (intro keeps_intros)
qed

section \<open>Configurations\<close>

lemma parse_trusted_issuers_keeps:
  assumes "reads_keep (env_posix env) I"
  shows "keeps I (parse_trusted_issuers env owner skew resources vs ids names trusted)"
proof (induction vs arbitrary: ids names trusted)
  case (Cons v vs)
  have "keeps I (call_partial (load_static_file lexer (env_posix env) path policy))" for lexer path policy
    by (rule keeps_call_partial) (rule load_static_file_keeps [OF assms])
  then show ?case using Cons by (auto intro!: keeps_intros)
qed (simp add: keeps_ret)

lemma parse_and_validate_keeps:
  assumes "reads_keep (env_posix env) I"
  shows "keeps I (parse_and_validate env input owner)"
proof -
  have "keeps I (parse_sections env owner document skew deadline resources)" for document skew deadline resources
    unfolding parse_sections_def
    by (auto split: option.splits json.splits intro!: keeps_intros parse_trusted_issuers_keeps [OF assms])
  then show ?thesis
    unfolding parse_and_validate_def by (intro keeps_intros)
qed

lemma initialize_keeps:
  assumes "reads_keep (env_posix env) I"
  shows "keeps I (initialize env options owner)"
proof -
  have "keeps I (read_policy env options owner)"
    unfolding read_policy_def by (intro keeps_intros read_file_keeps [OF assms])
  then show ?thesis
    unfolding initialize_def by (intro keeps_intros parse_and_validate_keeps [OF assms])
qed

end
