(* ===== verification/Cb_Provision.thy ===== *)
theory Cb_Provision
  imports Cb_Exit Cb_Canonical Cb_Reading
begin

text \<open>
  The commands that prepare an installation: what \<^verbatim>\<open>config check\<close> answers, and that a file that
  \<^verbatim>\<open>config init\<close> has published is a configuration the verifier loads.
\<close>

section \<open>Checking a configuration\<close>

text \<open>The answer on the two streams and the exit code.\<close>

definition check_output :: "Configuration expected \<Rightarrow> string" where
  "check_output checked = (case checked of Inl _ \<Rightarrow> '''' | Inr _ \<Rightarrow> ''configuration valid'' @ [CHR 0x0a])"

definition check_diagnostics :: "Configuration expected \<Rightarrow> string" where
  "check_diagnostics checked = (case checked of Inl e \<Rightarrow> error_name e @ [CHR 0x0a] | Inr _ \<Rightarrow> '''')"

lemma emit_configuration_returns:
  "\<exists>log. emit_configuration env facility event m = Some (Returned (), m\<lparr>mc_log := log\<rparr>)"
proof -
  have "\<exists>log. m = m\<lparr>mc_log := log\<rparr>" by (rule exI [of _ "mc_log m"]) simp
  then show ?thesis
    by (auto simp: emit_configuration_def put_log_def ret_def split: option.split sum.split)
qed

lemma emit_configuration_then:
  "\<exists>log. pbind (emit_configuration env facility event) f m = f () (m\<lparr>mc_log := log\<rparr>)"
proof -
  obtain log' where "emit_configuration env facility event m = Some (Returned (), m\<lparr>mc_log := log'\<rparr>)"
    using emit_configuration_returns by blast
  then show ?thesis by (auto simp: pbind_def)
qed

text \<open>
  C40. When nothing interrupts it, \<^verbatim>\<open>config check\<close> exits with 0 and reports a valid configuration
  exactly when the loader accepts the file; otherwise it exits with 2, prints nothing on the standard
  output and names the loader's error on the diagnostics stream.
\<close>

theorem config_check_decides:
  assumes "calm env started now owner"
    and "load_and_validate (cmd_config env) path owner (mc_world m) = Some (Returned checked, w')"
  shows "\<exists>m'. run env [''config'', ''check'', ''--config'', path] m =
       Some (Returned (if has_value checked then 0 else 2), m') \<and>
     mc_output m' = mc_output m @ check_output checked \<and>
     mc_diagnostics m' = mc_diagnostics m @ check_diagnostics checked"
proof -
  note calls = calm_calls [OF assms(1)]
  let ?m = "m\<lparr>mc_world := w'\<rparr>"
  have load: "pbind (on_world (load_and_validate (cmd_config env) path owner)) f m = f checked ?m" for f :: "Configuration expected \<Rightarrow> ('a machine, int) prog"
    by (simp add: pbind_def on_world_def assms(2))
  have put: "pbind (put_output env s) f = (\<lambda>m. f True (m\<lparr>mc_output := mc_output m @ s\<rparr>))"
    for s and f :: "bool \<Rightarrow> ('a machine, int) prog"
    by (simp add: put_output_def calls) (simp add: pbind_def ret_def)
  have dispatch: "run_dispatch env [''config'', ''check'', ''--config'', path] = run_config_check env path"
    by (simp add: run_dispatch_def)
  have "\<exists>m'. run_config_check env path m = Some (Returned (if has_value checked then 0 else 2), m') \<and>
      mc_output m' = mc_output m @ check_output checked \<and> mc_diagnostics m' = mc_diagnostics m @ check_diagnostics checked"
  proof (cases checked)
    case (Inl e)
    let ?event = "configuration_event (if e = internal_error then configuration_error else configuration_invalid) (Some e)
      (elapsed_milliseconds started started)"
    obtain log where log: "pbind (emit_configuration env facility_authpriv ?event) (\<lambda>_. fail e) ?m = fail e (?m\<lparr>mc_log := log\<rparr>)"
      using emit_configuration_then [of env facility_authpriv ?event "\<lambda>_. fail e" ?m] by (elim exE)
    have "run_config_check env path m = pbind (emit_configuration env facility_authpriv ?event) (\<lambda>_. fail e) ?m"
      by (simp add: run_config_check_def calls load duration_def Let_def Inl)
    then show ?thesis
      unfolding log by (simp add: Inl check_output_def check_diagnostics_def fail_def put_diagnostics_def pbind_def ret_def)
  next
    case (Inr cfg)
    let ?event = "configuration_event configuration_valid None (elapsed_milliseconds started started)"
    let ?m1 = "?m\<lparr>mc_output := mc_output m @ ''configuration valid'' @ [CHR 0x0a]\<rparr>"
    obtain log where log: "pbind (emit_configuration env (cfg_facility cfg) ?event) (\<lambda>_. ret (0::int)) ?m1 = ret 0 (?m1\<lparr>mc_log := log\<rparr>)"
      using emit_configuration_then [of env "cfg_facility cfg" ?event "\<lambda>_. ret (0::int)" ?m1] by (elim exE)
    have "run_config_check env path m = pbind (emit_configuration env (cfg_facility cfg) ?event) (\<lambda>_. ret 0) ?m1"
      by (simp add: run_config_check_def calls load duration_def Let_def Inr put)
    then show ?thesis
      unfolding log by (simp add: Inr check_output_def check_diagnostics_def ret_def)
  qed
  then show ?thesis by (auto simp: run_def run_catching_exceptions_def catching_def dispatch)
qed

theorem config_check_decides_witness:
  "\<exists>m'. run demo_env [''config'', ''check'', ''--config'', ''/c''] demo_machine = Some (Returned 0, m') \<and>
     mc_output m' = ''configuration valid'' @ [CHR 0x0a]"
  using config_check_decides [OF demo_calm demo_loaded]
  by (auto simp: check_output_def demo_machine_def)

section \<open>Publishing a configuration\<close>

lemma parse_init_flags_help:
  assumes "parse_init_flags flags seen f = Some f'"
  shows "help_text (''config'' # ''init'' # flags) = None"
proof (cases flags)
  case (Cons flag rest)
  show ?thesis
  proof (cases rest)
    case Nil
    then have "\<not> help_flag flag"
      using assms Cons by (auto simp: help_flag_def cong: if_cong)
    then show ?thesis using Cons Nil by simp
  qed (simp add: Cons)
qed (simp add: help_flag_def)

lemma unless_cancelled_passed:
  "unless_cancelled env p m = Some (Returned 0, m') \<Longrightarrow>
     \<exists>w. cancellation_requested env (mc_world m) = (False, w) \<and> p (m\<lparr>mc_world := w\<rparr>) = Some (Returned 0, m')"
  by (auto simp: unless_cancelled_def prog_iffs fail_not_0 split: if_splits)

text \<open>A run of \<^verbatim>\<open>config init\<close> with an output file, call by call.\<close>

lemma run_config_init_0:
  assumes "run_config_init env flags m = Some (Returned 0, m')"
    and "parse_init_flags flags {} new_init_flags = Some f" "if_have_output f"
  obtains w1 owner w2 text' w3 w4 w5 where
    "cancellation_requested env (mc_world m) = (False, w1)" "cmd_geteuid env w1 = (owner, w2)"
    "initialize (cmd_config env) (if_options f) owner w2 = Some (Returned (Inr text'), w3)"
    "cancellation_requested env w3 = (False, w4)"
    "publish (cmd_files env) 0 (if_output_path f) text' (if_force f) w4 = Some (Returned (Inr ()), w5)"
    "m' = m\<lparr>mc_world := w5\<rparr>"
proof -
  have run: "unless_cancelled env
      (pbind (on_world (call (cmd_geteuid env))) (\<lambda>euid.
       pbind (on_world (initialize (cmd_config env) (if_options f) euid)) (\<lambda>generated.
       case generated of
         Inl e \<Rightarrow> fail e
       | Inr contents \<Rightarrow>
           unless_cancelled env
             (pbind (on_world (publish (cmd_files env) 0 (if_output_path f) contents (if_force f))) (\<lambda>published.
              case published of Inl e \<Rightarrow> fail e | Inr _ \<Rightarrow> ret 0))))) m = Some (Returned 0, m')"
    using assms by (simp add: run_config_init_def cong: if_cong)
  obtain w1 owner w2 generated w3 where g: "cancellation_requested env (mc_world m) = (False, w1)"
      "cmd_geteuid env w1 = (owner, w2)" "initialize (cmd_config env) (if_options f) owner w2 = Some (Returned generated, w3)"
      "(case generated of
         Inl e \<Rightarrow> fail e
       | Inr contents \<Rightarrow>
           unless_cancelled env
             (pbind (on_world (publish (cmd_files env) 0 (if_output_path f) contents (if_force f))) (\<lambda>published.
              case published of Inl e \<Rightarrow> fail e | Inr _ \<Rightarrow> ret 0))) (m\<lparr>mc_world := w3\<rparr>) = Some (Returned 0, m')"
    using unless_cancelled_passed [OF run] by (auto simp: prog_iffs)
  then obtain text' where t: "generated = Inr text'" by (cases generated) (auto simp: fail_not_0)
  obtain w4 published w5 where p: "cancellation_requested env w3 = (False, w4)"
      "publish (cmd_files env) 0 (if_output_path f) text' (if_force f) w4 = Some (Returned published, w5)"
      "(case published of Inl e \<Rightarrow> fail e | Inr _ \<Rightarrow> ret 0) (m\<lparr>mc_world := w5\<rparr>) = Some (Returned 0, m')"
    using unless_cancelled_passed [OF g(4) [unfolded t sum.case]] by (auto simp: prog_iffs)
  then have "published = Inr ()" "m' = m\<lparr>mc_world := w5\<rparr>"
    by (cases published; auto simp: fail_not_0 prog_iffs)+
  then show ?thesis using that [OF g(1,2) g(3) [unfolded t] p(1)] p(2) by simp
qed

text \<open>
  The calls that come before the publication do not change the tree of directories: they read files,
  the clock's cancellation flag and the user id.
\<close>

definition readers_quiet :: "('w, 'k) command_env \<Rightarrow> 'w fs_view \<Rightarrow> bool" where
  "readers_quiet env v \<longleftrightarrow>
     (\<forall>w r w'. cancellation_requested env w = (r, w') \<longrightarrow> unchanged v w w') \<and>
     (\<forall>w r w'. cmd_geteuid env w = (r, w') \<longrightarrow> unchanged v w w') \<and>
     (\<forall>w0. reads_keep (env_posix (cmd_config env)) (unchanged v w0))"

text \<open>
  C39. A \<^verbatim>\<open>config init\<close> with \<^verbatim>\<open>--output\<close> that exits with 0 has printed nothing and has left, under
  the name it was given in the directory its path led to, a whole text in a file that is closed to the
  group and to others; no other name of any directory shows anything else than before. If the text is
  not longer than the loader reads, the loader accepts it as the configuration that the options and the
  policy input ask for.
\<close>

theorem config_init_publishes:
  assumes "json_library (cmd_config env)" "fs_laws (cmd_files env) v" "writes_finite (cmd_files env) rank"
    and "readers_quiet env v"
    and "parse_init_flags flags {} new_init_flags = Some f" "if_have_output f"
    and "if_output_path f = parent @ CHR ''/'' # name" "CHR ''/'' \<notin> set name" "\<not> has_temporary_prefix name"
    and "run env (''config'' # ''init'' # flags) m = Some (Returned 0, m')"
  shows "mc_output m' = mc_output m \<and>
     (\<exists>text' d. directory_at v (mc_world m) (directory_path parent) = Some d \<and>
        holds v (mc_world m') (d, name) text' \<and>
        (\<forall>k. k \<noteq> (d, name) \<longrightarrow> shown v (mc_world m') k = shown v (mc_world m) k) \<and>
        (length text' \<le> kMaximumConfigurationBytes \<longrightarrow>
           (\<exists>w1 owner w2 cfg w3.
              cancellation_requested env (mc_world m) = (False, w1) \<and> cmd_geteuid env w1 = (owner, w2) \<and>
              initialized (cmd_config env) (if_options f) owner w2 text' cfg w3)))"
proof -
  let ?args = "''config'' # ''init'' # flags"
  have "exceptional_exit env ?args m1 \<noteq> Some (Returned 0, m')" for m1
    by (simp add: exceptional_exit_def fail_not_0)
  then have "run_dispatch env ?args m = Some (Returned 0, m')"
    using assms(10) by (auto simp: run_def run_catching_exceptions_def catching_def split: option.splits outcome.splits)
  then have "run_config_init env flags m = Some (Returned 0, m')"
    using parse_init_flags_help [OF assms(5)] by (simp add: run_dispatch_def)
  then obtain w1 owner w2 text' w3 w4 w5 where r:
      "cancellation_requested env (mc_world m) = (False, w1)" "cmd_geteuid env w1 = (owner, w2)"
      "initialize (cmd_config env) (if_options f) owner w2 = Some (Returned (Inr text'), w3)"
      "cancellation_requested env w3 = (False, w4)"
      "publish (cmd_files env) 0 (if_output_path f) text' (if_force f) w4 = Some (Returned (Inr ()), w5)"
      "m' = m\<lparr>mc_world := w5\<rparr>"
    by (rule run_config_init_0 [OF _ assms(5,6)])
  have quiet: "unchanged v (mc_world m) w1" "unchanged v w1 w2" "unchanged v w3 w4"
    using assms(4) r(1,2,4) unfolding readers_quiet_def by blast+
  have "reads_keep (env_posix (cmd_config env)) (unchanged v w2)"
    using assms(4) by (simp add: readers_quiet_def)
  from keepsD [OF initialize_keeps [OF this] unchanged_refl r(3)]
  have before: "unchanged v (mc_world m) w4"
    using quiet unchanged_trans by metis
  obtain d where d: "directory_at v w4 (directory_path parent) = Some d" "holds v w5 (d, name) text'"
      "\<And>k. k \<noteq> (d, name) \<Longrightarrow> shown v w5 k = shown v w4 k"
    using published_contents [OF assms(2,3,7,8,9) r(5)] by blast
  have "directory_at v (mc_world m) (directory_path parent) = Some d"
    using d(1) before by (simp add: unchanged_def)
  moreover have "shown v w5 k = shown v (mc_world m) k" if "k \<noteq> (d, name)" for k
    using d(3) [OF that] shown_unchanged [OF before] by simp
  moreover have "\<exists>cfg. initialized (cmd_config env) (if_options f) owner w2 text' cfg w3"
    if "length text' \<le> kMaximumConfigurationBytes"
    by (rule initialized_text_loads [OF assms(1) r(3) that])
  ultimately show ?thesis
    using d(2) r(1,2,6) by auto
qed

text \<open>
  The empty configuration written to an example directory, whose two calls the library answers with a
  text of two characters.
\<close>

definition provision_env :: "(demo_world, unit) command_env" where
  "provision_env =
     \<lparr>cmd_config = denying_env, cmd_openssl = demo_openssl, cmd_files = demo_calls,
      cmd_lstat = \<lambda>_ w. (None, w), cmd_geteuid = \<lambda>w. (0, w), monotonic_nanoseconds = \<lambda>w. (0, w),
      wall_time_unix = \<lambda>w. (150, w), cancellation_requested = \<lambda>w. (False, w), cmd_sputn = \<lambda>s w. (length s, w)\<rparr>"

definition provision_machine :: "demo_world machine" where
  "provision_machine =
     \<lparr>mc_world = demo_before, mc_output = '''', mc_diagnostics = '''', mc_log = []\<rparr>"

definition provisioned :: demo_world where
  "provisioned = demo_after (''y'' @ [CHR 0x0a])"

definition deny_flags :: "string list" where
  "deny_flags = [''--deny-all'', ''--output'', ''/etc/c.json'']"

lemma provision_flags:
  "\<exists>f. parse_init_flags deny_flags {} new_init_flags = Some f \<and> if_have_output f \<and> if_options f = denying_options \<and>
     if_output_path f = ''/etc/c.json'' \<and> if_force f = False"
  by (simp add: deny_flags_def new_init_flags_def denying_options_def set_init_option_def cong: if_cong)

lemma provision_calm: "calm provision_env 0 150 0"
  by (simp add: calm_def provision_env_def)

lemma provision_ran:
  "run provision_env (''config'' # ''init'' # deny_flags) provision_machine =
     Some (Returned 0, provision_machine\<lparr>mc_world := provisioned\<rparr>)"
proof -
  obtain f where f: "parse_init_flags deny_flags {} new_init_flags = Some f" "if_have_output f"
      "if_options f = denying_options" "if_output_path f = ''/etc/c.json''" "\<not> if_force f"
    using provision_flags by auto
  have env: "cmd_config provision_env = denying_env" "cmd_files provision_env = demo_calls"
    by (simp_all add: provision_env_def)
  have "run_config_init provision_env deny_flags provision_machine =
      Some (Returned 0, provision_machine\<lparr>mc_world := provisioned\<rparr>)"
    by (simp add: run_config_init_def unless_cancelled_def calm_calls [OF provision_calm] f env cong: if_cong)
      (simp add: pbind_def on_world_def provision_machine_def denying_initialized demo_published ret_def provisioned_def)
  then show ?thesis
    using parse_init_flags_help [OF f(1)]
    by (simp add: run_def run_catching_exceptions_def catching_def run_dispatch_def)
qed

lemma provision_quiet: "readers_quiet provision_env v"
  by (auto simp: readers_quiet_def provision_env_def reads_keep_def denying_env_def unchanged_refl)

theorem config_init_publishes_witness:
  "shown demo_view provisioned (1, ''c.json'') = Some (''y'' @ [CHR 0x0a], 0x180) \<and>
   shown demo_view provisioned (0, ''c.json'') = shown demo_view demo_before (0, ''c.json'') \<and>
   (\<exists>owner w cfg w'. initialized (denying_env :: demo_world config_env) denying_options owner w (''y'' @ [CHR 0x0a]) cfg w')"
proof -
  obtain f where f: "parse_init_flags deny_flags {} new_init_flags = Some f" "if_have_output f"
      "if_options f = denying_options" "if_output_path f = ''/etc/c.json''" "\<not> if_force f"
    using provision_flags by auto
  have env: "cmd_config provision_env = denying_env" "cmd_files provision_env = demo_calls"
    by (simp_all add: provision_env_def)
  have path: "if_output_path f = ''/etc'' @ CHR ''/'' # ''c.json''" "CHR ''/'' \<notin> set ''c.json''"
    by (simp_all add: f(4))
  have plain: "\<not> has_temporary_prefix ''c.json''" by code_simp
  have laws: "json_library (cmd_config provision_env)" "fs_laws (cmd_files provision_env) demo_view"
      "writes_finite (cmd_files provision_env) (\<lambda>_. 0)"
    by (simp_all only: env denying_library demo_fs_laws demo_writes_finite)
  have world: "mc_world provision_machine = demo_before" by (simp add: provision_machine_def)
  have directory: "directory_at demo_view demo_before (directory_path ''/etc'') = Some 1"
    by (simp add: demo_view_def directory_path_def)
  have after: "mc_world (provision_machine\<lparr>mc_world := provisioned\<rparr>) = provisioned" by simp
  from config_init_publishes [OF laws provision_quiet f(1,2) path plain provision_ran, unfolded world after directory env f(3)]
  obtain text' d where d: "Some (1::nat) = Some d" "holds demo_view provisioned (d, ''c.json'') text'"
      "\<forall>k. k \<noteq> (d, ''c.json'') \<longrightarrow> shown demo_view provisioned k = shown demo_view demo_before k"
      "length text' \<le> kMaximumConfigurationBytes \<longrightarrow>
         (\<exists>w1 owner w2 cfg w3. cancellation_requested provision_env demo_before = (False, w1) \<and>
            cmd_geteuid provision_env w1 = (owner, w2) \<and> initialized denying_env denying_options owner w2 text' cfg w3)"
    by (elim conjE exE)
  from d(1) have one: "d = 1" by (rule option.inject [THEN iffD1, THEN sym])
  have holds: "holds demo_view provisioned (1, ''c.json'') text'" using d(2) unfolding one .
  have other: "shown demo_view provisioned (0, ''c.json'') = shown demo_view demo_before (0, ''c.json'')"
    by (rule d(3) [THEN spec, THEN mp]) (simp add: one)
  have shown: "shown demo_view provisioned (1, ''c.json'') = Some (''y'' @ [CHR 0x0a], 0x180)"
    unfolding provisioned_def by (rule demo_shown)
  then have "text' = ''y'' @ [CHR 0x0a]" using holds by (simp add: holds_def)
  then have "\<exists>owner w cfg w'. initialized (denying_env :: demo_world config_env) denying_options owner w (''y'' @ [CHR 0x0a]) cfg w'"
    using d(4) by (simp add: kMaximumConfigurationBytes_def del: split_paired_Ex) blast
  then show ?thesis by (intro conjI shown other)
qed

end
