(* ===== verification/Cb_Main.thy ===== *)
theory Cb_Main
  imports Cb_Decision
begin

text \<open>
  The program: \<^verbatim>\<open>src/main.cpp\<close>, and the class \<^verbatim>\<open>SystemClock\<close> of
  \<^verbatim>\<open>src/command.cpp\<close> it builds. Its logger is \<^verbatim>\<open>SyslogLogger\<close>: \<open>syslog_trace\<close> are the
  calls of a log.
\<close>

section \<open>The clock of the system\<close>

text \<open>
  The counts of the two clocks of \<^verbatim>\<open>std::chrono\<close>, in nanoseconds, and the flag that the signal
  handler sets.
\<close>

record 'w system =
  steady_clock_now :: "'w \<Rightarrow> int \<times> 'w"
  system_clock_now :: "'w \<Rightarrow> int \<times> 'w"
  cancellation_flag :: "'w \<Rightarrow> int \<times> 'w"
  set_cancellation_flag :: "int \<Rightarrow> 'w \<Rightarrow> unit \<times> 'w"
  sigemptyset :: "'w \<Rightarrow> bool \<times> 'w"
  sigaction_sigint :: "'w \<Rightarrow> bool \<times> 'w"
  sigaction_sigterm :: "'w \<Rightarrow> bool \<times> 'w"

text \<open>\<^verbatim>\<open>duration_cast\<close> to seconds truncates towards zero.\<close>

definition truncated_seconds :: "int \<Rightarrow> int" where
  "truncated_seconds ns = (if 0 \<le> ns then ns div 1000000000 else - ((- ns) div 1000000000))"

definition SystemClock :: "'w system \<Rightarrow> ('w, 'k) command_env \<Rightarrow> ('w, 'k) command_env" where
  "SystemClock sys env = env\<lparr>
     wall_time_unix := \<lambda>w. apfst truncated_seconds (system_clock_now sys w),
     monotonic_nanoseconds := \<lambda>w. apfst of_int (steady_clock_now sys w),
     cancellation_requested := \<lambda>w. apfst (\<lambda>flag. flag \<noteq> 0) (cancellation_flag sys w)\<rparr>"

section \<open>Signals\<close>

definition request_cancellation :: "'w system \<Rightarrow> int \<Rightarrow> 'w \<Rightarrow> unit \<times> 'w" where
  "request_cancellation sys signal = set_cancellation_flag sys 1"

definition install_cancellation_handlers :: "'w system \<Rightarrow> ('w, bool) prog" where
  "install_cancellation_handlers sys =
     pbind (call (sigemptyset sys)) (\<lambda>emptied.
     if \<not> emptied then ret False
     else
       pbind (call (sigaction_sigint sys)) (\<lambda>installed.
       if \<not> installed then ret False else call (sigaction_sigterm sys)))"

section \<open>Version\<close>

definition kCommand :: string where "kCommand = ''credbind-ssh-authorized-keys''"

text \<open>The macros a build may define, and their defaults.\<close>

record build_info =
  CREDBIND_VERSION :: string
  CREDBIND_REVISION :: string
  CREDBIND_SOURCE_DATE_EPOCH :: string
  CREDBIND_TARGET :: string

definition default_build :: build_info where
  "default_build =
     \<lparr>CREDBIND_VERSION = ''v0.0.0-dev'', CREDBIND_REVISION = ''unknown'', CREDBIND_SOURCE_DATE_EPOCH = ''0'',
      CREDBIND_TARGET = ''unknown''\<rparr>"

definition version_member :: "string \<Rightarrow> string \<Rightarrow> string" where
  "version_member name v = CHR 0x22 # name @ [CHR 0x22] @ '':'' @ [CHR 0x22] @ v @ [CHR 0x22]"

definition version_text :: "build_info \<Rightarrow> string" where
  "version_text build =
     ''{'' @ version_member ''command'' kCommand @ '','' @ version_member ''version'' (CREDBIND_VERSION build) @ '','' @
     version_member ''revision'' (CREDBIND_REVISION build) @ '','' @
     version_member ''source_date_epoch'' (CREDBIND_SOURCE_DATE_EPOCH build) @ '','' @
     version_member ''target'' (CREDBIND_TARGET build) @ ''}'' @ [CHR 0x0a]"

section \<open>The program\<close>

text \<open>\<open>argv\<close> holds the program name and its arguments.\<close>

definition run_main ::
  "build_info \<Rightarrow> 'w system \<Rightarrow> ('w, 'k) command_env \<Rightarrow> string list \<Rightarrow> ('w machine, int) prog" where
  "run_main build sys env argv =
     (let arguments = tl argv in
      if length argv = 2 \<and> (hd arguments = ''version'' \<or> hd arguments = ''--version'') then
        pbind (put_output env (version_text build)) (\<lambda>_. ret 0)
      else
        catching
          (pbind (on_world (call (set_cancellation_flag sys 0))) (\<lambda>_.
           pbind (on_world (install_cancellation_handlers sys)) (\<lambda>installed.
           if \<not> installed then throw else run (SystemClock sys env) arguments)))
          (exceptional_exit env arguments))"

definition syslog_trace :: "syslog_constants \<Rightarrow> (Facility \<times> Severity \<times> string) list \<Rightarrow> syslog_call list" where
  "syslog_trace consts entries = concat (map (\<lambda>(facility, severity, payload). syslog_emit consts facility severity payload) entries)"

section \<open>Verification never fails\<close>

lemma truncated_seconds_int64:
  assumes "int64 n"
  shows "int64 (truncated_seconds n)"
proof -
  have bound: "0 \<le> k div 1000000000 \<and> k div 1000000000 \<le> k" if "0 \<le> k" for k :: int
    using that by (simp add: pos_imp_zdiv_nonneg_iff div_le_dividend)
  show ?thesis
    using assms bound [of n] bound [of "- n"] by (auto simp: truncated_seconds_def int64_def int64_min_def int64_max_def)
qed

lemma system_clock_laws:
  "command_laws (SystemClock sys env) rank \<longleftrightarrow> command_laws env rank"
  "(\<forall>w. int64 (fst (system_clock_now sys w))) \<Longrightarrow> clock_law (SystemClock sys env)"
  "cmd_openssl (SystemClock sys env) = cmd_openssl env"
  by (simp_all add: command_laws_def SystemClock_def clock_law_def truncated_seconds_int64)

lemma runs_install: "runs (\<lambda>_. True) (install_cancellation_handlers sys) (\<lambda>_ _. True) (\<lambda>_. False)"
  unfolding install_cancellation_handlers_def
  by (intro runs_pbind [where R = "\<lambda>_ _. True"] runs_if runs_call runs_ret) simp_all

lemma run_installing:
  "\<exists>w installed. pbind (on_world (call (set_cancellation_flag sys 0))) (\<lambda>_.
       pbind (on_world (install_cancellation_handlers sys)) (\<lambda>installed. if \<not> installed then throw else p)) m =
     (if installed then p else throw) (m\<lparr>mc_world := w\<rparr>)"
proof -
  define w where "w = snd (set_cancellation_flag sys 0 (mc_world m))"
  then have flag: "set_cancellation_flag sys 0 (mc_world m) = ((), w)" by (simp add: prod_eq_iff)
  obtain installed w' where "install_cancellation_handlers sys w = Some (Returned installed, w')"
    by (rule runsD [OF runs_install TrueI, of sys w]) auto
  then show ?thesis
    using flag
    by (intro exI [of _ w'] exI [of _ installed]) (simp add: pbind_def on_world_def call_def)
qed

text \<open>
  C34. Called as \<^verbatim>\<open>verify\<close>, the program exits with 0 and prints nothing on the standard error stream,
  also when its signal handlers cannot be installed, and all it prints on the standard output is a
  part of a line for a carrier that one of the trusted issuers of a loaded configuration authorizes
  at a reading of the system clock.
\<close>

theorem main_verify:
  assumes "command_laws env rank" "openssl_bn (cmd_openssl env)" "\<forall>w. int64 (fst (system_clock_now sys w))"
    and "args \<noteq> []" "hd args = ''verify''" "help_text args = None"
  shows "\<exists>m' r n. run_main build sys env (program # args) m = Some (Returned 0, m') \<and>
     mc_diagnostics m' = mc_diagnostics m \<and>
     mc_output m' = mc_output m @ take n (authorized_keys_line r) \<and> (0 < n \<longrightarrow> justified (SystemClock sys env) args r)"
proof -
  have laws: "command_laws (SystemClock sys env) rank" "openssl_bn (cmd_openssl (SystemClock sys env))"
      "clock_law (SystemClock sys env)"
    using assms(1-3) system_clock_laws(2) [of sys env] by (simp_all add: system_clock_laws(1,3))
  have main: "run_main build sys env (program # args) =
      catching (pbind (on_world (call (set_cancellation_flag sys 0))) (\<lambda>_.
         pbind (on_world (install_cancellation_handlers sys)) (\<lambda>installed.
         if \<not> installed then throw else run (SystemClock sys env) args))) (exceptional_exit env args)"
    using assms(5) by (auto simp: run_main_def Let_def)
  obtain w installed where start: "pbind (on_world (call (set_cancellation_flag sys 0))) (\<lambda>_.
         pbind (on_world (install_cancellation_handlers sys)) (\<lambda>installed.
         if \<not> installed then throw else run (SystemClock sys env) args)) m =
       (if installed then run (SystemClock sys env) args else throw) (m\<lparr>mc_world := w\<rparr>)"
    using run_installing [of sys "run (SystemClock sys env) args" m] by (elim exE) (rule that)
  show ?thesis
  proof (cases installed)
    case True
    obtain m' r n where "run (SystemClock sys env) args (m\<lparr>mc_world := w\<rparr>) = Some (Returned 0, m')"
        "mc_diagnostics m' = mc_diagnostics m" "mc_output m' = mc_output m @ take n (authorized_keys_line r)"
        "0 < n \<longrightarrow> justified (SystemClock sys env) args r"
      using run_justified [OF laws assms(4-6), of "m\<lparr>mc_world := w\<rparr>"] by auto
    then show ?thesis
      using True start unfolding main catching_def by (intro exI [of _ m'] exI [of _ r] exI [of _ n]) simp
  next
    case False
    have "\<exists>m'. exceptional_exit env args (m\<lparr>mc_world := w\<rparr>) = Some (Returned 0, m') \<and> mc_output m' = mc_output m \<and>
        mc_diagnostics m' = mc_diagnostics m"
      using assms(4,5)
      by (auto simp: exceptional_exit_def pbind_def emit_verification_def put_log_def ret_def split: option.split sum.split)
    then obtain m' where m': "exceptional_exit env args (m\<lparr>mc_world := w\<rparr>) = Some (Returned 0, m')"
        "mc_output m' = mc_output m" "mc_diagnostics m' = mc_diagnostics m" by blast
    show ?thesis
      using False start m' unfolding main catching_def throw_def
      by (intro exI [of _ m'] exI [of _ undefined] exI [of _ "0 :: nat"]) simp
  qed
qed

text \<open>A system whose clocks stand.\<close>

definition demo_system :: "'w system" where
  "demo_system =
     \<lparr>steady_clock_now = \<lambda>w. (0, w), system_clock_now = \<lambda>w. (150000000001, w), cancellation_flag = \<lambda>w. (0, w),
      set_cancellation_flag = \<lambda>_ w. ((), w), sigemptyset = \<lambda>w. (True, w), sigaction_sigint = \<lambda>w. (True, w),
      sigaction_sigterm = \<lambda>w. (True, w)\<rparr>"

theorem main_verify_witness:
  "\<exists>m'. run_main default_build demo_system demo_env (''program'' # demo_arguments) demo_machine = Some (Returned 0, m') \<and>
     mc_diagnostics m' = ''''"
proof -
  have "\<forall>w :: nat \<times> string. int64 (fst (system_clock_now demo_system w))"
    by (simp add: demo_system_def int64_def int64_min_def int64_max_def)
  from main_verify [OF demo_laws(1,4) this demo_arguments_verify, of default_build "''program''" demo_machine]
  show ?thesis by (auto simp: demo_machine_def)
qed

end
