(* ===== verification/Spec2Isabelle.thy ===== *)
theory Spec2Isabelle
  imports Cb_Base64url Cb_Base64 Cb_Jws Cb_Openssh Cb_Strict_Json Cb_Dom Cb_Crypto Cb_Posix Cb_Jwks Cb_Issuer Cb_Direct
    Cb_Audit Cb_Config_Instance Cb_Provision Cb_Main
begin

text \<open>
  The credbind direct verifier is the program that \<^verbatim>\<open>sshd\<close> runs as its
  \<^verbatim>\<open>AuthorizedKeysCommand\<close>. It gets a user name and an offered OpenSSH certificate, which
  carries a CredBind token; if the token proves, by evidence of an OpenID issuer, that the caller's
  key belongs to an identity the configuration admits for that user, it prints one
  \<^verbatim>\<open>cert-authority\<close> line, and otherwise nothing. This library models the whole program under
  \<^verbatim>\<open>src/\<close> of the repository and proves what makes its parts correct.

  \<^bold>\<open>Parts, from the input to the decision.\<close>
  \<^item> \<^verbatim>\<open>Cb_Prelude\<close>: octets, words and their big-endian encodings, results \<open>ParseErrorKind + 'a\<close> with
    \<open>ebind\<close> (\<^verbatim>\<open>tl::expected\<close> of \<^verbatim>\<open>parse_error.hpp\<close>) and the collections of simplification rules.
  \<^item> Codecs: \<^verbatim>\<open>Cb_Base64url\<close> (\<^verbatim>\<open>base64url.cpp\<close> and the encoder of \<^verbatim>\<open>direct_verifier.cpp\<close>),
    \<^verbatim>\<open>Cb_Base64\<close> (the decoder of \<^verbatim>\<open>command.cpp\<close>), \<^verbatim>\<open>Cb_Jws\<close> (\<^verbatim>\<open>jws.cpp\<close>): each decoder is
    the partial inverse of the encoder.
  \<^item> Binary formats: \<^verbatim>\<open>Cb_Framing\<close> has the interface of a length-prefixed field (locale
    \<open>field_reader\<close>, extended by \<open>field_list\<close>), \<^verbatim>\<open>Cb_Openssh\<close> models \<^verbatim>\<open>openssh_certificate.cpp\<close>:
    the parser accepts exactly the encodings of well-formed certificates.
  \<^item> JSON: \<^verbatim>\<open>Cb_Sax\<close> has the events of the vendored lexer and the interface of a handler that keeps
    a failure (locale \<open>sax_handler\<close>), \<^verbatim>\<open>Cb_Dom\<close> what the value-building handlers share (locale
    \<open>dom_handler\<close>); \<^verbatim>\<open>Cb_Strict_Json\<close> models \<^verbatim>\<open>strict_json.cpp\<close>, \<^verbatim>\<open>Cb_Jwks\<close> \<^verbatim>\<open>jwks.cpp\<close>,
    \<^verbatim>\<open>Cb_Header\<close>, \<^verbatim>\<open>Cb_Issuer\<close> and \<^verbatim>\<open>Cb_Config_Json\<close> the parsers of \<^verbatim>\<open>direct_verifier.cpp\<close>,
    \<^verbatim>\<open>issuer_verifier.cpp\<close> and \<^verbatim>\<open>config.cpp\<close>. On the events of a JSON value each accepts exactly
    the documents of its format within its bounds.
  \<^item> Cryptography: \<^verbatim>\<open>Cb_Crypto\<close> models \<^verbatim>\<open>crypto.cpp\<close>, RS256 and the eight-round
    Guillou-Quisquater proof, with special soundness (an explicit extractor of the signature) and completeness of a round.
  \<^item> Evidence: \<^verbatim>\<open>Cb_Issuer\<close> models \<^verbatim>\<open>issuer_verifier.cpp\<close>; \<open>issuer_verified\<close> specifies when
    evidence is authentic and its claims are admitted, \<open>issuer_verify\<close> refines it.
  \<^item> Tokens and carriers: \<^verbatim>\<open>Cb_User\<close>, \<^verbatim>\<open>Cb_Cic\<close> and \<^verbatim>\<open>Cb_Direct\<close> model \<^verbatim>\<open>direct_verifier.cpp\<close>;
    \<open>token_verified\<close> and \<open>carrier_authorized\<close> are the specifications \<open>verify_token\<close> and
    \<open>verify_carrier\<close> refine.
  \<^item> Files and effects: \<^verbatim>\<open>Cb_Posix\<close> has the system calls that read, \<^verbatim>\<open>Cb_Effects\<close> programs with
    exceptions and the triples \<open>runs P m Q E\<close> (total: the program returns or throws),
    \<^verbatim>\<open>Cb_Publish\<close> the atomic publication of \<^verbatim>\<open>config.cpp\<close> on a tree of directories, \<^verbatim>\<open>Cb_Reading\<close>
    the conditions on the world that programs which only read keep.
  \<^item> Configuration: \<^verbatim>\<open>Cb_Config\<close> and \<^verbatim>\<open>Cb_Config_Instance\<close> model parsing, validation and loading,
    \<^verbatim>\<open>Cb_Initialize\<close> the initializer and the checks of a rendered fragment; \<^verbatim>\<open>Cb_Members\<close> relates JSON
    values up to the order of members and the writer's numbers, \<^verbatim>\<open>Cb_Canonical\<close> proves that what the
    initializer writes is read back as the configuration that every option and the policy ask for,
    provided it is not longer than the loader reads.
  \<^item> Audit: \<^verbatim>\<open>Cb_Audit\<close> models \<^verbatim>\<open>syslog_logger.cpp\<close>: every admissible event is written.
  \<^item> Command: \<^verbatim>\<open>Cb_Command\<close> models \<^verbatim>\<open>command.cpp\<close>, one definition per subcommand, composed by
    \<open>run_dispatch\<close> and \<open>run\<close>; \<^verbatim>\<open>Cb_Verify\<close> follows a \<^verbatim>\<open>verify\<close> through its stages,
    \<^verbatim>\<open>Cb_Decision\<close> states what it writes and logs, \<^verbatim>\<open>Cb_Exit\<close> how every command ends and what
    \<^verbatim>\<open>sshd-config render\<close> prints, \<^verbatim>\<open>Cb_Provision\<close> what \<^verbatim>\<open>config check\<close> answers and that a file
    \<^verbatim>\<open>config init\<close> has published loads. \<^verbatim>\<open>Cb_Main\<close> models \<^verbatim>\<open>main.cpp\<close> and the system clock.

  The components meet in \<open>justified\<close> (\<^verbatim>\<open>Cb_Decision\<close>): a line on the standard output has, behind it,
  a loaded and well-formed configuration and a carrier that is authorized in the sense of
  \<open>carrier_authorized\<close>, which unfolds to the grammars and checks of the parts above.

  \<^bold>\<open>Data.\<close> A \<^verbatim>\<open>std::string\<close> is a \<open>string\<close> of octets, a \<^verbatim>\<open>vector<uint8_t>\<close> a \<open>u8 list\<close>, unsigned
  integers are words of their width, an \<^verbatim>\<open>int64_t\<close> is an \<open>int\<close> whose range is written out
  (\<open>int64\<close>) wherever the code checks for overflow, a \<^verbatim>\<open>size_t\<close> that only counts is a \<open>nat\<close>.
  \<^verbatim>\<open>unordered_map\<close> is a map; the iteration order of an \<^verbatim>\<open>unordered_set\<close> is a parameter. An error is
  a value of \<open>ParseErrorKind\<close>; the message text, which nothing reads, is left out.

  \<^bold>\<open>Parameters.\<close> Code that is not in the repository or is vendored is an argument: \<open>json_lexer\<close> (the
  event parser of the JSON library) and \<open>json_dump\<close> (its writer), \<open>openssl\<close> (digests, big numbers,
  signature checks), \<open>posix\<close> and \<open>file_calls\<close> (system calls on a state of the world),
  \<open>command_env\<close> and \<open>system\<close> (clock, cancellation, streams, signals). What the code relies on of
  them are named hypotheses: \<open>openssl_bn\<close>, \<open>read_bounded\<close>, \<open>interrupts_finite\<close>,
  \<open>set_order_law\<close>, \<open>dump_laws\<close>, \<open>fs_laws\<close>, \<open>writes_finite\<close>, \<open>command_laws\<close>, \<open>audit_laws\<close>,
  \<open>clock_law\<close>, \<open>readers_quiet\<close> and \<open>json_library\<close>; each is satisfied by an instance that a witness runs on.

  \<^bold>\<open>Loops.\<close> The loops over data are structurally recursive or have a measure. The two loops that
  retry interrupted system calls, \<open>read_loop\<close> and \<open>write_loop\<close>, are partial functions on options;
  they return when interruptions are finite, and so do loading, publishing and every run of the
  command (\<open>run_exits\<close>). The attempts to create a temporary file are the 64 of the code.

  \<^bold>\<open>Not modelled.\<close> Allocation failure and other exceptions of the standard library, apart from those
  of the JSON library that the code relies on catching; the bytes of error messages; failures of the
  diagnostics stream, which the code does not look at (the model keeps the text that is inserted); a counter of
  temporary names that outlives one publication (the program publishes once). \<^verbatim>\<open>tests/\<close>,
  \<^verbatim>\<open>fuzz/\<close>, \<^verbatim>\<open>scripts/\<close>, \<^verbatim>\<open>conformance/\<close> and \<^verbatim>\<open>third_party/\<close> are not code of the program.
\<close>

end
